(* ===== verification/Rust_Prelude.thy ===== *)
theory Rust_Prelude
  imports Main "HOL-Library.Code_Target_Nat"
begin

text \<open>
  The vocabulary the component theories share: Rust's \<open>char\<close>, \<open>str\<close> and \<open>usize\<close>
  as they are used by the modelled crates, \<open>Result\<close> as a sum type, and the facts on
  lists that the component proofs apply.

  A Rust \<open>char\<close> is a Unicode scalar value, so a string is the list of its code points
  (natural numbers); \<open>lit\<close> turns an ASCII literal into such a list.  Byte offsets of the
  source are only used to cut strings at character boundaries, so an offset is modelled by the
  number of code points before it; where the byte length itself matters, \<open>str_len\<close> is
  the length of the UTF-8 encoding.
\<close>

named_theorems rust_str
named_theorems rust_res

section \<open>Types\<close>

type_synonym uchar = nat
type_synonym ustring = "uchar list"

definition lit :: "string \<Rightarrow> ustring" where
  "lit s = map of_char s"

abbreviation newline :: uchar where
  "newline \<equiv> 10"

abbreviation carriage_return :: uchar where
  "carriage_return \<equiv> 13"

abbreviation squote :: ustring where
  "squote \<equiv> [39]"

abbreviation dquote :: ustring where
  "dquote \<equiv> [34]"

section \<open>Machine integers\<close>

text \<open>\<open>usize\<close> is 64 bits wide on every target the project builds for; its saturating
  operations are the only ones the modelled code applies to values that may be large.\<close>

definition usize_max :: nat where
  "usize_max = 18446744073709551615"

definition sat_add :: "nat \<Rightarrow> nat \<Rightarrow> nat" where
  "sat_add a b = min (a + b) usize_max"

definition sat_mul :: "nat \<Rightarrow> nat \<Rightarrow> nat" where
  "sat_mul a b = min (a * b) usize_max"

lemma sat_add_exact [simp]: "a + b \<le> usize_max \<Longrightarrow> sat_add a b = a + b"
  by (simp add: sat_add_def)

lemma sat_mul_exact [simp]: "a * b \<le> usize_max \<Longrightarrow> sat_mul a b = a * b"
  by (simp add: sat_mul_def)

lemma sat_add_bound: "sat_add a b \<le> usize_max"
  by (simp add: sat_add_def)

lemma sat_mul_bound: "sat_mul a b \<le> usize_max"
  by (simp add: sat_mul_def)

lemma sat_add_assoc: "sat_add (sat_add a b) c = sat_add a (sat_add b c)"
  by (simp add: sat_add_def min_def)

lemma sat_add_le: "sat_add a b \<le> a + b"
  by (simp add: sat_add_def)

lemma sat_add_min [simp]:
  "sat_add (min a usize_max) b = sat_add a b"
  "sat_add a (min b usize_max) = sat_add a b"
  "sat_add (sat_add a b) c = min (a + b + c) usize_max"
  by (auto simp: sat_add_def)

lemma sat_add_zero [simp]: "a \<le> usize_max \<Longrightarrow> sat_add a 0 = a"
  by simp

section \<open>Results\<close>

text \<open>\<open>Result<T, E>\<close> is \<open>'e + 'a\<close> with \<open>Inl\<close> for \<open>Err\<close>.  \<open>and_then\<close> is
  what the \<open>?\<close> operator does to the rest of the function.\<close>

definition and_then :: "'e + 'a \<Rightarrow> ('a \<Rightarrow> 'e + 'b) \<Rightarrow> 'e + 'b" where
  "and_then r f = (case r of Inl e \<Rightarrow> Inl e | Inr x \<Rightarrow> f x)"

lemma and_then_simps [simp, rust_res]:
  "and_then (Inl e) f = Inl e"
  "and_then (Inr x) f = f x"
  by (simp_all add: and_then_def)

lemma and_then_Inr_iff [rust_res]:
  "and_then r f = Inr y \<longleftrightarrow> (\<exists>x. r = Inr x \<and> f x = Inr y)"
  by (cases r) simp_all

lemma and_then_Inl_iff [rust_res]:
  "and_then r f = Inl e \<longleftrightarrow> r = Inl e \<or> (\<exists>x. r = Inr x \<and> f x = Inl e)"
  by (cases r) simp_all

lemma and_then_assoc: "and_then (and_then r f) g = and_then r (\<lambda>x. and_then (f x) g)"
  by (cases r) simp_all

definition is_ok :: "'e + 'a \<Rightarrow> bool" where
  "is_ok r = (case r of Inl _ \<Rightarrow> False | Inr _ \<Rightarrow> True)"

lemma is_ok_simps [simp]: "\<not> is_ok (Inl e)" "is_ok (Inr x)"
  by (simp_all add: is_ok_def)

lemma is_ok_iff: "is_ok r \<longleftrightarrow> (\<exists>x. r = Inr x)"
  by (cases r) simp_all

text \<open>\<open>iter().map(f).collect::<Result<Vec<_>, _>>()\<close> stops at the first error.\<close>

fun collect_results :: "('a \<Rightarrow> 'e + 'b) \<Rightarrow> 'a list \<Rightarrow> 'e + 'b list" where
  "collect_results f [] = Inr []"
| "collect_results f (x # xs) =
     and_then (f x) (\<lambda>y. and_then (collect_results f xs) (\<lambda>ys. Inr (y # ys)))"

lemma collect_results_Inr:
  "collect_results f xs = Inr ys \<longleftrightarrow> list_all2 (\<lambda>x y. f x = Inr y) xs ys"
  by (induction xs arbitrary: ys) (auto simp: and_then_Inr_iff list_all2_Cons1)

lemma collect_results_total:
  "(\<And>x. x \<in> set xs \<Longrightarrow> f x = Inr (g x)) \<Longrightarrow> collect_results f xs = Inr (map g xs)"
  by (induction xs) auto

section \<open>Vectors\<close>

definition last_opt :: "'a list \<Rightarrow> 'a option" where
  "last_opt xs = (if xs = [] then None else Some (last xs))"

lemma last_opt_simps [simp]:
  "last_opt [] = None"
  "last_opt (xs @ [x]) = Some x"
  "last_opt [x] = Some x"
  by (simp_all add: last_opt_def)

lemma last_opt_None [simp]: "last_opt xs = None \<longleftrightarrow> xs = []"
  by (simp add: last_opt_def)

lemma last_opt_Some: "last_opt xs = Some x \<longleftrightarrow> (\<exists>ys. xs = ys @ [x])"
  by (auto simp: last_opt_def) (metis append_butlast_last_id)

lemma last_opt_Cons2 [simp]: "last_opt (x # y # ys) = last_opt (y # ys)"
  by (simp add: last_opt_def)

text \<open>Mutation through \<open>last_mut()\<close>: nothing happens to an empty vector.\<close>

definition update_last :: "('a \<Rightarrow> 'a) \<Rightarrow> 'a list \<Rightarrow> 'a list" where
  "update_last f xs = (if xs = [] then [] else butlast xs @ [f (last xs)])"

lemma update_last_simps [simp]:
  "update_last f [] = []"
  "update_last f (xs @ [x]) = xs @ [f x]"
  "update_last f [x] = [f x]"
  by (simp_all add: update_last_def)

lemma update_last_Cons2 [simp]: "update_last f (x # y # ys) = x # update_last f (y # ys)"
  by (simp add: update_last_def)

lemma length_update_last [simp]: "length (update_last f xs) = length xs"
  by (simp add: update_last_def)

lemma update_last_eq_Nil [simp]: "update_last f xs = [] \<longleftrightarrow> xs = []"
  by (simp add: update_last_def)

lemma set_update_last: "set (update_last f xs) \<subseteq> set xs \<union> {f (last xs)}"
  by (auto simp: update_last_def dest: in_set_butlastD)

section \<open>Characters\<close>

text \<open>\<open>char::is_whitespace\<close>: the Unicode property White\_Space.\<close>

definition is_whitespace :: "uchar \<Rightarrow> bool" where
  "is_whitespace c \<longleftrightarrow>
     (9 \<le> c \<and> c \<le> 13) \<or> c = 32 \<or> c = 0x85 \<or> c = 0xA0 \<or> c = 0x1680 \<or>
     (0x2000 \<le> c \<and> c \<le> 0x200A) \<or> c = 0x2028 \<or> c = 0x2029 \<or> c = 0x202F \<or>
     c = 0x205F \<or> c = 0x3000"

lemma is_whitespace_newline [simp]: "is_whitespace 10" "is_whitespace 13" "is_whitespace 32"
  by (simp_all add: is_whitespace_def)

definition is_ascii_digit :: "uchar \<Rightarrow> bool" where
  "is_ascii_digit c \<longleftrightarrow> 48 \<le> c \<and> c \<le> 57"

definition ascii_lower :: "uchar \<Rightarrow> uchar" where
  "ascii_lower c = (if 65 \<le> c \<and> c \<le> 90 then c + 32 else c)"

definition to_ascii_lowercase :: "ustring \<Rightarrow> ustring" where
  "to_ascii_lowercase s = map ascii_lower s"

lemma ascii_lower_idem [simp]: "ascii_lower (ascii_lower c) = ascii_lower c"
  by (auto simp: ascii_lower_def)

lemma to_ascii_lowercase_idem [simp]:
  "to_ascii_lowercase (to_ascii_lowercase s) = to_ascii_lowercase s"
  by (simp add: to_ascii_lowercase_def)

definition eq_ignore_ascii_case :: "ustring \<Rightarrow> ustring \<Rightarrow> bool" where
  "eq_ignore_ascii_case a b \<longleftrightarrow> to_ascii_lowercase a = to_ascii_lowercase b"

text \<open>\<open>char::len_utf8\<close> and \<open>str::len\<close>.\<close>

definition len_utf8 :: "uchar \<Rightarrow> nat" where
  "len_utf8 c = (if c < 0x80 then 1 else if c < 0x800 then 2 else if c < 0x10000 then 3 else 4)"

definition str_len :: "ustring \<Rightarrow> nat" where
  "str_len s = sum_list (map len_utf8 s)"

lemma len_utf8_pos [simp]: "0 < len_utf8 c"
  by (simp add: len_utf8_def)

lemma len_utf8_le: "len_utf8 c \<le> 4"
  by (simp add: len_utf8_def)

lemma str_len_simps [simp]:
  "str_len [] = 0"
  "str_len (c # s) = len_utf8 c + str_len s"
  "str_len (s @ t) = str_len s + str_len t"
  by (simp_all add: str_len_def)

lemma str_len_eq_0 [simp]: "str_len s = 0 \<longleftrightarrow> s = []"
  by (cases s) (simp_all add: len_utf8_def)

lemma length_le_str_len: "length s \<le> str_len s"
proof (induction s)
  case (Cons c s)
  have "0 < len_utf8 c" by (rule len_utf8_pos)
  then have "Suc (length s) \<le> len_utf8 c + str_len s" using Cons by linarith
  then show ?case by simp
qed simp

lemma list_all_upt: "list_all P [0 ..< n] \<longleftrightarrow> (\<forall>i < n. P i)"
  by (auto simp: list_all_iff)

section \<open>Decimal numbers\<close>

text \<open>\<open>Display\<close> of the unsigned integers.\<close>

fun nat_decimal :: "nat \<Rightarrow> ustring" where
  "nat_decimal n = (if n < 10 then [48 + n] else nat_decimal (n div 10) @ [48 + n mod 10])"

declare nat_decimal.simps [simp del]

definition decimal_value :: "ustring \<Rightarrow> nat" where
  "decimal_value s = foldl (\<lambda>acc c. 10 * acc + (c - 48)) 0 s"

lemma decimal_value_nat_decimal [simp]: "decimal_value (nat_decimal n) = n"
proof (induction n rule: nat_decimal.induct)
  case (1 n)
  then show ?case by (subst nat_decimal.simps) (simp add: decimal_value_def)
qed

lemma nat_decimal_inject [simp]: "nat_decimal m = nat_decimal n \<longleftrightarrow> m = n"
  by (metis decimal_value_nat_decimal)

lemma nat_decimal_digits: "c \<in> set (nat_decimal n) \<Longrightarrow> 48 \<le> c \<and> c \<le> 57"
proof (induction n rule: nat_decimal.induct)
  case (1 n)
  then show ?case
    by (subst (asm) (2) nat_decimal.simps) (auto split: if_splits)
qed

lemma nat_decimal_length: "0 < k \<Longrightarrow> n < 10 ^ k \<Longrightarrow> length (nat_decimal n) \<le> k"
proof (induction n arbitrary: k rule: nat_decimal.induct)
  case (1 n)
  show ?case
  proof (cases "n < 10")
    case False
    with "1.prems" obtain j where k: "k = Suc j" "0 < j" by (cases k; cases "k - 1") auto
    with "1.prems"(2) have "n div 10 < 10 ^ j" by (simp add: less_mult_imp_div_less mult.commute)
    with "1.IH" [OF False k(2)] False k show ?thesis by (subst nat_decimal.simps) simp
  qed (use "1.prems" in \<open>subst nat_decimal.simps, simp\<close>)
qed

section \<open>Folds and filters\<close>

lemma map_filter_map_cong:
  "(\<And>x. x \<in> set xs \<Longrightarrow> f x = map_option h (g x)) \<Longrightarrow> List.map_filter f xs = map h (List.map_filter g xs)"
  by (induction xs) (auto simp: List.map_filter_def)

lemma foldl_max_start: "m \<le> foldl max m ms" for m :: nat
proof (induction ms arbitrary: m)
  case (Cons l ms)
  show ?case using Cons.IH [of "max m l"] by simp
qed simp

lemma foldl_max_ge: "n \<in> set (m # ms) \<Longrightarrow> n \<le> foldl max m ms" for n :: nat
proof (induction ms arbitrary: m)
  case (Cons l ms)
  consider "n = m \<or> n = l" | "n \<in> set ms" using Cons.prems by auto
  then show ?case
  proof cases
    case 1
    then have "n \<le> max m l" by auto
    also have "max m l \<le> foldl max (max m l) ms" by (rule foldl_max_start)
    finally show ?thesis by simp
  qed (use Cons.IH in simp)
qed simp

lemma foldl_max_le: "m \<le> b \<Longrightarrow> (\<forall>n \<in> set ms. n \<le> b) \<Longrightarrow> foldl max m ms \<le> b" for b :: nat
  by (induction ms arbitrary: m) auto

end
