(* ===== verification/Rust_Str.thy ===== *)
theory Rust_Str
  imports Rust_Prelude
begin

text \<open>
  The operations of \<open>str\<close> and \<open>[T]::join\<close> that the modelled crates call, on lists of
  code points: trimming, prefixes and suffixes, searching, splitting into lines, joining.
\<close>

section \<open>Trimming\<close>

definition trim_start :: "ustring \<Rightarrow> ustring" where
  "trim_start s = dropWhile is_whitespace s"

definition trim_end :: "ustring \<Rightarrow> ustring" where
  "trim_end s = rev (dropWhile is_whitespace (rev s))"

definition trim :: "ustring \<Rightarrow> ustring" where
  "trim s = trim_end (trim_start s)"

definition trim_end_matches :: "uchar \<Rightarrow> ustring \<Rightarrow> ustring" where
  "trim_end_matches c s = rev (dropWhile (\<lambda>d. d = c) (rev s))"

lemma trim_Nil [simp]: "trim_start [] = []" "trim_end [] = []" "trim [] = []"
  by (simp_all add: trim_start_def trim_end_def trim_def)

lemma trim_end_decomp: "\<exists>w. s = trim_end s @ w \<and> (\<forall>c \<in> set w. is_whitespace c)"
proof -
  let ?w = "rev (takeWhile is_whitespace (rev s))"
  have "s = trim_end s @ ?w"
    unfolding trim_end_def by (metis rev_append rev_rev_ident takeWhile_dropWhile_id)
  moreover have "\<forall>c \<in> set ?w. is_whitespace c"
    by (auto dest: set_takeWhileD)
  ultimately show ?thesis by blast
qed

lemma trim_end_id: "s = [] \<or> \<not> is_whitespace (last s) \<Longrightarrow> trim_end s = s"
  unfolding trim_end_def by (cases s rule: rev_cases) simp_all

lemma trim_start_id: "s = [] \<or> \<not> is_whitespace (hd s) \<Longrightarrow> trim_start s = s"
  unfolding trim_start_def by (cases s) simp_all

lemma last_trim_end: "trim_end s \<noteq> [] \<Longrightarrow> \<not> is_whitespace (last (trim_end s))"
  unfolding trim_end_def by (metis hd_dropWhile last_rev rev_is_Nil_conv)

lemma hd_trim_start: "trim_start s \<noteq> [] \<Longrightarrow> \<not> is_whitespace (hd (trim_start s))"
  unfolding trim_start_def by (rule hd_dropWhile)

lemma trim_end_idem [simp]: "trim_end (trim_end s) = trim_end s"
  by (rule trim_end_id) (use last_trim_end in blast)

lemma trim_start_idem [simp]: "trim_start (trim_start s) = trim_start s"
  by (rule trim_start_id) (use hd_trim_start in blast)

lemma trim_id:
  "s = [] \<or> \<not> is_whitespace (hd s) \<and> \<not> is_whitespace (last s) \<Longrightarrow> trim s = s"
  unfolding trim_def by (auto simp: trim_start_id trim_end_id)

lemma hd_trim_end: "trim_end s \<noteq> [] \<Longrightarrow> hd (trim_end s) = hd s"
  using trim_end_decomp [of s] by (metis hd_append)

lemma trim_trim [simp]: "trim (trim s) = trim s"
proof (rule trim_id)
  show "trim s = [] \<or> \<not> is_whitespace (hd (trim s)) \<and> \<not> is_whitespace (last (trim s))"
    unfolding trim_def
    by (metis hd_trim_end hd_trim_start last_trim_end trim_Nil(2))
qed

lemma trim_end_Nil_iff: "trim_end s = [] \<longleftrightarrow> (\<forall>c \<in> set s. is_whitespace c)"
  by (auto simp: trim_end_def dropWhile_eq_Nil_conv)

lemma trim_end_append_ws: "is_whitespace c \<Longrightarrow> trim_end (s @ [c]) = trim_end s"
  by (simp add: trim_end_def)

lemma trim_start_append:
  "trim_start s \<noteq> [] \<Longrightarrow> trim_start (s @ t) = trim_start s @ t"
  unfolding trim_start_def by (auto simp: dropWhile_append dropWhile_eq_Nil_conv)

lemma trim_start_drop: "\<exists>n. trim_start s = drop n s"
  by (metis dropWhile_eq_drop trim_start_def)

lemma trim_end_take: "trim_end s = take (length (trim_end s)) s"
  using trim_end_decomp [of s] by (metis append_eq_conv_conj)

lemma trim_of_trim_end: "trim s = trim_start (trim_end s)"
proof (cases "trim_end s = []")
  case True
  then have "trim_start s = []"
    by (simp add: trim_end_Nil_iff trim_start_def dropWhile_eq_Nil_conv)
  with True show ?thesis by (simp add: trim_def)
next
  case False
  obtain w where w: "s = trim_end s @ w" "\<forall>c \<in> set w. is_whitespace c"
    using trim_end_decomp by blast
  have ne: "trim_start (trim_end s) \<noteq> []"
    using False last_trim_end [OF False]
    by (auto simp: trim_start_def dropWhile_eq_Nil_conv)
  have "trim_start s = trim_start (trim_end s) @ w"
    using trim_start_append [OF ne, of w] w(1) by simp
  moreover have "trim_end (trim_start (trim_end s) @ w) = trim_start (trim_end s)"
  proof -
    have "last (trim_start (trim_end s)) = last (trim_end s)"
      by (metis ne last_drop trim_start_drop drop_eq_Nil linorder_not_le)
    then have "\<not> is_whitespace (hd (rev (trim_start (trim_end s))))"
      using last_trim_end [OF False] ne by (simp add: hd_rev)
    moreover have "dropWhile is_whitespace (rev w @ rev (trim_start (trim_end s)))
        = dropWhile is_whitespace (rev (trim_start (trim_end s)))"
      using w(2) by (simp add: dropWhile_append)
    ultimately show ?thesis
      unfolding trim_end_def [of "_ @ w"] using ne
      by (cases "rev (trim_start (trim_end s))") auto
  qed
  ultimately show ?thesis by (simp add: trim_def)
qed

lemma trim_trim_end [simp]: "trim (trim_end s) = trim s"
  by (simp add: trim_of_trim_end)

section \<open>Prefixes, suffixes and searching\<close>

definition starts_with :: "'a list \<Rightarrow> 'a list \<Rightarrow> bool" where
  "starts_with s p \<longleftrightarrow> take (length p) s = p"

definition strip_prefix :: "'a list \<Rightarrow> 'a list \<Rightarrow> 'a list option" where
  "strip_prefix s p = (if starts_with s p then Some (drop (length p) s) else None)"

definition ends_with :: "'a list \<Rightarrow> 'a list \<Rightarrow> bool" where
  "ends_with s p \<longleftrightarrow> length p \<le> length s \<and> drop (length s - length p) s = p"

definition strip_suffix :: "'a list \<Rightarrow> 'a list \<Rightarrow> 'a list option" where
  "strip_suffix s p = (if ends_with s p then Some (take (length s - length p) s) else None)"

lemma starts_with_iff: "starts_with s p \<longleftrightarrow> (\<exists>t. s = p @ t)"
  unfolding starts_with_def by (metis append_eq_conv_conj append_take_drop_id)

lemma strip_prefix_Some: "strip_prefix s p = Some t \<longleftrightarrow> s = p @ t"
  unfolding strip_prefix_def starts_with_iff by auto

lemma strip_prefix_None: "strip_prefix s p = None \<longleftrightarrow> (\<forall>t. s \<noteq> p @ t)"
  unfolding strip_prefix_def starts_with_iff by auto

lemma strip_prefix_append [simp]: "strip_prefix (p @ t) p = Some t"
  by (simp add: strip_prefix_Some)

lemma ends_with_iff: "ends_with s p \<longleftrightarrow> (\<exists>t. s = t @ p)"
  unfolding ends_with_def by (metis append_eq_conv_conj append_take_drop_id diff_diff_cancel
      diff_le_self length_append length_drop le_add2 add_diff_cancel_right')

lemma strip_suffix_Some: "strip_suffix s p = Some t \<longleftrightarrow> s = t @ p"
  unfolding strip_suffix_def ends_with_iff by auto

lemma strip_suffix_append [simp]: "strip_suffix (t @ p) p = Some t"
  by (simp add: strip_suffix_Some)

text \<open>\<open>str::find\<close>: the offset of the first occurrence of the needle.\<close>

fun find_from :: "nat \<Rightarrow> 'a list \<Rightarrow> 'a list \<Rightarrow> nat option" where
  "find_from i [] p = (if p = [] then Some i else None)"
| "find_from i (c # s) p = (if starts_with (c # s) p then Some i else find_from (Suc i) s p)"

definition find_str :: "'a list \<Rightarrow> 'a list \<Rightarrow> nat option" where
  "find_str s p = find_from 0 s p"

definition contains_str :: "'a list \<Rightarrow> 'a list \<Rightarrow> bool" where
  "contains_str s p \<longleftrightarrow> find_str s p \<noteq> None"

text \<open>\<open>str::split\_once\<close> and \<open>rsplit\_once\<close> on a character.\<close>

definition split_once :: "uchar \<Rightarrow> ustring \<Rightarrow> (ustring \<times> ustring) option" where
  "split_once c s =
     (if c \<in> set s then Some (takeWhile (\<lambda>d. d \<noteq> c) s, tl (dropWhile (\<lambda>d. d \<noteq> c) s)) else None)"

definition rsplit_once :: "uchar \<Rightarrow> ustring \<Rightarrow> (ustring \<times> ustring) option" where
  "rsplit_once c s =
     (case split_once c (rev s) of None \<Rightarrow> None | Some (a, b) \<Rightarrow> Some (rev b, rev a))"

lemma split_once_Some: "split_once c s = Some (a, b) \<longleftrightarrow> s = a @ c # b \<and> c \<notin> set a"
proof
  assume "split_once c s = Some (a, b)"
  then have c: "c \<in> set s" and a: "a = takeWhile (\<lambda>d. d \<noteq> c) s"
    and b: "b = tl (dropWhile (\<lambda>d. d \<noteq> c) s)"
    by (auto simp: split_once_def split: if_splits)
  from c have ne: "dropWhile (\<lambda>d. d \<noteq> c) s \<noteq> []" by (auto simp: dropWhile_eq_Nil_conv)
  then have "hd (dropWhile (\<lambda>d. d \<noteq> c) s) = c" using hd_dropWhile [OF ne] by simp
  with ne b have "dropWhile (\<lambda>d. d \<noteq> c) s = c # b" by (metis list.collapse)
  with a show "s = a @ c # b \<and> c \<notin> set a"
    by (metis set_takeWhileD takeWhile_dropWhile_id)
next
  assume s: "s = a @ c # b \<and> c \<notin> set a"
  then have "dropWhile (\<lambda>d. d \<noteq> c) s = c # b" "takeWhile (\<lambda>d. d \<noteq> c) s = a"
    by (auto simp: dropWhile_append takeWhile_append)
  with s show "split_once c s = Some (a, b)" by (simp add: split_once_def)
qed

lemma rsplit_once_Some: "rsplit_once c s = Some (a, b) \<longleftrightarrow> s = a @ c # b \<and> c \<notin> set b"
proof -
  have "rsplit_once c s = Some (a, b) \<longleftrightarrow> split_once c (rev s) = Some (rev b, rev a)"
    unfolding rsplit_once_def by (auto split: option.splits)
  also have "\<dots> \<longleftrightarrow> rev s = rev b @ c # rev a \<and> c \<notin> set b"
    by (simp add: split_once_Some)
  also have "rev s = rev b @ c # rev a \<longleftrightarrow> s = a @ c # b"
    by (metis append.assoc append_Cons append_Nil rev.simps(2) rev_append rev_rev_ident)
  finally show ?thesis .
qed

text \<open>What \<^const>\<open>find_str\<close> finds is the leftmost occurrence; \<open>None\<close> means there is none.\<close>

lemma find_from_shift: "find_from i s p = map_option (\<lambda>k. i + k) (find_from 0 s p)"
proof (induction s arbitrary: i)
  case (Cons c s)
  show ?case
    by (simp add: Cons.IH [of "Suc i"] Cons.IH [of "Suc 0"] option.map_comp comp_def)
qed simp

lemma find_str_Nil [simp]: "find_str [] p = (if p = [] then Some 0 else None)"
  by (simp add: find_str_def)

lemma find_str_Cons:
  "find_str (c # s) p = (if starts_with (c # s) p then Some 0 else map_option Suc (find_str s p))"
  unfolding find_str_def by (simp add: find_from_shift [of "Suc 0"])

lemma find_str_Some_occurs:
  "find_str s p = Some i \<Longrightarrow> i + length p \<le> length s \<and> take (length p) (drop i s) = p"
proof (induction s arbitrary: i)
  case (Cons c s)
  show ?case
  proof (cases "starts_with (c # s) p")
    case True
    with Cons.prems have "i = 0" by (simp add: find_str_Cons)
    moreover obtain t where "c # s = p @ t" using True by (auto simp: starts_with_iff)
    moreover from this have "length (c # s) = length p + length t" by (metis length_append)
    ultimately show ?thesis by simp
  next
    case False
    with Cons.prems obtain k where "find_str s p = Some k" "i = Suc k"
      by (auto simp: find_str_Cons)
    with Cons.IH [of k] show ?thesis by simp
  qed
qed (simp split: if_splits)

lemma find_str_Some_first:
  "find_str s p = Some i \<Longrightarrow> k < i \<Longrightarrow> \<not> starts_with (drop k s) p"
proof (induction s arbitrary: i k)
  case (Cons c s)
  then show ?case by (cases k) (auto simp: find_str_Cons split: if_splits)
qed (simp split: if_splits)

lemma find_str_None: "find_str s p = None \<longleftrightarrow> (\<forall>k \<le> length s. \<not> starts_with (drop k s) p)"
proof (induction s)
  case (Cons c s)
  show ?case
  proof
    assume n: "find_str (c # s) p = None"
    show "\<forall>k \<le> length (c # s). \<not> starts_with (drop k (c # s)) p"
    proof (intro allI impI)
      fix k
      assume "k \<le> length (c # s)"
      with n Cons show "\<not> starts_with (drop k (c # s)) p"
        by (cases k) (auto simp: find_str_Cons split: if_splits)
    qed
  next
    assume a: "\<forall>k \<le> length (c # s). \<not> starts_with (drop k (c # s)) p"
    have "\<not> starts_with (c # s) p" using a [rule_format, of 0] by simp
    moreover have "\<forall>k \<le> length s. \<not> starts_with (drop k s) p"
      using a by (metis Suc_le_mono drop_Suc_Cons length_Cons)
    ultimately show "find_str (c # s) p = None" using Cons by (simp add: find_str_Cons)
  qed
qed (auto simp: starts_with_def)

lemma find_str_Some_iff:
  "find_str s p = Some i \<longleftrightarrow>
     i \<le> length s \<and> starts_with (drop i s) p \<and> (\<forall>k < i. \<not> starts_with (drop k s) p)"
proof
  assume i: "find_str s p = Some i"
  then show "i \<le> length s \<and> starts_with (drop i s) p \<and> (\<forall>k < i. \<not> starts_with (drop k s) p)"
    using find_str_Some_occurs [OF i] find_str_Some_first [OF i] by (simp add: starts_with_def)
next
  assume *: "i \<le> length s \<and> starts_with (drop i s) p \<and> (\<forall>k < i. \<not> starts_with (drop k s) p)"
  then obtain j where j: "find_str s p = Some j" using find_str_None [of s p] by (meson not_None_eq)
  then have "j \<le> length s \<and> starts_with (drop j s) p \<and> (\<forall>k < j. \<not> starts_with (drop k s) p)"
    using find_str_Some_occurs [OF j] find_str_Some_first [OF j] by (simp add: starts_with_def)
  with * have "i = j" by (metis linorder_neqE_nat)
  with j show "find_str s p = Some i" by simp
qed

lemma starts_with_append: "starts_with s p \<Longrightarrow> starts_with (s @ x) p"
  by (auto simp: starts_with_iff)

lemma starts_with_shorter: "starts_with (s @ x) p \<Longrightarrow> length p \<le> length s \<Longrightarrow> starts_with s p"
  by (simp add: starts_with_def)

lemma ends_with_append_short:
  assumes "length u \<le> length b"
  shows "ends_with (a @ b) u \<longleftrightarrow> ends_with b u"
proof -
  have "drop (length (a @ b) - length u) (a @ b) = drop (length b - length u) b"
    using assms by simp
  with assms show ?thesis by (simp add: ends_with_def)
qed

lemma find_str_append_Some:
  assumes i: "find_str s p = Some i"
  shows "find_str (s @ x) p = Some i"
proof -
  from find_str_Some_occurs [OF i] have len: "i + length p \<le> length s" by blast
  from i have i': "i \<le> length s" "starts_with (drop i s) p" "\<forall>k < i. \<not> starts_with (drop k s) p"
    by (simp_all add: find_str_Some_iff)
  have "\<not> starts_with (drop k (s @ x)) p" if k: "k < i" for k
  proof -
    have "length p \<le> length (drop k s)" using k len by simp
    then show ?thesis using starts_with_shorter [of "drop k s" x p] i'(1,3) k by auto
  qed
  with i'(1,2) starts_with_append [of "drop i s" p x] show ?thesis by (simp add: find_str_Some_iff)
qed

lemma find_str_shift:
  "t \<le> length s \<Longrightarrow> (\<forall>j < t. \<not> starts_with (drop j s) p) \<Longrightarrow>
    find_str s p = map_option (\<lambda>i. t + i) (find_str (drop t s) p)"
proof (induction t arbitrary: s)
  case 0
  then show ?case by (cases "find_str s p") simp_all
next
  case (Suc t)
  then obtain c s' where s: "s = c # s'" by (cases s) auto
  have "\<not> starts_with s p" using Suc.prems(2) by (metis drop_0 zero_less_Suc)
  moreover have "\<forall>j < t. \<not> starts_with (drop j s') p" using Suc.prems(2) s by auto
  ultimately show ?case using Suc.IH [of s'] Suc.prems(1) s
    by (simp add: find_str_Cons option.map_comp comp_def)
qed

section \<open>Lines\<close>

fun split_on :: "uchar \<Rightarrow> ustring \<Rightarrow> ustring list" where
  "split_on c [] = [[]]"
| "split_on c (d # s) =
     (if d = c then [] # split_on c s
      else (case split_on c s of [] \<Rightarrow> [[d]] | l # ls \<Rightarrow> (d # l) # ls))"

fun split_inclusive :: "uchar \<Rightarrow> ustring \<Rightarrow> ustring list" where
  "split_inclusive c [] = []"
| "split_inclusive c (d # s) =
     (if d = c then [d] # split_inclusive c s
      else (case split_inclusive c s of [] \<Rightarrow> [[d]] | l # ls \<Rightarrow> (d # l) # ls))"

definition strip_line_end :: "ustring \<Rightarrow> ustring" where
  "strip_line_end l =
     (case strip_suffix l [newline] of
        None \<Rightarrow> l
      | Some l' \<Rightarrow> (case strip_suffix l' [carriage_return] of None \<Rightarrow> l' | Some l'' \<Rightarrow> l''))"

text \<open>\<open>str::lines\<close>: a line ends at a line feed, which is dropped together with a carriage
  return right before it; a last line without line feed is kept as it is.\<close>

definition str_lines :: "ustring \<Rightarrow> ustring list" where
  "str_lines s = map strip_line_end (split_inclusive newline s)"

fun join :: "'a list \<Rightarrow> 'a list list \<Rightarrow> 'a list" where
  "join sep [] = []"
| "join sep [x] = x"
| "join sep (x # y # ys) = x @ sep @ join sep (y # ys)"

lemma split_on_nonempty [simp]: "split_on c s \<noteq> []"
  by (induction s) (auto split: list.splits)

lemma join_split_on [simp]: "join [c] (split_on c s) = s"
proof (induction s)
  case (Cons d s)
  obtain l ls where l: "split_on c s = l # ls" by (cases "split_on c s") simp_all
  show ?case using Cons.IH l by (cases ls) auto
qed simp

lemma split_on_append:
  "c \<notin> set l \<Longrightarrow> split_on c (l @ c # s) = l # split_on c s"
  by (induction l) auto

lemma split_on_single: "c \<notin> set l \<Longrightarrow> split_on c l = [l]"
  by (induction l) auto

lemma split_on_join:
  "ls \<noteq> [] \<Longrightarrow> (\<forall>l \<in> set ls. c \<notin> set l) \<Longrightarrow> split_on c (join [c] ls) = ls"
  by (induction "[c]" ls rule: join.induct) (simp_all add: split_on_append split_on_single)

lemma split_on_no_sep: "l \<in> set (split_on c s) \<Longrightarrow> c \<notin> set l"
  by (induction s arbitrary: l) (auto split: list.splits if_splits)

lemma concat_split_inclusive [simp]: "concat (split_inclusive c s) = s"
  by (induction s) (auto split: list.splits)

lemma split_inclusive_append:
  "c \<notin> set l \<Longrightarrow> split_inclusive c (l @ c # s) = (l @ [c]) # split_inclusive c s"
  by (induction l) auto

lemma split_inclusive_single:
  "c \<notin> set l \<Longrightarrow> split_inclusive c l = (if l = [] then [] else [l])"
  by (induction l) auto

lemma strip_line_end_simps:
  "newline \<notin> set l \<Longrightarrow> strip_line_end l = l"
  "l = [] \<or> last l \<noteq> carriage_return \<Longrightarrow> strip_line_end (l @ [newline]) = l"
proof -
  assume "newline \<notin> set l"
  then have "strip_suffix l [newline] = None"
    by (metis ends_with_iff in_set_conv_decomp strip_suffix_def)
  then show "strip_line_end l = l" by (simp add: strip_line_end_def)
next
  assume "l = [] \<or> last l \<noteq> carriage_return"
  then have "strip_suffix l [carriage_return] = None"
    by (metis append_is_Nil_conv last_snoc not_Cons_self2 not_None_eq strip_suffix_Some)
  then show "strip_line_end (l @ [newline]) = l" by (simp add: strip_line_end_def)
qed

definition clean_line :: "ustring \<Rightarrow> bool" where
  "clean_line l \<longleftrightarrow> newline \<notin> set l \<and> (l = [] \<or> last l \<noteq> carriage_return)"

text \<open>Splitting a joined text gives the lines back; the last line must not be empty, since a
  trailing line feed starts no line.\<close>

lemma str_lines_join:
  "ls \<noteq> [] \<Longrightarrow> (\<forall>l \<in> set ls. clean_line l) \<Longrightarrow> last ls \<noteq> [] \<Longrightarrow> str_lines (join [newline] ls) = ls"
proof (induction "[newline]" ls rule: join.induct)
  case (2 x)
  then show ?case
    by (simp add: str_lines_def clean_line_def split_inclusive_single strip_line_end_simps)
next
  case (3 x y ys)
  then have "str_lines (join [newline] (y # ys)) = y # ys" by simp
  with 3 show ?case
    by (simp add: str_lines_def clean_line_def split_inclusive_append strip_line_end_simps)
qed simp

lemma join_append:
  "xs \<noteq> [] \<Longrightarrow> ys \<noteq> [] \<Longrightarrow> join sep (xs @ ys) = join sep xs @ sep @ join sep ys"
  by (induction sep xs rule: join.induct) (auto simp: neq_Nil_conv)

lemma split_inclusive_append_ended:
  "a = [] \<or> last a = c \<Longrightarrow> split_inclusive c (a @ b) = split_inclusive c a @ split_inclusive c b"
proof (induction a)
  case (Cons d a)
  show ?case
  proof (cases "a = []")
    case False
    then obtain l ls where l: "split_inclusive c a = l # ls"
      by (metis concat.simps(1) concat_split_inclusive list.exhaust)
    moreover have "split_inclusive c (a @ b) = split_inclusive c a @ split_inclusive c b"
      using Cons False by simp
    ultimately show ?thesis by simp
  qed (use Cons in simp)
qed simp

text \<open>The pieces that are kept are the pieces of the text that is left.\<close>

lemma split_inclusive_filter:
  "split_inclusive c (concat (filter P (split_inclusive c s))) = filter P (split_inclusive c s)"
proof (induction s rule: measure_induct_rule [of length])
  case (less s)
  show ?case
  proof (cases "c \<in> set s")
    case True
    then obtain l r where s: "s = l @ c # r" "c \<notin> set l" by (meson split_list_first)
    have "split_inclusive c (l @ c # t) = (l @ [c]) # split_inclusive c t" for t
      using s(2) by (rule split_inclusive_append)
    moreover have "split_inclusive c (concat (filter P (split_inclusive c r))) = filter P (split_inclusive c r)"
      by (rule less.IH) (simp add: s(1))
    ultimately show ?thesis by (simp add: s(1) del: split_inclusive.simps)
  next
    case False
    then show ?thesis by (simp add: split_inclusive_single [OF False])
  qed
qed

end
