(* ===== verification/Seek_Sequence.thy ===== *)
theory Seek_Sequence
  imports Rust_Str
begin

text \<open>
  \<open>apply-patch/src/seek\_sequence.rs\<close>: locating a block of lines inside a file with four
  passes of decreasing strictness.  The lemmas show that a match lies inside the file and at or
  after the search start, that the first exact match wins, and that \<open>None\<close> is returned exactly
  when even the most permissive comparison fails everywhere.
\<close>

section \<open>The search\<close>

text \<open>The inner loops: compare the pattern with the lines from some position on, after applying
  \<open>f\<close> to both.  A line missing where the source would index past the end is no match; the
  search range never reaches that case.\<close>

fun lines_match :: "(ustring \<Rightarrow> ustring) \<Rightarrow> ustring list \<Rightarrow> ustring list \<Rightarrow> bool" where
  "lines_match f ls [] = True"
| "lines_match f [] (p # ps) = False"
| "lines_match f (l # ls) (p # ps) = (f l = f p \<and> lines_match f ls ps)"

definition normalise_char :: "uchar \<Rightarrow> uchar" where
  "normalise_char c =
     (if c \<in> {0x2010, 0x2011, 0x2012, 0x2013, 0x2014, 0x2015, 0x2212} then 45
      else if c \<in> {0x2018, 0x2019, 0x201A, 0x201B} then 39
      else if c \<in> {0x201C, 0x201D, 0x201E, 0x201F} then 34
      else if c \<in> {0x00A0, 0x2002, 0x2003, 0x2004, 0x2005, 0x2006, 0x2007, 0x2008, 0x2009,
                   0x200A, 0x202F, 0x205F, 0x3000} then 32
      else c)"

definition normalise :: "ustring \<Rightarrow> ustring" where
  "normalise s = map normalise_char (trim s)"

text \<open>One outer loop \<open>for i in search_start..=lines.len() - pattern.len()\<close>.\<close>

definition seek_pass ::
    "(ustring \<Rightarrow> ustring) \<Rightarrow> ustring list \<Rightarrow> ustring list \<Rightarrow> nat \<Rightarrow> nat option" where
  "seek_pass f ls pattern search_start =
     find (\<lambda>i. lines_match f (drop i ls) pattern)
       [search_start ..< Suc (length ls - length pattern)]"

definition seek_sequence :: "ustring list \<Rightarrow> ustring list \<Rightarrow> nat \<Rightarrow> bool \<Rightarrow> nat option" where
  "seek_sequence ls pattern start eof =
     (if pattern = [] then Some start
      else if length ls < length pattern then None
      else
        let search_start =
              (if eof \<and> length pattern \<le> length ls then length ls - length pattern else start)
        in case seek_pass (\<lambda>l. l) ls pattern search_start of
             Some i \<Rightarrow> Some i
           | None \<Rightarrow>
             (case seek_pass trim_end ls pattern search_start of
                Some i \<Rightarrow> Some i
              | None \<Rightarrow>
                (case seek_pass trim ls pattern search_start of
                   Some i \<Rightarrow> Some i
                 | None \<Rightarrow> seek_pass normalise ls pattern search_start)))"

section \<open>One pass\<close>

lemma lines_match_iff:
  "lines_match f ls ps \<longleftrightarrow>
     length ps \<le> length ls \<and> map f (take (length ps) ls) = map f ps"
  by (induction f ls ps rule: lines_match.induct) auto

lemma lines_match_exact: "lines_match (\<lambda>l. l) ls ps \<longleftrightarrow> take (length ps) ls = ps"
  by (induction "\<lambda>l::ustring. l" ls ps rule: lines_match.induct) auto

lemma seek_pass_Some:
  "seek_pass f ls ps a = Some i \<longleftrightarrow>
     a \<le> i \<and> i \<le> length ls - length ps \<and> lines_match f (drop i ls) ps \<and>
     (\<forall>k. a \<le> k \<and> k < i \<longrightarrow> \<not> lines_match f (drop k ls) ps)"
proof -
  let ?R = "[a ..< Suc (length ls - length ps)]"
  have "seek_pass f ls ps a = Some i \<longleftrightarrow>
      (\<exists>n < length ?R. lines_match f (drop (?R ! n) ls) ps \<and> i = ?R ! n \<and>
        (\<forall>m < n. \<not> lines_match f (drop (?R ! m) ls) ps))"
    unfolding seek_pass_def find_Some_iff by blast
  also have "\<dots> \<longleftrightarrow> a \<le> i \<and> i \<le> length ls - length ps \<and> lines_match f (drop i ls) ps \<and>
     (\<forall>k. a \<le> k \<and> k < i \<longrightarrow> \<not> lines_match f (drop k ls) ps)" (is "?L \<longleftrightarrow> ?Q")
  proof
    assume ?L
    then obtain n where n: "n < length ?R" "lines_match f (drop (?R ! n) ls) ps" "i = ?R ! n"
      "\<forall>m < n. \<not> lines_match f (drop (?R ! m) ls) ps" by blast
    have i: "i = a + n" "i < Suc (length ls - length ps)" using n(1,3) by (auto simp del: upt_Suc)
    have "\<not> lines_match f (drop k ls) ps" if "a \<le> k" "k < i" for k
      using n(4) [rule_format, of "k - a"] that i by (auto simp del: upt_Suc)
    with n i show ?Q by auto
  next
    assume q: ?Q
    then have "i - a < length ?R" "?R ! (i - a) = i" by (auto simp del: upt_Suc)
    moreover have "\<not> lines_match f (drop (?R ! m) ls) ps" if "m < i - a" for m
      using q that by (auto simp del: upt_Suc)
    ultimately show ?L using q by metis
  qed
  finally show ?thesis .
qed

lemma seek_pass_None:
  "seek_pass f ls ps a = None \<longleftrightarrow>
     (\<forall>i. a \<le> i \<and> i \<le> length ls - length ps \<longrightarrow> \<not> lines_match f (drop i ls) ps)"
  unfolding seek_pass_def find_None_iff by (auto simp: less_Suc_eq_le simp del: upt_Suc)

section \<open>The order of the passes\<close>

text \<open>Two consecutive passes: whatever the finer comparison identifies, the coarser one does.\<close>

locale pass_order =
  fixes fine coarse :: "ustring \<Rightarrow> ustring"
  assumes coarsen: "fine a = fine b \<Longrightarrow> coarse a = coarse b"
begin

lemma match_coarsen: "lines_match fine ls ps \<Longrightarrow> lines_match coarse ls ps"
proof (induction ps arbitrary: ls)
  case (Cons p ps)
  then show ?case by (cases ls) (auto dest: coarsen)
qed simp

lemma pass_None_refine: "seek_pass coarse ls ps a = None \<Longrightarrow> seek_pass fine ls ps a = None"
  unfolding seek_pass_None using match_coarsen by blast

end

interpretation exact_rstrip: pass_order "\<lambda>l. l" trim_end
  by unfold_locales simp

interpretation rstrip_trim: pass_order trim_end trim
proof
  fix a b
  assume "trim_end a = trim_end b"
  then show "trim a = trim b" by (metis trim_trim_end)
qed

interpretation trim_normalise: pass_order trim normalise
  by unfold_locales (simp add: normalise_def)

lemmas pass_coarsen =
  exact_rstrip.match_coarsen rstrip_trim.match_coarsen trim_normalise.match_coarsen

section \<open>The whole search\<close>

definition seek_from :: "ustring list \<Rightarrow> ustring list \<Rightarrow> nat \<Rightarrow> bool \<Rightarrow> nat" where
  "seek_from ls ps start eof = (if eof then length ls - length ps else start)"

lemma seek_sequence_unfold:
  assumes "ps \<noteq> []" and "length ps \<le> length ls"
  shows "seek_sequence ls ps start eof =
    (case seek_pass (\<lambda>l. l) ls ps (seek_from ls ps start eof) of Some i \<Rightarrow> Some i
     | None \<Rightarrow> (case seek_pass trim_end ls ps (seek_from ls ps start eof) of Some i \<Rightarrow> Some i
       | None \<Rightarrow> (case seek_pass trim ls ps (seek_from ls ps start eof) of Some i \<Rightarrow> Some i
         | None \<Rightarrow> seek_pass normalise ls ps (seek_from ls ps start eof))))"
  using assms unfolding seek_sequence_def seek_from_def by (simp add: Let_def not_less)

lemma seek_sequence_cases:
  assumes "seek_sequence ls ps start eof = Some i" and "ps \<noteq> []"
  obtains f where "length ps \<le> length ls" and "f = (\<lambda>l. l) \<or> f = trim_end \<or> f = trim \<or> f = normalise"
    and "seek_pass f ls ps (seek_from ls ps start eof) = Some i"
proof -
  have len: "length ps \<le> length ls"
    using assms by (auto simp: seek_sequence_def split: if_splits)
  show thesis
    using assms(1) unfolding seek_sequence_unfold [OF assms(2) len]
    by (auto split: option.splits intro: that [OF len])
qed

lemma seek_sequence_found:
  assumes "seek_sequence ls ps start eof = Some i" and "ps \<noteq> []"
  shows "seek_from ls ps start eof \<le> i" and "i + length ps \<le> length ls"
    and "lines_match normalise (drop i ls) ps"
proof -
  obtain f where len: "length ps \<le> length ls"
    and f: "f = (\<lambda>l. l) \<or> f = trim_end \<or> f = trim \<or> f = normalise"
    and p: "seek_pass f ls ps (seek_from ls ps start eof) = Some i"
    using assms by (rule seek_sequence_cases)
  from p show "seek_from ls ps start eof \<le> i" by (simp add: seek_pass_Some)
  from p len show "i + length ps \<le> length ls" by (auto simp: seek_pass_Some)
  from p have "lines_match f (drop i ls) ps" by (simp add: seek_pass_Some)
  with f show "lines_match normalise (drop i ls) ps" by (auto intro: pass_coarsen)
qed

lemma seek_sequence_None:
  assumes "ps \<noteq> []" and "length ps \<le> length ls"
  shows "seek_sequence ls ps start eof = None \<longleftrightarrow>
    seek_pass normalise ls ps (seek_from ls ps start eof) = None"
  unfolding seek_sequence_unfold [OF assms]
  using exact_rstrip.pass_None_refine rstrip_trim.pass_None_refine trim_normalise.pass_None_refine
  by (auto split: option.splits) fastforce+

lemma seek_sequence_empty [simp]: "seek_sequence ls [] start eof = Some start"
  by (simp add: seek_sequence_def)

section \<open>Properties\<close>

text \<open>The search is sound and complete for the most permissive comparison: it answers
  \<open>Some\<close> exactly when some position of the search range matches the pattern after trimming and
  replacing typographic punctuation, and the position it answers is such a position inside the
  file.\<close>

theorem seek_sequence_correct:
  assumes "ps \<noteq> []"
  shows "(case seek_sequence ls ps start eof of
      None \<Rightarrow> \<not> (\<exists>i. seek_from ls ps start eof \<le> i \<and> i + length ps \<le> length ls \<and>
        map normalise (take (length ps) (drop i ls)) = map normalise ps)
    | Some i \<Rightarrow> seek_from ls ps start eof \<le> i \<and> i + length ps \<le> length ls \<and>
        map normalise (take (length ps) (drop i ls)) = map normalise ps)"
proof (cases "seek_sequence ls ps start eof")
  case None
  have False if "seek_from ls ps start eof \<le> i" "i + length ps \<le> length ls"
    "map normalise (take (length ps) (drop i ls)) = map normalise ps" for i
  proof -
    have "lines_match normalise (drop i ls) ps" using that by (auto simp: lines_match_iff)
    with that seek_sequence_None [OF assms, of ls start eof] None show False
      by (auto simp: seek_pass_None)
  qed
  then show ?thesis using None by auto
next
  case (Some i)
  then show ?thesis using seek_sequence_found [OF Some assms] by (simp add: lines_match_iff)
qed

theorem seek_sequence_correct_witness:
  "map normalise (take 1 (drop 1 [lit ''a'', lit ''b '', lit ''c''])) = map normalise [lit ''b'']"
proof -
  have "seek_sequence [lit ''a'', lit ''b '', lit ''c''] [lit ''b''] 0 False = Some 1" by code_simp
  with seek_sequence_correct [of "[lit ''b'']" "[lit ''a'', lit ''b '', lit ''c'']" 0 False]
  show ?thesis by simp
qed

text \<open>An exact occurrence is never passed over for a looser one: when the pattern occurs
  verbatim at or after \<open>start\<close>, the answer is the first verbatim occurrence, whatever earlier
  positions match up to whitespace or punctuation.\<close>

theorem seek_sequence_exact_first:
  assumes "ps \<noteq> []" and "start \<le> j" and "take (length ps) (drop j ls) = ps"
  shows "\<exists>i. seek_sequence ls ps start False = Some i \<and> start \<le> i \<and> i \<le> j \<and>
    take (length ps) (drop i ls) = ps \<and>
    (\<forall>k. start \<le> k \<and> k < i \<longrightarrow> take (length ps) (drop k ls) \<noteq> ps)"
proof -
  have "length ps \<le> length (drop j ls)" using arg_cong [OF assms(3), of length] by simp
  then have len: "j + length ps \<le> length ls" using assms(1) by (cases "j \<le> length ls") auto
  have ex: "seek_pass (\<lambda>l. l) ls ps start \<noteq> None"
    using assms(2,3) len by (auto simp: seek_pass_None lines_match_exact)
  then obtain i where i: "seek_pass (\<lambda>l. l) ls ps start = Some i" by blast
  have "seek_sequence ls ps start False = Some i"
    using i len assms(1) by (simp add: seek_sequence_unfold seek_from_def)
  moreover have "i \<le> j"
  proof (rule ccontr)
    assume "\<not> i \<le> j"
    with i assms(2,3) show False by (auto simp: seek_pass_Some lines_match_exact)
  qed
  ultimately show ?thesis using i by (auto simp: seek_pass_Some lines_match_exact)
qed

theorem seek_sequence_exact_first_witness:
  "seek_sequence [lit ''b '', lit ''b'', lit ''b''] [lit ''b''] 0 False = Some 1"
proof -
  have "\<exists>i. seek_sequence [lit ''b '', lit ''b'', lit ''b''] [lit ''b''] 0 False = Some i \<and> 0 \<le> i \<and>
      i \<le> 1 \<and> take (length [lit ''b'']) (drop i [lit ''b '', lit ''b'', lit ''b'']) = [lit ''b''] \<and>
      (\<forall>k. 0 \<le> k \<and> k < i \<longrightarrow>
        take (length [lit ''b'']) (drop k [lit ''b '', lit ''b'', lit ''b'']) \<noteq> [lit ''b''])"
    by (rule seek_sequence_exact_first) (simp_all add: lit_def)
  then obtain i where "seek_sequence [lit ''b '', lit ''b'', lit ''b''] [lit ''b''] 0 False = Some i"
    "i \<le> 1" "take 1 (drop i [lit ''b '', lit ''b'', lit ''b'']) = [lit ''b'']" by auto
  then show ?thesis by (cases "i = 0") (simp_all add: lit_def)
qed

text \<open>With the end-of-file flag only the very end of the file is tried, whatever \<open>start\<close> is:
  there is no fallback to a search from \<open>start\<close>.\<close>

theorem seek_sequence_eof_only_end:
  assumes "ps \<noteq> []" and "seek_sequence ls ps start True = Some i"
  shows "i + length ps = length ls"
  using seek_sequence_found [OF assms(2,1)] by (simp add: seek_from_def)

theorem seek_sequence_eof_only_end_witness:
  "seek_sequence [lit ''b'', lit ''a'', lit ''b''] [lit ''b''] 0 True = Some 2 \<and>
   seek_sequence [lit ''b'', lit ''a''] [lit ''b''] 0 True = None"
proof -
  obtain i where i: "seek_sequence [lit ''b'', lit ''a'', lit ''b''] [lit ''b''] 0 True = Some i"
    by (simp add: seek_sequence_def seek_pass_def lit_def)
  have "i + length [lit ''b''] = length [lit ''b'', lit ''a'', lit ''b'']"
    by (rule seek_sequence_eof_only_end [OF _ i]) simp
  then have "i = 2" by simp
  moreover have "seek_sequence [lit ''b'', lit ''a''] [lit ''b''] 0 True = None" by code_simp
  ultimately show ?thesis using i by simp
qed

end
