(* ===== verification/Patch_Parser.thy ===== *)
theory Patch_Parser
  imports Rust_Str
begin

text \<open>
  \<open>apply-patch/src/parser.rs\<close> and \<open>apply-patch/src/streaming\_parser.rs\<close>: the
  line-oriented state machine that turns a patch text, possibly delivered in pieces, into hunks.
  A path is the text it was built from.  An error leaves the parser in the state it had when the
  failing line was taken from the line buffer, so the operations return the parser beside the
  result.
\<close>

section \<open>Markers, errors and hunks\<close>

definition BEGIN_PATCH_MARKER :: ustring where
  "BEGIN_PATCH_MARKER = lit ''*** Begin Patch''"

definition END_PATCH_MARKER :: ustring where
  "END_PATCH_MARKER = lit ''*** End Patch''"

definition ADD_FILE_MARKER :: ustring where
  "ADD_FILE_MARKER = lit ''*** Add File: ''"

definition DELETE_FILE_MARKER :: ustring where
  "DELETE_FILE_MARKER = lit ''*** Delete File: ''"

definition UPDATE_FILE_MARKER :: ustring where
  "UPDATE_FILE_MARKER = lit ''*** Update File: ''"

definition MOVE_TO_MARKER :: ustring where
  "MOVE_TO_MARKER = lit ''*** Move to: ''"

definition EOF_MARKER :: ustring where
  "EOF_MARKER = lit ''*** End of File''"

definition CHANGE_CONTEXT_MARKER :: ustring where
  "CHANGE_CONTEXT_MARKER = lit ''@@ ''"

definition EMPTY_CHANGE_CONTEXT_MARKER :: ustring where
  "EMPTY_CHANGE_CONTEXT_MARKER = lit ''@@''"

definition ENVIRONMENT_ID_MARKER :: ustring where
  "ENVIRONMENT_ID_MARKER = lit ''*** Environment ID:''"

lemmas marker_defs =
  BEGIN_PATCH_MARKER_def END_PATCH_MARKER_def ADD_FILE_MARKER_def DELETE_FILE_MARKER_def
  UPDATE_FILE_MARKER_def MOVE_TO_MARKER_def EOF_MARKER_def CHANGE_CONTEXT_MARKER_def
  EMPTY_CHANGE_CONTEXT_MARKER_def ENVIRONMENT_ID_MARKER_def

datatype parse_error =
    InvalidPatchError ustring
  | InvalidHunkError ustring nat

record update_file_chunk =
  change_context :: "ustring option"
  old_lines :: "ustring list"
  new_lines :: "ustring list"
  is_end_of_file :: bool

datatype hunk =
    AddFile ustring ustring
  | DeleteFile ustring
  | UpdateFile ustring "ustring option" "update_file_chunk list"

definition hunk_path :: "hunk \<Rightarrow> ustring" where
  "hunk_path h =
     (case h of
        AddFile path contents \<Rightarrow> path
      | DeleteFile path \<Rightarrow> path
      | UpdateFile path move_path chunks \<Rightarrow>
          (case move_path of Some dest \<Rightarrow> dest | None \<Rightarrow> path))"

text \<open>\<open>Hunk::resolve\_path\<close> joins the path the hunk reads (never the move destination) to the
  working directory; \<open>join\<close> stands for \<open>PathUri::join\<close>.\<close>

definition hunk_source_path :: "hunk \<Rightarrow> ustring" where
  "hunk_source_path h = (case h of UpdateFile path _ _ \<Rightarrow> path | _ \<Rightarrow> hunk_path h)"

definition resolve_path :: "('p \<Rightarrow> ustring \<Rightarrow> 'e + 'p) \<Rightarrow> hunk \<Rightarrow> 'p \<Rightarrow> 'e + 'p" where
  "resolve_path joinp h cwd = joinp cwd (hunk_source_path h)"

section \<open>The streaming parser\<close>

datatype streaming_parser_mode =
    NotStarted
  | StartedPatch
  | ModeAddFile
  | ModeDeleteFile
  | ModeUpdateFile nat
  | EndedPatch

record streaming_parser_state =
  sp_mode :: streaming_parser_mode
  sp_hunks :: "hunk list"
  sp_environment_id :: "ustring option"

record streaming_patch_parser =
  line_buffer :: ustring
  sp_state :: streaming_parser_state
  line_number :: nat

definition default_parser :: streaming_patch_parser where
  "default_parser =
     \<lparr> line_buffer = [],
       sp_state = \<lparr> sp_mode = NotStarted, sp_hunks = [], sp_environment_id = None \<rparr>,
       line_number = 0 \<rparr>"

abbreviation pmode :: "streaming_patch_parser \<Rightarrow> streaming_parser_mode" where
  "pmode p \<equiv> sp_mode (sp_state p)"

abbreviation phunks :: "streaming_patch_parser \<Rightarrow> hunk list" where
  "phunks p \<equiv> sp_hunks (sp_state p)"

definition set_mode ::
    "streaming_patch_parser \<Rightarrow> streaming_parser_mode \<Rightarrow> streaming_patch_parser" where
  "set_mode p m = p\<lparr>sp_state := (sp_state p)\<lparr>sp_mode := m\<rparr>\<rparr>"

definition push_hunk ::
    "streaming_patch_parser \<Rightarrow> hunk \<Rightarrow> streaming_parser_mode \<Rightarrow> streaming_patch_parser" where
  "push_hunk p h m =
     p\<lparr>sp_state := (sp_state p)\<lparr>sp_hunks := phunks p @ [h], sp_mode := m\<rparr>\<rparr>"

definition chunk_is_empty :: "update_file_chunk \<Rightarrow> bool" where
  "chunk_is_empty c \<longleftrightarrow> old_lines c = [] \<and> new_lines c = []"

definition last_chunk_empty :: "update_file_chunk list \<Rightarrow> bool" where
  "last_chunk_empty cs = (case last_opt cs of None \<Rightarrow> False | Some c \<Rightarrow> chunk_is_empty c)"

definition msg_unexpected_line :: "ustring \<Rightarrow> ustring" where
  "msg_unexpected_line line =
     lit ''Unexpected line found in update hunk: '' @ squote @ line @ squote @
     lit ''. Every line should start with '' @ squote @ lit '' '' @ squote @
     lit '' (context line), '' @ squote @ lit ''+'' @ squote @ lit '' (added line), or '' @
     squote @ lit ''-'' @ squote @ lit '' (removed line)''"

definition msg_expected_context :: "ustring \<Rightarrow> ustring" where
  "msg_expected_context line =
     lit ''Expected update hunk to start with a @@ context marker, got: '' @
     squote @ line @ squote"

definition msg_no_lines :: ustring where
  "msg_no_lines = lit ''Update hunk does not contain any lines''"

definition msg_empty_update :: "ustring \<Rightarrow> ustring" where
  "msg_empty_update path =
     lit ''Update file hunk for path '' @ squote @ path @ squote @ lit '' is empty''"

definition msg_bad_header :: "ustring \<Rightarrow> ustring" where
  "msg_bad_header trimmed =
     squote @ trimmed @ squote @ lit '' is not a valid hunk header. Valid hunk headers: '' @
     squote @ lit ''*** Add File: {path}'' @ squote @ lit '', '' @
     squote @ lit ''*** Delete File: {path}'' @ squote @ lit '', '' @
     squote @ lit ''*** Update File: {path}'' @ squote"

definition msg_first_line :: ustring where
  "msg_first_line =
     lit ''The first line of the patch must be '' @ squote @ BEGIN_PATCH_MARKER @ squote"

definition msg_last_line :: ustring where
  "msg_last_line =
     lit ''The last line of the patch must be '' @ squote @ END_PATCH_MARKER @ squote"

definition ensure_update_hunk_is_not_empty ::
    "streaming_patch_parser \<Rightarrow> ustring \<Rightarrow> parse_error + unit" where
  "ensure_update_hunk_is_not_empty p line =
     (case last_opt (phunks p) of
        Some (UpdateFile path move_path chunks) \<Rightarrow>
          (case (chunks, pmode p) of
             ([], ModeUpdateFile hunk_line_number) \<Rightarrow>
               Inl (InvalidHunkError (msg_empty_update path) hunk_line_number)
           | _ \<Rightarrow>
               (if last_chunk_empty chunks then
                  (if line = END_PATCH_MARKER
                   then Inl (InvalidHunkError msg_no_lines (line_number p))
                   else Inl (InvalidHunkError (msg_unexpected_line line) (line_number p)))
                else Inr ()))
      | _ \<Rightarrow> Inr ())"

definition handle_hunk_headers_and_end_patch ::
    "streaming_patch_parser \<Rightarrow> ustring \<Rightarrow> parse_error + (streaming_patch_parser \<times> bool)" where
  "handle_hunk_headers_and_end_patch p trimmed =
     (case (if pmode p = StartedPatch then strip_prefix trimmed ENVIRONMENT_ID_MARKER else None) of
        Some env_text \<Rightarrow>
          (if sp_environment_id (sp_state p) \<noteq> None then
             Inl (InvalidPatchError
               (lit ''apply_patch environment_id cannot be specified more than once''))
           else if trim env_text = [] then
             Inl (InvalidPatchError (lit ''apply_patch environment_id cannot be empty''))
           else
             Inr (p\<lparr>sp_state := (sp_state p)\<lparr>sp_environment_id := Some (trim env_text)\<rparr>\<rparr>, True))
      | None \<Rightarrow>
        if trimmed = END_PATCH_MARKER then
          and_then (ensure_update_hunk_is_not_empty p trimmed)
            (\<lambda>_. Inr (set_mode p EndedPatch, True))
        else (case strip_prefix trimmed ADD_FILE_MARKER of
          Some path \<Rightarrow>
            and_then (ensure_update_hunk_is_not_empty p trimmed)
              (\<lambda>_. Inr (push_hunk p (AddFile path []) ModeAddFile, True))
        | None \<Rightarrow>
          (case strip_prefix trimmed DELETE_FILE_MARKER of
            Some path \<Rightarrow>
              and_then (ensure_update_hunk_is_not_empty p trimmed)
                (\<lambda>_. Inr (push_hunk p (DeleteFile path) ModeDeleteFile, True))
          | None \<Rightarrow>
            (case strip_prefix trimmed UPDATE_FILE_MARKER of
              Some path \<Rightarrow>
                and_then (ensure_update_hunk_is_not_empty p trimmed)
                  (\<lambda>_. Inr (push_hunk p (UpdateFile path None [])
                              (ModeUpdateFile (line_number p)), True))
            | None \<Rightarrow> Inr (p, False)))))"

definition empty_chunk :: update_file_chunk where
  "empty_chunk =
     \<lparr> change_context = None, old_lines = [], new_lines = [], is_end_of_file = False \<rparr>"

definition last_chunk_eof :: "update_file_chunk list \<Rightarrow> bool" where
  "last_chunk_eof cs = (case last_opt cs of None \<Rightarrow> False | Some c \<Rightarrow> is_end_of_file c)"

definition last_chunk_nonempty :: "update_file_chunk list \<Rightarrow> bool" where
  "last_chunk_nonempty cs = (case last_opt cs of None \<Rightarrow> False | Some c \<Rightarrow> \<not> chunk_is_empty c)"

text \<open>Writing through the \<open>last\_mut()\<close> reference to the update hunk, and the mode assignment
  that follows it in every branch.\<close>

definition put_update ::
    "streaming_patch_parser \<Rightarrow> nat \<Rightarrow> ustring \<Rightarrow> ustring option \<Rightarrow> update_file_chunk list \<Rightarrow>
     streaming_patch_parser" where
  "put_update p n path move_path chunks =
     p\<lparr>sp_state := (sp_state p)\<lparr>sp_hunks := butlast (phunks p) @ [UpdateFile path move_path chunks],
        sp_mode := ModeUpdateFile n\<rparr>\<rparr>"

text \<open>Appending a diff line: a first chunk is created when there is none.\<close>

definition push_change ::
    "ustring list \<Rightarrow> ustring list \<Rightarrow> update_file_chunk list \<Rightarrow> update_file_chunk list" where
  "push_change old new chunks =
     update_last (\<lambda>c. c\<lparr>old_lines := old_lines c @ old, new_lines := new_lines c @ new\<rparr>)
       (if chunks = [] then [empty_chunk] else chunks)"

definition is_context_marker :: "ustring \<Rightarrow> bool" where
  "is_context_marker update_line \<longleftrightarrow>
     update_line = EMPTY_CHANGE_CONTEXT_MARKER \<or> starts_with update_line CHANGE_CONTEXT_MARKER"

text \<open>The rest of the update branch, for a line that is no header, move or context marker.\<close>

definition process_change_line ::
    "streaming_patch_parser \<Rightarrow> nat \<Rightarrow> ustring \<Rightarrow> ustring option \<Rightarrow> update_file_chunk list \<Rightarrow>
     ustring \<Rightarrow> parse_error + streaming_patch_parser" where
  "process_change_line p n path move_path chunks line =
     (let put = put_update p n path move_path;
          err = (\<lambda>msg. Inl (InvalidHunkError msg (line_number p)))
      in
      if trim_end line = EOF_MARKER then
        (if last_chunk_empty chunks then err msg_no_lines
         else Inr (put (update_last (\<lambda>c. c\<lparr>is_end_of_file := True\<rparr>) chunks)))
      else if line = [] then Inr (put (push_change [[]] [[]] chunks))
      else (case strip_prefix line (lit '' '') of
        Some l \<Rightarrow> Inr (put (push_change [l] [l] chunks))
      | None \<Rightarrow>
        (case strip_prefix line (lit ''+'') of
          Some l \<Rightarrow> Inr (put (push_change [] [l] chunks))
        | None \<Rightarrow>
          (case strip_prefix line (lit ''-'') of
            Some l \<Rightarrow> Inr (put (push_change [l] [] chunks))
          | None \<Rightarrow>
            if last_chunk_nonempty chunks then err (msg_expected_context line)
            else err (msg_unexpected_line line)))))"

definition process_update_body ::
    "streaming_patch_parser \<Rightarrow> nat \<Rightarrow> ustring \<Rightarrow> ustring option \<Rightarrow> update_file_chunk list \<Rightarrow>
     ustring \<Rightarrow> parse_error + streaming_patch_parser" where
  "process_update_body p n path move_path chunks line =
     (let update_line = trim_end line;
          put = put_update p n path;
          err = (\<lambda>msg. Inl (InvalidHunkError msg (line_number p)))
      in
      if last_chunk_eof chunks \<and> update_line = [] then Inr p
      else if last_chunk_eof chunks \<and> \<not> is_context_marker update_line then
        err (msg_expected_context line)
      else (case (if chunks = [] \<and> move_path = None
                  then strip_prefix update_line MOVE_TO_MARKER else None) of
        Some move_to_path \<Rightarrow> Inr (put (Some move_to_path) chunks)
      | None \<Rightarrow>
        if is_context_marker update_line \<and> last_chunk_empty chunks then
          err (msg_unexpected_line line)
        else if update_line = EMPTY_CHANGE_CONTEXT_MARKER then
          Inr (put move_path (chunks @ [empty_chunk]))
        else (case strip_prefix update_line CHANGE_CONTEXT_MARKER of
          Some ctx \<Rightarrow> Inr (put move_path (chunks @ [empty_chunk\<lparr>change_context := Some ctx\<rparr>]))
        | None \<Rightarrow> process_change_line p n path move_path chunks line)))"

definition append_add_line :: "streaming_patch_parser \<Rightarrow> ustring \<Rightarrow> streaming_patch_parser" where
  "append_add_line p l =
     p\<lparr>sp_state := (sp_state p)\<lparr>sp_hunks :=
        update_last (\<lambda>h. case h of AddFile path contents \<Rightarrow> AddFile path (contents @ l @ [newline])
                                 | _ \<Rightarrow> h) (phunks p)\<rparr>\<rparr>"

definition process_line ::
    "streaming_patch_parser \<Rightarrow> ustring \<Rightarrow> parse_error + streaming_patch_parser" where
  "process_line p line =
     (let trimmed = trim line;
          bad_header = Inl (InvalidHunkError (msg_bad_header trimmed) (line_number p))
      in case pmode p of
        NotStarted \<Rightarrow>
          (if trimmed = BEGIN_PATCH_MARKER then Inr (set_mode p StartedPatch)
           else Inl (InvalidPatchError msg_first_line))
      | StartedPatch \<Rightarrow>
          and_then (handle_hunk_headers_and_end_patch p trimmed)
            (\<lambda>(p', handled). if handled then Inr p' else bad_header)
      | ModeAddFile \<Rightarrow>
          and_then (handle_hunk_headers_and_end_patch p trimmed)
            (\<lambda>(p', handled).
               if handled then Inr p'
               else (case (strip_prefix line (lit ''+''), last_opt (phunks p')) of
                       (Some l, Some (AddFile path contents)) \<Rightarrow> Inr (append_add_line p' l)
                     | _ \<Rightarrow> bad_header))
      | ModeDeleteFile \<Rightarrow>
          and_then (handle_hunk_headers_and_end_patch p trimmed)
            (\<lambda>(p', handled). if handled then Inr p' else bad_header)
      | ModeUpdateFile hunk_line_number \<Rightarrow>
          and_then (handle_hunk_headers_and_end_patch p (trim_end line))
            (\<lambda>(p', handled).
               if handled then Inr p'
               else (case last_opt (phunks p') of
                       Some (UpdateFile path move_path chunks) \<Rightarrow>
                         process_update_body p' hunk_line_number path move_path chunks line
                     | _ \<Rightarrow> Inl (InvalidHunkError (msg_unexpected_line line) (line_number p'))))
      | EndedPatch \<Rightarrow>
          (if trimmed = [] then Inr p else Inl (InvalidPatchError msg_last_line)))"

definition take_line :: "streaming_patch_parser \<Rightarrow> streaming_patch_parser" where
  "take_line p = p\<lparr>line_buffer := [], line_number := Suc (line_number p)\<rparr>"

definition strip_cr :: "ustring \<Rightarrow> ustring" where
  "strip_cr l = (case strip_suffix l [carriage_return] of None \<Rightarrow> l | Some l' \<Rightarrow> l')"

fun push_chars ::
    "streaming_patch_parser \<Rightarrow> ustring \<Rightarrow> streaming_patch_parser \<times> (parse_error + unit)" where
  "push_chars p [] = (p, Inr ())"
| "push_chars p (ch # s) =
     (if ch = newline then
        (case process_line (take_line p) (strip_cr (line_buffer p)) of
           Inl e \<Rightarrow> (take_line p, Inl e)
         | Inr p' \<Rightarrow> push_chars p' s)
      else push_chars (p\<lparr>line_buffer := line_buffer p @ [ch]\<rparr>) s)"

definition push_delta ::
    "streaming_patch_parser \<Rightarrow> ustring \<Rightarrow> streaming_patch_parser \<times> (parse_error + hunk list)" where
  "push_delta p delta =
     (case push_chars p delta of
        (p', Inl e) \<Rightarrow> (p', Inl e)
      | (p', Inr _) \<Rightarrow> (p', Inr (phunks p')))"

definition finish_last_line ::
    "streaming_patch_parser \<Rightarrow> streaming_patch_parser \<times> (parse_error + unit)" where
  "finish_last_line p =
     (if line_buffer p = [] then (p, Inr ())
      else
        let line = line_buffer p; p1 = take_line p
        in if trim line = END_PATCH_MARKER then
             (case ensure_update_hunk_is_not_empty p1 (trim line) of
                Inl e \<Rightarrow> (p1, Inl e)
              | Inr _ \<Rightarrow> (set_mode p1 EndedPatch, Inr ()))
           else
             (case process_line p1 line of
                Inl e \<Rightarrow> (p1, Inl e)
              | Inr p2 \<Rightarrow> (p2, Inr ())))"

definition finish :: "streaming_patch_parser \<Rightarrow> streaming_patch_parser \<times> (parse_error + hunk list)" where
  "finish p =
     (case finish_last_line p of
        (p', Inl e) \<Rightarrow> (p', Inl e)
      | (p', Inr _) \<Rightarrow>
          (if pmode p' = EndedPatch then (p', Inr (phunks p'))
           else (p', Inl (InvalidPatchError msg_last_line))))"

section \<open>Parsing a complete patch\<close>

record apply_patch_args =
  args_patch :: ustring
  args_hunks :: "hunk list"
  args_workdir :: "ustring option"
  args_environment_id :: "ustring option"

datatype parse_mode = Strict | Lenient

definition PARSE_IN_STRICT_MODE :: bool where
  "PARSE_IN_STRICT_MODE = False"

definition check_start_and_end_lines_strict ::
    "ustring option \<Rightarrow> ustring option \<Rightarrow> parse_error + unit" where
  "check_start_and_end_lines_strict first_line last_line =
     (case (map_option trim first_line, map_option trim last_line) of
        (Some first, Some final) \<Rightarrow>
          (if first = BEGIN_PATCH_MARKER \<and> final = END_PATCH_MARKER then Inr ()
           else if first \<noteq> BEGIN_PATCH_MARKER then Inl (InvalidPatchError msg_first_line)
           else Inl (InvalidPatchError msg_last_line))
      | (Some first, None) \<Rightarrow>
          (if first \<noteq> BEGIN_PATCH_MARKER then Inl (InvalidPatchError msg_first_line)
           else Inl (InvalidPatchError msg_last_line))
      | (None, _) \<Rightarrow> Inl (InvalidPatchError msg_last_line))"

definition check_patch_boundaries_strict :: "ustring list \<Rightarrow> parse_error + ustring list" where
  "check_patch_boundaries_strict ls =
     and_then
       (check_start_and_end_lines_strict
          (case ls of [] \<Rightarrow> None | l # _ \<Rightarrow> Some l) (last_opt ls))
       (\<lambda>_. Inr ls)"

definition check_patch_boundaries_lenient :: "ustring list \<Rightarrow> parse_error + ustring list" where
  "check_patch_boundaries_lenient original_lines =
     (case check_patch_boundaries_strict original_lines of
        Inr ls \<Rightarrow> Inr ls
      | Inl original_parse_error \<Rightarrow>
          (case original_lines of
             first # second # rest \<Rightarrow>
               (if (first = lit ''<<EOF'' \<or>
                    first = lit ''<<'' @ squote @ lit ''EOF'' @ squote \<or>
                    first = lit ''<<'' @ dquote @ lit ''EOF'' @ dquote) \<and>
                   ends_with (last original_lines) (lit ''EOF'') \<and>
                   4 \<le> length original_lines
                then check_patch_boundaries_strict (butlast (second # rest))
                else Inl original_parse_error)
           | _ \<Rightarrow> Inl original_parse_error))"

definition parse_patch_text :: "ustring \<Rightarrow> parse_mode \<Rightarrow> parse_error + apply_patch_args" where
  "parse_patch_text patch mode =
     (let ls = str_lines (trim patch)
      in and_then (case mode of Strict \<Rightarrow> check_patch_boundaries_strict ls
                             | Lenient \<Rightarrow> check_patch_boundaries_lenient ls)
        (\<lambda>patch_lines.
           let patch' = join [newline] patch_lines
           in case push_delta default_parser patch' of
                (p, Inl e) \<Rightarrow> Inl e
              | (p, Inr _) \<Rightarrow>
                  (case finish p of
                     (p', Inl e) \<Rightarrow> Inl e
                   | (p', Inr hs) \<Rightarrow>
                       Inr \<lparr> args_patch = patch', args_hunks = hs, args_workdir = None,
                             args_environment_id = sp_environment_id (sp_state p') \<rparr>)))"

definition parse_patch :: "ustring \<Rightarrow> parse_error + apply_patch_args" where
  "parse_patch patch =
     parse_patch_text patch (if PARSE_IN_STRICT_MODE then Strict else Lenient)"

section \<open>Incremental delivery\<close>

lemma push_chars_append:
  "push_chars p (a @ b) =
     (case push_chars p a of (p', Inl e) \<Rightarrow> (p', Inl e) | (p', Inr _) \<Rightarrow> push_chars p' b)"
  by (induction p a rule: push_chars.induct) (auto split: sum.splits)

section \<open>The parser invariant\<close>

text \<open>A finished hunk: an added file consists of complete lines, an updated file has at least one
  chunk and every chunk removes or adds a line.\<close>

fun hunk_complete :: "hunk \<Rightarrow> bool" where
  "hunk_complete (AddFile path contents) \<longleftrightarrow> contents = [] \<or> last contents = newline"
| "hunk_complete (DeleteFile path) \<longleftrightarrow> True"
| "hunk_complete (UpdateFile path move_path chunks) \<longleftrightarrow>
     chunks \<noteq> [] \<and> (\<forall>c \<in> set chunks. \<not> chunk_is_empty c)"

definition mode_inv :: "streaming_patch_parser \<Rightarrow> bool" where
  "mode_inv p \<longleftrightarrow>
     (case pmode p of
        NotStarted \<Rightarrow> phunks p = []
      | StartedPatch \<Rightarrow> phunks p = []
      | ModeAddFile \<Rightarrow>
          (\<exists>path contents. last_opt (phunks p) = Some (AddFile path contents) \<and>
             (contents = [] \<or> last contents = newline))
      | ModeDeleteFile \<Rightarrow> (\<exists>path. last_opt (phunks p) = Some (DeleteFile path))
      | ModeUpdateFile n \<Rightarrow>
          n \<le> line_number p \<and>
          (\<exists>path move_path chunks. last_opt (phunks p) = Some (UpdateFile path move_path chunks) \<and>
             (\<forall>c \<in> set (butlast chunks). \<not> chunk_is_empty c))
      | EndedPatch \<Rightarrow> (\<forall>h \<in> set (phunks p). hunk_complete h))"

definition environment_ok :: "streaming_patch_parser \<Rightarrow> bool" where
  "environment_ok p \<longleftrightarrow>
     (case sp_environment_id (sp_state p) of None \<Rightarrow> True | Some e \<Rightarrow> e \<noteq> [] \<and> trim e = e)"

definition parser_inv :: "streaming_patch_parser \<Rightarrow> bool" where
  "parser_inv p \<longleftrightarrow>
     (\<forall>h \<in> set (butlast (phunks p)). hunk_complete h) \<and> mode_inv p \<and> environment_ok p"

lemmas parser_state_defs = set_mode_def push_hunk_def put_update_def append_add_line_def take_line_def

lemma last_chunk_simps [simp]:
  "\<not> last_chunk_empty []" "last_chunk_empty (cs @ [c]) = chunk_is_empty c"
  "\<not> last_chunk_nonempty []" "last_chunk_nonempty (cs @ [c]) = (\<not> chunk_is_empty c)"
  "\<not> last_chunk_eof []" "last_chunk_eof (cs @ [c]) = is_end_of_file c"
  "last_chunk_empty [c] = chunk_is_empty c" "last_chunk_eof [c] = is_end_of_file c"
  by (simp_all add: last_chunk_empty_def last_chunk_nonempty_def last_chunk_eof_def)

lemma butlast_all_last:
  "xs \<noteq> [] \<Longrightarrow> (\<forall>x \<in> set (butlast xs). P x) \<Longrightarrow> P (last xs) \<Longrightarrow> \<forall>x \<in> set xs. P x"
  by (cases xs rule: rev_cases) auto

lemma ensure_complete:
  assumes inv: "parser_inv p" and ok: "ensure_update_hunk_is_not_empty p line = Inr ()"
  shows "\<forall>h \<in> set (phunks p). hunk_complete h"
proof (cases "phunks p" rule: rev_cases)
  case Nil
  then show ?thesis by simp
next
  case (snoc hs h)
  have "hunk_complete h"
  proof (cases h)
    case (UpdateFile path move_path chunks)
    show ?thesis
    proof (cases "pmode p")
      case (ModeUpdateFile n)
      then have "\<forall>c \<in> set (butlast chunks). \<not> chunk_is_empty c"
        using inv snoc UpdateFile by (simp add: parser_inv_def mode_inv_def)
      moreover have "chunks \<noteq> [] \<and> \<not> last_chunk_empty chunks"
        using ok snoc UpdateFile ModeUpdateFile
        by (cases chunks) (auto simp: ensure_update_hunk_is_not_empty_def split: if_splits)
      ultimately show ?thesis
        using UpdateFile by (cases chunks rule: rev_cases) auto
    qed (use inv snoc UpdateFile in \<open>auto simp: parser_inv_def mode_inv_def\<close>)
  qed (use inv snoc in \<open>auto simp: parser_inv_def mode_inv_def split: streaming_parser_mode.splits\<close>)
  then show ?thesis using inv snoc by (auto simp: parser_inv_def)
qed

text \<open>The outcomes of \<^const>\<open>handle_hunk_headers_and_end_patch\<close>.\<close>

lemma handle_cases:
  assumes "handle_hunk_headers_and_end_patch p t = Inr (p', handled)"
  obtains
    (unhandled) "\<not> handled" "p' = p"
  | (environment) e where "handled" "pmode p = StartedPatch" "trim e \<noteq> []"
      "p' = p\<lparr>sp_state := (sp_state p)\<lparr>sp_environment_id := Some (trim e)\<rparr>\<rparr>"
  | (ended) "handled" "ensure_update_hunk_is_not_empty p t = Inr ()" "p' = set_mode p EndedPatch"
  | (hunk) h m where "handled" "ensure_update_hunk_is_not_empty p t = Inr ()"
      "p' = push_hunk p h m"
      "(\<exists>path. h = AddFile path [] \<and> m = ModeAddFile) \<or>
       (\<exists>path. h = DeleteFile path \<and> m = ModeDeleteFile) \<or>
       (\<exists>path. h = UpdateFile path None [] \<and> m = ModeUpdateFile (line_number p))"
proof (cases "if pmode p = StartedPatch then strip_prefix t ENVIRONMENT_ID_MARKER else None")
  case (Some e)
  with assms show thesis
    by (intro environment [of e])
       (auto simp: handle_hunk_headers_and_end_patch_def split: if_splits)
next
  case None
  note eq = assms [unfolded handle_hunk_headers_and_end_patch_def None option.case]
  show thesis
  proof (cases "t = END_PATCH_MARKER")
    case True
    with eq show thesis by (auto simp: and_then_Inr_iff intro: ended)
  next
    case False
    with eq show thesis
      by (auto simp: and_then_Inr_iff split: option.splits intro: unhandled hunk)
  qed
qed

lemma handle_inv:
  assumes inv: "parser_inv p" and eq: "handle_hunk_headers_and_end_patch p t = Inr (p', handled)"
  shows "parser_inv p'"
  using eq
proof (cases rule: handle_cases)
  case (environment e)
  with inv show ?thesis by (simp add: parser_inv_def mode_inv_def environment_ok_def)
next
  case ended
  then show ?thesis using inv ensure_complete [OF inv]
    by (simp add: parser_inv_def mode_inv_def environment_ok_def set_mode_def)
next
  case (hunk h m)
  then have "\<forall>g \<in> set (phunks p). hunk_complete g" using ensure_complete [OF inv] by simp
  with hunk inv show ?thesis
    by (auto simp: parser_inv_def mode_inv_def environment_ok_def push_hunk_def)
qed (use inv in simp)

lemma handle_unhandled:
  "handle_hunk_headers_and_end_patch p t = Inr (p', False) \<Longrightarrow> p' = p"
  by (erule handle_cases) simp_all

lemma chunk_not_empty_push_change:
  "old \<noteq> [] \<or> new \<noteq> [] \<Longrightarrow> \<not> last_chunk_empty (push_change old new cs)"
  by (cases cs rule: rev_cases) (auto simp: push_change_def chunk_is_empty_def)

lemma butlast_push_change: "butlast (push_change old new cs) = butlast cs"
  by (cases cs rule: rev_cases) (auto simp: push_change_def)

lemma put_update_inv:
  assumes "parser_inv p" and "pmode p = ModeUpdateFile n"
    and "\<forall>c \<in> set (butlast cs). \<not> chunk_is_empty c"
  shows "parser_inv (put_update p n path mv cs)"
  using assms by (auto simp: parser_inv_def mode_inv_def environment_ok_def put_update_def)

lemma all_chunks_nonempty:
  assumes "\<forall>c \<in> set (butlast cs). \<not> chunk_is_empty c" and "\<not> last_chunk_empty cs"
  shows "\<forall>c \<in> set cs. \<not> chunk_is_empty c"
  using assms by (cases cs rule: rev_cases) auto

lemma butlast_update_last [simp]: "butlast (update_last f xs) = butlast xs"
  by (cases xs rule: rev_cases) simp_all

text \<open>The outcomes of one line inside an update hunk.\<close>

lemma process_change_line_cases:
  assumes "process_change_line p n path mv cs line = Inr p'"
  obtains
    (eof) "p' = put_update p n path mv (update_last (\<lambda>c. c\<lparr>is_end_of_file := True\<rparr>) cs)"
  | (change) old new where "p' = put_update p n path mv (push_change old new cs)"
  using assms unfolding process_change_line_def Let_def
  by (auto split: if_splits option.splits)

lemma not_context_marker:
  assumes "\<not> is_context_marker u"
  shows "u \<noteq> EMPTY_CHANGE_CONTEXT_MARKER" and "strip_prefix u CHANGE_CONTEXT_MARKER = None"
  using assms by (auto simp: is_context_marker_def strip_prefix_def)

lemma process_update_body_cases:
  assumes "process_update_body p n path mv cs line = Inr p'"
  obtains
    (ignored) "p' = p"
  | (moved) dest where "cs = []" "p' = put_update p n path (Some dest) cs"
  | (context_line) c where "\<not> last_chunk_empty cs" "p' = put_update p n path mv (cs @ [c])"
  | (line) "process_change_line p n path mv cs line = Inr p'"
proof (cases "is_context_marker (trim_end line)")
  case True
  then have "strip_prefix (trim_end line) CHANGE_CONTEXT_MARKER \<noteq> None"
    if "trim_end line \<noteq> EMPTY_CHANGE_CONTEXT_MARKER"
    using that by (simp add: is_context_marker_def strip_prefix_def)
  with True assms show thesis
    unfolding process_update_body_def Let_def
    by (auto split: option.splits if_splits intro: ignored moved context_line)
next
  case False
  note no = not_context_marker [OF False]
  from assms False no show thesis
    unfolding process_update_body_def Let_def
    by (auto split: option.splits if_splits intro: ignored moved line)
qed

lemma process_update_body_inv:
  assumes inv: "parser_inv p" and m: "pmode p = ModeUpdateFile n"
    and l: "last_opt (phunks p) = Some (UpdateFile path mv cs)"
    and ok: "process_update_body p n path mv cs line = Inr p'"
  shows "parser_inv p'"
proof -
  from inv m l have b: "\<forall>c \<in> set (butlast cs). \<not> chunk_is_empty c"
    by (simp add: parser_inv_def mode_inv_def)
  from ok show ?thesis
  proof (cases rule: process_update_body_cases)
    case (context_line c)
    then show ?thesis
      using put_update_inv [OF inv m, of "cs @ [c]"] all_chunks_nonempty [OF b] by simp
  next
    case line
    then show ?thesis
      by (cases rule: process_change_line_cases)
         (use b in \<open>auto intro!: put_update_inv [OF inv m] simp: butlast_push_change\<close>)
  qed (use inv b in \<open>auto intro!: put_update_inv [OF inv m]\<close>)
qed

lemma append_add_line_inv:
  assumes "parser_inv p" and "pmode p = ModeAddFile"
  shows "parser_inv (append_add_line p l)"
proof -
  from assms obtain hs path contents where "phunks p = hs @ [AddFile path contents]"
    by (auto simp: parser_inv_def mode_inv_def last_opt_Some)
  with assms show ?thesis
    by (simp add: parser_inv_def mode_inv_def environment_ok_def append_add_line_def)
qed

lemma process_line_inv:
  assumes inv: "parser_inv p" and ok: "process_line p line = Inr p'"
  shows "parser_inv p'"
proof (cases "pmode p")
  case NotStarted
  with inv ok show ?thesis
    by (auto simp: process_line_def Let_def parser_inv_def mode_inv_def environment_ok_def
        set_mode_def split: if_splits)
next
  case StartedPatch
  with ok show ?thesis
    by (auto simp: process_line_def Let_def and_then_Inr_iff split: if_splits
        intro: handle_inv [OF inv])
next
  case ModeAddFile
  with ok obtain q b where q: "handle_hunk_headers_and_end_patch p (trim line) = Inr (q, b)"
    and r: "b \<and> p' = q \<or> \<not> b \<and> (\<exists>l. p' = append_add_line q l)"
    by (auto simp: process_line_def Let_def and_then_Inr_iff split: if_splits option.splits hunk.splits)
  show ?thesis
    using r q handle_inv [OF inv q] handle_unhandled [of p "trim line" q] ModeAddFile
    by (cases b) (auto intro: append_add_line_inv)
next
  case ModeDeleteFile
  with ok show ?thesis
    by (auto simp: process_line_def Let_def and_then_Inr_iff split: if_splits
        intro: handle_inv [OF inv])
next
  case (ModeUpdateFile n)
  with ok obtain q b where q: "handle_hunk_headers_and_end_patch p (trim_end line) = Inr (q, b)"
    and r: "b \<and> p' = q \<or> \<not> b \<and> (\<exists>path mv cs. last_opt (phunks q) = Some (UpdateFile path mv cs) \<and>
              process_update_body q n path mv cs line = Inr p')"
    by (auto simp: process_line_def Let_def and_then_Inr_iff split: if_splits option.splits hunk.splits)
  show ?thesis
    using r q handle_inv [OF inv q] handle_unhandled [of p "trim_end line" q] ModeUpdateFile
    by (cases b) (auto intro: process_update_body_inv)
next
  case EndedPatch
  with inv ok show ?thesis by (auto simp: process_line_def Let_def split: if_splits)
qed

lemma take_line_inv: "parser_inv p \<Longrightarrow> parser_inv (take_line p)"
  by (auto simp: parser_inv_def mode_inv_def environment_ok_def take_line_def
      split: streaming_parser_mode.splits)

lemma line_buffer_inv: "parser_inv (p\<lparr>line_buffer := b\<rparr>) \<longleftrightarrow> parser_inv p"
  by (simp add: parser_inv_def mode_inv_def environment_ok_def cong: streaming_parser_mode.case_cong)

lemma push_chars_inv: "parser_inv p \<Longrightarrow> parser_inv (fst (push_chars p s))"
proof (induction p s rule: push_chars.induct)
  case (2 p ch s)
  show ?case
  proof (cases "ch = newline")
    case True
    then show ?thesis
      using 2 take_line_inv [OF "2.prems"] by (auto split: sum.splits dest: process_line_inv)
  qed (use 2 in \<open>simp add: line_buffer_inv\<close>)
qed simp

lemma default_parser_inv: "parser_inv default_parser"
  by (simp add: parser_inv_def mode_inv_def environment_ok_def default_parser_def)

lemma finish_last_line_inv: "parser_inv p \<Longrightarrow> parser_inv (fst (finish_last_line p))"
proof -
  assume inv: "parser_inv p"
  note t = take_line_inv [OF inv]
  have "parser_inv (set_mode (take_line p) EndedPatch)"
    if "ensure_update_hunk_is_not_empty (take_line p) l = Inr ()" for l
    using ensure_complete [OF t that] t
    by (simp add: parser_inv_def mode_inv_def environment_ok_def set_mode_def)
  with inv t show ?thesis
    unfolding finish_last_line_def Let_def
    by (auto split: sum.splits dest: process_line_inv)
qed

text \<open>What \<^const>\<open>finish\<close> returns are finished hunks.\<close>

lemma finish_complete:
  assumes "parser_inv p" and "finish p = (p', Inr hs)"
  shows "\<forall>h \<in> set hs. hunk_complete h" and "parser_inv p'" and "hs = phunks p'"
proof -
  obtain q r where q: "finish_last_line p = (q, r)" by force
  from assms q have "pmode q = EndedPatch" "p' = q" "hs = phunks q"
    by (auto simp: finish_def split: sum.splits if_splits)
  moreover from assms(1) q have "parser_inv q" using finish_last_line_inv by force
  ultimately show "\<forall>h \<in> set hs. hunk_complete h" "parser_inv p'" "hs = phunks p'"
    by (auto simp: parser_inv_def mode_inv_def)
qed

lemma parse_patch_text_Inr:
  assumes "parse_patch_text s m = Inr args"
  obtains p p' where "push_delta default_parser (args_patch args) = (p, Inr (phunks p))"
    and "finish p = (p', Inr (args_hunks args))"
    and "args_environment_id args = sp_environment_id (sp_state p')"
    and "args_workdir args = None"
proof -
  from assms obtain ls where
    "(case push_delta default_parser (join [newline] ls) of (p, Inl e) \<Rightarrow> Inl e
      | (p, Inr _) \<Rightarrow> (case finish p of (p', Inl e) \<Rightarrow> Inl e | (p', Inr hs) \<Rightarrow>
          Inr \<lparr> args_patch = join [newline] ls, args_hunks = hs, args_workdir = None,
                args_environment_id = sp_environment_id (sp_state p') \<rparr>)) = Inr args"
    by (auto simp: parse_patch_text_def Let_def and_then_Inr_iff)
  then show thesis
    by (auto simp: push_delta_def split: prod.splits sum.splits intro!: that)
qed

section \<open>Properties\<close>

text \<open>
  C3. Streaming is transparent: feeding a patch in two pieces ends in the same parser state and
  the same result as feeding it at once, whatever the split point; an error found in the first
  piece is the error of the whole.
\<close>

theorem push_delta_append:
  "push_delta p (a @ b) =
     (case push_delta p a of
        (p', Inl e) \<Rightarrow> (p', Inl e)
      | (p', Inr _) \<Rightarrow> push_delta p' b)"
  unfolding push_delta_def push_chars_append by (auto split: prod.splits sum.splits)

text \<open>
  A patch that parses yields finished hunks only: every update hunk has a chunk, every chunk
  changes or pins at least one line, every added file is a sequence of complete lines, and an
  environment id, if there is one, is non-empty and trimmed.
\<close>

theorem parse_patch_complete:
  assumes "parse_patch s = Inr args"
  shows "(\<forall>h \<in> set (args_hunks args). hunk_complete h) \<and>
    (case args_environment_id args of None \<Rightarrow> True | Some e \<Rightarrow> e \<noteq> [] \<and> trim e = e)"
proof -
  from assms obtain m where "parse_patch_text s m = Inr args" by (auto simp: parse_patch_def)
  then obtain p p' where d: "push_delta default_parser (args_patch args) = (p, Inr (phunks p))"
    and f: "finish p = (p', Inr (args_hunks args))"
    and e: "args_environment_id args = sp_environment_id (sp_state p')"
    by (rule parse_patch_text_Inr)
  from d have "p = fst (push_chars default_parser (args_patch args))"
    by (auto simp: push_delta_def split: prod.splits sum.splits)
  then have "parser_inv p" using push_chars_inv [OF default_parser_inv] by simp
  note c = finish_complete [OF this f]
  show ?thesis using c(1,2) e by (simp add: parser_inv_def environment_ok_def)
qed

end
