(* ===== verification/Executor_FS.thy ===== *)
theory Executor_FS
  imports Rust_Str
begin

text \<open>
  The interface \<open>ExecutorFileSystem\<close> of \<open>file-system/src/lib.rs\<close>, as far as patches use it.
  The operations are a record over an arbitrary file-system state; each mutating one returns the
  next state together with its \<open>io::Result\<close>, so that an operation may fail after a partial effect.
  The sandbox argument, which callers only hand through, is part of the record.  File texts stand
  for their UTF-8 bytes; contents that are not UTF-8 are \<open>Binary\<close>.  The locale states what the
  patch code relies on.
\<close>

section \<open>Errors and metadata\<close>

datatype io_kind =
    NotFound | AlreadyExists | PermissionDenied | InvalidInput | InvalidData | NotADirectory
  | IsADirectory | DirectoryNotEmpty | FilesystemLoop | OtherKind

datatype io_error = Io io_kind ustring

fun io_error_kind :: "io_error \<Rightarrow> io_kind" where
  "io_error_kind (Io k _) = k"

fun io_error_text :: "io_error \<Rightarrow> ustring" where
  "io_error_text (Io _ m) = m"

datatype file_content = TextContent ustring | Binary

record file_metadata =
  is_directory :: bool
  is_file :: bool
  is_symlink :: bool
  file_size :: nat

section \<open>The operations\<close>

record ('s, 'p) executor_fs =
  read_file_text :: "'s \<Rightarrow> 'p \<Rightarrow> io_error + ustring"
  write_file :: "'s \<Rightarrow> 'p \<Rightarrow> ustring \<Rightarrow> 's \<times> (io_error + unit)"
  create_directory :: "'s \<Rightarrow> 'p \<Rightarrow> bool \<Rightarrow> 's \<times> (io_error + unit)"
  get_metadata :: "'s \<Rightarrow> 'p \<Rightarrow> io_error + file_metadata"
  remove_path :: "'s \<Rightarrow> 'p \<Rightarrow> bool \<Rightarrow> bool \<Rightarrow> 's \<times> (io_error + unit)"

text \<open>The operations of \<open>PathUri\<close> that patches use: \<open>join\<close>, \<open>parent\<close> and
  \<open>inferred\_native\_path\_string\<close>.\<close>

record 'p path_ops =
  path_join :: "'p \<Rightarrow> ustring \<Rightarrow> ustring + 'p"
  path_parent :: "'p \<Rightarrow> 'p option"
  path_native :: "'p \<Rightarrow> ustring"

section \<open>What the clients rely on\<close>

text \<open>\<open>content\<close> is the directory entry at a path: what a regular file there holds, \<open>None\<close> when
  there is no regular file.  \<open>is\_link\<close> says that the entry is a symbolic link; reads and writes go
  through links, so the laws for them are about paths that are not links.\<close>

locale executor_fs_laws =
  fixes ops :: "('s, 'p) executor_fs"
    and content :: "'s \<Rightarrow> 'p \<Rightarrow> file_content option"
    and is_link :: "'s \<Rightarrow> 'p \<Rightarrow> bool"
  assumes read_ok: "\<not> is_link s p \<Longrightarrow> read_file_text ops s p = Inr t \<Longrightarrow> content s p = Some (TextContent t)"
    and read_missing: "\<not> is_link s p \<Longrightarrow> read_file_text ops s p = Inl e \<Longrightarrow>
      io_error_kind e = NotFound \<Longrightarrow> content s p = None"
    and write_ok: "\<not> is_link s p \<Longrightarrow> write_file ops s p t = (s', Inr ()) \<Longrightarrow>
      content s' = (content s)(p := Some (TextContent t))"
    and write_missing_parent: "write_file ops s p t = (s', Inl e) \<Longrightarrow> io_error_kind e = NotFound \<Longrightarrow>
      content s' = content s"
    and create_directory_content: "create_directory ops s p rec = (s', r) \<Longrightarrow> content s' = content s"
    and remove_ok: "remove_path ops s p False False = (s', Inr ()) \<Longrightarrow> content s' = (content s)(p := None)"
    and remove_failed: "remove_path ops s p False False = (s', Inl e) \<Longrightarrow> q \<noteq> p \<Longrightarrow>
      content s' q = content s q"
    and remove_failed_target: "remove_path ops s p False False = (s', Inl e) \<Longrightarrow>
      content s' p = content s p \<or> content s' p = None"
    and write_links: "write_file ops s p t = (s', r) \<Longrightarrow> is_link s' q \<Longrightarrow> is_link s q"
    and create_directory_links: "create_directory ops s p rec = (s', r) \<Longrightarrow> is_link s' q \<Longrightarrow> is_link s q"
    and remove_links: "remove_path ops s p f g = (s', r) \<Longrightarrow> is_link s' q \<Longrightarrow> is_link s q"

end
