(* ===== verification/Patch_Replace.thy ===== *)
theory Patch_Replace
  imports Seek_Sequence Patch_Parser Executor_FS
begin

text \<open>
  The text level of \<open>apply-patch/src/lib.rs\<close>: locating the chunks of an update hunk in the
  lines of a file (\<open>compute\_replacements\<close>), rewriting the lines (\<open>apply\_replacements\<close>)
  and rebuilding the contents (the pure part of \<open>derive\_new\_contents\_from\_chunks\<close>).
  \<open>Vec::insert\<close> panics when the index is past the end; the model keeps that as
  \<open>VecInsertPanic\<close>, and the lemmas show that it does not happen.
\<close>

section \<open>Errors\<close>

datatype apply_patch_error =
    ParseError parse_error
  | IoError ustring io_error
  | ComputeReplacements ustring
  | PathUriError ustring
  | ImplicitInvocation
  | VecInsertPanic

section \<open>Locating the chunks\<close>

type_synonym replacement = "nat \<times> nat \<times> ustring list"

definition seek_context ::
    "ustring list \<Rightarrow> ustring \<Rightarrow> update_file_chunk \<Rightarrow> nat \<Rightarrow> apply_patch_error + nat" where
  "seek_context original_lines path chunk line_index =
     (case change_context chunk of
        None \<Rightarrow> Inr line_index
      | Some ctx_line \<Rightarrow>
          (case seek_sequence original_lines [ctx_line] line_index False of
             Some idx \<Rightarrow> Inr (idx + 1)
           | None \<Rightarrow>
               Inl (ComputeReplacements
                 (lit ''Failed to find context '' @ squote @ ctx_line @ squote @ lit '' in '' @ path))))"

definition insertion_index :: "ustring list \<Rightarrow> nat" where
  "insertion_index original_lines =
     (if last_opt original_lines = Some [] then length original_lines - 1
      else length original_lines)"

text \<open>The search for the old lines, with the retry that drops a trailing empty line.\<close>

definition locate_chunk ::
    "ustring list \<Rightarrow> update_file_chunk \<Rightarrow> nat \<Rightarrow> replacement option" where
  "locate_chunk original_lines chunk line_index =
     (let pattern = old_lines chunk;
          found = seek_sequence original_lines pattern line_index (is_end_of_file chunk);
          new_slice = new_lines chunk
      in if found = None \<and> last_opt pattern = Some [] then
           let pattern' = butlast pattern;
               new_slice' = (if last_opt new_slice = Some [] then butlast new_slice else new_slice)
           in map_option (\<lambda>start_idx. (start_idx, length pattern', new_slice'))
                (seek_sequence original_lines pattern' line_index (is_end_of_file chunk))
         else map_option (\<lambda>start_idx. (start_idx, length pattern, new_slice)) found)"

fun compute_loop ::
    "ustring list \<Rightarrow> ustring \<Rightarrow> update_file_chunk list \<Rightarrow> nat \<Rightarrow> replacement list \<Rightarrow>
     apply_patch_error + replacement list" where
  "compute_loop original_lines path [] line_index replacements = Inr replacements"
| "compute_loop original_lines path (chunk # chunks) line_index replacements =
     and_then (seek_context original_lines path chunk line_index)
       (\<lambda>line_index.
          if old_lines chunk = [] then
            compute_loop original_lines path chunks line_index
              (replacements @ [(insertion_index original_lines, 0, new_lines chunk)])
          else
            (case locate_chunk original_lines chunk line_index of
               Some (start_idx, old_len, new_slice) \<Rightarrow>
                 compute_loop original_lines path chunks (start_idx + old_len)
                   (replacements @ [(start_idx, old_len, new_slice)])
             | None \<Rightarrow>
                 Inl (ComputeReplacements
                   (lit ''Failed to find expected lines in '' @ path @ lit '':'' @ [newline] @
                    join [newline] (old_lines chunk)))))"

definition compute_replacements ::
    "ustring list \<Rightarrow> ustring \<Rightarrow> update_file_chunk list \<Rightarrow> apply_patch_error + replacement list" where
  "compute_replacements original_lines path chunks =
     and_then (compute_loop original_lines path chunks 0 [])
       (\<lambda>replacements. Inr (sort_key fst replacements))"

section \<open>Rewriting the lines\<close>

fun remove_lines :: "nat \<Rightarrow> nat \<Rightarrow> 'a list \<Rightarrow> 'a list" where
  "remove_lines start_idx 0 ls = ls"
| "remove_lines start_idx (Suc n) ls =
     remove_lines start_idx n
       (if start_idx < length ls then take start_idx ls @ drop (Suc start_idx) ls else ls)"

definition vec_insert :: "nat \<Rightarrow> 'a \<Rightarrow> 'a list \<Rightarrow> 'a list option" where
  "vec_insert i x xs = (if i \<le> length xs then Some (take i xs @ x # drop i xs) else None)"

fun insert_lines :: "nat \<Rightarrow> nat \<Rightarrow> 'a list \<Rightarrow> 'a list \<Rightarrow> 'a list option" where
  "insert_lines start_idx offset [] ls = Some ls"
| "insert_lines start_idx offset (x # xs) ls =
     (case vec_insert (start_idx + offset) x ls of
        None \<Rightarrow> None
      | Some ls' \<Rightarrow> insert_lines start_idx (Suc offset) xs ls')"

fun apply_replacement :: "replacement \<Rightarrow> ustring list \<Rightarrow> ustring list option" where
  "apply_replacement (start_idx, old_len, new_segment) ls =
     insert_lines start_idx 0 new_segment (remove_lines start_idx old_len ls)"

fun apply_each :: "replacement list \<Rightarrow> ustring list \<Rightarrow> ustring list option" where
  "apply_each [] ls = Some ls"
| "apply_each (r # rs) ls =
     (case apply_replacement r ls of None \<Rightarrow> None | Some ls' \<Rightarrow> apply_each rs ls')"

definition apply_replacements :: "ustring list \<Rightarrow> replacement list \<Rightarrow> ustring list option" where
  "apply_replacements ls replacements = apply_each (rev replacements) ls"

section \<open>Rebuilding the contents\<close>

definition file_lines :: "ustring \<Rightarrow> ustring list" where
  "file_lines contents =
     (let ls = split_on newline contents
      in if last_opt ls = Some [] then butlast ls else ls)"

definition lines_contents :: "ustring list \<Rightarrow> ustring" where
  "lines_contents ls =
     join [newline] (if last_opt ls = Some [] then ls else ls @ [[]])"

definition new_contents_from_chunks ::
    "ustring \<Rightarrow> ustring \<Rightarrow> update_file_chunk list \<Rightarrow> apply_patch_error + ustring" where
  "new_contents_from_chunks original_contents path_text chunks =
     and_then (compute_replacements (file_lines original_contents) path_text chunks)
       (\<lambda>replacements.
          case apply_replacements (file_lines original_contents) replacements of
            None \<Rightarrow> Inl VecInsertPanic
          | Some ls \<Rightarrow> Inr (lines_contents ls))"

section \<open>The primitive edits\<close>

lemma remove_lines_eq: "remove_lines i n xs = take i xs @ drop (i + n) xs"
proof (induction i n xs rule: remove_lines.induct)
  case (2 i n xs)
  show ?case
  proof (cases "i < length xs")
    case True
    then have "take i (take i xs @ drop (Suc i) xs) @ drop (i + n) (take i xs @ drop (Suc i) xs)
        = take i xs @ drop (i + Suc n) xs"
      by (simp add: min_def add.commute)
    with True 2 show ?thesis by simp
  next
    case False
    with 2 show ?thesis by simp
  qed
qed simp

lemma insert_lines_eq:
  "i + k \<le> length xs \<Longrightarrow> insert_lines i k ys xs = Some (take (i + k) xs @ ys @ drop (i + k) xs)"
proof (induction ys arbitrary: k xs)
  case (Cons y ys)
  let ?xs = "take (i + k) xs @ y # drop (i + k) xs"
  have "insert_lines i (Suc k) ys ?xs = Some (take (i + Suc k) ?xs @ ys @ drop (i + Suc k) ?xs)"
    using Cons.prems by (intro Cons.IH) simp
  moreover have "take (i + Suc k) ?xs = take (i + k) xs @ [y]" "drop (i + Suc k) ?xs = drop (i + k) xs"
    using Cons.prems by (simp_all add: min_def Suc_diff_le)
  ultimately show ?case using Cons.prems by (simp add: vec_insert_def)
qed simp

lemma apply_replacement_eq:
  "s \<le> length xs \<Longrightarrow> apply_replacement (s, n, new) xs = Some (take s xs @ new @ drop (s + n) xs)"
  by (simp add: remove_lines_eq insert_lines_eq)

lemma apply_each_append:
  "apply_each (rs @ rs') xs = (case apply_each rs xs of None \<Rightarrow> None | Some ys \<Rightarrow> apply_each rs' ys)"
  by (induction rs arbitrary: xs) (auto split: option.splits)

lemma apply_replacements_Nil [simp]: "apply_replacements xs [] = Some xs"
  by (simp add: apply_replacements_def)

lemma apply_replacements_Cons:
  "apply_replacements xs (r # rs) =
     (case apply_replacements xs rs of None \<Rightarrow> None | Some ys \<Rightarrow> apply_replacement r ys)"
  by (simp add: apply_replacements_def apply_each_append split: option.splits)

text \<open>Applying the replacements from the last to the first never indexes past the end: what is
  before the smallest start is untouched.\<close>

lemma apply_replacements_prefix:
  assumes "sorted (map fst rs)" and "\<forall>r \<in> set rs. k \<le> fst r \<and> fst r \<le> length xs" and "k \<le> length xs"
  shows "\<exists>ys. apply_replacements xs rs = Some ys \<and> k \<le> length ys \<and> take k ys = take k xs"
  using assms
proof (induction rs arbitrary: k)
  case (Cons r rs)
  obtain s n new where r: "r = (s, n, new)" by (cases r)
  have s: "k \<le> s" "s \<le> length xs" using Cons.prems r by auto
  have "\<forall>q \<in> set rs. s \<le> fst q \<and> fst q \<le> length xs" using Cons.prems r by auto
  moreover have "sorted (map fst rs)" using Cons.prems by simp
  ultimately obtain ys where ys: "apply_replacements xs rs = Some ys" "s \<le> length ys" "take s ys = take s xs"
    using Cons.IH [of s] s by blast
  have "apply_replacements xs (r # rs) = Some (take s ys @ new @ drop (s + n) ys)"
    using ys r by (simp add: apply_replacements_Cons apply_replacement_eq del: apply_replacement.simps)
  moreover have "take k (take s ys @ new @ drop (s + n) ys) = take k xs"
    using s ys by (metis append_take_drop_id diff_is_0_eq take_append take_take min.absorb1
        length_take take0 append_Nil2 min.absorb2)
  moreover have "k \<le> length (take s ys @ new @ drop (s + n) ys)" using s ys by simp
  ultimately show ?case by blast
qed simp

section \<open>What the search returns\<close>

lemma compute_loop_acc:
  "compute_loop ls path cs k reps = and_then (compute_loop ls path cs k []) (\<lambda>out. Inr (reps @ out))"
proof (induction cs arbitrary: k reps)
  case (Cons c cs)
  show ?case
  proof (cases "seek_context ls path c k")
    case (Inr k')
    show ?thesis
    proof (cases "old_lines c = []")
      case True
      let ?r = "(insertion_index ls, 0, new_lines c)"
      show ?thesis using Inr True
        by (simp add: Cons.IH [of k' "reps @ [?r]"] Cons.IH [of k' "[?r]"] and_then_assoc)
    next
      case False
      show ?thesis
      proof (cases "locate_chunk ls c k'")
        case (Some r)
        obtain a b n where "r = (a, b, n)" by (cases r)
        then show ?thesis using Inr False Some
          by (simp add: Cons.IH [of "a + b" "reps @ [(a, b, n)]"] Cons.IH [of "a + b" "[(a, b, n)]"]
              and_then_assoc)
      qed (simp add: Inr False)
    qed
  qed simp
qed simp

text \<open>One iteration that succeeds.\<close>

lemma compute_loop_step:
  assumes "compute_loop ls path (c # cs) k [] = Inr out"
  obtains (insertion) k' out' where "seek_context ls path c k = Inr k'" "old_lines c = []"
      "out = (insertion_index ls, 0, new_lines c) # out'" "compute_loop ls path cs k' [] = Inr out'"
    | (region) k' a b n out' where "seek_context ls path c k = Inr k'" "old_lines c \<noteq> []"
      "locate_chunk ls c k' = Some (a, b, n)" "out = (a, b, n) # out'"
      "compute_loop ls path cs (a + b) [] = Inr out'"
proof -
  from assms obtain k' where k': "seek_context ls path c k = Inr k'"
    by (auto simp: and_then_Inr_iff)
  show thesis
  proof (cases "old_lines c = []")
    case True
    let ?r = "(insertion_index ls, 0, new_lines c)"
    from assms k' True have "compute_loop ls path cs k' [?r] = Inr out" by simp
    then obtain out' where "compute_loop ls path cs k' [] = Inr out'" "out = ?r # out'"
      using compute_loop_acc [of ls path cs k' "[?r]"] by (auto simp: and_then_Inr_iff)
    with k' True show thesis by (intro insertion)
  next
    case False
    with assms k' obtain a b n where l: "locate_chunk ls c k' = Some (a, b, n)"
      and "compute_loop ls path cs (a + b) [(a, b, n)] = Inr out"
      by (auto split: option.splits)
    then obtain out' where "compute_loop ls path cs (a + b) [] = Inr out'" "out = (a, b, n) # out'"
      using compute_loop_acc [of ls path cs "a + b" "[(a, b, n)]"] by (auto simp: and_then_Inr_iff)
    with k' False l show thesis by (intro region)
  qed
qed

lemma seek_context_bounds:
  assumes "seek_context ls path c k = Inr k'"
  shows "k \<le> k'" and "k \<le> length ls \<Longrightarrow> k' \<le> length ls"
proof -
  have "k \<le> k' \<and> (k \<le> length ls \<longrightarrow> k' \<le> length ls)"
  proof (cases "change_context c")
    case (Some x)
    with assms obtain i where i: "seek_sequence ls [x] k False = Some i" "k' = i + 1"
      by (auto simp: seek_context_def split: option.splits)
    from seek_sequence_found [OF i(1)] show ?thesis by (simp add: i(2) seek_from_def)
  qed (use assms in \<open>simp add: seek_context_def\<close>)
  then show "k \<le> k'" "k \<le> length ls \<Longrightarrow> k' \<le> length ls" by auto
qed

lemma seek_old_lines:
  assumes "seek_sequence ls ps k eof = Some i" and "k \<le> length ls"
  shows "i + length ps \<le> length ls" and "lines_match normalise (drop i ls) ps"
    and "\<not> eof \<Longrightarrow> k \<le> i"
proof -
  have "i + length ps \<le> length ls \<and> lines_match normalise (drop i ls) ps \<and> (\<not> eof \<longrightarrow> k \<le> i)"
  proof (cases "ps = []")
    case False
    from seek_sequence_found [OF assms(1) False] show ?thesis by (auto simp: seek_from_def)
  qed (use assms in simp)
  then show "i + length ps \<le> length ls" "lines_match normalise (drop i ls) ps" "\<not> eof \<Longrightarrow> k \<le> i"
    by auto
qed

lemma locate_chunk_found:
  assumes loc: "locate_chunk ls c k = Some (a, b, n)" and k: "k \<le> length ls"
  shows "a + b \<le> length ls" and "lines_match normalise (drop a ls) (take b (old_lines c))"
    and "n = new_lines c \<or> n = butlast (new_lines c)" and "\<not> is_end_of_file c \<Longrightarrow> k \<le> a"
proof -
  from loc consider
      (direct) "seek_sequence ls (old_lines c) k (is_end_of_file c) = Some a" "b = length (old_lines c)"
        "n = new_lines c"
    | (retry) "seek_sequence ls (butlast (old_lines c)) k (is_end_of_file c) = Some a"
        "b = length (butlast (old_lines c))" "n = new_lines c \<or> n = butlast (new_lines c)"
    by (auto simp: locate_chunk_def Let_def split: if_splits)
  then have "a + b \<le> length ls \<and> lines_match normalise (drop a ls) (take b (old_lines c)) \<and>
      (n = new_lines c \<or> n = butlast (new_lines c)) \<and> (\<not> is_end_of_file c \<longrightarrow> k \<le> a)"
  proof cases
    case direct
    then show ?thesis using seek_old_lines [OF direct(1) k] by simp
  next
    case retry
    have "take b (old_lines c) = butlast (old_lines c)" by (simp add: retry(2) butlast_conv_take)
    with retry show ?thesis using seek_old_lines [OF retry(1) k] by simp
  qed
  then show "a + b \<le> length ls" "lines_match normalise (drop a ls) (take b (old_lines c))"
    "n = new_lines c \<or> n = butlast (new_lines c)" "\<not> is_end_of_file c \<Longrightarrow> k \<le> a"
    by auto
qed

lemma insertion_index_le: "insertion_index ls \<le> length ls"
  by (simp add: insertion_index_def)

text \<open>Every replacement stems from a chunk, lies inside the file, and replaces lines that agree with
  the chunk's old lines up to blanks and typographic punctuation.\<close>

definition replaces_chunk :: "ustring list \<Rightarrow> update_file_chunk \<Rightarrow> replacement \<Rightarrow> bool" where
  "replaces_chunk ls c r =
     (case r of (a, b, n) \<Rightarrow>
        a + b \<le> length ls \<and> lines_match normalise (drop a ls) (take b (old_lines c)) \<and>
        (n = new_lines c \<or> n = butlast (new_lines c)))"

lemma compute_loop_replaces:
  "compute_loop ls path cs k [] = Inr out \<Longrightarrow> k \<le> length ls \<Longrightarrow> list_all2 (replaces_chunk ls) cs out"
proof (induction cs arbitrary: k out)
  case (Cons c cs)
  from Cons.prems(1) show ?case
  proof (cases rule: compute_loop_step)
    case (insertion k' out')
    with Cons show ?thesis
      using seek_context_bounds(2) [OF insertion(1)] insertion_index_le [of ls]
      by (auto simp: replaces_chunk_def)
  next
    case (region k' a b n out')
    have k': "k' \<le> length ls" using seek_context_bounds(2) [OF region(1)] Cons.prems(2) by simp
    note f = locate_chunk_found [OF region(3) k']
    from Cons.IH [OF region(5) f(1)] region(4) f show ?thesis
      by (simp add: replaces_chunk_def)
  qed
qed simp

section \<open>Disjoint replacements\<close>

text \<open>The reference meaning of a list of replacements: walk through the file once, copying what is
  between two regions and substituting the regions.\<close>

fun splice_lines :: "nat \<Rightarrow> ustring list \<Rightarrow> replacement list \<Rightarrow> ustring list" where
  "splice_lines pos ls [] = ls"
| "splice_lines pos ls ((a, b, n) # rs) =
     take (a - pos) ls @ n @ splice_lines (a + b) (drop (a + b - pos) ls) rs"

fun disjoint_from :: "nat \<Rightarrow> nat \<Rightarrow> replacement list \<Rightarrow> bool" where
  "disjoint_from pos len [] \<longleftrightarrow> True"
| "disjoint_from pos len ((a, b, n) # rs) \<longleftrightarrow>
     pos \<le> a \<and> a + b \<le> len \<and> disjoint_from (a + b) len rs"

lemma apply_replacements_disjoint:
  "disjoint_from pos (length xs) rs \<Longrightarrow>
   apply_replacements xs rs = Some (take pos xs @ splice_lines pos (drop pos xs) rs)"
proof (induction rs arbitrary: pos)
  case (Cons r rs)
  obtain a b n where r: "r = (a, b, n)" by (cases r)
  let ?T = "splice_lines (a + b) (drop (a + b) xs) rs"
  from Cons.prems r have d: "pos \<le> a" "a + b \<le> length xs" "disjoint_from (a + b) (length xs) rs"
    by auto
  then have "apply_replacements xs rs = Some (take (a + b) xs @ ?T)" by (intro Cons.IH)
  moreover have "apply_replacement (a, b, n) (take (a + b) xs @ ?T) =
      Some (take a (take (a + b) xs @ ?T) @ n @ drop (a + b) (take (a + b) xs @ ?T))"
    using d by (intro apply_replacement_eq) simp
  moreover have "take a (take (a + b) xs @ ?T) = take a xs" "drop (a + b) (take (a + b) xs @ ?T) = ?T"
    using d by (simp_all add: min_def)
  ultimately have "apply_replacements xs (r # rs) = Some (take a xs @ n @ ?T)"
    by (simp add: apply_replacements_Cons r del: apply_replacement.simps)
  moreover have "take pos xs @ take (a - pos) (drop pos xs) = take a xs"
    using d(1) take_add [of pos "a - pos" xs] by simp
  moreover have "drop (a + b - pos) (drop pos xs) = drop (a + b) xs" using d by simp
  ultimately show ?case by (simp add: r)
qed simp

text \<open>The order in which the chunks are found: each region starts after the previous one, and
  additions at the very end may come at any time.\<close>

fun tiled :: "nat \<Rightarrow> nat \<Rightarrow> replacement list \<Rightarrow> bool" where
  "tiled pos len [] \<longleftrightarrow> pos \<le> len"
| "tiled pos len ((a, b, n) # rs) \<longleftrightarrow>
     (a = len \<and> b = 0 \<and> tiled pos len rs) \<or> (pos \<le> a \<and> a + b \<le> len \<and> tiled (a + b) len rs)"

lemma disjoint_insert_end:
  "disjoint_from pos len ds \<Longrightarrow> pos \<le> len \<Longrightarrow> disjoint_from pos len (insort_key fst (len, 0, n) ds)"
  by (induction pos len ds rule: disjoint_from.induct) auto

lemma disjoint_from_start: "disjoint_from pos len ds \<Longrightarrow> r \<in> set ds \<Longrightarrow> pos \<le> fst r"
proof (induction pos len ds rule: disjoint_from.induct)
  case (2 pos len a b n rs)
  then show ?case by (cases "r = (a, b, n)") fastforce+
qed simp

lemma insort_key_front: "(\<forall>y \<in> set ys. f x \<le> f y) \<Longrightarrow> insort_key f x ys = x # ys"
  by (cases ys) simp_all

lemma tiled_sorted: "tiled pos len rs \<Longrightarrow> pos \<le> len \<and> disjoint_from pos len (sort_key fst rs)"
proof (induction pos len rs rule: tiled.induct)
  case (2 pos len a b n rs)
  from "2.prems" consider (last) "a = len" "b = 0" "tiled pos len rs"
    | (region) "pos \<le> a" "a + b \<le> len" "tiled (a + b) len rs" by auto
  then show ?case
  proof cases
    case last
    with 2 show ?thesis by (simp add: disjoint_insert_end)
  next
    case region
    with 2 have d: "disjoint_from (a + b) len (sort_key fst rs)" by simp
    then have "\<forall>r \<in> set (sort_key fst rs). fst (a, b, n) \<le> fst r"
      using disjoint_from_start by fastforce
    with d region show ?thesis by (simp add: insort_key_front)
  qed
qed simp

lemma tiled_mono: "tiled m len rs \<Longrightarrow> j \<le> m \<Longrightarrow> tiled j len rs"
proof (induction rs)
  case (Cons r rs)
  then show ?case by (cases r) (auto dest: le_trans)
qed simp

definition plain_chunks :: "ustring list \<Rightarrow> update_file_chunk list \<Rightarrow> bool" where
  "plain_chunks ls cs \<longleftrightarrow>
     (\<forall>c \<in> set cs. \<not> is_end_of_file c) \<and>
     (last_opt ls = Some [] \<longrightarrow> (\<forall>c \<in> set cs. old_lines c \<noteq> []))"

lemma compute_loop_tiled:
  "compute_loop ls path cs k [] = Inr out \<Longrightarrow> k \<le> length ls \<Longrightarrow> plain_chunks ls cs \<Longrightarrow>
   tiled k (length ls) out"
proof (induction cs arbitrary: k out)
  case (Cons c cs)
  have plain: "plain_chunks ls cs" using Cons.prems(3) by (auto simp: plain_chunks_def)
  from Cons.prems(1) show ?case
  proof (cases rule: compute_loop_step)
    case (insertion k' out')
    have "insertion_index ls = length ls"
      using insertion(2) Cons.prems(3) by (auto simp: insertion_index_def plain_chunks_def)
    moreover have "tiled k' (length ls) out'"
      using Cons.IH [OF insertion(4) _ plain] seek_context_bounds(2) [OF insertion(1)] Cons.prems(2) by simp
    ultimately show ?thesis using insertion(3) tiled_mono seek_context_bounds(1) [OF insertion(1)] by simp
  next
    case (region k' a b n out')
    note kb = seek_context_bounds [OF region(1)]
    have k': "k' \<le> length ls" using kb Cons.prems(2) by simp
    note f = locate_chunk_found [OF region(3) k']
    have "k' \<le> a" using f(4) Cons.prems(3) by (simp add: plain_chunks_def)
    with Cons.IH [OF region(5) f(1) plain] region(4) f(1) kb(1) show ?thesis by simp
  qed
qed simp

lemma compute_replacements_Inr:
  assumes "compute_replacements ls path cs = Inr rs"
  obtains out where "compute_loop ls path cs 0 [] = Inr out" "rs = sort_key fst out"
  using assms by (auto simp: compute_replacements_def and_then_Inr_iff)

lemma seek_context_error:
  "seek_context ls path c k = Inl e \<Longrightarrow> e \<noteq> VecInsertPanic"
  by (auto simp: seek_context_def split: option.splits)

lemma compute_loop_error:
  "compute_loop ls path cs k reps = Inl e \<Longrightarrow> e \<noteq> VecInsertPanic"
proof (induction cs arbitrary: k reps)
  case (Cons c cs)
  show ?case
  proof (cases "seek_context ls path c k")
    case (Inl e')
    with Cons.prems seek_context_error [OF Inl] show ?thesis by simp
  next
    case (Inr k')
    show ?thesis
    proof (cases "locate_chunk ls c k'")
      case None
      with Inr Cons show ?thesis by (cases "old_lines c = []") auto
    next
      case (Some r)
      with Inr Cons show ?thesis by (cases "old_lines c = []"; cases r) simp_all
    qed
  qed
qed simp

lemma apply_computed_replacements:
  assumes "compute_replacements ls path cs = Inr rs"
  shows "\<exists>ys. apply_replacements ls rs = Some ys"
proof -
  obtain out where out: "compute_loop ls path cs 0 [] = Inr out" "rs = sort_key fst out"
    using assms by (rule compute_replacements_Inr)
  have "\<forall>r \<in> set out. fst r \<le> length ls"
  proof
    fix r
    assume "r \<in> set out"
    then obtain c where "replaces_chunk ls c r"
      using compute_loop_replaces [OF out(1)] by (auto simp: list_all2_conv_all_nth in_set_conv_nth)
    then show "fst r \<le> length ls" by (auto simp: replaces_chunk_def)
  qed
  then show ?thesis
    using apply_replacements_prefix [of rs 0 ls] out(2) by auto
qed

section \<open>Properties\<close>

text \<open>Updating a file never panics: whatever the chunks, the indices that
  \<open>compute\_replacements\<close> returns are in range when \<open>apply\_replacements\<close> inserts at them, so an
  update either yields contents or reports which lines it could not find.\<close>

theorem new_contents_no_panic:
  "new_contents_from_chunks contents path cs \<noteq> Inl VecInsertPanic"
proof (cases "compute_replacements (file_lines contents) path cs")
  case (Inl e)
  then have "e \<noteq> VecInsertPanic"
    using compute_loop_error [of "file_lines contents" path cs 0 "[]" e]
    by (auto simp: compute_replacements_def and_then_Inl_iff)
  with Inl show ?thesis by (simp add: new_contents_from_chunks_def)
next
  case (Inr rs)
  with apply_computed_replacements [OF Inr] show ?thesis
    by (auto simp: new_contents_from_chunks_def)
qed


definition abc_file :: ustring where
  "abc_file = lit ''a'' @ [newline] @ lit ''b'' @ [newline] @ lit ''c'' @ [newline]"

definition b_to_x :: update_file_chunk where
  "b_to_x = \<lparr>change_context = Some (lit ''a''), old_lines = [lit ''b''], new_lines = [lit ''x''],
     is_end_of_file = False\<rparr>"


text \<open>The replacements are the chunks of the hunk, one each, sorted by position: every replaced
  region lies inside the file, carries the chunk's new lines (less a trailing empty line that stands
  for the final newline), and its text agrees with the chunk's old lines up to surrounding
  whitespace and typographic punctuation.\<close>

theorem compute_replacements_sound:
  assumes "compute_replacements ls path cs = Inr rs"
  shows "\<exists>out. rs = sort_key fst out \<and> list_all2 (replaces_chunk ls) cs out"
proof -
  obtain out where "compute_loop ls path cs 0 [] = Inr out" "rs = sort_key fst out"
    using assms by (rule compute_replacements_Inr)
  then show ?thesis using compute_loop_replaces by blast
qed

theorem compute_replacements_sound_witness:
  "\<exists>out. [(1, 1, [lit ''x''])] = sort_key fst out \<and> list_all2 (replaces_chunk (file_lines abc_file)) [b_to_x] out"
  by (rule compute_replacements_sound [of _ "lit ''f''"]) code_simp

lemma join_snoc_Nil: "ls \<noteq> [] \<Longrightarrow> join [newline] (ls @ [[]]) = join [newline] ls @ [newline]"
  by (simp add: join_append)

text \<open>An updated file is empty or ends in a newline.\<close>

theorem new_contents_end_newline:
  assumes "new_contents_from_chunks contents path cs = Inr new_contents"
  shows "new_contents = [] \<or> last new_contents = newline"
proof -
  obtain ls where ls: "new_contents = lines_contents ls"
    using assms by (auto simp: new_contents_from_chunks_def and_then_Inr_iff split: option.splits)
  obtain ls' where "new_contents = join [newline] (ls' @ [[]])"
    unfolding ls lines_contents_def by (cases "last_opt ls = Some []") (auto simp: last_opt_Some)
  then show ?thesis by (cases "ls' = []") (simp_all add: join_snoc_Nil)
qed

theorem new_contents_end_newline_witness:
  "last (lit ''a'' @ [newline] @ lit ''x'' @ [newline] @ lit ''c'' @ [newline]) = newline"
proof -
  have "new_contents_from_chunks abc_file (lit ''f'') [b_to_x] =
      Inr (lit ''a'' @ [newline] @ lit ''x'' @ [newline] @ lit ''c'' @ [newline])"
    by code_simp
  from new_contents_end_newline [OF this] show ?thesis by (simp add: lit_def)
qed

text \<open>A pure addition can be lost: in a file whose last line is empty the addition goes before
  that line, and a later chunk whose old lines include it removes the added line together with the
  line it precedes.  The file \<open>a\<close>, empty line, with the chunks \<open>add x\<close> and \<open>replace a, empty line
  by b\<close> becomes the single line \<open>b\<close>, whatever the added line is.\<close>

theorem addition_lost_before_trailing_blank:
  "new_contents_from_chunks (lit ''a'' @ [newline, newline]) path
     [\<lparr>change_context = None, old_lines = [], new_lines = [x], is_end_of_file = False\<rparr>,
      \<lparr>change_context = None, old_lines = [lit ''a'', []], new_lines = [lit ''b''],
       is_end_of_file = False\<rparr>] = Inr (lit ''b'' @ [newline])"
proof -
  let ?cs = "[\<lparr>change_context = None, old_lines = [], new_lines = [x], is_end_of_file = False\<rparr>,
      \<lparr>change_context = None, old_lines = [lit ''a'', []], new_lines = [lit ''b''],
       is_end_of_file = False\<rparr>]"
  let ?ls = "[lit ''a'', []]"
  have ls: "file_lines (lit ''a'' @ [newline, newline]) = ?ls" by code_simp
  have seek: "seek_sequence ?ls ?ls 0 False = Some 0" by code_simp
  have "compute_replacements ?ls path ?cs = Inr [(0, 2, [lit ''b'']), (1, 0, [x])]"
    by (simp add: compute_replacements_def seek_context_def insertion_index_def locate_chunk_def seek
        last_opt_def)
  moreover have "apply_replacements ?ls [(0, 2, [lit ''b'']), (1, 0, [x])] = Some [lit ''b'', []]"
    by (simp add: apply_replacements_Cons apply_replacement_eq del: apply_replacement.simps)
  moreover have "lines_contents [lit ''b'', []] = lit ''b'' @ [newline]" by code_simp
  ultimately show ?thesis by (simp add: new_contents_from_chunks_def ls)
qed

end
