(* ===== verification/Patch_Apply.thy ===== *)
theory Patch_Apply
  imports Patch_Replace
begin

text \<open>
  The file level of \<open>apply-patch/src/lib.rs\<close>: applying the hunks of a patch through an
  \<open>ExecutorFileSystem\<close> while recording the changes that were committed
  (\<open>AppliedPatchDelta\<close>), and the reports to standard output and standard error.  The lemmas of the
  locale show that a delta that still calls itself exact, replayed on the old contents, gives the
  contents the file system has now, whether the patch succeeded or stopped half way.
\<close>

section \<open>Errors as text\<close>

fun parse_error_text :: "parse_error \<Rightarrow> ustring" where
  "parse_error_text (InvalidPatchError m) = lit ''invalid patch: '' @ m"
| "parse_error_text (InvalidHunkError m n) =
     lit ''invalid hunk at line '' @ nat_decimal n @ lit '', '' @ m"

fun apply_patch_error_text :: "apply_patch_error \<Rightarrow> ustring" where
  "apply_patch_error_text (ParseError e) = parse_error_text e"
| "apply_patch_error_text (IoError context source) = context @ lit '': '' @ io_error_text source"
| "apply_patch_error_text (ComputeReplacements m) = m"
| "apply_patch_error_text (PathUriError m) = m"
| "apply_patch_error_text ImplicitInvocation =
     lit ''patch detected without explicit call to apply_patch. Rerun as ['' @ dquote @
     lit ''apply_patch'' @ dquote @ lit '', '' @ dquote @ lit ''<patch>'' @ dquote @ lit '']''"
| "apply_patch_error_text VecInsertPanic = lit ''insertion index out of range''"

text \<open>An \<open>anyhow::Error\<close>: a source and, when \<open>with\_context\<close> was called, the outer message.\<close>

datatype failure_source =
    IoSource io_error
  | PatchSource apply_patch_error
  | PathSource ustring
  | MessageSource ustring

datatype hunk_failure = Failure "ustring option" failure_source

fun failure_source_text :: "failure_source \<Rightarrow> ustring" where
  "failure_source_text (IoSource e) = io_error_text e"
| "failure_source_text (PatchSource e) = apply_patch_error_text e"
| "failure_source_text (PathSource m) = m"
| "failure_source_text (MessageSource m) = m"

fun failure_text :: "hunk_failure \<Rightarrow> ustring" where
  "failure_text (Failure (Some context) source) = context"
| "failure_text (Failure None source) = failure_source_text source"

section \<open>The committed changes\<close>

datatype 'p applied_file_change =
    AppliedAdd ustring "ustring option"
  | AppliedDelete ustring
  | AppliedUpdate "'p option" ustring "ustring option" ustring

record 'p applied_patch_change =
  change_path :: 'p
  file_change :: "'p applied_file_change"

record 'p applied_patch_delta =
  delta_changes :: "'p applied_patch_change list"
  delta_exact :: bool

definition empty_delta :: "'p applied_patch_delta" where
  "empty_delta = \<lparr>delta_changes = [], delta_exact = True\<rparr>"

definition append_delta ::
    "'p applied_patch_delta \<Rightarrow> 'p applied_patch_delta \<Rightarrow> 'p applied_patch_delta" where
  "append_delta d d' =
     \<lparr>delta_changes = delta_changes d @ delta_changes d', delta_exact = (delta_exact d \<and> delta_exact d')\<rparr>"

text \<open>What the loop over the hunks carries: the file system, the delta, and the three lists of
  \<open>AffectedPaths\<close>.\<close>

record ('s, 'p) patch_run =
  run_fs :: 's
  run_delta :: "'p applied_patch_delta"
  run_added :: "ustring list"
  run_modified :: "ustring list"
  run_deleted :: "ustring list"

abbreviation run_exact :: "('s, 'p) patch_run \<Rightarrow> bool" where
  "run_exact run \<equiv> delta_exact (run_delta run)"

abbreviation run_changes :: "('s, 'p) patch_run \<Rightarrow> 'p applied_patch_change list" where
  "run_changes run \<equiv> delta_changes (run_delta run)"

definition and_exact :: "bool \<Rightarrow> ('s, 'p) patch_run \<Rightarrow> ('s, 'p) patch_run" where
  "and_exact b run = run\<lparr>run_delta := (run_delta run)\<lparr>delta_exact := run_exact run \<and> b\<rparr>\<rparr>"

definition record_change ::
    "'p \<Rightarrow> 'p applied_file_change \<Rightarrow> ('s, 'p) patch_run \<Rightarrow> ('s, 'p) patch_run" where
  "record_change p c run =
     run\<lparr>run_delta := (run_delta run)
       \<lparr>delta_changes := run_changes run @ [\<lparr>change_path = p, file_change = c\<rparr>]\<rparr>\<rparr>"

section \<open>The helpers\<close>

definition ensure_not_directory :: "('s, 'p) executor_fs \<Rightarrow> 's \<Rightarrow> 'p \<Rightarrow> io_error + unit" where
  "ensure_not_directory fs s path =
     and_then (get_metadata fs s path)
       (\<lambda>metadata. if is_directory metadata then Inl (Io InvalidInput (lit ''path is a directory''))
                   else Inr ())"

definition remove_failure_was_side_effect_free ::
    "('s, 'p) executor_fs \<Rightarrow> 's \<Rightarrow> 'p \<Rightarrow> ustring option \<Rightarrow> bool" where
  "remove_failure_was_side_effect_free fs s path expected_content =
     (case expected_content of
        Some expected \<Rightarrow> read_file_text fs s path = Inr expected
      | None \<Rightarrow> False)"

definition note_existing_path_delta_support ::
    "('s, 'p) executor_fs \<Rightarrow> 's \<Rightarrow> 'p \<Rightarrow> bool \<Rightarrow> bool" where
  "note_existing_path_delta_support fs s path exact =
     (case get_metadata fs s path of
        Inr metadata \<Rightarrow> if is_file metadata \<and> \<not> is_symlink metadata then exact else False
      | Inl source \<Rightarrow> if io_error_kind source = NotFound then exact else False)"

definition read_optional_file_text_for_delta ::
    "('s, 'p) executor_fs \<Rightarrow> 's \<Rightarrow> 'p \<Rightarrow> bool \<Rightarrow> ustring option \<times> bool" where
  "read_optional_file_text_for_delta fs s path exact =
     (let exact = note_existing_path_delta_support fs s path exact
      in case read_file_text fs s path of
           Inr content \<Rightarrow> (Some content, exact)
         | Inl source \<Rightarrow> if io_error_kind source = NotFound then (None, exact) else (None, False))"

definition msg_write :: "'p path_ops \<Rightarrow> 'p \<Rightarrow> ustring" where
  "msg_write po path = lit ''Failed to write file '' @ path_native po path"

definition write_file_with_missing_parent_retry ::
    "('s, 'p) executor_fs \<Rightarrow> 'p path_ops \<Rightarrow> 's \<Rightarrow> 'p \<Rightarrow> ustring \<Rightarrow> 's \<times> (hunk_failure + unit)" where
  "write_file_with_missing_parent_retry fs po s path contents =
     (case write_file fs s path contents of
        (s1, Inr _) \<Rightarrow> (s1, Inr ())
      | (s1, Inl err) \<Rightarrow>
          if io_error_kind err = NotFound then
            (case (case path_parent po path of
                     Some parent \<Rightarrow> create_directory fs s1 parent True
                   | None \<Rightarrow> (s1, Inr ())) of
               (s2, Inl err2) \<Rightarrow>
                 (s2, Inl (Failure (Some (lit ''Failed to create parent directories for '' @
                   path_native po path)) (IoSource err2)))
             | (s2, Inr _) \<Rightarrow>
                 (case write_file fs s2 path contents of
                    (s3, Inl err3) \<Rightarrow> (s3, Inl (Failure (Some (msg_write po path)) (IoSource err3)))
                  | (s3, Inr _) \<Rightarrow> (s3, Inr ())))
          else (s1, Inl (Failure (Some (msg_write po path)) (IoSource err))))"

text \<open>\<open>derive\_new\_contents\_from\_chunks\<close>: the old and the new contents.\<close>

definition derive_new_contents_from_chunks ::
    "('s, 'p) executor_fs \<Rightarrow> 'p path_ops \<Rightarrow> 's \<Rightarrow> 'p \<Rightarrow> update_file_chunk list \<Rightarrow>
     apply_patch_error + ustring \<times> ustring" where
  "derive_new_contents_from_chunks fs po s path chunks =
     (case read_file_text fs s path of
        Inl err \<Rightarrow> Inl (IoError (lit ''Failed to read file to update '' @ path_native po path) err)
      | Inr original_contents \<Rightarrow>
          and_then (new_contents_from_chunks original_contents (path_native po path) chunks)
            (\<lambda>new_contents. Inr (original_contents, new_contents)))"

text \<open>\<open>unified\_diff\_from\_chunks\_with\_context\<close>; the diff algorithm of the \<open>similar\<close> crate is a
  parameter.\<close>

record apply_patch_file_update =
  upd_unified_diff :: ustring
  upd_original_content :: ustring
  upd_content :: ustring

definition unified_diff_from_chunks_with_context ::
    "(nat \<Rightarrow> ustring \<Rightarrow> ustring \<Rightarrow> ustring) \<Rightarrow> ('s, 'p) executor_fs \<Rightarrow> 'p path_ops \<Rightarrow> 's \<Rightarrow> 'p \<Rightarrow>
     update_file_chunk list \<Rightarrow> nat \<Rightarrow> apply_patch_error + apply_patch_file_update" where
  "unified_diff_from_chunks_with_context text_diff fs po s path chunks context =
     and_then (derive_new_contents_from_chunks fs po s path chunks)
       (\<lambda>(original_contents, new_contents).
          Inr \<lparr>upd_unified_diff = text_diff context original_contents new_contents,
               upd_original_content = original_contents, upd_content = new_contents\<rparr>)"

definition unified_diff_from_chunks ::
    "(nat \<Rightarrow> ustring \<Rightarrow> ustring \<Rightarrow> ustring) \<Rightarrow> ('s, 'p) executor_fs \<Rightarrow> 'p path_ops \<Rightarrow> 's \<Rightarrow> 'p \<Rightarrow>
     update_file_chunk list \<Rightarrow> apply_patch_error + apply_patch_file_update" where
  "unified_diff_from_chunks text_diff fs po s path chunks =
     unified_diff_from_chunks_with_context text_diff fs po s path chunks 1"

section \<open>One hunk\<close>

text \<open>The macro \<open>try\_write!\<close>: a failed write may have touched the target, so the delta is no longer
  exact.\<close>

definition try_write ::
    "'s \<times> (hunk_failure + unit) \<Rightarrow> ('s, 'p) patch_run \<Rightarrow> ('s, 'p) patch_run \<times> (hunk_failure + unit)" where
  "try_write result run =
     (case result of
        (s, Inr _) \<Rightarrow> (run\<lparr>run_fs := s\<rparr>, Inr ())
      | (s, Inl error) \<Rightarrow> (and_exact False (run\<lparr>run_fs := s\<rparr>), Inl error))"

text \<open>The removal that a delete hunk and a rename share: the directory check, the removal, and the
  check that a failed removal left the file as it was.\<close>

definition checked_remove ::
    "('s, 'p) executor_fs \<Rightarrow> 'p \<Rightarrow> ustring option \<Rightarrow> ustring \<Rightarrow> ('s, 'p) patch_run \<Rightarrow>
     ('s, 'p) patch_run \<times> (hunk_failure + unit)" where
  "checked_remove fs path expected_content context run =
     (case ensure_not_directory fs (run_fs run) path of
        Inl e \<Rightarrow> (run, Inl (Failure (Some context) (IoSource e)))
      | Inr _ \<Rightarrow>
          (case remove_path fs (run_fs run) path False False of
             (s, Inl e) \<Rightarrow>
               (and_exact (remove_failure_was_side_effect_free fs s path expected_content)
                  (run\<lparr>run_fs := s\<rparr>), Inl (Failure (Some context) (IoSource e)))
           | (s, Inr _) \<Rightarrow> (run\<lparr>run_fs := s\<rparr>, Inr ())))"

definition apply_add_file ::
    "('s, 'p) executor_fs \<Rightarrow> 'p path_ops \<Rightarrow> 'p \<Rightarrow> ustring \<Rightarrow> ustring \<Rightarrow> ('s, 'p) patch_run \<Rightarrow>
     ('s, 'p) patch_run \<times> (hunk_failure + unit)" where
  "apply_add_file fs po path_uri affected_path contents run =
     (let (overwritten_content, exact) =
            read_optional_file_text_for_delta fs (run_fs run) path_uri (run_exact run)
      in case try_write (write_file_with_missing_parent_retry fs po (run_fs run) path_uri contents)
                (and_exact exact run) of
           (run, Inl e) \<Rightarrow> (run, Inl e)
         | (run, Inr _) \<Rightarrow>
             (record_change path_uri (AppliedAdd contents overwritten_content)
                (run\<lparr>run_added := run_added run @ [affected_path]\<rparr>), Inr ()))"

definition apply_delete_file ::
    "('s, 'p) executor_fs \<Rightarrow> 'p path_ops \<Rightarrow> 'p \<Rightarrow> ustring \<Rightarrow> ('s, 'p) patch_run \<Rightarrow>
     ('s, 'p) patch_run \<times> (hunk_failure + unit)" where
  "apply_delete_file fs po path_uri affected_path run =
     (let exact = note_existing_path_delta_support fs (run_fs run) path_uri (run_exact run);
          deleted_content =
            (case read_file_text fs (run_fs run) path_uri of Inr t \<Rightarrow> Some t | Inl _ \<Rightarrow> None)
      in case checked_remove fs path_uri deleted_content
                (lit ''Failed to delete file '' @ path_native po path_uri)
                (and_exact (exact \<and> deleted_content \<noteq> None) run) of
           (run, Inl e) \<Rightarrow> (run, Inl e)
         | (run, Inr _) \<Rightarrow>
             ((case deleted_content of
                 Some content \<Rightarrow> record_change path_uri (AppliedDelete content)
               | None \<Rightarrow> (\<lambda>run. run))
                (run\<lparr>run_deleted := run_deleted run @ [affected_path]\<rparr>), Inr ()))"

text \<open>A rename: write the destination, record it, remove the source, and only then replace the record
  of the write by the record of the rename.\<close>

definition apply_move_file ::
    "('s, 'p) executor_fs \<Rightarrow> 'p path_ops \<Rightarrow> 'p \<Rightarrow> ustring \<Rightarrow> 'p \<Rightarrow> ustring \<Rightarrow> ustring \<Rightarrow>
     ('s, 'p) patch_run \<Rightarrow> ('s, 'p) patch_run \<times> (hunk_failure + unit)" where
  "apply_move_file fs po path_uri affected_path dest_uri original_contents new_contents run =
     (let (overwritten_move_content, exact) =
            read_optional_file_text_for_delta fs (run_fs run) dest_uri (run_exact run)
      in case try_write (write_file_with_missing_parent_retry fs po (run_fs run) dest_uri new_contents)
                (and_exact exact run) of
           (run, Inl e) \<Rightarrow> (run, Inl e)
         | (run, Inr _) \<Rightarrow>
             (let dest_write_change_index = length (run_changes run)
              in case checked_remove fs path_uri (Some original_contents)
                        (lit ''Failed to remove original '' @ path_native po path_uri)
                        (record_change dest_uri (AppliedAdd new_contents overwritten_move_content) run) of
                   (run, Inl e) \<Rightarrow> (run, Inl e)
                 | (run, Inr _) \<Rightarrow>
                     (run\<lparr>run_delta := (run_delta run)\<lparr>delta_changes :=
                         (run_changes run)[dest_write_change_index :=
                            \<lparr>change_path = path_uri,
                             file_change = AppliedUpdate (Some dest_uri) original_contents
                               overwritten_move_content new_contents\<rparr>]\<rparr>,
                       run_modified := run_modified run @ [affected_path]\<rparr>, Inr ())))"

definition apply_update_in_place ::
    "('s, 'p) executor_fs \<Rightarrow> 'p path_ops \<Rightarrow> 'p \<Rightarrow> ustring \<Rightarrow> ustring \<Rightarrow> ustring \<Rightarrow>
     ('s, 'p) patch_run \<Rightarrow> ('s, 'p) patch_run \<times> (hunk_failure + unit)" where
  "apply_update_in_place fs po path_uri affected_path original_contents new_contents run =
     (case try_write
             (case write_file fs (run_fs run) path_uri new_contents of
                (s, Inl e) \<Rightarrow> (s, Inl (Failure (Some (msg_write po path_uri)) (IoSource e)))
              | (s, Inr _) \<Rightarrow> (s, Inr ())) run of
        (run, Inl e) \<Rightarrow> (run, Inl e)
      | (run, Inr _) \<Rightarrow>
          (record_change path_uri (AppliedUpdate None original_contents None new_contents)
             (run\<lparr>run_modified := run_modified run @ [affected_path]\<rparr>), Inr ()))"

definition apply_update_file ::
    "('s, 'p) executor_fs \<Rightarrow> 'p path_ops \<Rightarrow> 'p \<Rightarrow> 'p \<Rightarrow> ustring \<Rightarrow> ustring option \<Rightarrow>
     update_file_chunk list \<Rightarrow> ('s, 'p) patch_run \<Rightarrow> ('s, 'p) patch_run \<times> (hunk_failure + unit)" where
  "apply_update_file fs po cwd path_uri affected_path move_path chunks run =
     (let run = and_exact
            (note_existing_path_delta_support fs (run_fs run) path_uri (run_exact run)) run
      in case derive_new_contents_from_chunks fs po (run_fs run) path_uri chunks of
           Inl e \<Rightarrow> (run, Inl (Failure None (PatchSource e)))
         | Inr (original_contents, new_contents) \<Rightarrow>
             (case move_path of
                Some dest \<Rightarrow>
                  (case path_join po cwd dest of
                     Inl e \<Rightarrow> (run, Inl (Failure None (PathSource e)))
                   | Inr dest_uri \<Rightarrow>
                       apply_move_file fs po path_uri affected_path dest_uri original_contents
                         new_contents run)
              | None \<Rightarrow>
                  apply_update_in_place fs po path_uri affected_path original_contents new_contents
                    run))"

definition apply_hunk_to_files ::
    "('s, 'p) executor_fs \<Rightarrow> 'p path_ops \<Rightarrow> 'p \<Rightarrow> hunk \<Rightarrow> ('s, 'p) patch_run \<Rightarrow>
     ('s, 'p) patch_run \<times> (hunk_failure + unit)" where
  "apply_hunk_to_files fs po cwd hunk run =
     (case resolve_path (path_join po) hunk cwd of
        Inl e \<Rightarrow> (run, Inl (Failure None (PathSource e)))
      | Inr path_uri \<Rightarrow>
          (case hunk of
             AddFile path contents \<Rightarrow> apply_add_file fs po path_uri (hunk_path hunk) contents run
           | DeleteFile path \<Rightarrow> apply_delete_file fs po path_uri (hunk_path hunk) run
           | UpdateFile path move_path chunks \<Rightarrow>
               apply_update_file fs po cwd path_uri (hunk_path hunk) move_path chunks run))"

section \<open>A whole patch\<close>

fun apply_hunk_loop ::
    "('s, 'p) executor_fs \<Rightarrow> 'p path_ops \<Rightarrow> 'p \<Rightarrow> hunk list \<Rightarrow> ('s, 'p) patch_run \<Rightarrow>
     ('s, 'p) patch_run \<times> (hunk_failure + unit)" where
  "apply_hunk_loop fs po cwd [] run = (run, Inr ())"
| "apply_hunk_loop fs po cwd (hunk # hunks) run =
     (case apply_hunk_to_files fs po cwd hunk run of
        (run, Inl e) \<Rightarrow> (run, Inl e)
      | (run, Inr _) \<Rightarrow> apply_hunk_loop fs po cwd hunks run)"

definition start_run :: "'s \<Rightarrow> ('s, 'p) patch_run" where
  "start_run s = \<lparr>run_fs = s, run_delta = empty_delta, run_added = [], run_modified = [],
     run_deleted = []\<rparr>"

definition apply_hunks_to_files ::
    "('s, 'p) executor_fs \<Rightarrow> 'p path_ops \<Rightarrow> 'p \<Rightarrow> hunk list \<Rightarrow> 's \<Rightarrow>
     ('s, 'p) patch_run \<times> (hunk_failure + unit)" where
  "apply_hunks_to_files fs po cwd hunks s =
     (if hunks = [] then (start_run s, Inl (Failure None (MessageSource (lit ''No files were modified.''))))
      else apply_hunk_loop fs po cwd hunks (start_run s))"

section \<open>Reports\<close>

text \<open>The writers are arbitrary: \<open>writeln\<close> appends a line to a writer state or fails.\<close>

type_synonym 'w writeln = "'w \<Rightarrow> ustring \<Rightarrow> 'w \<times> (io_error + unit)"

fun write_lines :: "'w writeln \<Rightarrow> 'w \<Rightarrow> ustring list \<Rightarrow> 'w \<times> (io_error + unit)" where
  "write_lines writeln w [] = (w, Inr ())"
| "write_lines writeln w (l # ls) =
     (case writeln w l of
        (w', Inl e) \<Rightarrow> (w', Inl e)
      | (w', Inr _) \<Rightarrow> write_lines writeln w' ls)"

definition summary_lines :: "ustring list \<Rightarrow> ustring list \<Rightarrow> ustring list \<Rightarrow> ustring list" where
  "summary_lines added modified deleted =
     lit ''Success. Updated the following files:''
       # map (\<lambda>p. lit ''A '' @ p) added @ map (\<lambda>p. lit ''M '' @ p) modified @
       map (\<lambda>p. lit ''D '' @ p) deleted"

definition print_summary ::
    "'w writeln \<Rightarrow> ('s, 'p) patch_run \<Rightarrow> 'w \<Rightarrow> 'w \<times> (io_error + unit)" where
  "print_summary writeln run out =
     write_lines writeln out (summary_lines (run_added run) (run_modified run) (run_deleted run))"

record 'p apply_patch_failure =
  failure_error :: apply_patch_error
  failure_delta :: "'p applied_patch_delta"

definition error_from_io :: "io_error \<Rightarrow> apply_patch_error" where
  "error_from_io e = IoError (lit ''I/O error'') (Io (io_error_kind e) (io_error_text e))"

text \<open>\<open>downcast\_ref::<std::io::Error>\<close> looks through the context to the source.\<close>

fun failure_to_error :: "hunk_failure \<Rightarrow> apply_patch_error" where
  "failure_to_error (Failure context (IoSource e)) = error_from_io e"
| "failure_to_error (Failure context source) =
     IoError (failure_text (Failure context source))
       (Io OtherKind (failure_text (Failure context source)))"

definition apply_hunks ::
    "('s, 'p) executor_fs \<Rightarrow> 'p path_ops \<Rightarrow> 'w writeln \<Rightarrow> 'p \<Rightarrow> hunk list \<Rightarrow> 's \<Rightarrow> 'w \<Rightarrow> 'w \<Rightarrow>
     ('s \<times> 'w \<times> 'w) \<times> ('p apply_patch_failure + 'p applied_patch_delta)" where
  "apply_hunks fs po writeln cwd hunks s stdout stderr =
     (case apply_hunks_to_files fs po cwd hunks s of
        (run, Inr _) \<Rightarrow>
          (case print_summary writeln run stdout of
             (out, Inl e) \<Rightarrow>
               ((run_fs run, out, stderr),
                Inl \<lparr>failure_error = error_from_io e, failure_delta = run_delta run\<rparr>)
           | (out, Inr _) \<Rightarrow> ((run_fs run, out, stderr), Inr (run_delta run)))
      | (run, Inl failure) \<Rightarrow>
          (case writeln stderr (failure_text failure) of
             (err, Inl e) \<Rightarrow>
               ((run_fs run, stdout, err),
                Inl \<lparr>failure_error = error_from_io e, failure_delta = run_delta run\<rparr>)
           | (err, Inr _) \<Rightarrow>
               ((run_fs run, stdout, err),
                Inl \<lparr>failure_error = failure_to_error failure, failure_delta = run_delta run\<rparr>)))"

fun parse_report :: "parse_error \<Rightarrow> ustring" where
  "parse_report (InvalidPatchError message) = lit ''Invalid patch: '' @ message"
| "parse_report (InvalidHunkError message line) =
     lit ''Invalid patch hunk on line '' @ nat_decimal line @ lit '': '' @ message"

definition apply_patch ::
    "('s, 'p) executor_fs \<Rightarrow> 'p path_ops \<Rightarrow> 'w writeln \<Rightarrow> 'p \<Rightarrow> ustring \<Rightarrow> 's \<Rightarrow> 'w \<Rightarrow> 'w \<Rightarrow>
     ('s \<times> 'w \<times> 'w) \<times> ('p apply_patch_failure + 'p applied_patch_delta)" where
  "apply_patch fs po writeln cwd patch s stdout stderr =
     (case parse_patch patch of
        Inr source \<Rightarrow> apply_hunks fs po writeln cwd (args_hunks source) s stdout stderr
      | Inl e \<Rightarrow>
          (case writeln stderr (parse_report e) of
             (err, Inl io) \<Rightarrow>
               ((s, stdout, err),
                Inl \<lparr>failure_error = error_from_io io, failure_delta = empty_delta\<rparr>)
           | (err, Inr _) \<Rightarrow>
               ((s, stdout, err),
                Inl \<lparr>failure_error = ParseError e, failure_delta = empty_delta\<rparr>)))"

section \<open>Replaying a delta\<close>

text \<open>The meaning of a committed change on the contents of all paths, and the agreement of what it
  recorded with the contents it found.\<close>

type_synonym 'p contents = "'p \<Rightarrow> file_content option"

definition replay_change :: "'p contents \<Rightarrow> 'p applied_patch_change \<Rightarrow> 'p contents" where
  "replay_change m c =
     (case file_change c of
        AppliedAdd content overwritten \<Rightarrow> m(change_path c := Some (TextContent content))
      | AppliedDelete content \<Rightarrow> m(change_path c := None)
      | AppliedUpdate None old overwritten new \<Rightarrow> m(change_path c := Some (TextContent new))
      | AppliedUpdate (Some dest) old overwritten new \<Rightarrow>
          (m(dest := Some (TextContent new)))(change_path c := None))"

definition change_agrees :: "'p contents \<Rightarrow> 'p applied_patch_change \<Rightarrow> bool" where
  "change_agrees m c =
     (case file_change c of
        AppliedAdd content overwritten \<Rightarrow> m (change_path c) = map_option TextContent overwritten
      | AppliedDelete content \<Rightarrow> m (change_path c) = Some (TextContent content)
      | AppliedUpdate move old overwritten new \<Rightarrow>
          m (change_path c) = Some (TextContent old) \<and>
          (\<forall>dest. move = Some dest \<longrightarrow> m dest = map_option TextContent overwritten))"

fun replay :: "'p contents \<Rightarrow> 'p applied_patch_change list \<Rightarrow> 'p contents" where
  "replay m [] = m"
| "replay m (c # cs) = replay (replay_change m c) cs"

fun changes_agree :: "'p contents \<Rightarrow> 'p applied_patch_change list \<Rightarrow> bool" where
  "changes_agree m [] \<longleftrightarrow> True"
| "changes_agree m (c # cs) \<longleftrightarrow> change_agrees m c \<and> changes_agree (replay_change m c) cs"

lemma replay_append [simp]: "replay m (cs @ ds) = replay (replay m cs) ds"
  by (induction cs arbitrary: m) simp_all

lemma changes_agree_append [simp]:
  "changes_agree m (cs @ ds) \<longleftrightarrow> changes_agree m cs \<and> changes_agree (replay m cs) ds"
  by (induction cs arbitrary: m) simp_all

text \<open>The loop invariant: the paths in \<open>Q\<close> are no links, and while the delta is exact it leads from
  the contents \<open>m\<close> at the start to the contents now.\<close>

definition run_tracks ::
    "('s \<Rightarrow> 'p contents) \<Rightarrow> ('s \<Rightarrow> 'p \<Rightarrow> bool) \<Rightarrow> 'p set \<Rightarrow> 'p contents \<Rightarrow> ('s, 'p) patch_run \<Rightarrow> bool" where
  "run_tracks content is_link Q m run \<longleftrightarrow>
     (\<forall>p \<in> Q. \<not> is_link (run_fs run) p) \<and>
     (run_exact run \<longrightarrow>
        changes_agree m (run_changes run) \<and> replay m (run_changes run) = content (run_fs run))"

lemma and_exact_simps [simp]:
  "run_fs (and_exact b run) = run_fs run"
  "run_exact (and_exact b run) \<longleftrightarrow> run_exact run \<and> b"
  "run_changes (and_exact b run) = run_changes run"
  by (simp_all add: and_exact_def)

lemma record_change_simps [simp]:
  "run_fs (record_change p c run) = run_fs run"
  "run_exact (record_change p c run) = run_exact run"
  "run_changes (record_change p c run) = run_changes run @ [\<lparr>change_path = p, file_change = c\<rparr>]"
  by (simp_all add: record_change_def)

lemma run_tracks_and_exact: "run_tracks c l Q m run \<Longrightarrow> run_tracks c l Q m (and_exact b run)"
  by (simp add: run_tracks_def)

context executor_fs_laws
begin

lemma retry_ok:
  assumes "write_file_with_missing_parent_retry ops po s p t = (s', Inr ())" and "\<not> is_link s p"
  shows "content s' = (content s)(p := Some (TextContent t))"
proof -
  obtain s1 r where w: "write_file ops s p t = (s1, r)" by fastforce
  show ?thesis
  proof (cases r)
    case (Inr u)
    with w assms show ?thesis
      by (auto simp: write_file_with_missing_parent_retry_def intro: write_ok)
  next
    case (Inl e)
    with w assms have nf: "io_error_kind e = NotFound"
      by (auto simp: write_file_with_missing_parent_retry_def split: if_splits)
    let ?mk = "case path_parent po p of Some parent \<Rightarrow> create_directory ops s1 parent True
      | None \<Rightarrow> (s1, Inr ())"
    obtain s2 r2 where mk: "?mk = (s2, r2)" by fastforce
    with w Inl nf assms(1) obtain u where "r2 = Inr u" and w3: "write_file ops s2 p t = (s', Inr ())"
      by (cases r2) (auto simp: write_file_with_missing_parent_retry_def split: prod.splits sum.splits)
    have "content s2 = content s1 \<and> (is_link s2 p \<longrightarrow> is_link s1 p)"
      using mk create_directory_content create_directory_links by (cases "path_parent po p") auto
    moreover have "content s1 = content s" using write_missing_parent w Inl nf by blast
    moreover have "\<not> is_link s1 p" using write_links w assms(2) by blast
    ultimately show ?thesis using write_ok w3 by auto
  qed
qed

lemma retry_links:
  assumes "write_file_with_missing_parent_retry ops po s p t = (s', r)" and "is_link s' q"
  shows "is_link s q"
proof -
  obtain s1 r1 where w: "write_file ops s p t = (s1, r1)" by fastforce
  have l1: "is_link s1 q \<Longrightarrow> is_link s q" using write_links w by blast
  let ?mk = "case path_parent po p of Some parent \<Rightarrow> create_directory ops s1 parent True
    | None \<Rightarrow> (s1, Inr ())"
  obtain s2 r2 where mk: "?mk = (s2, r2)" by fastforce
  have l2: "is_link s2 q \<Longrightarrow> is_link s1 q"
    using mk create_directory_links by (cases "path_parent po p") auto
  have "s' = s1 \<or> s' = s2 \<or> (\<exists>r3. write_file ops s2 p t = (s', r3))"
    using assms(1) w mk
    by (auto simp: write_file_with_missing_parent_retry_def split: prod.splits sum.splits if_splits)
  then show ?thesis using assms(2) l1 l2 write_links by blast
qed

lemma read_optional_exact:
  assumes "read_optional_file_text_for_delta ops s p b = (t, True)" and "\<not> is_link s p"
  shows "content s p = map_option TextContent t"
  using assms read_ok [of s p] read_missing [of s p]
  by (auto simp: read_optional_file_text_for_delta_def Let_def split: sum.splits if_splits)

lemma checked_remove_failed:
  assumes "checked_remove ops p t c run = (run', Inl e)" and "run_tracks content is_link Q m run"
    and "p \<in> Q"
  shows "run_tracks content is_link Q m run'"
proof (cases "ensure_not_directory ops (run_fs run) p")
  case (Inl e')
  with assms show ?thesis by (simp add: checked_remove_def)
next
  case (Inr u)
  obtain s r where rm: "remove_path ops (run_fs run) p False False = (s, r)" by fastforce
  with Inr assms(1) obtain e' where r: "r = Inl e'"
    and run': "run' = and_exact (remove_failure_was_side_effect_free ops s p t) (run\<lparr>run_fs := s\<rparr>)"
    by (cases r) (auto simp: checked_remove_def)
  have links: "\<not> is_link s q" if "q \<in> Q" for q
    using rm remove_links assms(2) that by (auto simp: run_tracks_def)
  have "content s = content (run_fs run)" if "run_exact run'"
  proof -
    from that run' have x: "run_exact run" "remove_failure_was_side_effect_free ops s p t" by auto
    then obtain t' where "t = Some t'" "read_file_text ops s p = Inr t'"
      by (auto simp: remove_failure_was_side_effect_free_def split: option.splits)
    then have "content s p \<noteq> None" using read_ok links assms(3) by auto
    then have "content s p = content (run_fs run) p"
      using remove_failed_target [of "run_fs run" p s e'] rm r by auto
    moreover have "content s q = content (run_fs run) q" if "q \<noteq> p" for q
      using remove_failed rm r that by blast
    ultimately show ?thesis by (intro ext) metis
  qed
  with links run' assms(2) show ?thesis by (simp add: run_tracks_def)
qed

lemma checked_remove_ok:
  assumes "checked_remove ops p t c run = (run', Inr ())"
  shows "run' = run\<lparr>run_fs := run_fs run'\<rparr>" and "content (run_fs run') = (content (run_fs run))(p := None)"
    and "is_link (run_fs run') q \<Longrightarrow> is_link (run_fs run) q"
proof -
  obtain s r where rm: "remove_path ops (run_fs run) p False False = (s, r)" by fastforce
  with assms have r: "r = Inr ()" "run' = run\<lparr>run_fs := s\<rparr>"
    by (auto simp: checked_remove_def split: sum.splits)
  then show "run' = run\<lparr>run_fs := run_fs run'\<rparr>"
    "content (run_fs run') = (content (run_fs run))(p := None)"
    "is_link (run_fs run') q \<Longrightarrow> is_link (run_fs run) q"
    using rm remove_ok remove_links by auto
qed

lemma try_write_retry:
  assumes "try_write (write_file_with_missing_parent_retry ops po s0 p t) run = (run', r)"
    and "run_tracks content is_link Q m run" and "p \<in> Q" and s0: "run_fs run = s0"
  shows "r = Inl e \<Longrightarrow> run_tracks content is_link Q m run'"
    and "r = Inr () \<Longrightarrow> run' = run\<lparr>run_fs := run_fs run'\<rparr> \<and>
      content (run_fs run') = (content s0)(p := Some (TextContent t)) \<and>
      (\<forall>q \<in> Q. \<not> is_link (run_fs run') q)"
proof -
  obtain s r' where w: "write_file_with_missing_parent_retry ops po s0 p t = (s, r')" by fastforce
  have links: "\<forall>q \<in> Q. \<not> is_link s q"
    using retry_links [OF w] assms(2) s0 by (auto simp: run_tracks_def)
  show "r = Inl e \<Longrightarrow> run_tracks content is_link Q m run'"
    using assms(1) w links by (auto simp: try_write_def run_tracks_def split: sum.splits)
  assume "r = Inr ()"
  with assms(1) w have "r' = Inr ()" "run' = run\<lparr>run_fs := s\<rparr>"
    by (auto simp: try_write_def split: sum.splits)
  then show "run' = run\<lparr>run_fs := run_fs run'\<rparr> \<and>
      content (run_fs run') = (content s0)(p := Some (TextContent t)) \<and>
      (\<forall>q \<in> Q. \<not> is_link (run_fs run') q)"
    using retry_ok w links assms(2,3) s0 by (auto simp: run_tracks_def)
qed

lemma add_file_tracks:
  assumes "apply_add_file ops po p a t run = (run', r)" and inv: "run_tracks content is_link Q m run"
    and p: "p \<in> Q"
  shows "run_tracks content is_link Q m run'"
proof -
  obtain ov x where ro: "read_optional_file_text_for_delta ops (run_fs run) p (run_exact run) = (ov, x)"
    by fastforce
  let ?run = "and_exact x run"
  obtain run1 r1 where tw:
    "try_write (write_file_with_missing_parent_retry ops po (run_fs run) p t) ?run = (run1, r1)"
    by fastforce
  note w = try_write_retry [OF tw run_tracks_and_exact [OF inv] p and_exact_simps(1)]
  show ?thesis
  proof (cases r1)
    case (Inl e)
    from w(1) [OF this] show ?thesis using assms(1) ro tw Inl by (simp add: apply_add_file_def)
  next
    case (Inr u)
    then have run1: "run1 = ?run\<lparr>run_fs := run_fs run1\<rparr>"
      "content (run_fs run1) = (content (run_fs run))(p := Some (TextContent t))"
      "\<forall>q \<in> Q. \<not> is_link (run_fs run1) q" using w(2) by simp_all
    have "run' = record_change p (AppliedAdd t ov) (run1\<lparr>run_added := run_added run1 @ [a]\<rparr>)"
      using assms(1) ro tw Inr by (simp add: apply_add_file_def)
    moreover have "content (run_fs run) p = map_option TextContent ov" if x
      using read_optional_exact ro inv p that by (auto simp: run_tracks_def)
    moreover have "run_delta run1 = run_delta ?run" by (subst run1(1)) simp
    ultimately show ?thesis using run1(2,3) inv
      by (auto simp: run_tracks_def change_agrees_def replay_change_def)
  qed
qed

lemma delete_file_tracks:
  assumes "apply_delete_file ops po p a run = (run', r)" and inv: "run_tracks content is_link Q m run"
    and p: "p \<in> Q"
  shows "run_tracks content is_link Q m run'"
proof -
  let ?x = "note_existing_path_delta_support ops (run_fs run) p (run_exact run)"
  let ?t = "case read_file_text ops (run_fs run) p of Inr t \<Rightarrow> Some t | Inl _ \<Rightarrow> None"
  let ?c = "lit ''Failed to delete file '' @ path_native po p"
  let ?run = "and_exact (?x \<and> ?t \<noteq> None) run"
  obtain run1 r1 where rm: "checked_remove ops p ?t ?c ?run = (run1, r1)" by fastforce
  have t: "content (run_fs run) p = map_option TextContent ?t" if "?t \<noteq> None"
    using that read_ok [of "run_fs run" p] inv p by (auto simp: run_tracks_def split: sum.splits)
  show ?thesis
  proof (cases r1)
    case (Inl e)
    have "run_tracks content is_link Q m run1"
      using checked_remove_failed [OF rm [unfolded Inl] run_tracks_and_exact [OF inv] p] .
    with assms(1) rm Inl show ?thesis by (simp add: apply_delete_file_def Let_def)
  next
    case (Inr u)
    note ok = checked_remove_ok [OF rm [unfolded Inr, simplified]]
    have run': "run' = (case ?t of Some t \<Rightarrow> record_change p (AppliedDelete t) | None \<Rightarrow> (\<lambda>run. run))
        (run1\<lparr>run_deleted := run_deleted run1 @ [a]\<rparr>)"
      using assms(1) rm Inr by (simp add: apply_delete_file_def Let_def)
    have d: "run_delta run1 = run_delta ?run" by (subst ok(1)) simp
    show ?thesis using run' d ok(2,3) t inv
      by (cases ?t) (auto simp: run_tracks_def change_agrees_def replay_change_def)
  qed
qed

lemma move_file_tracks:
  assumes "apply_move_file ops po p a d old new run = (run', r)"
    and inv: "run_tracks content is_link Q m run" and p: "p \<in> Q" and d: "d \<in> Q"
    and old: "content (run_fs run) p = Some (TextContent old)"
  shows "run_tracks content is_link Q m run'"
proof -
  obtain ov x where ro: "read_optional_file_text_for_delta ops (run_fs run) d (run_exact run) = (ov, x)"
    by fastforce
  let ?run = "and_exact x run"
  let ?c = "lit ''Failed to remove original '' @ path_native po p"
  obtain run1 r1 where tw:
    "try_write (write_file_with_missing_parent_retry ops po (run_fs run) d new) ?run = (run1, r1)"
    by fastforce
  note w = try_write_retry [OF tw run_tracks_and_exact [OF inv] d and_exact_simps(1)]
  show ?thesis
  proof (cases r1)
    case (Inl e)
    from w(1) [OF this] show ?thesis using assms(1) ro tw Inl by (simp add: apply_move_file_def)
  next
    case (Inr u)
    then have run1: "run1 = ?run\<lparr>run_fs := run_fs run1\<rparr>"
      "content (run_fs run1) = (content (run_fs run))(d := Some (TextContent new))"
      "\<forall>q \<in> Q. \<not> is_link (run_fs run1) q" using w(2) by simp_all
    let ?run1 = "record_change d (AppliedAdd new ov) run1"
    have ov: "content (run_fs run) d = map_option TextContent ov" if x
      using read_optional_exact ro inv d that by (auto simp: run_tracks_def)
    have delta1: "run_delta run1 = run_delta ?run" by (subst run1(1)) simp
    have inv1: "run_tracks content is_link Q m ?run1"
      using ov delta1 run1(2,3) inv by (auto simp: run_tracks_def change_agrees_def replay_change_def)
    obtain run2 r2 where rm: "checked_remove ops p (Some old) ?c ?run1 = (run2, r2)" by fastforce
    show ?thesis
    proof (cases r2)
      case (Inl e)
      have "run_tracks content is_link Q m run2"
        using checked_remove_failed [OF rm [unfolded Inl] inv1 p] .
      with assms(1) ro tw Inr rm Inl show ?thesis by (simp add: apply_move_file_def)
    next
      case r2: (Inr u)
      note ok = checked_remove_ok [OF rm [unfolded r2, simplified]]
      have delta2: "run_delta run2 = run_delta ?run1" by (subst ok(1)) simp
      have run': "run' = run2\<lparr>run_delta := (run_delta run2)\<lparr>delta_changes := run_changes run @
          [\<lparr>change_path = p, file_change = AppliedUpdate (Some d) old ov new\<rparr>]\<rparr>,
          run_modified := run_modified run2 @ [a]\<rparr>"
        using assms(1) ro tw Inr rm r2 delta1 delta2 by (simp add: apply_move_file_def)
      show ?thesis using inv ov old run1 ok(2,3) delta1 delta2
        by (auto simp: run' run_tracks_def change_agrees_def replay_change_def)
    qed
  qed
qed

lemma update_in_place_tracks:
  assumes "apply_update_in_place ops po p a old new run = (run', r)"
    and inv: "run_tracks content is_link Q m run" and p: "p \<in> Q"
    and old: "content (run_fs run) p = Some (TextContent old)"
  shows "run_tracks content is_link Q m run'"
proof -
  obtain s r1 where w: "write_file ops (run_fs run) p new = (s, r1)" by fastforce
  have links: "\<forall>q \<in> Q. \<not> is_link s q"
    using write_links [OF w] inv by (auto simp: run_tracks_def)
  show ?thesis
  proof (cases r1)
    case (Inl e)
    with assms(1) w links show ?thesis
      by (auto simp: apply_update_in_place_def try_write_def run_tracks_def)
  next
    case (Inr u)
    then have "content s = (content (run_fs run))(p := Some (TextContent new))"
      using write_ok w inv p by (auto simp: run_tracks_def)
    with assms(1) w Inr links inv old show ?thesis
      by (auto simp: apply_update_in_place_def try_write_def run_tracks_def change_agrees_def
          replay_change_def)
  qed
qed

lemma update_file_tracks:
  assumes "apply_update_file ops po cwd p a mv cs run = (run', r)"
    and inv: "run_tracks content is_link Q m run" and p: "p \<in> Q"
    and d: "\<And>dest d. mv = Some dest \<Longrightarrow> path_join po cwd dest = Inr d \<Longrightarrow> d \<in> Q"
  shows "run_tracks content is_link Q m run'"
proof -
  let ?run = "and_exact (note_existing_path_delta_support ops (run_fs run) p (run_exact run)) run"
  note inv1 = run_tracks_and_exact [OF inv]
  show ?thesis
  proof (cases "derive_new_contents_from_chunks ops po (run_fs run) p cs")
    case (Inl e)
    with assms(1) inv1 show ?thesis by (auto simp: apply_update_file_def)
  next
    case (Inr on)
    obtain old new where on: "on = (old, new)" by fastforce
    from Inr have "read_file_text ops (run_fs run) p = Inr old"
      by (auto simp: on derive_new_contents_from_chunks_def and_then_Inr_iff split: sum.splits)
    then have old: "content (run_fs ?run) p = Some (TextContent old)"
      using read_ok inv p by (auto simp: run_tracks_def)
    show ?thesis
    proof (cases mv)
      case None
      with assms(1) Inr on have "apply_update_in_place ops po p a old new ?run = (run', r)"
        by (simp add: apply_update_file_def)
      then show ?thesis using update_in_place_tracks inv1 p old by blast
    next
      case (Some dest)
      show ?thesis
      proof (cases "path_join po cwd dest")
        case (Inl e)
        with assms(1) \<open>derive_new_contents_from_chunks _ _ _ _ _ = _\<close> on Some inv1 show ?thesis
          by (auto simp: apply_update_file_def)
      next
        case j: (Inr du)
        with assms(1) Inr on Some have "apply_move_file ops po p a du old new ?run = (run', r)"
          by (simp add: apply_update_file_def)
        then show ?thesis using move_file_tracks inv1 p d [OF Some j] old by blast
      qed
    qed
  qed
qed

end

text \<open>The paths a hunk may touch: the file it names and the destination of a rename.\<close>

definition hunk_targets :: "'p path_ops \<Rightarrow> 'p \<Rightarrow> hunk \<Rightarrow> 'p list" where
  "hunk_targets po cwd h =
     (case path_join po cwd (hunk_source_path h) of Inr p \<Rightarrow> [p] | Inl _ \<Rightarrow> []) @
     (case h of
        UpdateFile path (Some dest) chunks \<Rightarrow>
          (case path_join po cwd dest of Inr p \<Rightarrow> [p] | Inl _ \<Rightarrow> [])
      | _ \<Rightarrow> [])"

context executor_fs_laws
begin

lemma hunk_tracks:
  assumes "apply_hunk_to_files ops po cwd h run = (run', r)"
    and inv: "run_tracks content is_link Q m run" and "set (hunk_targets po cwd h) \<subseteq> Q"
  shows "run_tracks content is_link Q m run'"
proof (cases "resolve_path (path_join po) h cwd")
  case (Inl e)
  with assms show ?thesis by (simp add: apply_hunk_to_files_def)
next
  case (Inr p)
  then have p: "p \<in> Q" using assms(3) by (auto simp: hunk_targets_def resolve_path_def)
  show ?thesis
  proof (cases h)
    case (AddFile f t)
    then show ?thesis using assms(1) Inr add_file_tracks inv p by (simp add: apply_hunk_to_files_def)
  next
    case (DeleteFile f)
    then show ?thesis using assms(1) Inr delete_file_tracks inv p by (simp add: apply_hunk_to_files_def)
  next
    case (UpdateFile f mv cs)
    have "d \<in> Q" if "mv = Some dest" "path_join po cwd dest = Inr d" for dest d
      using assms(3) that UpdateFile by (auto simp: hunk_targets_def)
    then show ?thesis
      using assms(1) Inr UpdateFile update_file_tracks [OF _ inv p] by (simp add: apply_hunk_to_files_def)
  qed
qed

lemma hunk_loop_tracks:
  assumes "apply_hunk_loop ops po cwd hs run = (run', r)"
    and "run_tracks content is_link Q m run" and "\<forall>h \<in> set hs. set (hunk_targets po cwd h) \<subseteq> Q"
  shows "run_tracks content is_link Q m run'"
  using assms
proof (induction hs arbitrary: run)
  case (Cons h hs)
  obtain run1 r1 where step: "apply_hunk_to_files ops po cwd h run = (run1, r1)" by fastforce
  have "run_tracks content is_link Q m run1" using hunk_tracks [OF step] Cons.prems by simp
  then show ?case
    using Cons.IH [of run1] Cons.prems step by (cases r1) simp_all
qed simp

lemma exact_delta:
  assumes "apply_hunks_to_files ops po cwd hs s = (run, r)" and "run_exact run"
    and "\<forall>h \<in> set hs. \<forall>p \<in> set (hunk_targets po cwd h). \<not> is_link s p"
  shows "changes_agree (content s) (run_changes run) \<and>
    replay (content s) (run_changes run) = content (run_fs run)"
proof -
  let ?Q = "\<Union>h \<in> set hs. set (hunk_targets po cwd h)"
  have "run_tracks content is_link ?Q (content s) (start_run s)"
    using assms(3) by (auto simp: run_tracks_def start_run_def empty_delta_def)
  then have "run_tracks content is_link ?Q (content s) run"
  proof (cases "hs = []")
    case False
    with assms(1) have "apply_hunk_loop ops po cwd hs (start_run s) = (run, r)"
      by (simp add: apply_hunks_to_files_def)
    then show ?thesis by (rule hunk_loop_tracks) (fact, blast)
  qed (use assms(1) in \<open>auto simp: apply_hunks_to_files_def\<close>)
  with assms(2) show ?thesis by (simp add: run_tracks_def)
qed

end

section \<open>The summary\<close>

definition is_add :: "hunk \<Rightarrow> bool" where
  "is_add h = (case h of AddFile _ _ \<Rightarrow> True | _ \<Rightarrow> False)"

definition is_update :: "hunk \<Rightarrow> bool" where
  "is_update h = (case h of UpdateFile _ _ _ \<Rightarrow> True | _ \<Rightarrow> False)"

definition is_delete :: "hunk \<Rightarrow> bool" where
  "is_delete h = (case h of DeleteFile _ \<Rightarrow> True | _ \<Rightarrow> False)"

lemma affected_simps [simp]:
  "run_added (and_exact b run) = run_added run"
  "run_modified (and_exact b run) = run_modified run"
  "run_deleted (and_exact b run) = run_deleted run"
  "run_added (record_change p c run) = run_added run"
  "run_modified (record_change p c run) = run_modified run"
  "run_deleted (record_change p c run) = run_deleted run"
  by (simp_all add: and_exact_def record_change_def)

definition same_affected :: "('s, 'p) patch_run \<Rightarrow> ('s, 'p) patch_run \<Rightarrow> bool" where
  "same_affected run run' \<longleftrightarrow> run_added run' = run_added run \<and>
     run_modified run' = run_modified run \<and> run_deleted run' = run_deleted run"

lemma try_write_affected: "try_write w run = (run', r) \<Longrightarrow> same_affected run run'"
  by (auto simp: try_write_def same_affected_def split: prod.splits sum.splits)

lemma checked_remove_affected: "checked_remove fs p t c run = (run', r) \<Longrightarrow> same_affected run run'"
  by (auto simp: checked_remove_def same_affected_def split: prod.splits sum.splits)

definition affects ::
    "ustring list \<Rightarrow> ustring list \<Rightarrow> ustring list \<Rightarrow> ('s, 'p) patch_run \<Rightarrow> ('s, 'p) patch_run \<Rightarrow> bool" where
  "affects as ms ds run run' \<longleftrightarrow> run_added run' = run_added run @ as \<and>
     run_modified run' = run_modified run @ ms \<and> run_deleted run' = run_deleted run @ ds"

lemma add_file_affects:
  assumes "apply_add_file fs po p a t run = (run', Inr u)"
  shows "affects [a] [] [] run run'"
proof -
  obtain ov x where ro: "read_optional_file_text_for_delta fs (run_fs run) p (run_exact run) = (ov, x)"
    by fastforce
  obtain run1 r1 where tw: "try_write (write_file_with_missing_parent_retry fs po (run_fs run) p t)
      (and_exact x run) = (run1, r1)" by fastforce
  from assms ro tw show ?thesis
    using try_write_affected [OF tw]
    by (cases r1) (auto simp: apply_add_file_def affects_def same_affected_def)
qed

lemma delete_file_affects:
  assumes "apply_delete_file fs po p a run = (run', Inr u)"
  shows "affects [] [] [a] run run'"
proof -
  let ?t = "case read_file_text fs (run_fs run) p of Inr t \<Rightarrow> Some t | Inl _ \<Rightarrow> None"
  let ?run = "and_exact (note_existing_path_delta_support fs (run_fs run) p (run_exact run) \<and> ?t \<noteq> None) run"
  obtain run1 r1 where rm: "checked_remove fs p ?t (lit ''Failed to delete file '' @ path_native po p)
      ?run = (run1, r1)" by fastforce
  from assms rm show ?thesis
    using checked_remove_affected [OF rm]
    by (cases r1; cases ?t) (auto simp: apply_delete_file_def affects_def same_affected_def Let_def)
qed

lemma move_file_affects:
  assumes "apply_move_file fs po p a d old new run = (run', Inr u)"
  shows "affects [] [a] [] run run'"
proof -
  obtain ov x where ro: "read_optional_file_text_for_delta fs (run_fs run) d (run_exact run) = (ov, x)"
    by fastforce
  obtain run1 r1 where tw: "try_write (write_file_with_missing_parent_retry fs po (run_fs run) d new)
      (and_exact x run) = (run1, r1)" by fastforce
  obtain run2 r2 where rm: "checked_remove fs p (Some old)
      (lit ''Failed to remove original '' @ path_native po p) (record_change d (AppliedAdd new ov) run1) =
      (run2, r2)" by fastforce
  from assms ro tw rm show ?thesis
    using try_write_affected [OF tw] checked_remove_affected [OF rm]
    by (cases r1; cases r2) (auto simp: apply_move_file_def affects_def same_affected_def)
qed

lemma update_in_place_affects:
  assumes "apply_update_in_place fs po p a old new run = (run', Inr u)"
  shows "affects [] [a] [] run run'"
  using assms
  by (auto simp: apply_update_in_place_def try_write_def affects_def split: prod.splits sum.splits)

lemma update_file_affects:
  assumes "apply_update_file fs po cwd p a mv cs run = (run', Inr u)"
  shows "affects [] [a] [] run run'"
proof -
  have "affects [] [a] [] (and_exact b run) run' = affects [] [a] [] run run'" for b
    by (simp add: affects_def)
  with assms move_file_affects update_in_place_affects show ?thesis
    by (fastforce simp: apply_update_file_def Let_def split: sum.splits option.splits prod.splits)
qed

lemma hunk_affects:
  assumes "apply_hunk_to_files fs po cwd h run = (run', Inr u)"
  shows "affects (if is_add h then [hunk_path h] else []) (if is_update h then [hunk_path h] else [])
    (if is_delete h then [hunk_path h] else []) run run'"
  using assms add_file_affects delete_file_affects update_file_affects
  by (cases h)
    (auto simp: apply_hunk_to_files_def is_add_def is_update_def is_delete_def split: sum.splits)

lemma hunk_loop_affects:
  "apply_hunk_loop fs po cwd hs run = (run', Inr u) \<Longrightarrow>
   affects (map hunk_path (filter is_add hs)) (map hunk_path (filter is_update hs))
     (map hunk_path (filter is_delete hs)) run run'"
proof (induction hs arbitrary: run)
  case (Cons h hs)
  obtain run1 r1 where step: "apply_hunk_to_files fs po cwd h run = (run1, r1)" by fastforce
  with Cons.prems obtain u' where r1: "r1 = Inr u'" by (cases r1) auto
  with step Cons.prems have "apply_hunk_loop fs po cwd hs run1 = (run', Inr u)" by simp
  from Cons.IH [OF this] hunk_affects [OF step [unfolded r1]] show ?case
    by (auto simp: affects_def)
qed (simp add: affects_def)

lemma apply_single_hunk:
  assumes "apply_hunks_to_files fs po cwd [h] s = (run, Inr u)"
  shows "apply_hunk_to_files fs po cwd h (start_run s) = (run, Inr ())"
proof -
  obtain run1 r1 where "apply_hunk_to_files fs po cwd h (start_run s) = (run1, r1)" by fastforce
  with assms show ?thesis by (cases r1) (simp_all add: apply_hunks_to_files_def)
qed

text \<open>A writer that keeps every line.\<close>

definition keep_line :: "ustring list writeln" where
  "keep_line w l = (w @ [l], Inr ())"

lemma write_lines_keep: "write_lines keep_line w ls = (w @ ls, Inr ())"
  by (induction ls arbitrary: w) (simp_all add: keep_line_def)

text \<open>A patch that applies reports every hunk once, in patch order within its group: the
  additions, then the updates under the name of their destination, then the deletions; standard
  error stays as it was.\<close>

theorem apply_hunks_summary:
  assumes "apply_hunks fs po keep_line cwd hs s out err = ((s', out', err'), Inr delta)"
  shows "err' = err \<and>
    out' = out @ [lit ''Success. Updated the following files:''] @
      map (\<lambda>h. lit ''A '' @ hunk_path h) (filter is_add hs) @
      map (\<lambda>h. lit ''M '' @ hunk_path h) (filter is_update hs) @
      map (\<lambda>h. lit ''D '' @ hunk_path h) (filter is_delete hs)"
proof -
  obtain run r where run: "apply_hunks_to_files fs po cwd hs s = (run, r)" by fastforce
  show ?thesis
  proof (cases r)
    case (Inl e)
    with assms run show ?thesis by (simp add: apply_hunks_def keep_line_def)
  next
    case (Inr u)
    with run have "apply_hunk_loop fs po cwd hs (start_run s) = (run, Inr u)"
      by (auto simp: apply_hunks_to_files_def split: if_splits)
    then have "affects (map hunk_path (filter is_add hs)) (map hunk_path (filter is_update hs))
        (map hunk_path (filter is_delete hs)) (start_run s) run" by (rule hunk_loop_affects)
    with assms run Inr show ?thesis
      by (auto simp: apply_hunks_def print_summary_def write_lines_keep summary_lines_def affects_def
          start_run_def keep_line_def)
  qed
qed

end
