(* ===== verification/Local_FS.thy ===== *)
theory Local_FS
  imports Patch_Apply "HOL-Library.Sublist"
begin

text \<open>
  The direct file system of \<open>exec-server/src/local\_file\_system.rs\<close> (\<open>DirectFileSystem\<close>) over a
  model of the directory tree: paths are lists of names, an entry is a file, a directory or a
  symbolic link, and links are followed at the last component.  The operating system may deny any
  modification of a path.  The theory shows that these operations satisfy the laws that the patch
  code relies on.
\<close>

section \<open>The tree\<close>

type_synonym local_path = "ustring list"

datatype node = FileNode file_content | DirNode | LinkNode local_path

record local_fs =
  nodes :: "(local_path \<times> node) list"
  denied :: "local_path \<Rightarrow> bool"

definition lookup :: "local_fs \<Rightarrow> local_path \<Rightarrow> node option" where
  "lookup s p = (if p = [] then Some DirNode else map_of (nodes s) p)"

definition put :: "local_path \<Rightarrow> node \<Rightarrow> local_fs \<Rightarrow> local_fs" where
  "put p n s = s\<lparr>nodes := (p, n) # filter (\<lambda>e. fst e \<noteq> p) (nodes s)\<rparr>"

definition drop_entry :: "local_path \<Rightarrow> local_fs \<Rightarrow> local_fs" where
  "drop_entry p s = s\<lparr>nodes := filter (\<lambda>e. fst e \<noteq> p) (nodes s)\<rparr>"

definition drop_tree :: "local_path \<Rightarrow> local_fs \<Rightarrow> local_fs" where
  "drop_tree p s = s\<lparr>nodes := filter (\<lambda>e. \<not> prefix p (fst e)) (nodes s)\<rparr>"

text \<open>Following symbolic links at the last component, at most forty of them.\<close>

fun follow :: "nat \<Rightarrow> local_fs \<Rightarrow> local_path \<Rightarrow> local_path option" where
  "follow 0 s p = None"
| "follow (Suc n) s p =
     (case lookup s p of Some (LinkNode q) \<Rightarrow> follow n s q | _ \<Rightarrow> Some p)"

definition follow_path :: "local_fs \<Rightarrow> local_path \<Rightarrow> local_path option" where
  "follow_path s p = follow 40 s p"

definition path_is_dir :: "local_fs \<Rightarrow> local_path \<Rightarrow> bool" where
  "path_is_dir s p = (case follow_path s p of Some q \<Rightarrow> lookup s q = Some DirNode | None \<Rightarrow> False)"

abbreviation err :: "io_kind \<Rightarrow> io_error" where
  "err k \<equiv> Io k []"

section \<open>The standard library's operations\<close>

definition std_create_dir :: "local_fs \<Rightarrow> local_path \<Rightarrow> local_fs \<times> (io_error + unit)" where
  "std_create_dir s p =
     (if lookup s p \<noteq> None then (s, Inl (err AlreadyExists))
      else if lookup s (butlast p) = None then (s, Inl (err NotFound))
      else if lookup s (butlast p) \<noteq> Some DirNode then (s, Inl (err NotADirectory))
      else if denied s p then (s, Inl (err PermissionDenied))
      else (put p DirNode s, Inr ()))"

text \<open>\<open>create\_dir\_all\<close>: try, create the parents when they are missing, and try again.\<close>

function std_create_dir_all :: "local_fs \<Rightarrow> local_path \<Rightarrow> local_fs \<times> (io_error + unit)" where
  "std_create_dir_all s p =
     (if p = [] then (s, Inr ())
      else
        (case std_create_dir s p of
           (s1, Inr _) \<Rightarrow> (s1, Inr ())
         | (s1, Inl e) \<Rightarrow>
             if io_error_kind e = NotFound then
               (case std_create_dir_all s (butlast p) of
                  (s2, Inl e2) \<Rightarrow> (s2, Inl e2)
                | (s2, Inr _) \<Rightarrow>
                    (case std_create_dir s2 p of
                       (s3, Inr _) \<Rightarrow> (s3, Inr ())
                     | (s3, Inl e3) \<Rightarrow> if path_is_dir s3 p then (s3, Inr ()) else (s3, Inl e3)))
             else if path_is_dir s1 p then (s1, Inr ())
             else (s1, Inl e)))"
  by pat_completeness auto

termination
  by (relation "measure (\<lambda>(s, p). length p)") simp_all

declare std_create_dir_all.simps [simp del]

definition std_write :: "local_fs \<Rightarrow> local_path \<Rightarrow> ustring \<Rightarrow> local_fs \<times> (io_error + unit)" where
  "std_write s p t =
     (case follow_path s p of
        None \<Rightarrow> (s, Inl (err FilesystemLoop))
      | Some q \<Rightarrow>
          if lookup s q = Some DirNode then (s, Inl (err IsADirectory))
          else if lookup s (butlast q) = None then (s, Inl (err NotFound))
          else if lookup s (butlast q) \<noteq> Some DirNode then (s, Inl (err NotADirectory))
          else if denied s q then (s, Inl (err PermissionDenied))
          else (put q (FileNode (TextContent t)) s, Inr ()))"

definition std_remove_file :: "local_fs \<Rightarrow> local_path \<Rightarrow> local_fs \<times> (io_error + unit)" where
  "std_remove_file s p =
     (if denied s p then (s, Inl (err PermissionDenied)) else (drop_entry p s, Inr ()))"

definition std_remove_dir :: "local_fs \<Rightarrow> local_path \<Rightarrow> local_fs \<times> (io_error + unit)" where
  "std_remove_dir s p =
     (if p = [] \<or> denied s p then (s, Inl (err PermissionDenied))
      else if \<exists>e \<in> set (nodes s). strict_prefix p (fst e) then (s, Inl (err DirectoryNotEmpty))
      else (drop_entry p s, Inr ()))"

definition std_remove_dir_all :: "local_fs \<Rightarrow> local_path \<Rightarrow> local_fs \<times> (io_error + unit)" where
  "std_remove_dir_all s p =
     (if p = [] \<or> (\<exists>e \<in> set (nodes s). prefix p (fst e) \<and> denied s (fst e))
      then (s, Inl (err PermissionDenied))
      else (drop_tree p s, Inr ()))"

section \<open>The direct file system\<close>

definition MAX_READ_FILE_BYTES :: nat where
  "MAX_READ_FILE_BYTES = 512 * 1024 * 1024"

definition file_too_large_error :: io_error where
  "file_too_large_error =
     Io InvalidInput (lit ''file is too large to read: limit is '' @ nat_decimal MAX_READ_FILE_BYTES @
       lit '' bytes'')"

definition path_display :: "local_path \<Rightarrow> ustring" where
  "path_display p = lit ''/'' @ join (lit ''/'') p"

definition not_a_file_error :: "local_path \<Rightarrow> io_error" where
  "not_a_file_error p =
     Io InvalidInput (lit ''path `'' @ path_display p @ lit ''` is not a file'')"

definition direct_read_file_text :: "local_fs \<Rightarrow> local_path \<Rightarrow> io_error + ustring" where
  "direct_read_file_text s p =
     (case follow_path s p of
        None \<Rightarrow> Inl (err FilesystemLoop)
      | Some q \<Rightarrow>
          (case lookup s q of
             None \<Rightarrow> Inl (err NotFound)
           | Some (FileNode (TextContent t)) \<Rightarrow>
               if MAX_READ_FILE_BYTES < str_len t then Inl file_too_large_error else Inr t
           | Some (FileNode Binary) \<Rightarrow> Inl (err InvalidData)
           | Some _ \<Rightarrow> Inl (not_a_file_error p)))"

definition direct_write_file :: "local_fs \<Rightarrow> local_path \<Rightarrow> ustring \<Rightarrow> local_fs \<times> (io_error + unit)" where
  "direct_write_file s p contents = std_write s p contents"

definition direct_create_directory ::
    "local_fs \<Rightarrow> local_path \<Rightarrow> bool \<Rightarrow> local_fs \<times> (io_error + unit)" where
  "direct_create_directory s p recursive =
     (if recursive then std_create_dir_all s p else std_create_dir s p)"

definition node_size :: "node \<Rightarrow> nat" where
  "node_size n = (case n of FileNode (TextContent t) \<Rightarrow> str_len t | _ \<Rightarrow> 0)"

definition direct_get_metadata :: "local_fs \<Rightarrow> local_path \<Rightarrow> io_error + file_metadata" where
  "direct_get_metadata s p =
     (case follow_path s p of
        None \<Rightarrow> Inl (err FilesystemLoop)
      | Some q \<Rightarrow>
          (case lookup s q of
             None \<Rightarrow> Inl (err NotFound)
           | Some n \<Rightarrow>
               Inr \<lparr>is_directory = (n = DirNode), is_file = (case n of FileNode _ \<Rightarrow> True | _ \<Rightarrow> False),
                    is_symlink = (case lookup s p of Some (LinkNode _) \<Rightarrow> True | _ \<Rightarrow> False),
                    file_size = node_size n\<rparr>))"

definition direct_remove ::
    "local_fs \<Rightarrow> local_path \<Rightarrow> bool \<Rightarrow> bool \<Rightarrow> local_fs \<times> (io_error + unit)" where
  "direct_remove s p recursive force =
     (case lookup s p of
        Some n \<Rightarrow>
          if n = DirNode then (if recursive then std_remove_dir_all s p else std_remove_dir s p)
          else std_remove_file s p
      | None \<Rightarrow> if force then (s, Inr ()) else (s, Inl (err NotFound)))"

definition direct_fs :: "(local_fs, local_path) executor_fs" where
  "direct_fs =
     \<lparr>read_file_text = direct_read_file_text, write_file = direct_write_file,
      create_directory = direct_create_directory, get_metadata = direct_get_metadata,
      remove_path = direct_remove\<rparr>"

section \<open>The laws\<close>

definition entry_content :: "local_fs \<Rightarrow> local_path \<Rightarrow> file_content option" where
  "entry_content s p = (case lookup s p of Some (FileNode c) \<Rightarrow> Some c | _ \<Rightarrow> None)"

definition entry_is_link :: "local_fs \<Rightarrow> local_path \<Rightarrow> bool" where
  "entry_is_link s p = (case lookup s p of Some (LinkNode _) \<Rightarrow> True | _ \<Rightarrow> False)"

lemma map_of_filter_neq: "map_of (filter (\<lambda>e. fst e \<noteq> p) es) = (map_of es)(p := None)"
  by (induction es) auto

lemma lookup_put: "p \<noteq> [] \<Longrightarrow> lookup (put p n s) = (lookup s)(p := Some n)"
  by (auto simp: lookup_def put_def map_of_filter_neq fun_eq_iff)

lemma lookup_drop_entry: "p \<noteq> [] \<Longrightarrow> lookup (drop_entry p s) = (lookup s)(p := None)"
  by (auto simp: lookup_def drop_entry_def map_of_filter_neq fun_eq_iff)

lemma follow_no_link:
  assumes "\<not> entry_is_link s p"
  shows "follow_path s p = Some p"
proof -
  have "follow (Suc n) s p = Some p" for n
    using assms by (auto simp: entry_is_link_def split: option.splits node.splits)
  from this [of 39] show ?thesis by (simp add: follow_path_def)
qed

lemma lookup_root [simp]: "lookup s [] = Some DirNode"
  by (simp add: lookup_def)

lemma create_dir_result:
  "std_create_dir s p = (s', r) \<Longrightarrow> s' = s \<or> (lookup s p = None \<and> s' = put p DirNode s)"
  by (auto simp: std_create_dir_def split: if_splits)

lemma entry_put:
  assumes "p \<noteq> []"
  shows "entry_content (put p (FileNode c) s) = (entry_content s)(p := Some c)"
    and "entry_content (put p DirNode s) = (entry_content s)(p := None)"
    and "entry_is_link (put p (FileNode c) s) q \<longleftrightarrow> q \<noteq> p \<and> entry_is_link s q"
    and "entry_is_link (put p DirNode s) q \<longleftrightarrow> q \<noteq> p \<and> entry_is_link s q"
  using assms by (auto simp: entry_content_def entry_is_link_def lookup_put fun_eq_iff)

lemma entry_drop:
  assumes "p \<noteq> []"
  shows "entry_content (drop_entry p s) = (entry_content s)(p := None)"
    and "entry_is_link (drop_entry p s) q \<longleftrightarrow> q \<noteq> p \<and> entry_is_link s q"
  using assms by (auto simp: entry_content_def entry_is_link_def lookup_drop_entry fun_eq_iff)

lemma entry_absent:
  "lookup s p = None \<Longrightarrow> entry_content s p = None \<and> \<not> entry_is_link s p \<and> p \<noteq> []"
  by (auto simp: entry_content_def entry_is_link_def)

lemma create_dir_keeps:
  assumes "std_create_dir s p = (s', r)"
  shows "entry_content s' = entry_content s" and "entry_is_link s' = entry_is_link s"
  using create_dir_result [OF assms] entry_absent [of s p] by (auto simp: entry_put fun_eq_iff)

lemma create_dir_all_keeps:
  "std_create_dir_all s p = (s', r) \<Longrightarrow>
   entry_content s' = entry_content s \<and> entry_is_link s' = entry_is_link s"
proof (induction s p arbitrary: s' r rule: std_create_dir_all.induct)
  case (1 s p)
  obtain s1 r1 where c1: "std_create_dir s p = (s1, r1)" by fastforce
  obtain s2 r2 where c2: "std_create_dir_all s (butlast p) = (s2, r2)" by fastforce
  obtain s3 r3 where c3: "std_create_dir s2 p = (s3, r3)" by fastforce
  have "s' = s \<or> s' = s1 \<or> (p \<noteq> [] \<and> (\<exists>e. r1 = Inl e \<and> io_error_kind e = NotFound) \<and> (s' = s2 \<or> s' = s3))"
    using "1.prems" c1 c2 c3
    by (subst (asm) std_create_dir_all.simps) (auto split: if_splits sum.splits)
  moreover have "entry_content s2 = entry_content s \<and> entry_is_link s2 = entry_is_link s"
    if "p \<noteq> []" "\<exists>e. r1 = Inl e \<and> io_error_kind e = NotFound"
    using "1.IH" c1 c2 that by force
  ultimately show ?case using create_dir_keeps [OF c1] create_dir_keeps [OF c3] by auto
qed

lemma write_result:
  assumes "direct_write_file s p t = (s', r)"
  shows "(\<exists>e. r = Inl e \<and> s' = s) \<or>
    (\<exists>q. r = Inr () \<and> follow_path s p = Some q \<and> q \<noteq> [] \<and> s' = put q (FileNode (TextContent t)) s)"
proof -
  have "q \<noteq> []" if "lookup s q \<noteq> Some DirNode" for q using that by auto
  with assms show ?thesis
    by (auto simp: direct_write_file_def std_write_def split: option.splits if_splits)
qed

lemma remove_result:
  assumes "direct_remove s p False False = (s', r)"
  shows "(\<exists>e. r = Inl e \<and> s' = s) \<or> (r = Inr () \<and> p \<noteq> [] \<and> s' = drop_entry p s)"
  using assms
  by (auto simp: direct_remove_def std_remove_dir_def std_remove_file_def split: option.splits if_splits)

lemma drop_tree_link:
  assumes "entry_is_link (drop_tree p s) q"
  shows "entry_is_link s q"
proof -
  have "map_of (filter (\<lambda>e. \<not> prefix p (fst e)) es) q = (if prefix p q then None else map_of es q)" for es
    by (induction es) auto
  from this [of "nodes s"] show ?thesis
    using assms by (cases "q = []"; cases "prefix p q") (simp_all add: entry_is_link_def drop_tree_def lookup_def)
qed

lemma remove_links_result:
  assumes "direct_remove s p f g = (s', r)"
  shows "s' = s \<or> (p \<noteq> [] \<and> s' = drop_entry p s) \<or> s' = drop_tree p s"
  using assms
  by (auto simp: direct_remove_def std_remove_dir_def std_remove_file_def std_remove_dir_all_def
      split: option.splits if_splits)

lemma direct_fs_simps [simp]:
  "read_file_text direct_fs = direct_read_file_text"
  "write_file direct_fs = direct_write_file"
  "create_directory direct_fs = direct_create_directory"
  "get_metadata direct_fs = direct_get_metadata"
  "remove_path direct_fs = direct_remove"
  by (simp_all add: direct_fs_def)

lemma direct_read_cases:
  assumes "\<not> entry_is_link s p"
  shows "direct_read_file_text s p = Inr t \<Longrightarrow> entry_content s p = Some (TextContent t)"
    and "direct_read_file_text s p = Inl e \<Longrightarrow> io_error_kind e = NotFound \<Longrightarrow> entry_content s p = None"
  using assms
  by (auto simp: direct_read_file_text_def follow_no_link entry_content_def not_a_file_error_def
      file_too_large_error_def split: option.splits node.splits file_content.splits if_splits)

lemma direct_create_directory_keeps:
  "direct_create_directory s p rec = (s', r) \<Longrightarrow>
   entry_content s' = entry_content s \<and> entry_is_link s' = entry_is_link s"
  using create_dir_keeps create_dir_all_keeps
  by (auto simp: direct_create_directory_def split: if_splits)

lemma direct_write_links: "direct_write_file s p t = (s', r) \<Longrightarrow> entry_is_link s' q \<Longrightarrow> entry_is_link s q"
  using write_result by (fastforce simp: entry_put)

lemma direct_remove_links: "direct_remove s p f g = (s', r) \<Longrightarrow> entry_is_link s' q \<Longrightarrow> entry_is_link s q"
  using remove_links_result [of s p f g s' r] drop_tree_link by (auto simp: entry_drop)

interpretation direct: executor_fs_laws direct_fs entry_content entry_is_link
proof
  fix s p t s' assume "\<not> entry_is_link s p" "write_file direct_fs s p t = (s', Inr ())"
  then show "entry_content s' = (entry_content s)(p := Some (TextContent t))"
    using write_result [of s p t s'] by (auto simp: follow_no_link entry_put)
next
  fix s p t s' e assume "write_file direct_fs s p t = (s', Inl e)"
  then show "entry_content s' = entry_content s" using write_result [of s p t s'] by auto
next
  fix s p s' assume "remove_path direct_fs s p False False = (s', Inr ())"
  then show "entry_content s' = (entry_content s)(p := None)"
    using remove_result [of s p s'] by (auto simp: entry_drop)
next
  fix s p s' e q assume "remove_path direct_fs s p False False = (s', Inl e)"
  then show "entry_content s' q = entry_content s q"
    and "entry_content s' p = entry_content s p \<or> entry_content s' p = None"
    using remove_result [of s p s'] by auto
qed (unfold direct_fs_simps,
    (blast dest: direct_read_cases direct_create_directory_keeps direct_write_links
      direct_remove_links
     | metis direct_create_directory_keeps)+)

section \<open>Patches on the direct file system\<close>

text \<open>A small disk for examples: the working directory holds the file \<open>f\<close> with three lines and the
  link \<open>l\<close> to the missing file \<open>t\<close>; \<open>ro\<close> is a file that may not be modified.\<close>

definition demo_disk :: local_fs where
  "demo_disk =
     \<lparr>nodes = [([lit ''f''], FileNode (TextContent abc_file)), ([lit ''l''], LinkNode [lit ''t'']),
               ([lit ''ro''], FileNode (TextContent abc_file))],
      denied = (\<lambda>p. p = [lit ''ro''])\<rparr>"

definition demo_paths :: "local_path path_ops" where
  "demo_paths =
     \<lparr>path_join = (\<lambda>cwd s. Inr (cwd @ [s])),
      path_parent = (\<lambda>p. if p = [] then None else Some (butlast p)), path_native = path_display\<rparr>"

definition demo_hunks :: "hunk list" where
  "demo_hunks = [UpdateFile (lit ''f'') None [b_to_x], AddFile (lit ''g'') (lit ''new'' @ [newline])]"



theorem apply_hunks_summary_witness:
  "fst (snd (fst (apply_hunks direct_fs demo_paths keep_line [] demo_hunks demo_disk [] []))) =
     [lit ''Success. Updated the following files:'', lit ''A g'', lit ''M f'']"
proof -
  let ?r = "apply_hunks direct_fs demo_paths keep_line [] demo_hunks demo_disk [] []"
  have "is_ok (snd ?r)" by code_simp
  then obtain d where "snd ?r = Inr d" by (auto simp: is_ok_iff)
  then have "?r = ((fst (fst ?r), fst (snd (fst ?r)), snd (snd (fst ?r))), Inr d)"
    by (metis prod.collapse)
  from apply_hunks_summary [OF this] show ?thesis by (simp add: demo_hunks_def is_add_def is_update_def
        is_delete_def hunk_path_def lit_def)
qed

text \<open>The preview is what will be written: the new contents that
  \<open>unified\_diff\_from\_chunks\<close> shows for approval are the contents the file has after the update hunk
  is applied to the same disk.\<close>

theorem preview_matches_update:
  assumes "unified_diff_from_chunks text_diff direct_fs po s p chunks = Inr update"
    and "apply_hunks_to_files direct_fs po cwd [UpdateFile f None chunks] s = (run, Inr ())"
    and "path_join po cwd f = Inr p" and "\<not> entry_is_link s p"
  shows "entry_content (run_fs run) =
    (entry_content s)(p := Some (TextContent (upd_content update)))"
proof -
  obtain old where d: "derive_new_contents_from_chunks direct_fs po s p chunks = Inr (old, upd_content update)"
    using assms(1)
    by (auto simp: unified_diff_from_chunks_def unified_diff_from_chunks_with_context_def and_then_Inr_iff)
  obtain s' r where w: "write_file direct_fs s p (upd_content update) = (s', r)" by fastforce
  have run: "r = Inr () \<and> run_fs run = s'"
    using assms(2,3) d w
    by (auto simp: apply_hunks_to_files_def apply_hunk_to_files_def resolve_path_def hunk_source_path_def
        apply_update_file_def apply_update_in_place_def try_write_def start_run_def Let_def
        split: sum.splits)
  then show ?thesis using direct.write_ok [OF assms(4)] w by simp
qed

theorem preview_matches_update_witness:
  "entry_content
     (run_fs (fst (apply_hunks_to_files direct_fs demo_paths [] [UpdateFile (lit ''f'') None [b_to_x]] demo_disk)))
     [lit ''f''] =
   Some (TextContent (lit ''a'' @ [newline] @ lit ''x'' @ [newline] @ lit ''c'' @ [newline]))"
proof -
  let ?c = "lit ''a'' @ [newline] @ lit ''x'' @ [newline] @ lit ''c'' @ [newline]"
  let ?a = "apply_hunks_to_files direct_fs demo_paths [] [UpdateFile (lit ''f'') None [b_to_x]] demo_disk"
  have "unified_diff_from_chunks (\<lambda>_ _ _. []) direct_fs demo_paths demo_disk [lit ''f''] [b_to_x] =
      Inr \<lparr>upd_unified_diff = [], upd_original_content = abc_file, upd_content = ?c\<rparr>"
    by code_simp
  moreover have "?a = (fst ?a, Inr ())"
  proof -
    have "snd ?a = Inr ()" by code_simp
    then show ?thesis by (metis prod.collapse)
  qed
  moreover have "path_join demo_paths [] (lit ''f'') = Inr [lit ''f'']" by code_simp
  moreover have "\<not> entry_is_link demo_disk [lit ''f'']" by code_simp
  ultimately have "entry_content (run_fs (fst ?a)) = (entry_content demo_disk)([lit ''f''] :=
      Some (TextContent (upd_content
        \<lparr>upd_unified_diff = [], upd_original_content = abc_file, upd_content = ?c\<rparr>)))"
    by (rule preview_matches_update)
  then show ?thesis by simp
qed

text \<open>A rename onto itself destroys the file: an update hunk whose \<open>Move to\<close> names the file
  itself writes the new contents and then removes them, reports success, and lists the file as
  modified.\<close>

theorem move_onto_itself_deletes:
  assumes "apply_hunks_to_files direct_fs po cwd [UpdateFile f (Some f') chunks] s = (run, Inr ())"
    and "path_join po cwd f = Inr p" and "path_join po cwd f' = Inr p"
  shows "entry_content (run_fs run) p = None \<and> run_modified run = [f']"
proof -
  let ?run = "and_exact (note_existing_path_delta_support direct_fs s p True) (start_run s)
      :: (local_fs, local_path) patch_run"
  obtain old new where "apply_move_file direct_fs po p f' p old new ?run = (run, Inr ())"
    using apply_single_hunk [OF assms(1)] assms(2,3)
    by (auto simp: apply_hunk_to_files_def resolve_path_def hunk_source_path_def
        apply_update_file_def hunk_path_def Let_def start_run_def empty_delta_def split: sum.splits)
  moreover from this have "affects [] [f'] [] ?run run" by (rule move_file_affects)
  moreover obtain ov x where
      ro: "read_optional_file_text_for_delta direct_fs (run_fs ?run) p (run_exact ?run) = (ov, x)"
    by fastforce
  moreover obtain run1 r1 where
      tw: "try_write (write_file_with_missing_parent_retry direct_fs po (run_fs ?run) p new)
        (and_exact x ?run) = (run1, r1)" by fastforce
  moreover obtain run2 r2 where rm: "checked_remove direct_fs p (Some old)
      (lit ''Failed to remove original '' @ path_native po p) (record_change p (AppliedAdd new ov) run1) =
      (run2, r2)" by fastforce
  ultimately have "r2 = Inr ()" "run_fs run = run_fs run2" "run_modified run = [f']"
    by (cases r1; cases r2; auto simp: apply_move_file_def affects_def start_run_def)+
  then show ?thesis using direct.checked_remove_ok(2) rm by simp
qed

theorem move_onto_itself_deletes_witness:
  "entry_content
     (run_fs (fst (apply_hunks_to_files direct_fs demo_paths []
        [UpdateFile (lit ''f'') (Some (lit ''f'')) [b_to_x]] demo_disk))) [lit ''f''] = None"
proof -
  let ?a = "apply_hunks_to_files direct_fs demo_paths []
      [UpdateFile (lit ''f'') (Some (lit ''f'')) [b_to_x]] demo_disk"
  have "snd ?a = Inr ()" by code_simp
  then have "?a = (fst ?a, Inr ())" by (metis prod.collapse)
  moreover have "path_join demo_paths [] (lit ''f'') = Inr [lit ''f'']" by code_simp
  ultimately show ?thesis using move_onto_itself_deletes by blast
qed

text \<open>A write through a dangling link goes unnoticed: the metadata call follows the link and
  reports a missing file, so the delta stays exact, but the file that appears is the link's
  target.\<close>

theorem dangling_link_delta_not_exact:
  "let run = fst (apply_hunks_to_files direct_fs demo_paths [] [AddFile (lit ''l'') (lit ''x'')] demo_disk)
   in run_exact run \<and> entry_content (run_fs run) [lit ''t''] = Some (TextContent (lit ''x'')) \<and>
      replay (entry_content demo_disk) (run_changes run) [lit ''t''] = None"
  by code_simp

end
