(* ===== verification/Turn_Diff.thy ===== *)
theory Turn_Diff
  imports Local_FS "HOL-Library.AList" "HOL-Library.List_Lexorder"
begin

text \<open>
  \<open>core/src/turn\_diff\_tracker.rs\<close>: the net text diff of a turn, accumulated from the deltas of the
  patches applied in it without reading the disk again.  Hash maps are association lists with
  distinct keys; the relative path and display functions of \<open>PathUri\<close>, the line diff of the
  \<open>similar\<close> crate and SHA-1 are parameters.  The theory shows that the tracker's two maps are the
  contents at the start of the turn and now, and that its cache of rendered diffs never changes the
  answer.
\<close>

section \<open>State\<close>

record tracked_content =
  tc_content :: ustring
  tc_revision :: nat

type_synonym 'p tracked_path = "ustring \<times> 'p"

record 'p diff_cache_key =
  left_path :: "'p tracked_path"
  left_revision :: "nat option"
  right_path :: "'p tracked_path"
  right_revision :: "nat option"

record 'p turn_diff_tracker =
  td_valid :: bool
  display_roots_by_environment :: "(ustring \<times> 'p) list"
  baseline_by_path :: "('p tracked_path \<times> tracked_content) list"
  current_by_path :: "('p tracked_path \<times> tracked_content) list"
  origin_by_current_path :: "('p tracked_path \<times> 'p tracked_path) list"
  next_revision :: nat
  rendered_diffs :: "('p diff_cache_key \<times> ustring option) list"
  unified_diff :: "ustring option"

definition new_tracker :: "'p turn_diff_tracker" where
  "new_tracker =
     \<lparr>td_valid = True, display_roots_by_environment = [], baseline_by_path = [],
      current_by_path = [], origin_by_current_path = [], next_revision = 0, rendered_diffs = [],
      unified_diff = None\<rparr>"

definition with_environment_display_roots :: "(ustring \<times> 'p) list \<Rightarrow> 'p turn_diff_tracker" where
  "with_environment_display_roots roots =
     new_tracker\<lparr>display_roots_by_environment := foldl (\<lambda>m (k, v). AList.update k v m) [] roots\<rparr>"

text \<open>What the rendering takes from other crates.\<close>

record 'p render_ops =
  relative_path_from :: "'p \<Rightarrow> 'p \<Rightarrow> ustring option"
  native_path :: "'p \<Rightarrow> ustring"
  line_diff :: "ustring \<Rightarrow> ustring \<Rightarrow> ustring \<Rightarrow> ustring \<Rightarrow> ustring"
  sha1_hex :: "ustring \<Rightarrow> ustring"

section \<open>Recording a change\<close>

definition fresh_content ::
    "ustring \<Rightarrow> 'p turn_diff_tracker \<Rightarrow> tracked_content \<times> 'p turn_diff_tracker" where
  "fresh_content content t =
     (\<lparr>tc_content = content, tc_revision = next_revision t\<rparr>,
      t\<lparr>next_revision := next_revision t + 1\<rparr>)"

definition has_key :: "'k \<Rightarrow> ('k \<times> 'v) list \<Rightarrow> bool" where
  "has_key k m \<longleftrightarrow> map_of m k \<noteq> None"

definition insert_baseline ::
    "'p tracked_path \<Rightarrow> ustring \<Rightarrow> 'p turn_diff_tracker \<Rightarrow> 'p turn_diff_tracker" where
  "insert_baseline path content t =
     (case fresh_content content t of
        (c, t) \<Rightarrow> t\<lparr>baseline_by_path := AList.update path c (baseline_by_path t)\<rparr>)"

definition insert_current ::
    "'p tracked_path \<Rightarrow> ustring \<Rightarrow> 'p turn_diff_tracker \<Rightarrow> 'p turn_diff_tracker" where
  "insert_current path content t =
     (case fresh_content content t of
        (c, t) \<Rightarrow> t\<lparr>current_by_path := AList.update path c (current_by_path t)\<rparr>)"

definition forget_origin :: "'p tracked_path \<Rightarrow> 'p turn_diff_tracker \<Rightarrow> 'p turn_diff_tracker" where
  "forget_origin path t =
     t\<lparr>origin_by_current_path := AList.delete path (origin_by_current_path t)\<rparr>"

definition untracked :: "'p tracked_path \<Rightarrow> 'p turn_diff_tracker \<Rightarrow> bool" where
  "untracked path t \<longleftrightarrow> \<not> has_key path (current_by_path t) \<and> \<not> has_key path (baseline_by_path t)"

definition apply_add ::
    "'p tracked_path \<Rightarrow> ustring \<Rightarrow> ustring option \<Rightarrow> 'p turn_diff_tracker \<Rightarrow> 'p turn_diff_tracker" where
  "apply_add path content overwritten_content t =
     (let t = forget_origin path t;
          t = (case overwritten_content of
                 Some overwritten \<Rightarrow> if untracked path t then insert_baseline path overwritten t else t
               | None \<Rightarrow> t)
      in insert_current path content t)"

definition apply_delete ::
    "'p tracked_path \<Rightarrow> ustring \<Rightarrow> 'p turn_diff_tracker \<Rightarrow> 'p turn_diff_tracker" where
  "apply_delete path content t =
     (let was_untracked = untracked path t;
          t = t\<lparr>current_by_path := AList.delete path (current_by_path t)\<rparr>;
          t = (if was_untracked then insert_baseline path content t else t)
      in forget_origin path t)"

definition apply_update ::
    "'p tracked_path \<Rightarrow> 'p tracked_path option \<Rightarrow> ustring \<Rightarrow> ustring option \<Rightarrow> ustring \<Rightarrow>
     'p turn_diff_tracker \<Rightarrow> 'p turn_diff_tracker" where
  "apply_update source_path move_path old_content overwritten_move_content new_content t =
     (let t = (if untracked source_path t then insert_baseline source_path old_content t else t)
      in case move_path of
           Some dest_path \<Rightarrow>
             (let t = (case overwritten_move_content of
                         Some overwritten \<Rightarrow>
                           if untracked dest_path t then insert_baseline dest_path overwritten t else t
                       | None \<Rightarrow> t);
                  origin = (case map_of (origin_by_current_path t) source_path of
                              Some origin \<Rightarrow> origin | None \<Rightarrow> source_path);
                  t = forget_origin source_path t;
                  t = t\<lparr>current_by_path := AList.delete source_path (current_by_path t)\<rparr>;
                  t = insert_current dest_path new_content t;
                  t = forget_origin dest_path t
              in if dest_path \<noteq> origin
                 then t\<lparr>origin_by_current_path := AList.update dest_path origin (origin_by_current_path t)\<rparr>
                 else t)
         | None \<Rightarrow> insert_current source_path new_content t)"

definition apply_change ::
    "ustring \<Rightarrow> 'p applied_patch_change \<Rightarrow> 'p turn_diff_tracker \<Rightarrow> 'p turn_diff_tracker" where
  "apply_change environment_id change t =
     (let source_path = (environment_id, change_path change)
      in case file_change change of
           AppliedAdd content overwritten_content \<Rightarrow> apply_add source_path content overwritten_content t
         | AppliedDelete content \<Rightarrow> apply_delete source_path content t
         | AppliedUpdate move_path old_content overwritten_move_content new_content \<Rightarrow>
             apply_update source_path (map_option (\<lambda>p. (environment_id, p)) move_path) old_content
               overwritten_move_content new_content t)"

section \<open>Rendering\<close>

definition display_path :: "'p render_ops \<Rightarrow> 'p turn_diff_tracker \<Rightarrow> 'p tracked_path \<Rightarrow> ustring" where
  "display_path ro t path =
     (let roots = display_roots_by_environment t;
          display =
            (case (case map_of roots (fst path) of
                     Some root \<Rightarrow> relative_path_from ro (snd path) root
                   | None \<Rightarrow> None) of
               Some d \<Rightarrow> d
             | None \<Rightarrow> native_path ro (snd path))
      in if 1 < length roots \<and> fst path \<noteq> [] then fst path @ lit ''/'' @ display else display)"

definition ZERO_OID :: ustring where
  "ZERO_OID = lit ''0000000000000000000000000000000000000000''"

definition DEV_NULL :: ustring where
  "DEV_NULL = lit ''/dev/null''"

definition REGULAR_FILE_MODE :: ustring where
  "REGULAR_FILE_MODE = lit ''100644''"

definition git_blob_oid :: "'p render_ops \<Rightarrow> ustring \<Rightarrow> ustring" where
  "git_blob_oid ro data = sha1_hex ro (lit ''blob '' @ nat_decimal (str_len data) @ [0] @ data)"

definition slash_path :: "ustring \<Rightarrow> ustring" where
  "slash_path s = map (\<lambda>c. if c = 92 then 47 else c) s"

definition render_diff ::
    "'p render_ops \<Rightarrow> 'p turn_diff_tracker \<Rightarrow> 'p tracked_path \<Rightarrow> ustring option \<Rightarrow>
     'p tracked_path \<Rightarrow> ustring option \<Rightarrow> ustring option" where
  "render_diff ro t lpath left_content rpath right_content =
     (if left_content = right_content then None
      else
        let left_display = slash_path (display_path ro t lpath);
            right_display = slash_path (display_path ro t rpath);
            oid = (\<lambda>content. case content of None \<Rightarrow> ZERO_OID | Some c \<Rightarrow> git_blob_oid ro c);
            mode = (case (left_content, right_content) of
                      (None, Some _) \<Rightarrow> lit ''new file mode '' @ REGULAR_FILE_MODE @ [newline]
                    | (Some _, None) \<Rightarrow> lit ''deleted file mode '' @ REGULAR_FILE_MODE @ [newline]
                    | _ \<Rightarrow> []);
            old_header = (if left_content \<noteq> None then lit ''a/'' @ left_display else DEV_NULL);
            new_header = (if right_content \<noteq> None then lit ''b/'' @ right_display else DEV_NULL);
            text = (\<lambda>content. case content of None \<Rightarrow> [] | Some c \<Rightarrow> c)
        in Some (lit ''diff --git a/'' @ left_display @ lit '' b/'' @ right_display @ [newline] @
             mode @ lit ''index '' @ oid left_content @ lit ''..'' @ oid right_content @ [newline] @
             line_diff ro old_header new_header (text left_content) (text right_content)))"

text \<open>The renames to show: a current path that came from a path of the baseline which is gone now, and
  that has no baseline of its own.\<close>

definition rename_pairs :: "'p turn_diff_tracker \<Rightarrow> ('p tracked_path \<times> 'p tracked_path) list" where
  "rename_pairs t =
     foldl (\<lambda>pairs (dest_path, origin_path).
         if dest_path = origin_path \<or> has_key origin_path (current_by_path t) \<or>
            \<not> has_key dest_path (current_by_path t) \<or> \<not> has_key origin_path (baseline_by_path t) \<or>
            has_key dest_path (baseline_by_path t)
         then pairs
         else AList.update origin_path dest_path pairs)
       [] (origin_by_current_path t)"

record 'p refresh_state =
  rs_handled :: "'p tracked_path list"
  rs_previous :: "('p diff_cache_key \<times> ustring option) list"
  rs_rendered :: "('p diff_cache_key \<times> ustring option) list"
  rs_aggregated :: ustring

definition cache_key ::
    "'p turn_diff_tracker \<Rightarrow> 'p tracked_path \<Rightarrow> 'p tracked_path \<Rightarrow> 'p diff_cache_key" where
  "cache_key t lpath rpath =
     \<lparr>left_path = lpath,
      left_revision = map_option tc_revision (map_of (baseline_by_path t) lpath),
      right_path = rpath,
      right_revision = map_option tc_revision (map_of (current_by_path t) rpath)\<rparr>"

definition render_pair ::
    "'p render_ops \<Rightarrow> 'p turn_diff_tracker \<Rightarrow> 'p tracked_path \<Rightarrow> 'p tracked_path \<Rightarrow> ustring option" where
  "render_pair ro t lpath rpath =
     render_diff ro t lpath (map_option tc_content (map_of (baseline_by_path t) lpath))
       rpath (map_option tc_content (map_of (current_by_path t) rpath))"

definition append_diff :: "ustring \<Rightarrow> ustring option \<Rightarrow> ustring" where
  "append_diff aggregated rendered =
     (case rendered of
        None \<Rightarrow> aggregated
      | Some diff \<Rightarrow>
          (let aggregated = aggregated @ diff
           in if ends_with aggregated [newline] then aggregated else aggregated @ [newline]))"

definition refresh_path ::
    "'p render_ops \<Rightarrow> 'p turn_diff_tracker \<Rightarrow> 'p tracked_path \<Rightarrow> 'p refresh_state \<Rightarrow> 'p refresh_state" where
  "refresh_path ro t path st =
     (let pairs = rename_pairs t
      in if path \<in> set (rs_handled st) then st
         else
           let st = st\<lparr>rs_handled := path # rs_handled st\<rparr>
           in if path \<in> snd ` set pairs then st
              else
                let (rpath, handled) =
                      (case map_of pairs path of
                         Some dest \<Rightarrow> (dest, dest # rs_handled st)
                       | None \<Rightarrow> (path, rs_handled st));
                    key = cache_key t path rpath;
                    rendered = (case map_of (rs_previous st) key of
                                  Some r \<Rightarrow> r
                                | None \<Rightarrow> render_pair ro t path rpath)
                in \<lparr>rs_handled = handled,
                    rs_previous = AList.delete key (rs_previous st),
                    rs_rendered = AList.update key rendered (rs_rendered st),
                    rs_aggregated = append_diff (rs_aggregated st) rendered\<rparr>)"

definition refresh_paths :: "'p render_ops \<Rightarrow> 'p turn_diff_tracker \<Rightarrow> 'p tracked_path list" where
  "refresh_paths ro t =
     remdups_adj (sort_key (display_path ro t)
       (map fst (baseline_by_path t) @ map fst (current_by_path t)))"

definition refresh_unified_diff ::
    "'p render_ops \<Rightarrow> 'p turn_diff_tracker \<Rightarrow> 'p turn_diff_tracker" where
  "refresh_unified_diff ro t =
     (let st = foldl (\<lambda>st path. refresh_path ro t path st)
            \<lparr>rs_handled = [], rs_previous = rendered_diffs t, rs_rendered = [], rs_aggregated = []\<rparr>
            (refresh_paths ro t)
      in t\<lparr>rendered_diffs := rs_rendered st,
           unified_diff := (if rs_aggregated st = [] then None else Some (rs_aggregated st))\<rparr>)"

section \<open>The tracker's interface\<close>

definition invalidate :: "'p turn_diff_tracker \<Rightarrow> 'p turn_diff_tracker" where
  "invalidate t = t\<lparr>td_valid := False, rendered_diffs := [], unified_diff := None\<rparr>"

definition apply_changes ::
    "ustring \<Rightarrow> 'p applied_patch_change list \<Rightarrow> 'p turn_diff_tracker \<Rightarrow> 'p turn_diff_tracker" where
  "apply_changes environment_id changes t = foldl (\<lambda>t c. apply_change environment_id c t) t changes"

definition track_delta ::
    "'p render_ops \<Rightarrow> ustring \<Rightarrow> 'p applied_patch_delta \<Rightarrow> 'p turn_diff_tracker \<Rightarrow>
     'p turn_diff_tracker" where
  "track_delta ro environment_id delta t =
     (if \<not> td_valid t then t
      else if \<not> delta_exact delta then invalidate t
      else refresh_unified_diff ro (apply_changes environment_id (delta_changes delta) t))"

definition get_unified_diff :: "'p turn_diff_tracker \<Rightarrow> ustring option" where
  "get_unified_diff t = unified_diff t"

section \<open>The maps are the contents\<close>

text \<open>\<open>old\<close> are the contents of all tracked locations at the start of the turn and \<open>now\<close> the present
  ones: a tracked location has its old contents in the baseline and its present contents in the
  current map, and a location that is not tracked has not changed.\<close>

type_synonym 'p world = "'p tracked_path \<Rightarrow> ustring option"

definition baseline_text :: "'p turn_diff_tracker \<Rightarrow> 'p world" where
  "baseline_text t k = map_option tc_content (map_of (baseline_by_path t) k)"

definition current_text :: "'p turn_diff_tracker \<Rightarrow> 'p world" where
  "current_text t k = map_option tc_content (map_of (current_by_path t) k)"

definition tracks_world :: "'p world \<Rightarrow> 'p world \<Rightarrow> 'p turn_diff_tracker \<Rightarrow> bool" where
  "tracks_world old now t \<longleftrightarrow>
     (\<forall>k. if untracked k t then now k = old k
          else baseline_text t k = old k \<and> current_text t k = now k)"

lemma untracked_text: "untracked k t \<longleftrightarrow> baseline_text t k = None \<and> current_text t k = None"
  by (auto simp: untracked_def has_key_def baseline_text_def current_text_def)

lemma text_simps [simp]:
  "baseline_text (insert_baseline k c t) = (baseline_text t)(k := Some c)"
  "current_text (insert_baseline k c t) = current_text t"
  "baseline_text (insert_current k c t) = baseline_text t"
  "current_text (insert_current k c t) = (current_text t)(k := Some c)"
  "baseline_text (forget_origin k t) = baseline_text t"
  "current_text (forget_origin k t) = current_text t"
  "baseline_text (t\<lparr>current_by_path := m\<rparr>) = baseline_text t"
  "baseline_text (t\<lparr>origin_by_current_path := m'\<rparr>) = baseline_text t"
  "current_text (t\<lparr>origin_by_current_path := m'\<rparr>) = current_text t"
  "current_text (t\<lparr>current_by_path := AList.delete k (current_by_path t)\<rparr>) = (current_text t)(k := None)"
  by (auto simp: fun_eq_iff baseline_text_def current_text_def insert_baseline_def insert_current_def
      fresh_content_def forget_origin_def update_conv delete_conv)

lemma tracks_world_add:
  assumes "tracks_world old now t" and "now k = overwritten"
  shows "tracks_world old (now(k := Some c)) (apply_add k c overwritten t)"
proof -
  have b: "baseline_text (apply_add k c overwritten t) =
      (if untracked k t then (baseline_text t)(k := overwritten) else baseline_text t)"
    by (auto simp: apply_add_def Let_def untracked_text fun_eq_iff split: option.splits)
  have u: "current_text (apply_add k c overwritten t) = (current_text t)(k := Some c)"
    by (auto simp: apply_add_def Let_def split: option.splits)
  have "if untracked j (apply_add k c overwritten t) then (now(k := Some c)) j = old j
      else baseline_text (apply_add k c overwritten t) j = old j \<and>
        current_text (apply_add k c overwritten t) j = (now(k := Some c)) j" for j
    using assms(1) [unfolded tracks_world_def, rule_format, of j] assms(2)
    unfolding untracked_text b u by (auto split: if_splits)
  then show ?thesis unfolding tracks_world_def by blast
qed

lemma tracks_world_delete:
  assumes "tracks_world old now t" and "now k = Some c"
  shows "tracks_world old (now(k := None)) (apply_delete k c t)"
proof -
  have b: "baseline_text (apply_delete k c t) =
      (if untracked k t then (baseline_text t)(k := Some c) else baseline_text t)"
    by (auto simp: apply_delete_def Let_def)
  have u: "current_text (apply_delete k c t) = (current_text t)(k := None)"
    by (auto simp: apply_delete_def Let_def)
  have "if untracked j (apply_delete k c t) then (now(k := None)) j = old j
      else baseline_text (apply_delete k c t) j = old j \<and>
        current_text (apply_delete k c t) j = (now(k := None)) j" for j
    using assms(1) [unfolded tracks_world_def, rule_format, of j] assms(2)
    unfolding untracked_text b u by (auto split: if_splits)
  then show ?thesis unfolding tracks_world_def by blast
qed

lemma tracks_world_update:
  assumes "tracks_world old now t" and "now k = Some c"
  shows "tracks_world old (now(k := Some c')) (apply_update k None c ov c' t)"
proof -
  have b: "baseline_text (apply_update k None c ov c' t) =
      (if untracked k t then (baseline_text t)(k := Some c) else baseline_text t)"
    by (auto simp: apply_update_def Let_def)
  have u: "current_text (apply_update k None c ov c' t) = (current_text t)(k := Some c')"
    by (auto simp: apply_update_def Let_def)
  have "if untracked j (apply_update k None c ov c' t) then (now(k := Some c')) j = old j
      else baseline_text (apply_update k None c ov c' t) j = old j \<and>
        current_text (apply_update k None c ov c' t) j = (now(k := Some c')) j" for j
    using assms(1) [unfolded tracks_world_def, rule_format, of j] assms(2)
    unfolding untracked_text b u by (auto split: if_splits)
  then show ?thesis unfolding tracks_world_def by blast
qed

lemma move_texts:
  fixes t :: "'p turn_diff_tracker"
  assumes "d \<noteq> k"
  shows "baseline_text (apply_update k (Some d) c ov c' t) = (\<lambda>j.
      if j = k \<and> untracked k t then Some c else if j = d \<and> untracked d t then ov else baseline_text t j)"
    and "current_text (apply_update k (Some d) c ov c' t) = (current_text t)(k := None, d := Some c')"
proof -
  let ?t = "if untracked k t then insert_baseline k c t else t"
  let ?t' = "case ov of Some o' \<Rightarrow> if untracked d ?t then insert_baseline d o' ?t else ?t | None \<Rightarrow> ?t"
  have "untracked d ?t \<longleftrightarrow> untracked d t" using assms by (simp add: untracked_text)
  then have "baseline_text ?t' = (\<lambda>j.
      if j = k \<and> untracked k t then Some c else if j = d \<and> untracked d t then ov else baseline_text t j)"
    using assms by (auto simp: untracked_text fun_eq_iff split: option.splits)
  moreover have "current_text ?t' = current_text t" by (simp split: option.split)
  moreover have "current_text (forget_origin k s\<lparr>current_by_path := AList.delete k (current_by_path (forget_origin k s))\<rparr>) =
      (current_text s)(k := None)" for s :: "'p turn_diff_tracker"
    by simp
  ultimately show "baseline_text (apply_update k (Some d) c ov c' t) = (\<lambda>j.
      if j = k \<and> untracked k t then Some c else if j = d \<and> untracked d t then ov else baseline_text t j)"
    "current_text (apply_update k (Some d) c ov c' t) = (current_text t)(k := None, d := Some c')"
    unfolding apply_update_def Let_def by simp_all
qed

lemma tracks_world_move:
  assumes "tracks_world old now t" and "now k = Some c" and "now d = ov" and "d \<noteq> k"
  shows "tracks_world old (now(d := Some c', k := None)) (apply_update k (Some d) c ov c' t)"
proof -
  have "if untracked j (apply_update k (Some d) c ov c' t) then (now(d := Some c', k := None)) j = old j
      else baseline_text (apply_update k (Some d) c ov c' t) j = old j \<and>
        current_text (apply_update k (Some d) c ov c' t) j = (now(d := Some c', k := None)) j" for j
    using assms(1) [unfolded tracks_world_def, rule_format, of j] assms(2-4)
    unfolding untracked_text move_texts [OF assms(4)] by (auto split: if_splits)
  then show ?thesis unfolding tracks_world_def by blast
qed

definition text_of :: "file_content option \<Rightarrow> ustring option" where
  "text_of c = (case c of Some (TextContent t) \<Rightarrow> Some t | _ \<Rightarrow> None)"

lemma text_of_simps [simp]:
  "text_of None = None" "text_of (Some (TextContent t)) = Some t"
  "text_of (map_option TextContent x) = x"
  by (simp_all add: text_of_def split: option.split)

text \<open>The world after one environment's contents are given by \<open>m\<close>.\<close>

definition env_world :: "ustring \<Rightarrow> 'p contents \<Rightarrow> 'p world \<Rightarrow> 'p world" where
  "env_world e m w k = (if fst k = e then text_of (m (snd k)) else w k)"

lemma env_world_upd: "env_world e (m(p := c)) w = (env_world e m w)((e, p) := text_of c)"
  by (auto simp: env_world_def fun_eq_iff)

lemma env_world_at [simp]: "env_world e m w (e, p) = text_of (m p)"
  by (simp add: env_world_def)

definition no_self_move :: "'p applied_patch_change \<Rightarrow> bool" where
  "no_self_move c \<longleftrightarrow>
     (case file_change c of AppliedUpdate (Some dest) _ _ _ \<Rightarrow> dest \<noteq> change_path c | _ \<Rightarrow> True)"

lemma tracks_world_change:
  assumes "tracks_world old (env_world e m w) t" and "change_agrees m c" and "no_self_move c"
  shows "tracks_world old (env_world e (replay_change m c) w) (apply_change e c t)"
proof (cases "file_change c")
  case (AppliedAdd x ov)
  with assms show ?thesis
    by (auto simp: apply_change_def replay_change_def change_agrees_def env_world_upd
        intro!: tracks_world_add)
next
  case (AppliedDelete x)
  with assms show ?thesis
    by (auto simp: apply_change_def replay_change_def change_agrees_def env_world_upd
        intro!: tracks_world_delete)
next
  case (AppliedUpdate mv x ov y)
  show ?thesis
  proof (cases mv)
    case None
    with assms AppliedUpdate show ?thesis
      by (auto simp: apply_change_def replay_change_def change_agrees_def env_world_upd
          intro!: tracks_world_update)
  next
    case (Some d)
    with assms AppliedUpdate show ?thesis
      by (auto simp: apply_change_def replay_change_def change_agrees_def env_world_upd no_self_move_def
          intro!: tracks_world_move)
  qed
qed

lemma tracks_world_changes:
  "tracks_world old (env_world e m w) t \<Longrightarrow> changes_agree m cs \<Longrightarrow> \<forall>c \<in> set cs. no_self_move c \<Longrightarrow>
   tracks_world old (env_world e (replay m cs) w) (apply_changes e cs t)"
  by (induction cs arbitrary: m t) (simp_all add: apply_changes_def tracks_world_change)

lemma tracks_world_refresh: "tracks_world old now (refresh_unified_diff ro t) = tracks_world old now t"
  by (simp add: tracks_world_def untracked_text baseline_text_def current_text_def
      refresh_unified_diff_def Let_def)

section \<open>The cache\<close>

definition history_sound :: "(nat \<Rightarrow> ustring) \<Rightarrow> 'p turn_diff_tracker \<Rightarrow> bool" where
  "history_sound hist t \<longleftrightarrow>
     (\<forall>k c. map_of (baseline_by_path t) k = Some c \<or> map_of (current_by_path t) k = Some c \<longrightarrow>
        tc_revision c < next_revision t \<and> tc_content c = hist (tc_revision c))"

definition entry_sound ::
    "'p render_ops \<Rightarrow> 'p turn_diff_tracker \<Rightarrow> (nat \<Rightarrow> ustring) \<Rightarrow> 'p diff_cache_key \<Rightarrow> ustring option \<Rightarrow>
     bool" where
  "entry_sound ro t hist key r \<longleftrightarrow>
     (\<forall>n. left_revision key = Some n \<or> right_revision key = Some n \<longrightarrow> n < next_revision t) \<and>
     r = render_diff ro t (left_path key) (map_option hist (left_revision key))
       (right_path key) (map_option hist (right_revision key))"

definition entries_sound ::
    "'p render_ops \<Rightarrow> 'p turn_diff_tracker \<Rightarrow> (nat \<Rightarrow> ustring) \<Rightarrow> ('p diff_cache_key \<times> ustring option) list \<Rightarrow>
     bool" where
  "entries_sound ro t hist es \<longleftrightarrow> (\<forall>key r. map_of es key = Some r \<longrightarrow> entry_sound ro t hist key r)"

definition cache_sound :: "'p render_ops \<Rightarrow> 'p turn_diff_tracker \<Rightarrow> bool" where
  "cache_sound ro t \<longleftrightarrow>
     (\<exists>hist. history_sound hist t \<and> entries_sound ro t hist (rendered_diffs t))"

lemma render_diff_cong:
  "display_roots_by_environment t' = display_roots_by_environment t \<Longrightarrow>
   render_diff ro t' = render_diff ro t"
  by (simp add: fun_eq_iff render_diff_def display_path_def)

lemma cache_sound_fresh:
  assumes "cache_sound ro t"
    and "display_roots_by_environment t' = display_roots_by_environment t"
    and "rendered_diffs t' = rendered_diffs t" and "next_revision t' = next_revision t + 1"
    and "\<And>k c. map_of (baseline_by_path t') k = Some c \<or> map_of (current_by_path t') k = Some c \<Longrightarrow>
      c = \<lparr>tc_content = x, tc_revision = next_revision t\<rparr> \<or>
      map_of (baseline_by_path t) k = Some c \<or> map_of (current_by_path t) k = Some c"
  shows "cache_sound ro t'"
proof -
  obtain hist where h: "history_sound hist t" "entries_sound ro t hist (rendered_diffs t)"
    using assms(1) by (auto simp: cache_sound_def)
  let ?h = "hist(next_revision t := x)"
  have "history_sound ?h t'"
    unfolding history_sound_def
  proof (intro allI impI)
    fix k c
    assume "map_of (baseline_by_path t') k = Some c \<or> map_of (current_by_path t') k = Some c"
    from assms(5) [OF this] show "tc_revision c < next_revision t' \<and> tc_content c = ?h (tc_revision c)"
      using h(1) assms(4) unfolding history_sound_def by fastforce
  qed
  moreover have "map_option ?h n = map_option hist n" if "\<And>i. n = Some i \<Longrightarrow> i < next_revision t" for n
    using that by (cases n) auto
  then have "entry_sound ro t' ?h key r" if "entry_sound ro t hist key r" for key r
    using that assms(4) unfolding entry_sound_def render_diff_cong [OF assms(2)]
    by (auto simp: less_Suc_eq)
  then have "entries_sound ro t' ?h (rendered_diffs t')"
    using h(2) assms(3) by (auto simp: entries_sound_def)
  ultimately show ?thesis by (auto simp: cache_sound_def)
qed

lemma cache_sound_shrink:
  assumes "cache_sound ro t"
    and "display_roots_by_environment t' = display_roots_by_environment t"
    and "rendered_diffs t' = rendered_diffs t" and "next_revision t' = next_revision t"
    and "\<And>k c. map_of (baseline_by_path t') k = Some c \<or> map_of (current_by_path t') k = Some c \<Longrightarrow>
      map_of (baseline_by_path t) k = Some c \<or> map_of (current_by_path t) k = Some c"
  shows "cache_sound ro t'"
proof -
  obtain hist where h: "history_sound hist t" "entries_sound ro t hist (rendered_diffs t)"
    using assms(1) by (auto simp: cache_sound_def)
  have "history_sound hist t'"
    using h(1) assms(4,5) unfolding history_sound_def by simp metis
  moreover have "entries_sound ro t' hist (rendered_diffs t')"
    using h(2) assms(3,4) by (simp add: entries_sound_def entry_sound_def render_diff_cong [OF assms(2)])
  ultimately show ?thesis by (auto simp: cache_sound_def)
qed

lemma cache_sound_insert:
  assumes "cache_sound ro t"
  shows "cache_sound ro (insert_baseline k x t)" and "cache_sound ro (insert_current k x t)"
  by (rule cache_sound_fresh [OF assms, where x = x];
      force simp: insert_baseline_def insert_current_def fresh_content_def update_conv split: if_splits)+

lemma cache_sound_forget:
  assumes "cache_sound ro t"
  shows "cache_sound ro (forget_origin k t)" and "cache_sound ro (t\<lparr>origin_by_current_path := m\<rparr>)"
    and "cache_sound ro (t\<lparr>current_by_path := AList.delete k (current_by_path t)\<rparr>)"
  by (rule cache_sound_shrink [OF assms];
      force simp: forget_origin_def delete_conv split: if_splits)+

lemmas cache_sound_ops = cache_sound_insert cache_sound_forget

lemma cache_sound_change: "cache_sound ro t \<Longrightarrow> cache_sound ro (apply_change e c t)"
  by (auto simp: apply_change_def apply_add_def apply_delete_def apply_update_def Let_def
      intro!: cache_sound_ops split: applied_file_change.splits option.splits)

lemma cache_sound_changes: "cache_sound ro t \<Longrightarrow> cache_sound ro (apply_changes e cs t)"
  by (induction cs arbitrary: t) (simp_all add: apply_changes_def cache_sound_change)

text \<open>Rendering now gives what the history gives for the key.\<close>

lemma history_soundD:
  assumes "history_sound hist t"
    and "map_of (baseline_by_path t) k = Some c \<or> map_of (current_by_path t) k = Some c"
  shows "tc_revision c < next_revision t" and "hist (tc_revision c) = tc_content c"
  using assms unfolding history_sound_def by metis+

lemma render_pair_sound:
  assumes "history_sound hist t"
  shows "entry_sound ro t hist (cache_key t l r) (render_pair ro t l r)"
  using history_soundD [OF assms, of l] history_soundD [OF assms, of r]
  by (cases "map_of (baseline_by_path t) l"; cases "map_of (current_by_path t) r")
    (auto simp: entry_sound_def cache_key_def render_pair_def)

lemma cached_is_rendered:
  assumes "history_sound hist t" and "entries_sound ro t hist es"
    and "map_of es (cache_key t l r) = Some d"
  shows "d = render_pair ro t l r"
  using assms render_pair_sound [OF assms(1), of ro l r] by (auto simp: entries_sound_def entry_sound_def)

text \<open>Two runs of the loop, one with and one without a cache, agree on what they handled and
  rendered.\<close>

definition same_output :: "'p refresh_state \<Rightarrow> 'p refresh_state \<Rightarrow> bool" where
  "same_output st st' \<longleftrightarrow> rs_handled st = rs_handled st' \<and> rs_rendered st = rs_rendered st' \<and>
     rs_aggregated st = rs_aggregated st'"

definition refresh_inv ::
    "'p render_ops \<Rightarrow> 'p turn_diff_tracker \<Rightarrow> (nat \<Rightarrow> ustring) \<Rightarrow> 'p refresh_state \<Rightarrow> bool" where
  "refresh_inv ro t hist st \<longleftrightarrow>
     entries_sound ro t hist (rs_previous st) \<and> entries_sound ro t hist (rs_rendered st)"

lemma refresh_path_result:
  assumes h: "history_sound hist t" and inv: "refresh_inv ro t hist st"
  shows "refresh_path ro t path st =
    (if path \<in> set (rs_handled st) then st
     else if path \<in> snd ` set (rename_pairs t) then st\<lparr>rs_handled := path # rs_handled st\<rparr>
     else let rpath = (case map_of (rename_pairs t) path of Some d \<Rightarrow> d | None \<Rightarrow> path);
              key = cache_key t path rpath; d = render_pair ro t path rpath
          in \<lparr>rs_handled = (case map_of (rename_pairs t) path of Some d \<Rightarrow> [d] | None \<Rightarrow> []) @
                path # rs_handled st,
              rs_previous = AList.delete key (rs_previous st),
              rs_rendered = AList.update key d (rs_rendered st),
              rs_aggregated = append_diff (rs_aggregated st) d\<rparr>)"
proof -
  have "(case map_of (rs_previous st) (cache_key t l r) of Some x \<Rightarrow> x | None \<Rightarrow> render_pair ro t l r) =
      render_pair ro t l r" for l r
    using cached_is_rendered [OF h, of ro "rs_previous st" l r] inv
    by (auto simp: refresh_inv_def split: option.splits)
  then show ?thesis
    by (simp add: refresh_path_def Let_def split: option.split)
qed

lemma entries_sound_update:
  "entries_sound ro t hist es \<Longrightarrow> entry_sound ro t hist k d \<Longrightarrow> entries_sound ro t hist (AList.update k d es)"
  "entries_sound ro t hist es \<Longrightarrow> entries_sound ro t hist (AList.delete k es)"
  by (auto simp: entries_sound_def update_conv delete_conv split: if_splits)

lemma refresh_path_inv:
  assumes "history_sound hist t" and "refresh_inv ro t hist st"
  shows "refresh_inv ro t hist (refresh_path ro t path st)"
  using assms unfolding refresh_path_result [OF assms]
  by (auto simp: refresh_inv_def Let_def intro!: entries_sound_update render_pair_sound)

lemma refresh_path_same:
  assumes "history_sound hist t" and "refresh_inv ro t hist st" and "refresh_inv ro t hist st'"
    and "same_output st st'"
  shows "same_output (refresh_path ro t path st) (refresh_path ro t path st')"
  using assms(4)
  unfolding refresh_path_result [OF assms(1,2)] refresh_path_result [OF assms(1,3)]
  by (auto simp: same_output_def Let_def)

lemma refresh_fold:
  assumes "history_sound hist t" and "refresh_inv ro t hist st" and "refresh_inv ro t hist st'"
    and "same_output st st'"
  shows "refresh_inv ro t hist (foldl (\<lambda>st p. refresh_path ro t p st) st ps) \<and>
    same_output (foldl (\<lambda>st p. refresh_path ro t p st) st ps) (foldl (\<lambda>st p. refresh_path ro t p st) st' ps)"
  using assms(2-)
proof (induction ps arbitrary: st st')
  case (Cons p ps)
  show ?case
    using Cons.IH [OF refresh_path_inv [OF assms(1) Cons.prems(1)]
        refresh_path_inv [OF assms(1) Cons.prems(2)] refresh_path_same [OF assms(1) Cons.prems]]
    by simp
qed simp

definition same_maps :: "'p turn_diff_tracker \<Rightarrow> 'p turn_diff_tracker \<Rightarrow> bool" where
  "same_maps t t' \<longleftrightarrow> display_roots_by_environment t = display_roots_by_environment t' \<and>
     baseline_by_path t = baseline_by_path t' \<and> current_by_path t = current_by_path t' \<and>
     origin_by_current_path t = origin_by_current_path t'"

lemma refresh_cong:
  assumes "same_maps t t'"
  shows "refresh_paths ro t = refresh_paths ro t'" and "refresh_path ro t = refresh_path ro t'"
proof -
  have d: "display_path ro t = display_path ro t'"
    using assms by (intro ext) (simp only: display_path_def same_maps_def)
  have e: "rename_pairs t = rename_pairs t'" "cache_key t = cache_key t'" "render_pair ro t = render_pair ro t'"
    using assms
    by (simp add: rename_pairs_def same_maps_def,
        (intro ext, simp add: cache_key_def render_pair_def render_diff_def d same_maps_def)+)
  show "refresh_paths ro t = refresh_paths ro t'"
    using assms by (simp add: refresh_paths_def d same_maps_def)
  show "refresh_path ro t = refresh_path ro t'"
    by (intro ext) (simp only: refresh_path_def e)
qed

lemma refresh_cached:
  assumes "cache_sound ro t"
  shows "unified_diff (refresh_unified_diff ro t) =
      unified_diff (refresh_unified_diff ro (t\<lparr>rendered_diffs := []\<rparr>))"
    and "cache_sound ro (refresh_unified_diff ro t)"
proof -
  obtain hist where h: "history_sound hist t" "entries_sound ro t hist (rendered_diffs t)"
    using assms by (auto simp: cache_sound_def)
  let ?st = "\<lambda>es. \<lparr>rs_handled = [], rs_previous = es, rs_rendered = [], rs_aggregated = []\<rparr>"
  let ?run = "\<lambda>es. foldl (\<lambda>st p. refresh_path ro t p st) (?st es) (refresh_paths ro t)"
  have "refresh_inv ro t hist (?st (rendered_diffs t))" "refresh_inv ro t hist (?st [])"
    using h(2) by (simp_all add: refresh_inv_def entries_sound_def)
  from refresh_fold [OF h(1) this, of "refresh_paths ro t"]
  have f: "refresh_inv ro t hist (?run (rendered_diffs t))"
    "same_output (?run (rendered_diffs t)) (?run [])"
    by (simp_all add: same_output_def)
  have paths: "refresh_paths ro (t\<lparr>rendered_diffs := []\<rparr>) = refresh_paths ro t"
    "refresh_path ro (t\<lparr>rendered_diffs := []\<rparr>) = refresh_path ro t"
    by (rule refresh_cong; simp add: same_maps_def)+
  show "unified_diff (refresh_unified_diff ro t) =
      unified_diff (refresh_unified_diff ro (t\<lparr>rendered_diffs := []\<rparr>))"
    using f(2) by (simp add: refresh_unified_diff_def paths Let_def same_output_def)
  show "cache_sound ro (refresh_unified_diff ro t)"
    unfolding cache_sound_def
  proof (intro exI conjI)
    show "history_sound hist (refresh_unified_diff ro t)"
      using h(1) by (simp add: history_sound_def refresh_unified_diff_def Let_def)
    show "entries_sound ro (refresh_unified_diff ro t) hist (rendered_diffs (refresh_unified_diff ro t))"
    proof -
      have "render_diff ro (refresh_unified_diff ro t) = render_diff ro t"
        by (rule render_diff_cong) (simp add: refresh_unified_diff_def Let_def)
      moreover have n: "next_revision (refresh_unified_diff ro t) = next_revision t"
        "rendered_diffs (refresh_unified_diff ro t) = rs_rendered (?run (rendered_diffs t))"
        by (simp_all add: refresh_unified_diff_def Let_def)
      ultimately have "entry_sound ro (refresh_unified_diff ro t) hist = entry_sound ro t hist"
        by (intro ext) (simp only: entry_sound_def)
      then show ?thesis
        using f(1) by (simp only: refresh_inv_def entries_sound_def n) blast
    qed
  qed
qed

text \<open>All the deltas of a turn, each with the environment it was applied in.\<close>

definition track_all ::
    "'p render_ops \<Rightarrow> (ustring \<times> 'p applied_patch_delta) list \<Rightarrow> 'p turn_diff_tracker \<Rightarrow>
     'p turn_diff_tracker" where
  "track_all ro ds t = foldl (\<lambda>t (e, d). track_delta ro e d t) t ds"

text \<open>The diff recomputed from the maps alone.\<close>

definition fresh_unified_diff :: "'p render_ops \<Rightarrow> 'p turn_diff_tracker \<Rightarrow> ustring option" where
  "fresh_unified_diff ro t = unified_diff (refresh_unified_diff ro (t\<lparr>rendered_diffs := []\<rparr>))"

definition diff_up_to_date :: "'p render_ops \<Rightarrow> 'p turn_diff_tracker \<Rightarrow> bool" where
  "diff_up_to_date ro t \<longleftrightarrow>
     cache_sound ro t \<and>
     unified_diff t = (if td_valid t then fresh_unified_diff ro t else None)"

lemma fresh_diff_cong: "same_maps t t' \<Longrightarrow> fresh_unified_diff ro t = fresh_unified_diff ro t'"
proof -
  assume "same_maps t t'"
  then have "same_maps (t\<lparr>rendered_diffs := []\<rparr>) (t'\<lparr>rendered_diffs := []\<rparr>)" by (simp add: same_maps_def)
  from refresh_cong [OF this] show ?thesis
    by (simp add: fresh_unified_diff_def refresh_unified_diff_def Let_def)
qed

lemma refresh_same_maps: "same_maps (refresh_unified_diff ro t) t"
  by (simp add: same_maps_def refresh_unified_diff_def Let_def)

lemma apply_change_valid [simp]: "td_valid (apply_change e c t) = td_valid t"
  by (auto simp: apply_change_def apply_add_def apply_delete_def apply_update_def insert_baseline_def
      insert_current_def fresh_content_def forget_origin_def Let_def
      split: applied_file_change.splits option.splits)

lemma apply_changes_valid [simp]: "td_valid (apply_changes e cs t) = td_valid t"
  by (induction cs arbitrary: t) (simp_all add: apply_changes_def)

lemma cache_sound_invalidate: "cache_sound ro t \<Longrightarrow> cache_sound ro (invalidate t)"
  by (auto simp: cache_sound_def history_sound_def entries_sound_def invalidate_def)

lemma track_delta_up_to_date:
  assumes "diff_up_to_date ro t"
  shows "diff_up_to_date ro (track_delta ro e d t)"
proof -
  let ?t = "apply_changes e (delta_changes d) t"
  have c: "cache_sound ro t" using assms by (simp add: diff_up_to_date_def)
  note r = refresh_cached [OF cache_sound_changes [OF c], of e "delta_changes d"]
  have "td_valid (refresh_unified_diff ro ?t) = td_valid t"
    by (simp add: refresh_unified_diff_def Let_def)
  then have "diff_up_to_date ro (refresh_unified_diff ro ?t)" if "td_valid t"
    unfolding diff_up_to_date_def fresh_diff_cong [OF refresh_same_maps] using r that
    by (simp add: fresh_unified_diff_def)
  moreover have "diff_up_to_date ro (invalidate t)"
    using cache_sound_invalidate [OF c] by (simp add: diff_up_to_date_def invalidate_def)
  ultimately show ?thesis using assms by (simp add: track_delta_def)
qed

lemma track_all_up_to_date: "diff_up_to_date ro t \<Longrightarrow> diff_up_to_date ro (track_all ro ds t)"
  by (induction ds arbitrary: t) (auto simp: track_all_def track_delta_up_to_date)

lemma new_up_to_date: "diff_up_to_date ro (with_environment_display_roots roots)"
  by (simp add: diff_up_to_date_def cache_sound_def history_sound_def entries_sound_def
      with_environment_display_roots_def new_tracker_def fresh_unified_diff_def refresh_unified_diff_def
      refresh_paths_def)

section \<open>Properties\<close>

text \<open>The cache of rendered diffs is invisible: after any sequence of deltas, the diff of a valid
  tracker is the one that rendering every file from the two content maps gives, and an invalidated
  tracker shows none.\<close>

theorem cached_diff_is_fresh:
  "get_unified_diff (track_all ro ds (with_environment_display_roots roots)) =
     (if td_valid (track_all ro ds (with_environment_display_roots roots))
      then fresh_unified_diff ro (track_all ro ds (with_environment_display_roots roots)) else None)"
  using track_all_up_to_date [OF new_up_to_date, of ro ds roots]
  by (simp add: get_unified_diff_def diff_up_to_date_def)


definition demo_render :: "local_path render_ops" where
  "demo_render =
     \<lparr>relative_path_from = (\<lambda>p root. None), native_path = path_display,
      line_diff = (\<lambda>_ _ _ _. []), sha1_hex = (\<lambda>s. s)\<rparr>"


text \<open>After a rename onto itself the tracker and the disk disagree: the tracker shows the new
  contents of a file that no longer exists.\<close>

theorem self_move_tracker_diverges:
  "let run = fst (apply_hunks_to_files direct_fs demo_paths []
         [UpdateFile (lit ''f'') (Some (lit ''f'')) [b_to_x]] demo_disk);
       t = track_delta demo_render (lit ''e'') (run_delta run) new_tracker
   in run_exact run \<and> entry_content (run_fs run) [lit ''f''] = None \<and>
      current_text t (lit ''e'', [lit ''f'']) =
        Some (lit ''a'' @ [newline] @ lit ''x'' @ [newline] @ lit ''c'' @ [newline])"
  by code_simp

text \<open>A delta that is not exact ends the tracking for the rest of the turn: no later delta
  brings a diff back.\<close>

theorem inexact_delta_invalidates:
  assumes "\<not> delta_exact d"
  shows "get_unified_diff (track_all ro ds (track_delta ro e d t)) =
    (if td_valid t then None else get_unified_diff (track_all ro ds t))"
proof -
  have "track_all ro ds t' = t'" if "\<not> td_valid t'" for t'
    using that by (induction ds) (auto simp: track_all_def track_delta_def)
  then show ?thesis using assms
    by (simp add: track_delta_def get_unified_diff_def invalidate_def)
qed

theorem inexact_delta_invalidates_witness:
  "get_unified_diff (track_all demo_render [(lit ''e'', empty_delta)]
     (track_delta demo_render (lit ''e'') \<lparr>delta_changes = [], delta_exact = False\<rparr> new_tracker)) = None"
  using inexact_delta_invalidates [of "\<lparr>delta_changes = [], delta_exact = False\<rparr>" demo_render
      "[(lit ''e'', empty_delta)]" "lit ''e''" new_tracker]
  by (simp add: new_tracker_def)

end
