(* ===== verification/Patch_Grammar.thy ===== *)
theory Patch_Grammar
  imports Patch_Parser
begin

text \<open>
  The grammar of the header comment of \<open>apply-patch/src/parser.rs\<close> as an abstract syntax with
  a printer and a meaning, and the proof that the parser implements it: every printed patch
  parses, to the hunks it denotes.
\<close>

section \<open>Abstract syntax, printer and meaning\<close>

datatype change_line = ContextLine ustring | AddedLine ustring | RemovedLine ustring

datatype change_chunk = ChangeChunk "ustring option" "change_line list" bool

datatype patch_hunk =
    AddHunk ustring "ustring list"
  | DeleteHunk ustring
  | UpdateHunk ustring "ustring option" "change_chunk list"

fun print_change_line :: "change_line \<Rightarrow> ustring" where
  "print_change_line (ContextLine l) = lit '' '' @ l"
| "print_change_line (AddedLine l) = lit ''+'' @ l"
| "print_change_line (RemovedLine l) = lit ''-'' @ l"

fun print_chunk :: "change_chunk \<Rightarrow> ustring list" where
  "print_chunk (ChangeChunk ctx ls eof) =
     (case ctx of None \<Rightarrow> EMPTY_CHANGE_CONTEXT_MARKER | Some c \<Rightarrow> CHANGE_CONTEXT_MARKER @ c)
     # map print_change_line ls @ (if eof then [EOF_MARKER] else [])"

fun print_hunk :: "patch_hunk \<Rightarrow> ustring list" where
  "print_hunk (AddHunk path ls) = (ADD_FILE_MARKER @ path) # map (\<lambda>l. lit ''+'' @ l) ls"
| "print_hunk (DeleteHunk path) = [DELETE_FILE_MARKER @ path]"
| "print_hunk (UpdateHunk path mv cs) =
     (UPDATE_FILE_MARKER @ path)
     # (case mv of None \<Rightarrow> [] | Some dest \<Rightarrow> [MOVE_TO_MARKER @ dest])
     @ concat (map print_chunk cs)"

definition print_patch :: "ustring option \<Rightarrow> patch_hunk list \<Rightarrow> ustring" where
  "print_patch env hs =
     join [newline]
       ((BEGIN_PATCH_MARKER
         # (case env of None \<Rightarrow> [] | Some e \<Rightarrow> [ENVIRONMENT_ID_MARKER @ lit '' '' @ e])
         @ concat (map print_hunk hs)) @ [END_PATCH_MARKER])"

fun change_old :: "change_line \<Rightarrow> ustring list" where
  "change_old (ContextLine l) = [l]"
| "change_old (AddedLine l) = []"
| "change_old (RemovedLine l) = [l]"

fun change_new :: "change_line \<Rightarrow> ustring list" where
  "change_new (ContextLine l) = [l]"
| "change_new (AddedLine l) = [l]"
| "change_new (RemovedLine l) = []"

fun chunk_meaning :: "change_chunk \<Rightarrow> update_file_chunk" where
  "chunk_meaning (ChangeChunk ctx ls eof) =
     \<lparr> change_context = ctx, old_lines = concat (map change_old ls),
       new_lines = concat (map change_new ls), is_end_of_file = eof \<rparr>"

fun hunk_meaning :: "patch_hunk \<Rightarrow> hunk" where
  "hunk_meaning (AddHunk path ls) = AddFile path (concat (map (\<lambda>l. l @ [newline]) ls))"
| "hunk_meaning (DeleteHunk path) = DeleteFile path"
| "hunk_meaning (UpdateHunk path mv cs) = UpdateFile path mv (map chunk_meaning cs)"

text \<open>What the printer may be given.  A file name has no blanks at its ends; a context has none
  at its end; no line contains a line feed or ends in a carriage return, which the parser drops.
  An update hunk has chunks and a chunk has lines.\<close>

definition trimmed_name :: "ustring \<Rightarrow> bool" where
  "trimmed_name s \<longleftrightarrow> s \<noteq> [] \<and> newline \<notin> set s \<and> \<not> is_whitespace (hd s) \<and> \<not> is_whitespace (last s)"

fun change_text :: "change_line \<Rightarrow> ustring" where
  "change_text (ContextLine l) = l"
| "change_text (AddedLine l) = l"
| "change_text (RemovedLine l) = l"

fun chunk_ok :: "change_chunk \<Rightarrow> bool" where
  "chunk_ok (ChangeChunk ctx ls eof) \<longleftrightarrow>
     (case ctx of None \<Rightarrow> True
      | Some c \<Rightarrow> c \<noteq> [] \<and> newline \<notin> set c \<and> \<not> is_whitespace (last c)) \<and>
     ls \<noteq> [] \<and> (\<forall>l \<in> set ls. clean_line (change_text l))"

fun hunk_ok :: "patch_hunk \<Rightarrow> bool" where
  "hunk_ok (AddHunk path ls) \<longleftrightarrow> trimmed_name path \<and> (\<forall>l \<in> set ls. clean_line l)"
| "hunk_ok (DeleteHunk path) \<longleftrightarrow> trimmed_name path"
| "hunk_ok (UpdateHunk path mv cs) \<longleftrightarrow>
     trimmed_name path \<and> (case mv of None \<Rightarrow> True | Some dest \<Rightarrow> trimmed_name dest) \<and>
     cs \<noteq> [] \<and> (\<forall>c \<in> set cs. chunk_ok c)"

section \<open>Running the parser line by line\<close>

fun run_lines ::
    "streaming_patch_parser \<Rightarrow> ustring list \<Rightarrow> parse_error + streaming_patch_parser" where
  "run_lines p [] = Inr p"
| "run_lines p (l # ls) = and_then (process_line (take_line p) l) (\<lambda>p'. run_lines p' ls)"

lemma run_lines_append: "run_lines p (xs @ ys) = and_then (run_lines p xs) (\<lambda>p'. run_lines p' ys)"
  by (induction xs arbitrary: p) (simp_all add: and_then_assoc)

lemma push_chars_line:
  assumes "newline \<notin> set l"
  shows "push_chars p (l @ s) = push_chars (p\<lparr>line_buffer := line_buffer p @ l\<rparr>) s"
  using assms by (induction l arbitrary: p) simp_all

lemma strip_cr_clean: "clean_line l \<Longrightarrow> strip_cr l = l"
proof -
  assume "clean_line l"
  then have "strip_suffix l [carriage_return] = None"
    unfolding clean_line_def
    by (metis append_is_Nil_conv last_snoc list.distinct(1) not_None_eq strip_suffix_Some)
  then show ?thesis by (simp add: strip_cr_def)
qed

lemma take_line_buffer [simp]: "take_line (p\<lparr>line_buffer := b\<rparr>) = take_line p"
  by (simp add: take_line_def)

text \<open>No operation touches the line buffer except \<^const>\<open>take_line\<close>, which empties it.\<close>

lemma handle_line_buffer:
  "handle_hunk_headers_and_end_patch p t = Inr (p', b) \<Longrightarrow> line_buffer p' = line_buffer p"
  by (erule handle_cases) (simp_all add: parser_state_defs)

lemma process_update_body_line_buffer:
  "process_update_body p n path mv cs l = Inr p' \<Longrightarrow> line_buffer p' = line_buffer p"
  by (erule process_update_body_cases)
     (auto simp: put_update_def elim!: process_change_line_cases)

lemma process_line_buffer:
  assumes "process_line p l = Inr p'"
  shows "line_buffer p' = line_buffer p"
  using assms
  by (auto simp: process_line_def Let_def and_then_Inr_iff set_mode_def append_add_line_def
      split: streaming_parser_mode.splits if_splits option.splits hunk.splits
      dest!: handle_line_buffer process_update_body_line_buffer)

lemma push_chars_lines:
  assumes "line_buffer p = []" and "\<forall>l \<in> set ls. clean_line l" and "run_lines p ls = Inr q"
  shows "push_chars p (concat (map (\<lambda>l. l @ [newline]) ls) @ s) = push_chars q s \<and> line_buffer q = []"
  using assms
proof (induction ls arbitrary: p)
  case (Cons l ls)
  then obtain p' where p': "process_line (take_line p) l = Inr p'" "run_lines p' ls = Inr q"
    by (auto simp: and_then_Inr_iff)
  have b: "line_buffer p' = []" using process_line_buffer [OF p'(1)] by (simp add: take_line_def)
  have c: "clean_line l" using Cons.prems by simp
  then have n: "newline \<notin> set l" by (simp add: clean_line_def)
  show ?case
    using Cons.IH [OF b] Cons.prems p' c
    by (simp add: push_chars_line [OF n] strip_cr_clean)
qed simp

section \<open>Recognising the printed lines\<close>

lemma strip_prefix_hd: "p \<noteq> [] \<Longrightarrow> (t = [] \<or> hd t \<noteq> hd p) \<Longrightarrow> strip_prefix t p = None"
  unfolding strip_prefix_None by (metis append_is_Nil_conv hd_append2)

lemma marker_heads:
  "BEGIN_PATCH_MARKER \<noteq> []" "END_PATCH_MARKER \<noteq> []" "ADD_FILE_MARKER \<noteq> []"
  "DELETE_FILE_MARKER \<noteq> []" "UPDATE_FILE_MARKER \<noteq> []" "MOVE_TO_MARKER \<noteq> []"
  "EOF_MARKER \<noteq> []" "ENVIRONMENT_ID_MARKER \<noteq> []" "CHANGE_CONTEXT_MARKER \<noteq> []"
  "hd END_PATCH_MARKER = 42" "hd ADD_FILE_MARKER = 42" "hd DELETE_FILE_MARKER = 42"
  "hd UPDATE_FILE_MARKER = 42" "hd MOVE_TO_MARKER = 42" "hd EOF_MARKER = 42"
  "hd ENVIRONMENT_ID_MARKER = 42"
  by (simp_all add: marker_defs lit_def)

lemma handle_other:
  assumes "t = [] \<or> hd t \<noteq> 42"
  shows "handle_hunk_headers_and_end_patch p t = Inr (p, False)"
proof -
  have "strip_prefix t m = None" if "m \<noteq> []" "hd m = 42" for m
    using that assms by (auto intro: strip_prefix_hd)
  moreover have "t \<noteq> END_PATCH_MARKER" using assms marker_heads by metis
  ultimately show ?thesis by (simp add: handle_hunk_headers_and_end_patch_def marker_heads)
qed

lemma handle_move_and_eof:
  "handle_hunk_headers_and_end_patch p (MOVE_TO_MARKER @ dest) = Inr (p, False)"
  "handle_hunk_headers_and_end_patch p EOF_MARKER = Inr (p, False)"
  by (simp_all add: handle_hunk_headers_and_end_patch_def strip_prefix_def starts_with_def
      marker_defs lit_def)

text \<open>Between two hunks every header is accepted.\<close>

definition boundary :: "streaming_parser_state \<Rightarrow> bool" where
  "boundary st \<longleftrightarrow>
     sp_mode st \<noteq> NotStarted \<and> sp_mode st \<noteq> EndedPatch \<and> (\<forall>h \<in> set (sp_hunks st). hunk_complete h)"

lemma ensure_ok:
  assumes "\<forall>h \<in> set (phunks p). hunk_complete h"
  shows "ensure_update_hunk_is_not_empty p t = Inr ()"
proof (cases "phunks p" rule: rev_cases)
  case (snoc hs h)
  show ?thesis
  proof (cases h)
    case (UpdateFile path mv cs)
    with assms snoc have "cs \<noteq> []" "\<not> last_chunk_empty cs"
      by (auto simp: last_chunk_empty_def last_opt_def)
    with snoc UpdateFile show ?thesis
      by (cases cs) (simp_all add: ensure_update_hunk_is_not_empty_def)
  qed (use snoc in \<open>simp_all add: ensure_update_hunk_is_not_empty_def\<close>)
qed (simp add: ensure_update_hunk_is_not_empty_def)

lemma handle_headers:
  assumes "\<forall>h \<in> set (phunks p). hunk_complete h"
  shows "handle_hunk_headers_and_end_patch p (ADD_FILE_MARKER @ path) =
           Inr (push_hunk p (AddFile path []) ModeAddFile, True)"
    and "handle_hunk_headers_and_end_patch p (DELETE_FILE_MARKER @ path) =
           Inr (push_hunk p (DeleteFile path) ModeDeleteFile, True)"
    and "handle_hunk_headers_and_end_patch p (UPDATE_FILE_MARKER @ path) =
           Inr (push_hunk p (UpdateFile path None []) (ModeUpdateFile (line_number p)), True)"
  using ensure_ok [OF assms]
  by (simp_all add: handle_hunk_headers_and_end_patch_def strip_prefix_def starts_with_def
      marker_defs lit_def)

lemma process_line_handled:
  assumes "boundary (sp_state p)" and "trim l = l" and "trim_end l = l"
    and "handle_hunk_headers_and_end_patch p l = Inr (p', True)"
  shows "process_line p l = Inr p'"
  using assms by (cases "pmode p") (simp_all add: process_line_def boundary_def Let_def)

lemma trimmed_header:
  assumes "m \<noteq> []" and "hd m = 42" and "trimmed_name path"
  shows "trim (m @ path) = m @ path" and "trim_end (m @ path) = m @ path"
    and "clean_line (m @ path) \<longleftrightarrow> newline \<notin> set m"
proof -
  from assms have l: "\<not> is_whitespace (last (m @ path))" and h: "\<not> is_whitespace (hd (m @ path))"
    by (simp_all add: trimmed_name_def is_whitespace_def)
  from l show "trim_end (m @ path) = m @ path" by (simp add: trim_end_id)
  from l h show "trim (m @ path) = m @ path" by (simp add: trim_id)
  from l have "last (m @ path) \<noteq> carriage_return" by (metis is_whitespace_newline(2))
  with assms show "clean_line (m @ path) \<longleftrightarrow> newline \<notin> set m"
    by (auto simp: clean_line_def trimmed_name_def)
qed

section \<open>Running the printed hunks\<close>

lemma take_line_state [simp]: "sp_state (take_line p) = sp_state p"
  by (simp add: take_line_def)

lemma run_header:
  assumes b: "boundary (sp_state p)" and n: "trimmed_name path"
  shows "process_line p (ADD_FILE_MARKER @ path) = Inr (push_hunk p (AddFile path []) ModeAddFile)"
    and "process_line p (DELETE_FILE_MARKER @ path) = Inr (push_hunk p (DeleteFile path) ModeDeleteFile)"
    and "process_line p (UPDATE_FILE_MARKER @ path) =
           Inr (push_hunk p (UpdateFile path None []) (ModeUpdateFile (line_number p)))"
proof -
  from b have c: "\<forall>h \<in> set (phunks p). hunk_complete h" by (simp add: boundary_def)
  note step = process_line_handled [OF b]
  show "process_line p (ADD_FILE_MARKER @ path) = Inr (push_hunk p (AddFile path []) ModeAddFile)"
    by (rule step) (simp_all add: trimmed_header marker_heads n handle_headers [OF c])
  show "process_line p (DELETE_FILE_MARKER @ path) = Inr (push_hunk p (DeleteFile path) ModeDeleteFile)"
    by (rule step) (simp_all add: trimmed_header marker_heads n handle_headers [OF c])
  show "process_line p (UPDATE_FILE_MARKER @ path) =
      Inr (push_hunk p (UpdateFile path None []) (ModeUpdateFile (line_number p)))"
    by (rule step) (simp_all add: trimmed_header marker_heads n handle_headers [OF c])
qed

lemma trim_plus: "\<exists>t. trim (lit ''+'' @ l) = 43 # t"
proof -
  have "trim_start (lit ''+'' @ l) = 43 # l" by (simp add: lit_def trim_start_def is_whitespace_def)
  moreover have "trim_end (43 # l) \<noteq> []" by (simp add: trim_end_Nil_iff is_whitespace_def)
  ultimately show ?thesis
    unfolding trim_def using hd_trim_end [of "43 # l"] by (metis list.exhaust_sel list.sel(1))
qed

lemma run_add_line:
  assumes "sp_state p = \<lparr> sp_mode = ModeAddFile, sp_hunks = hs @ [AddFile path contents],
      sp_environment_id = env \<rparr>"
  shows "process_line p (lit ''+'' @ l) = Inr (p\<lparr>sp_state := \<lparr> sp_mode = ModeAddFile,
      sp_hunks = hs @ [AddFile path (contents @ l @ [newline])], sp_environment_id = env \<rparr>\<rparr>)"
proof -
  obtain t where t: "trim (lit ''+'' @ l) = 43 # t" using trim_plus by blast
  have "handle_hunk_headers_and_end_patch p (43 # t) = Inr (p, False)" by (rule handle_other) simp
  with t assms show ?thesis by (simp add: process_line_def Let_def append_add_line_def)
qed

lemma run_add_lines:
  assumes "sp_state p = \<lparr> sp_mode = ModeAddFile, sp_hunks = hs @ [AddFile path contents],
      sp_environment_id = env \<rparr>"
  shows "\<exists>p'. run_lines p (map (\<lambda>l. lit ''+'' @ l) ls) = Inr p' \<and>
    sp_state p' = \<lparr> sp_mode = ModeAddFile,
      sp_hunks = hs @ [AddFile path (contents @ concat (map (\<lambda>l. l @ [newline]) ls))],
      sp_environment_id = env \<rparr>"
  using assms
proof (induction ls arbitrary: p contents)
  case (Cons l ls)
  have "sp_state (take_line p) = \<lparr> sp_mode = ModeAddFile, sp_hunks = hs @ [AddFile path contents],
      sp_environment_id = env \<rparr>" using Cons.prems by simp
  note step = run_add_line [OF this, of l]
  from Cons.IH [of "(take_line p)\<lparr>sp_state := \<lparr> sp_mode = ModeAddFile,
      sp_hunks = hs @ [AddFile path (contents @ l @ [newline])], sp_environment_id = env \<rparr>\<rparr>"
      "contents @ l @ [newline]"]
  show ?case by (simp add: step)
qed simp

text \<open>Inside an update hunk.\<close>

abbreviation update_state ::
    "nat \<Rightarrow> hunk list \<Rightarrow> ustring \<Rightarrow> ustring option \<Rightarrow> update_file_chunk list \<Rightarrow>
     ustring option \<Rightarrow> streaming_parser_state" where
  "update_state n hs path mv cs env \<equiv>
     \<lparr> sp_mode = ModeUpdateFile n, sp_hunks = hs @ [UpdateFile path mv cs], sp_environment_id = env \<rparr>"

lemma put_update_state:
  "sp_state p = update_state n hs path mv cs env \<Longrightarrow>
   put_update p n path mv' cs' = p\<lparr>sp_state := update_state n hs path mv' cs' env\<rparr>"
  by (simp add: put_update_def)

lemma run_update_body:
  assumes "sp_state p = update_state n hs path mv cs env"
    and "handle_hunk_headers_and_end_patch p (trim_end l) = Inr (p, False)"
  shows "process_line p l = process_update_body p n path mv cs l"
  using assms by (simp add: process_line_def Let_def)

lemma run_move:
  assumes "sp_state p = update_state n hs path None [] env" and "trimmed_name dest"
  shows "process_line p (MOVE_TO_MARKER @ dest) =
    Inr (p\<lparr>sp_state := update_state n hs path (Some dest) [] env\<rparr>)"
proof -
  have t: "trim_end (MOVE_TO_MARKER @ dest) = MOVE_TO_MARKER @ dest"
    using trimmed_header [OF _ _ assms(2)] marker_heads by blast
  have "process_line p (MOVE_TO_MARKER @ dest) =
      process_update_body p n path None [] (MOVE_TO_MARKER @ dest)"
    by (rule run_update_body [OF assms(1)]) (simp add: t handle_move_and_eof)
  then show ?thesis by (simp add: process_update_body_def Let_def t put_update_state [OF assms(1)])
qed

definition context_text :: "ustring option \<Rightarrow> ustring" where
  "context_text ctx =
     (case ctx of None \<Rightarrow> EMPTY_CHANGE_CONTEXT_MARKER | Some c \<Rightarrow> CHANGE_CONTEXT_MARKER @ c)"

lemma context_text_trim:
  "(case ctx of None \<Rightarrow> True | Some c \<Rightarrow> c \<noteq> [] \<and> newline \<notin> set c \<and> \<not> is_whitespace (last c)) \<Longrightarrow>
   trim_end (context_text ctx) = context_text ctx \<and> clean_line (context_text ctx)"
  by (auto simp: context_text_def marker_defs lit_def trim_end_id is_whitespace_def clean_line_def
      split: option.splits)

lemma run_context:
  assumes st: "sp_state p = update_state n hs path mv cs env" and ne: "\<not> last_chunk_empty cs"
    and t: "trim_end (context_text ctx) = context_text ctx"
    and c: "ctx \<noteq> Some []"
  shows "process_line p (context_text ctx) =
    Inr (p\<lparr>sp_state := update_state n hs path mv (cs @ [empty_chunk\<lparr>change_context := ctx\<rparr>]) env\<rparr>)"
proof -
  have h: "context_text ctx \<noteq> [] \<and> hd (context_text ctx) = 64"
    by (cases ctx) (simp_all add: context_text_def marker_defs lit_def)
  have "handle_hunk_headers_and_end_patch p (context_text ctx) = Inr (p, False)"
    by (rule handle_other) (simp add: h)
  then have body: "process_line p (context_text ctx) = process_update_body p n path mv cs (context_text ctx)"
    using t by (intro run_update_body [OF st]) simp
  have m: "strip_prefix (context_text ctx) MOVE_TO_MARKER = None"
    by (rule strip_prefix_hd) (simp_all add: marker_heads h)
  have i: "is_context_marker (context_text ctx)"
    by (cases ctx) (auto simp: is_context_marker_def context_text_def starts_with_iff)
  have e: "empty_chunk\<lparr>change_context := None\<rparr> = empty_chunk" by (simp add: empty_chunk_def)
  show ?thesis
  proof (cases ctx)
    case None
    then show ?thesis
      unfolding body process_update_body_def Let_def t
      using i m ne h by (simp add: put_update_state [OF st] e context_text_def)
  next
    case (Some d)
    with c have "context_text ctx \<noteq> EMPTY_CHANGE_CONTEXT_MARKER"
      by (simp add: context_text_def marker_defs lit_def)
    with Some show ?thesis
      unfolding body process_update_body_def Let_def t
      using i m ne h marker_heads by (simp add: put_update_state [OF st] context_text_def)
  qed
qed

lemma print_change_line_head:
  "print_change_line l \<noteq> []"
  "hd (print_change_line l) \<in> {32, 43, 45}"
  "trim_end (print_change_line l) = [] \<or> hd (trim_end (print_change_line l)) \<in> {32, 43, 45}"
proof -
  show ne: "print_change_line l \<noteq> []" and h: "hd (print_change_line l) \<in> {32, 43, 45}"
    by (cases l; simp add: lit_def)+
  show "trim_end (print_change_line l) = [] \<or> hd (trim_end (print_change_line l)) \<in> {32, 43, 45}"
    using h hd_trim_end [of "print_change_line l"] by metis
qed

lemma run_change_line:
  assumes st: "sp_state p = update_state n hs path mv (cs @ [k]) env" and ne: "\<not> is_end_of_file k"
  shows "process_line p (print_change_line l) = Inr (p\<lparr>sp_state := update_state n hs path mv
    (cs @ [k\<lparr>old_lines := old_lines k @ change_old l, new_lines := new_lines k @ change_new l\<rparr>]) env\<rparr>)"
proof -
  let ?u = "trim_end (print_change_line l)"
  have u: "?u = [] \<or> hd ?u \<in> {32, 43, 45}" by (rule print_change_line_head)
  then have "handle_hunk_headers_and_end_patch p ?u = Inr (p, False)"
    by (intro handle_other) auto
  then have body: "process_line p (print_change_line l) =
      process_update_body p n path mv (cs @ [k]) (print_change_line l)"
    by (rule run_update_body [OF st])
  have "\<not> is_context_marker ?u"
    using u by (auto simp: is_context_marker_def starts_with_iff marker_defs lit_def)
  then have i: "\<not> is_context_marker ?u" "?u \<noteq> EMPTY_CHANGE_CONTEXT_MARKER"
      "strip_prefix ?u CHANGE_CONTEXT_MARKER = None"
    by (simp_all add: not_context_marker)
  have e: "?u \<noteq> EOF_MARKER" using u by (auto simp: marker_defs lit_def)
  have "process_update_body p n path mv (cs @ [k]) (print_change_line l) =
      process_change_line p n path mv (cs @ [k]) (print_change_line l)"
    unfolding process_update_body_def Let_def using i ne by simp
  also have "\<dots> = Inr (put_update p n path mv (push_change (change_old l) (change_new l) (cs @ [k])))"
    unfolding process_change_line_def Let_def using e
    by (cases l) (simp_all add: strip_prefix_def starts_with_def lit_def)
  finally show ?thesis by (simp add: body put_update_state [OF st] push_change_def)
qed

lemma run_change_lines:
  assumes "sp_state p = update_state n hs path mv (cs @ [k]) env" and "\<not> is_end_of_file k"
  shows "\<exists>p'. run_lines p (map print_change_line ls) = Inr p' \<and>
    sp_state p' = update_state n hs path mv
      (cs @ [k\<lparr>old_lines := old_lines k @ concat (map change_old ls),
               new_lines := new_lines k @ concat (map change_new ls)\<rparr>]) env"
  using assms
proof (induction ls arbitrary: p k)
  case (Cons l ls)
  have "sp_state (take_line p) = update_state n hs path mv (cs @ [k]) env" using Cons.prems by simp
  note step = run_change_line [OF this Cons.prems(2), of l]
  let ?k = "k\<lparr>old_lines := old_lines k @ change_old l, new_lines := new_lines k @ change_new l\<rparr>"
  from Cons.IH [of "(take_line p)\<lparr>sp_state := update_state n hs path mv (cs @ [?k]) env\<rparr>" ?k]
    Cons.prems show ?case by (simp add: step)
qed simp

lemma run_eof:
  assumes st: "sp_state p = update_state n hs path mv (cs @ [k]) env"
    and "\<not> is_end_of_file k" and "\<not> chunk_is_empty k"
  shows "process_line p EOF_MARKER =
    Inr (p\<lparr>sp_state := update_state n hs path mv (cs @ [k\<lparr>is_end_of_file := True\<rparr>]) env\<rparr>)"
proof -
  have t: "trim_end EOF_MARKER = EOF_MARKER"
    by (simp add: trim_end_id marker_defs lit_def is_whitespace_def)
  have "process_line p EOF_MARKER = process_update_body p n path mv (cs @ [k]) EOF_MARKER"
    by (rule run_update_body [OF st]) (simp add: t handle_move_and_eof)
  moreover have "\<not> is_context_marker EOF_MARKER"
    by (simp add: is_context_marker_def starts_with_def marker_defs lit_def)
  ultimately show ?thesis
    using assms not_context_marker [of EOF_MARKER]
    by (simp add: process_update_body_def process_change_line_def Let_def t put_update_state [OF st])
qed

lemma chunk_meaning_nonempty: "chunk_ok c \<Longrightarrow> \<not> chunk_is_empty (chunk_meaning c)"
proof (cases c)
  case (ChangeChunk ctx ls eof)
  assume "chunk_ok c"
  with ChangeChunk obtain l rest where "ls = l # rest" by (cases ls) auto
  with ChangeChunk show ?thesis by (cases l) (auto simp: chunk_is_empty_def)
qed

lemma run_chunk:
  assumes st: "sp_state p = update_state n hs path mv cs env" and ne: "\<not> last_chunk_empty cs"
    and ok: "chunk_ok c"
  shows "\<exists>p'. run_lines p (print_chunk c) = Inr p' \<and>
    sp_state p' = update_state n hs path mv (cs @ [chunk_meaning c]) env"
proof (cases c)
  case (ChangeChunk ctx ls eof)
  let ?k = "empty_chunk\<lparr>change_context := ctx\<rparr>"
  let ?m = "?k\<lparr>old_lines := concat (map change_old ls), new_lines := concat (map change_new ls)\<rparr>"
  have t: "trim_end (context_text ctx) = context_text ctx" and c: "ctx \<noteq> Some []"
    using ok ChangeChunk context_text_trim [of ctx] by auto
  have st1: "sp_state (take_line p) = update_state n hs path mv cs env" using st by simp
  let ?p1 = "(take_line p)\<lparr>sp_state := update_state n hs path mv (cs @ [?k]) env\<rparr>"
  obtain p2 where p2: "run_lines ?p1 (map print_change_line ls) = Inr p2"
    "sp_state p2 = update_state n hs path mv (cs @ [?m]) env"
    using run_change_lines [of ?p1 n hs path mv cs ?k env ls] by (auto simp: empty_chunk_def)
  have run1: "run_lines p (context_text ctx # map print_change_line ls) = Inr p2"
    using run_context [OF st1 ne t c] p2(1) by simp
  have m: "\<not> chunk_is_empty ?m"
    using chunk_meaning_nonempty [OF ok] ChangeChunk by (simp add: chunk_is_empty_def)
  have st2: "sp_state (take_line p2) = update_state n hs path mv (cs @ [?m]) env" using p2 by simp
  show ?thesis
  proof (cases eof)
    case False
    then have "chunk_meaning c = ?m" using ChangeChunk by (simp add: empty_chunk_def)
    with False run1 p2(2) ChangeChunk show ?thesis by (simp add: context_text_def)
  next
    case True
    then have "chunk_meaning c = ?m\<lparr>is_end_of_file := True\<rparr>"
      using ChangeChunk by (simp add: empty_chunk_def)
    moreover have "run_lines p2 [EOF_MARKER] =
        Inr ((take_line p2)\<lparr>sp_state := update_state n hs path mv (cs @ [?m\<lparr>is_end_of_file := True\<rparr>]) env\<rparr>)"
      using run_eof [OF st2 _ m] by (simp add: empty_chunk_def)
    moreover have "print_chunk c = (context_text ctx # map print_change_line ls) @ [EOF_MARKER]"
      using True ChangeChunk by (simp add: context_text_def)
    ultimately show ?thesis using run1 by (simp only: run_lines_append and_then_simps) simp
  qed
qed

lemma run_chunks:
  assumes "sp_state p = update_state n hs path mv cs env" and "\<not> last_chunk_empty cs"
    and "\<forall>c \<in> set gs. chunk_ok c"
  shows "\<exists>p'. run_lines p (concat (map print_chunk gs)) = Inr p' \<and>
    sp_state p' = update_state n hs path mv (cs @ map chunk_meaning gs) env"
  using assms
proof (induction gs arbitrary: p cs)
  case (Cons g gs)
  then obtain p1 where p1: "run_lines p (print_chunk g) = Inr p1"
    "sp_state p1 = update_state n hs path mv (cs @ [chunk_meaning g]) env"
    using run_chunk by (metis list.set_intros(1))
  have "\<not> last_chunk_empty (cs @ [chunk_meaning g])"
    using chunk_meaning_nonempty Cons.prems(3) by simp
  from Cons.IH [OF p1(2) this] Cons.prems(3) p1(1) show ?case
    by (simp add: run_lines_append)
qed simp

lemma hunk_meaning_complete: "hunk_ok h \<Longrightarrow> hunk_complete (hunk_meaning h)"
proof (cases h)
  case (AddHunk path ls)
  then show ?thesis by (cases ls rule: rev_cases) auto
qed (auto simp: chunk_meaning_nonempty)

lemma run_hunk:
  assumes b: "boundary (sp_state p)" and ok: "hunk_ok h"
  shows "\<exists>p'. run_lines p (print_hunk h) = Inr p' \<and> boundary (sp_state p') \<and>
    phunks p' = phunks p @ [hunk_meaning h] \<and>
    sp_environment_id (sp_state p') = sp_environment_id (sp_state p)"
proof -
  let ?q = "take_line p" and ?env = "sp_environment_id (sp_state p)"
  have bq: "boundary (sp_state ?q)" using b by simp
  have fin: ?thesis if "run_lines p (print_hunk h) = Inr p'"
    "sp_state p' = \<lparr> sp_mode = m, sp_hunks = phunks p @ [hunk_meaning h], sp_environment_id = ?env \<rparr>"
    "m \<noteq> NotStarted" "m \<noteq> EndedPatch" for p' m
    using that b hunk_meaning_complete [OF ok] by (auto simp: boundary_def)
  show ?thesis
  proof (cases h)
    case (AddHunk path ls)
    let ?p1 = "push_hunk ?q (AddFile path []) ModeAddFile"
    have "sp_state ?p1 = \<lparr> sp_mode = ModeAddFile, sp_hunks = phunks p @ [AddFile path []],
        sp_environment_id = ?env \<rparr>" by (simp add: push_hunk_def)
    from run_add_lines [OF this, of ls] obtain p' where
      "run_lines ?p1 (map (\<lambda>l. lit ''+'' @ l) ls) = Inr p'"
      "sp_state p' = \<lparr> sp_mode = ModeAddFile, sp_hunks = phunks p @ [hunk_meaning h],
         sp_environment_id = ?env \<rparr>" using AddHunk by auto
    with run_header(1) [OF bq, of path] ok AddHunk show ?thesis
      by (intro fin [of p' ModeAddFile]) simp_all
  next
    case (DeleteHunk path)
    with run_header(2) [OF bq, of path] ok show ?thesis
      by (intro fin [of "push_hunk ?q (DeleteFile path) ModeDeleteFile" ModeDeleteFile])
         (simp_all add: push_hunk_def)
  next
    case (UpdateHunk path mv cs)
    let ?n = "line_number ?q"
    let ?p1 = "push_hunk ?q (UpdateFile path None []) (ModeUpdateFile ?n)"
    have st1: "sp_state ?p1 = update_state ?n (phunks p) path None [] ?env" by (simp add: push_hunk_def)
    obtain p2 where p2: "run_lines ?p1 (case mv of None \<Rightarrow> [] | Some dest \<Rightarrow> [MOVE_TO_MARKER @ dest]) = Inr p2"
      "sp_state p2 = update_state ?n (phunks p) path mv [] ?env"
    proof (cases mv)
      case (Some dest)
      with ok UpdateHunk have "trimmed_name dest" by simp
      with run_move [of "take_line ?p1" ?n "phunks p" path ?env dest] st1 Some
      show thesis
        by (intro that [of "(take_line ?p1)\<lparr>sp_state := update_state ?n (phunks p) path (Some dest) [] ?env\<rparr>"])
           simp_all
    qed (use st1 that in simp)
    obtain p3 where p3: "run_lines p2 (concat (map print_chunk cs)) = Inr p3"
      "sp_state p3 = update_state ?n (phunks p) path mv (map chunk_meaning cs) ?env"
      using run_chunks [OF p2(2), of cs] ok UpdateHunk by auto
    have "process_line ?q (UPDATE_FILE_MARKER @ path) = Inr ?p1"
      using run_header(3) [OF bq] ok UpdateHunk by simp
    with p2(1) p3 UpdateHunk show ?thesis
      by (intro fin [of p3 "ModeUpdateFile ?n"]) (simp_all add: run_lines_append)
  qed
qed

lemma run_hunks:
  assumes "boundary (sp_state p)" and "\<forall>h \<in> set hs. hunk_ok h"
  shows "\<exists>p'. run_lines p (concat (map print_hunk hs)) = Inr p' \<and> boundary (sp_state p') \<and>
    phunks p' = phunks p @ map hunk_meaning hs \<and>
    sp_environment_id (sp_state p') = sp_environment_id (sp_state p)"
  using assms
proof (induction hs arbitrary: p)
  case (Cons h hs)
  then obtain p1 where p1: "run_lines p (print_hunk h) = Inr p1" "boundary (sp_state p1)"
    "phunks p1 = phunks p @ [hunk_meaning h]"
    "sp_environment_id (sp_state p1) = sp_environment_id (sp_state p)"
    using run_hunk [of p h] by auto
  from Cons.IH [OF p1(2)] Cons.prems(2) p1 show ?case by (auto simp: run_lines_append)
qed simp

section \<open>The printed patch\<close>

lemma join_snoc: "join [c] (xs @ [y]) = concat (map (\<lambda>l. l @ [c]) xs) @ y"
  by (induction "[c]" xs rule: join.induct) simp_all

definition patch_lines :: "ustring option \<Rightarrow> patch_hunk list \<Rightarrow> ustring list" where
  "patch_lines env hs =
     BEGIN_PATCH_MARKER
     # (case env of None \<Rightarrow> [] | Some e \<Rightarrow> [ENVIRONMENT_ID_MARKER @ lit '' '' @ e])
     @ concat (map print_hunk hs)"

lemma print_patch_lines: "print_patch env hs = join [newline] (patch_lines env hs @ [END_PATCH_MARKER])"
  by (simp add: print_patch_def patch_lines_def)

lemma marker_clean:
  "clean_line BEGIN_PATCH_MARKER" "clean_line END_PATCH_MARKER" "clean_line EOF_MARKER"
  "newline \<notin> set ADD_FILE_MARKER" "newline \<notin> set DELETE_FILE_MARKER"
  "newline \<notin> set UPDATE_FILE_MARKER" "newline \<notin> set MOVE_TO_MARKER"
  "newline \<notin> set (ENVIRONMENT_ID_MARKER @ lit '' '')"
  by (simp_all add: marker_defs lit_def clean_line_def)

lemma clean_line_prefix: "clean_line l \<Longrightarrow> newline \<notin> set p \<Longrightarrow> last p \<noteq> carriage_return \<Longrightarrow> clean_line (p @ l)"
  by (auto simp: clean_line_def last_append)

lemma print_chunk_clean: "chunk_ok c \<Longrightarrow> \<forall>l \<in> set (print_chunk c). clean_line l"
proof (cases c)
  case (ChangeChunk ctx ls eof)
  assume "chunk_ok c"
  with ChangeChunk have ctx: "clean_line (context_text ctx)"
    and ls: "\<forall>l \<in> set ls. clean_line (change_text l)"
    using context_text_trim [of ctx] by auto
  have "clean_line (print_change_line l)" if "l \<in> set ls" for l
    using ls that by (cases l) (force simp: lit_def clean_line_def)+
  with ctx ChangeChunk show ?thesis by (auto simp: marker_clean context_text_def)
qed

lemma print_hunk_clean: "hunk_ok h \<Longrightarrow> \<forall>l \<in> set (print_hunk h). clean_line l"
proof (cases h)
  case (AddHunk path ls)
  assume "hunk_ok h"
  with AddHunk have "clean_line (ADD_FILE_MARKER @ path)"
    and "\<forall>l \<in> set ls. clean_line (lit ''+'' @ l)"
    by (simp_all add: trimmed_header marker_heads marker_clean) (auto simp: lit_def clean_line_def)
  with AddHunk show ?thesis by auto
next
  case (UpdateHunk path mv cs)
  assume ok: "hunk_ok h"
  with UpdateHunk have "clean_line (UPDATE_FILE_MARKER @ path)"
    "\<And>dest. mv = Some dest \<Longrightarrow> clean_line (MOVE_TO_MARKER @ dest)"
    by (simp_all add: trimmed_header marker_heads marker_clean)
  with ok UpdateHunk print_chunk_clean show ?thesis by (auto split: option.splits)
qed (simp add: trimmed_header marker_heads marker_clean)

lemma environment_header:
  assumes "trimmed_name e"
  shows "clean_line (ENVIRONMENT_ID_MARKER @ lit '' '' @ e)"
    and "trim (ENVIRONMENT_ID_MARKER @ lit '' '' @ e) = ENVIRONMENT_ID_MARKER @ lit '' '' @ e"
    and "trim (lit '' '' @ e) = e"
proof -
  have h: "ENVIRONMENT_ID_MARKER @ lit '' '' \<noteq> []" "hd (ENVIRONMENT_ID_MARKER @ lit '' '') = 42"
    by (simp_all add: marker_defs lit_def)
  note t = trimmed_header [OF h assms]
  from t(3) marker_clean show "clean_line (ENVIRONMENT_ID_MARKER @ lit '' '' @ e)" by simp
  from t(1) show "trim (ENVIRONMENT_ID_MARKER @ lit '' '' @ e) = ENVIRONMENT_ID_MARKER @ lit '' '' @ e"
    by simp
  have "trim_start (lit '' '' @ e) = trim_start e" by (simp add: lit_def trim_start_def)
  then show "trim (lit '' '' @ e) = e"
    using assms unfolding trim_def by (auto simp: trimmed_name_def trim_start_id trim_end_id)
qed

lemma run_patch_lines:
  assumes hs: "\<forall>h \<in> set hs. hunk_ok h" and env: "case env of None \<Rightarrow> True | Some e \<Rightarrow> trimmed_name e"
  shows "\<exists>p. run_lines default_parser (patch_lines env hs) = Inr p \<and> boundary (sp_state p) \<and>
    phunks p = map hunk_meaning hs \<and> sp_environment_id (sp_state p) = env"
proof -
  let ?p0 = "set_mode (take_line default_parser) StartedPatch"
  have started: "process_line (take_line default_parser) BEGIN_PATCH_MARKER = Inr ?p0"
    by (simp add: process_line_def default_parser_def take_line_def marker_defs lit_def trim_id
        is_whitespace_def)
  obtain p1 where p1: "run_lines ?p0 (case env of None \<Rightarrow> []
      | Some e \<Rightarrow> [ENVIRONMENT_ID_MARKER @ lit '' '' @ e]) = Inr p1"
    "sp_state p1 = \<lparr> sp_mode = StartedPatch, sp_hunks = [], sp_environment_id = env \<rparr>"
  proof (cases env)
    case None
    then show thesis
      by (intro that [of ?p0]) (simp_all add: set_mode_def default_parser_def take_line_def)
  next
    case (Some e)
    with env environment_header [of e] have
      "process_line (take_line ?p0) (ENVIRONMENT_ID_MARKER @ lit '' '' @ e) =
        Inr ((take_line ?p0)\<lparr>sp_state := \<lparr> sp_mode = StartedPatch, sp_hunks = [], sp_environment_id = Some e \<rparr>\<rparr>)"
      by (simp add: process_line_def handle_hunk_headers_and_end_patch_def Let_def set_mode_def
          default_parser_def take_line_def trimmed_name_def)
    with Some show thesis
      by (intro that [of "(take_line ?p0)\<lparr>sp_state :=
            \<lparr> sp_mode = StartedPatch, sp_hunks = [], sp_environment_id = Some e \<rparr>\<rparr>"]) simp_all
  qed
  have "boundary (sp_state p1)" by (simp add: p1 boundary_def)
  from run_hunks [OF this hs] started p1 show ?thesis
    by (auto simp: patch_lines_def run_lines_append)
qed

lemma patch_lines_clean:
  assumes "\<forall>h \<in> set hs. hunk_ok h" and "case env of None \<Rightarrow> True | Some e \<Rightarrow> trimmed_name e"
  shows "\<forall>l \<in> set (patch_lines env hs @ [END_PATCH_MARKER]). clean_line l"
  using assms print_hunk_clean environment_header(1)
  by (auto simp: patch_lines_def marker_clean split: option.splits)

lemma trim_print_patch: "trim (print_patch env hs) = print_patch env hs"
proof (rule trim_id)
  have "print_patch env hs = BEGIN_PATCH_MARKER @ [newline] @
      concat (map (\<lambda>l. l @ [newline]) (tl (patch_lines env hs))) @ END_PATCH_MARKER"
    unfolding print_patch_lines join_snoc by (simp add: patch_lines_def)
  then have "hd (print_patch env hs) = 42" "last (print_patch env hs) = 104"
    by (simp_all add: marker_defs lit_def last_append)
  then show "print_patch env hs = [] \<or> \<not> is_whitespace (hd (print_patch env hs)) \<and>
      \<not> is_whitespace (last (print_patch env hs))"
    by (simp add: is_whitespace_def)
qed

lemma check_boundaries_print:
  "check_patch_boundaries_strict (patch_lines env hs @ [END_PATCH_MARKER]) =
     Inr (patch_lines env hs @ [END_PATCH_MARKER])"
proof -
  have "trim BEGIN_PATCH_MARKER = BEGIN_PATCH_MARKER" "trim END_PATCH_MARKER = END_PATCH_MARKER"
    by (simp_all add: trim_id marker_defs lit_def is_whitespace_def)
  then show ?thesis
    by (simp add: check_patch_boundaries_strict_def check_start_and_end_lines_strict_def
        patch_lines_def last_opt_def)
qed

lemma finish_print:
  assumes "boundary (sp_state p)"
  shows "\<exists>p'. finish (p\<lparr>line_buffer := END_PATCH_MARKER\<rparr>) = (p', Inr (phunks p)) \<and>
    sp_environment_id (sp_state p') = sp_environment_id (sp_state p)"
proof -
  have "trim END_PATCH_MARKER = END_PATCH_MARKER"
    by (simp add: trim_id marker_defs lit_def is_whitespace_def)
  moreover have "ensure_update_hunk_is_not_empty (take_line p) END_PATCH_MARKER = Inr ()"
    using assms by (intro ensure_ok) (simp add: boundary_def)
  ultimately show ?thesis
    by (simp add: finish_def finish_last_line_def marker_heads set_mode_def)
qed

lemma parse_patch_from_lines:
  assumes "str_lines (trim s) = ls" and "check_patch_boundaries_strict ls = Inr ls"
    and "join [newline] ls = s" and "push_delta default_parser s = (p, Inr h)"
    and "finish p = (p', r)"
  shows "parse_patch s =
    (case r of Inl e \<Rightarrow> Inl e
     | Inr hs \<Rightarrow> Inr \<lparr> args_patch = s, args_hunks = hs, args_workdir = None,
                      args_environment_id = sp_environment_id (sp_state p') \<rparr>)"
  unfolding parse_patch_def parse_patch_text_def Let_def assms(1)
    check_patch_boundaries_lenient_def assms(2)
  using assms(3-5) by (simp add: PARSE_IN_STRICT_MODE_def)

section \<open>Properties\<close>


text \<open>A sample patch with an added, a deleted and a moved file.\<close>

definition sample_hunks :: "patch_hunk list" where
  "sample_hunks =
     [AddHunk (lit ''a.py'') [lit ''abc'', []],
      DeleteHunk (lit ''b.py''),
      UpdateHunk (lit ''c.py'') (Some (lit ''d.py''))
        [ChangeChunk (Some (lit ''def f():'')) [RemovedLine (lit ''  pass''), AddedLine (lit ''  x'')] False,
         ChangeChunk None [ContextLine (lit ''end'')] True]]"

lemma sample_hunks_ok: "\<forall>h \<in> set sample_hunks. hunk_ok h"
  by code_simp


theorem parse_patch_complete_witness:
  "\<exists>args. parse_patch (print_patch None sample_hunks) = Inr args \<and>
     list_all hunk_complete (args_hunks args)"
proof -
  have "is_ok (parse_patch (print_patch None sample_hunks))" by code_simp
  then obtain args where "parse_patch (print_patch None sample_hunks) = Inr args"
    by (auto simp: is_ok_iff)
  with parse_patch_complete [of "print_patch None sample_hunks" args] show ?thesis
    by (auto simp: list_all_iff)
qed

text \<open>
  An update hunk without any change is rejected at its header's line, whatever the file: the
  grammar comment makes the changes of an update hunk optional, the parser does not.
\<close>

theorem empty_update_rejected:
  assumes "trimmed_name path"
  shows "parse_patch (join [newline] [BEGIN_PATCH_MARKER, UPDATE_FILE_MARKER @ path, END_PATCH_MARKER]) =
    Inl (InvalidHunkError (msg_empty_update path) 2)"
proof -
  let ?body = "[BEGIN_PATCH_MARKER, UPDATE_FILE_MARKER @ path]"
  let ?ls = "[BEGIN_PATCH_MARKER, UPDATE_FILE_MARKER @ path, END_PATCH_MARKER]"
  let ?s = "join [newline] ?ls"
  have head: "clean_line (UPDATE_FILE_MARKER @ path)"
    using assms by (simp add: trimmed_header marker_heads marker_clean)
  have ends: "trim BEGIN_PATCH_MARKER = BEGIN_PATCH_MARKER" "trim END_PATCH_MARKER = END_PATCH_MARKER"
    by (simp_all add: trim_id marker_defs lit_def is_whitespace_def)
  have "str_lines ?s = ?ls"
    by (rule str_lines_join) (simp_all add: head marker_clean marker_heads)
  moreover have "trim ?s = ?s"
    by (rule trim_id) (simp add: marker_defs lit_def is_whitespace_def)
  ultimately have lines: "str_lines (trim ?s) = ?ls" by simp
  let ?p1 = "set_mode (take_line default_parser) StartedPatch"
  let ?p2 = "push_hunk (take_line ?p1) (UpdateFile path None []) (ModeUpdateFile (line_number (take_line ?p1)))"
  have "process_line (take_line default_parser) BEGIN_PATCH_MARKER = Inr ?p1"
    by (simp add: process_line_def default_parser_def take_line_def ends)
  moreover have "boundary (sp_state (take_line ?p1))"
    by (simp add: boundary_def set_mode_def default_parser_def)
  ultimately have run: "run_lines default_parser ?body = Inr ?p2"
    using run_header(3) [OF _ assms] by simp
  have "push_chars default_parser (concat (map (\<lambda>l. l @ [newline]) ?body) @ END_PATCH_MARKER) =
      push_chars ?p2 END_PATCH_MARKER \<and> line_buffer ?p2 = []"
    by (rule push_chars_lines [OF _ _ run]) (simp_all add: default_parser_def head marker_clean)
  moreover have "newline \<notin> set END_PATCH_MARKER" by (simp add: marker_defs lit_def)
  ultimately have push: "push_delta default_parser ?s =
      (?p2\<lparr>line_buffer := END_PATCH_MARKER\<rparr>, Inr (phunks ?p2))"
    using push_chars_line [of END_PATCH_MARKER ?p2 "[]"] by (simp add: push_delta_def)
  have "snd (finish (?p2\<lparr>line_buffer := END_PATCH_MARKER\<rparr>)) =
      Inl (InvalidHunkError (msg_empty_update path) 2)"
    by (simp add: finish_def finish_last_line_def ends marker_heads ensure_update_hunk_is_not_empty_def
        push_hunk_def set_mode_def take_line_def default_parser_def)
  then obtain p3 where fin: "finish (?p2\<lparr>line_buffer := END_PATCH_MARKER\<rparr>) =
      (p3, Inl (InvalidHunkError (msg_empty_update path) 2))"
    by (metis prod.collapse)
  have "check_patch_boundaries_strict ?ls = Inr ?ls"
    by (simp add: check_patch_boundaries_strict_def check_start_and_end_lines_strict_def ends)
  from parse_patch_from_lines [OF lines this refl push fin] show ?thesis
    by (simp only: sum.case)
qed

theorem empty_update_rejected_witness:
  "parse_patch (join [newline]
     [BEGIN_PATCH_MARKER, UPDATE_FILE_MARKER @ lit ''test.py'', END_PATCH_MARKER]) =
   Inl (InvalidHunkError (msg_empty_update (lit ''test.py'')) 2)"
  by (rule empty_update_rejected) (simp add: trimmed_name_def lit_def is_whitespace_def)

end
