(* ===== verification/Exec_Policy.thy ===== *)
theory Exec_Policy
  imports Rust_Str "HOL-Library.List_Lexorder" "HOL-Library.AList"
begin

text \<open>
  The execution policy of \<open>execpolicy/src\<close>: decisions (\<open>decision.rs\<close>), prefix rules and network
  rules (\<open>rule.rs\<close>), executable names (\<open>executable\_name.rs\<close>) and the policy with its checks
  (\<open>policy.rs\<close>).  The \<open>multimap\<close> crate and the absolute paths are parameters; the locale states
  the documented behaviour of the multimap.  The lemmas show that the strictest matching rule
  decides, that an overlay only adds matches, and what the compiled network domains are.
\<close>

section \<open>Decisions\<close>

datatype decision = Allow | Prompt | Forbidden

text \<open>The derived order of the variants.\<close>

definition decision_rank :: "decision \<Rightarrow> nat" where
  "decision_rank d = (case d of Allow \<Rightarrow> 0 | Prompt \<Rightarrow> 1 | Forbidden \<Rightarrow> 2)"

instantiation decision :: linorder
begin

definition less_eq_decision :: "decision \<Rightarrow> decision \<Rightarrow> bool" where
  "d \<le> e \<longleftrightarrow> decision_rank d \<le> decision_rank e"

definition less_decision :: "decision \<Rightarrow> decision \<Rightarrow> bool" where
  "d < e \<longleftrightarrow> decision_rank d < decision_rank e"

instance
proof
  fix d e :: decision
  show "d \<le> e \<Longrightarrow> e \<le> d \<Longrightarrow> d = e"
    by (auto simp: less_eq_decision_def decision_rank_def split: decision.splits)
qed (auto simp: less_eq_decision_def less_decision_def)

end

lemma decision_simps [simp]:
  "Allow \<le> d" "d \<le> Forbidden" "Forbidden \<le> d \<longleftrightarrow> d = Forbidden" "d \<le> Allow \<longleftrightarrow> d = Allow"
  by (cases d; simp add: less_eq_decision_def decision_rank_def)+

section \<open>Errors\<close>

record text_position =
  pos_line :: nat
  pos_column :: nat

record error_location =
  loc_path :: ustring
  loc_start :: text_position
  loc_end :: text_position

datatype policy_error =
    InvalidDecision ustring
  | InvalidPattern ustring
  | InvalidExample ustring
  | InvalidRule ustring
  | ExampleDidNotMatch "ustring list" "ustring list" "error_location option"
  | ExampleDidMatch ustring ustring "error_location option"
  | StarlarkError ustring

fun with_location :: "policy_error \<Rightarrow> error_location \<Rightarrow> policy_error" where
  "with_location (ExampleDidNotMatch rules examples None) location =
     ExampleDidNotMatch rules examples (Some location)"
| "with_location (ExampleDidMatch rule example None) location =
     ExampleDidMatch rule example (Some location)"
| "with_location other location = other"

definition decision_parse :: "ustring \<Rightarrow> policy_error + decision" where
  "decision_parse raw =
     (if raw = lit ''allow'' then Inr Allow
      else if raw = lit ''prompt'' then Inr Prompt
      else if raw = lit ''forbidden'' then Inr Forbidden
      else Inl (InvalidDecision raw))"

section \<open>Executable names\<close>

definition WINDOWS_EXECUTABLE_SUFFIXES :: "ustring list" where
  "WINDOWS_EXECUTABLE_SUFFIXES = [lit ''.exe'', lit ''.cmd'', lit ''.bat'', lit ''.com'']"

definition executable_lookup_key :: "bool \<Rightarrow> ustring \<Rightarrow> ustring" where
  "executable_lookup_key windows raw =
     (if windows then
        let raw = to_ascii_lowercase raw
        in case find (ends_with raw) WINDOWS_EXECUTABLE_SUFFIXES of
             Some suffix \<Rightarrow> take (length raw - length suffix) raw
           | None \<Rightarrow> raw
      else raw)"

text \<open>The platform: whether it is Windows, \<open>AbsolutePathBuf::try\_from\<close> and \<open>Path::file\_name\<close>.\<close>

record 'a platform =
  is_windows :: bool
  abs_try_from :: "ustring \<Rightarrow> 'a option"
  abs_file_name :: "'a \<Rightarrow> ustring option"

definition executable_path_lookup_key :: "'a platform \<Rightarrow> 'a \<Rightarrow> ustring option" where
  "executable_path_lookup_key pf path =
     map_option (executable_lookup_key (is_windows pf)) (abs_file_name pf path)"

section \<open>Prefix rules\<close>

datatype pattern_token = Single ustring | Alts "ustring list"

definition token_matches :: "pattern_token \<Rightarrow> ustring \<Rightarrow> bool" where
  "token_matches t token =
     (case t of
        Single expected \<Rightarrow> expected = token
      | Alts alternatives \<Rightarrow> list_ex (\<lambda>alt. alt = token) alternatives)"

definition alternatives :: "pattern_token \<Rightarrow> ustring list" where
  "alternatives t = (case t of Single expected \<Rightarrow> [expected] | Alts alts \<Rightarrow> alts)"

record prefix_pattern =
  pat_first :: ustring
  pat_rest :: "pattern_token list"

fun tokens_match :: "pattern_token list \<Rightarrow> ustring list \<Rightarrow> bool" where
  "tokens_match (p # ps) (c # cs) = (token_matches p c \<and> tokens_match ps cs)"
| "tokens_match _ _ = True"

definition matches_prefix :: "prefix_pattern \<Rightarrow> ustring list \<Rightarrow> ustring list option" where
  "matches_prefix pat cmd =
     (let pattern_length = length (pat_rest pat) + 1
      in if length cmd < pattern_length \<or> hd cmd \<noteq> pat_first pat then None
         else if tokens_match (pat_rest pat) (take (length (pat_rest pat)) (tl cmd))
         then Some (take pattern_length cmd)
         else None)"

datatype 'a rule_match =
    PrefixRuleMatch "ustring list" decision "'a option" "ustring option"
  | HeuristicsRuleMatch "ustring list" decision

fun match_decision :: "'a rule_match \<Rightarrow> decision" where
  "match_decision (PrefixRuleMatch _ d _ _) = d"
| "match_decision (HeuristicsRuleMatch _ d) = d"

fun with_resolved_program :: "'a \<Rightarrow> 'a rule_match \<Rightarrow> 'a rule_match" where
  "with_resolved_program program (PrefixRuleMatch prefix d _ j) = PrefixRuleMatch prefix d (Some program) j"
| "with_resolved_program program (HeuristicsRuleMatch cmd d) = HeuristicsRuleMatch cmd d"

record prefix_rule =
  rule_pattern :: prefix_pattern
  rule_decision :: decision
  rule_justification :: "ustring option"

definition program :: "prefix_rule \<Rightarrow> ustring" where
  "program r = pat_first (rule_pattern r)"

definition rule_matches :: "prefix_rule \<Rightarrow> ustring list \<Rightarrow> 'a rule_match option" where
  "rule_matches r cmd =
     map_option (\<lambda>prefix. PrefixRuleMatch prefix (rule_decision r) None (rule_justification r))
       (matches_prefix (rule_pattern r) cmd)"

section \<open>Network rules\<close>

datatype network_rule_protocol = Http | Https | Socks5Tcp | Socks5Udp

definition protocol_parse :: "ustring \<Rightarrow> policy_error + network_rule_protocol" where
  "protocol_parse raw =
     (if raw = lit ''http'' then Inr Http
      else if raw \<in> {lit ''https'', lit ''https_connect'', lit ''http-connect''} then Inr Https
      else if raw = lit ''socks5_tcp'' then Inr Socks5Tcp
      else if raw = lit ''socks5_udp'' then Inr Socks5Udp
      else Inl (InvalidRule
        (lit ''network_rule protocol must be one of http, https, socks5_tcp, socks5_udp (got '' @
         raw @ lit '')'')))"

fun as_policy_string :: "network_rule_protocol \<Rightarrow> ustring" where
  "as_policy_string Http = lit ''http''"
| "as_policy_string Https = lit ''https''"
| "as_policy_string Socks5Tcp = lit ''socks5_tcp''"
| "as_policy_string Socks5Udp = lit ''socks5_udp''"

record network_rule =
  net_host :: ustring
  net_protocol :: network_rule_protocol
  net_decision :: decision
  net_justification :: "ustring option"

definition all_digits :: "ustring \<Rightarrow> bool" where
  "all_digits s = list_all is_ascii_digit s"

text \<open>The bracket and port syntax in front of the normalisation.\<close>

definition strip_port :: "ustring \<Rightarrow> ustring \<Rightarrow> policy_error + ustring" where
  "strip_port raw host =
     (case strip_prefix host (lit ''['') of
        Some stripped \<Rightarrow>
          (case split_once 93 stripped of
             None \<Rightarrow> Inl (InvalidRule (lit ''network_rule host has an invalid bracketed IPv6 literal''))
           | Some (inside, rest) \<Rightarrow>
               (let port_ok = (case strip_prefix rest (lit '':'') of
                                 Some port \<Rightarrow> port \<noteq> [] \<and> all_digits port
                               | None \<Rightarrow> False)
                in if rest \<noteq> [] \<and> \<not> port_ok
                   then Inl (InvalidRule (lit ''network_rule host contains an unsupported suffix: '' @ raw))
                   else Inr inside))
      | None \<Rightarrow>
          (case (if count_list host 58 = 1 then rsplit_once 58 host else None) of
             Some (candidate, port) \<Rightarrow>
               Inr (if candidate \<noteq> [] \<and> port \<noteq> [] \<and> all_digits port then candidate else host)
           | None \<Rightarrow> Inr host))"

definition normalize_network_rule_host :: "ustring \<Rightarrow> policy_error + ustring" where
  "normalize_network_rule_host raw =
     (let host = trim raw
      in if host = [] then Inl (InvalidRule (lit ''network_rule host cannot be empty''))
         else if contains_str host (lit ''://'') \<or> 47 \<in> set host \<or> 63 \<in> set host \<or> 35 \<in> set host
         then Inl (InvalidRule
           (lit ''network_rule host must be a hostname or IP literal (without scheme or path)''))
         else
           and_then (strip_port raw host)
             (\<lambda>host.
                let normalized = to_ascii_lowercase (trim (trim_end_matches 46 host))
                in if normalized = [] then Inl (InvalidRule (lit ''network_rule host cannot be empty''))
                   else if 42 \<in> set normalized
                   then Inl (InvalidRule
                     (lit ''network_rule host must be a specific host; wildcards are not allowed''))
                   else if list_ex is_whitespace normalized
                   then Inl (InvalidRule (lit ''network_rule host cannot contain whitespace''))
                   else Inr normalized))"

section \<open>The multimap\<close>

text \<open>\<open>MultiMap\<close> of the \<open>multimap\<close> crate: a vector of values per key, in insertion order.\<close>

record ('k, 'v, 'm) multimap_ops =
  mm_new :: 'm
  mm_insert :: "'k \<Rightarrow> 'v \<Rightarrow> 'm \<Rightarrow> 'm"
  mm_get_vec :: "'m \<Rightarrow> 'k \<Rightarrow> 'v list option"
  mm_iter_all :: "'m \<Rightarrow> ('k \<times> 'v list) list"

locale multimap =
  fixes mm :: "('k, 'v, 'm) multimap_ops"
  assumes get_new: "mm_get_vec mm (mm_new mm) k = None"
    and get_insert: "mm_get_vec mm (mm_insert mm k v m) k' =
      (if k' = k then Some ((case mm_get_vec mm m k of Some vs \<Rightarrow> vs | None \<Rightarrow> []) @ [v])
       else mm_get_vec mm m k')"
    and iter_all_get: "map_of (mm_iter_all mm m) = mm_get_vec mm m"
    and iter_all_distinct: "distinct (map fst (mm_iter_all mm m))"

definition mm_values :: "('k, 'v, 'm) multimap_ops \<Rightarrow> 'm \<Rightarrow> 'k \<Rightarrow> 'v list" where
  "mm_values mm m k = (case mm_get_vec mm m k of Some vs \<Rightarrow> vs | None \<Rightarrow> [])"

context multimap
begin

lemma values_new: "mm_values mm (mm_new mm) k = []"
  by (simp add: mm_values_def get_new)

lemma values_insert:
  "mm_values mm (mm_insert mm k v m) k' = (if k' = k then mm_values mm m k @ [v] else mm_values mm m k')"
  by (simp add: mm_values_def get_insert)

lemma values_insert_list:
  "mm_values mm (foldl (\<lambda>m v. mm_insert mm (f v) v m) m vs) k =
   mm_values mm m k @ filter (\<lambda>v. f v = k) vs"
  by (induction vs arbitrary: m) (auto simp: values_insert)

lemma values_insert_key:
  "mm_values mm (foldl (\<lambda>m v. mm_insert mm k v m) m vs) k' =
   mm_values mm m k' @ (if k' = k then vs else [])"
  by (induction vs arbitrary: m) (auto simp: values_insert)

lemma values_insert_all:
  "distinct (map fst kvs) \<Longrightarrow>
   mm_values mm (foldl (\<lambda>m (k, vs). foldl (\<lambda>m v. mm_insert mm k v m) m vs) m kvs) k =
   mm_values mm m k @ (case map_of kvs k of Some vs \<Rightarrow> vs | None \<Rightarrow> [])"
proof (induction kvs arbitrary: m)
  case (Cons kv kvs)
  obtain j vs where kv: "kv = (j, vs)" by (cases kv)
  have "map_of kvs j = None" using Cons.prems kv by (simp add: map_of_eq_None_iff)
  with Cons kv show ?case by (auto simp: values_insert_key)
qed simp

lemma values_merge:
  "mm_values mm (foldl (\<lambda>m (k, vs). foldl (\<lambda>m v. mm_insert mm k v m) m vs) m (mm_iter_all mm m')) k =
   mm_values mm m k @ mm_values mm m' k"
  using values_insert_all [OF iter_all_distinct, of m m' k] by (simp add: iter_all_get mm_values_def)

end

section \<open>The policy\<close>

record ('m, 'a) policy =
  rules_by_program :: 'm
  network_rules :: "network_rule list"
  host_executables_by_name :: "ustring \<rightharpoonup> 'a list"

type_synonym 'm rules_ops = "(ustring, prefix_rule, 'm) multimap_ops"

definition empty_policy :: "'m rules_ops \<Rightarrow> ('m, 'a) policy" where
  "empty_policy mm =
     \<lparr>rules_by_program = mm_new mm, network_rules = [], host_executables_by_name = Map.empty\<rparr>"

definition render_pattern_token :: "pattern_token \<Rightarrow> ustring" where
  "render_pattern_token t =
     (case t of
        Single value \<Rightarrow> value
      | Alts alts \<Rightarrow> lit ''['' @ join (lit ''|'') alts @ lit '']'')"

definition rule_prefix :: "prefix_rule \<Rightarrow> ustring list" where
  "rule_prefix r = pat_first (rule_pattern r) # map render_pattern_token (pat_rest (rule_pattern r))"

definition get_allowed_prefixes :: "'m rules_ops \<Rightarrow> ('m, 'a) policy \<Rightarrow> ustring list list" where
  "get_allowed_prefixes mm p =
     remdups_adj (sort
       (concat (map (\<lambda>(_, rules). map rule_prefix (filter (\<lambda>r. rule_decision r = Allow) rules))
         (mm_iter_all mm (rules_by_program p)))))"

definition add_prefix_rule ::
    "'m rules_ops \<Rightarrow> ustring list \<Rightarrow> decision \<Rightarrow> ('m, 'a) policy \<Rightarrow> policy_error + ('m, 'a) policy" where
  "add_prefix_rule mm prefix d p =
     (case prefix of
        [] \<Rightarrow> Inl (InvalidPattern (lit ''prefix cannot be empty''))
      | first # rest \<Rightarrow>
          Inr (p\<lparr>rules_by_program := mm_insert mm first
            \<lparr>rule_pattern = \<lparr>pat_first = first, pat_rest = map Single rest\<rparr>,
             rule_decision = d, rule_justification = None\<rparr> (rules_by_program p)\<rparr>))"

definition add_network_rule ::
    "ustring \<Rightarrow> network_rule_protocol \<Rightarrow> decision \<Rightarrow> ustring option \<Rightarrow> ('m, 'a) policy \<Rightarrow>
     policy_error + ('m, 'a) policy" where
  "add_network_rule host protocol d justification p =
     and_then (normalize_network_rule_host host)
       (\<lambda>host.
          if (case justification of Some raw \<Rightarrow> trim raw = [] | None \<Rightarrow> False)
          then Inl (InvalidRule (lit ''justification cannot be empty''))
          else Inr (p\<lparr>network_rules := network_rules p @
            [\<lparr>net_host = host, net_protocol = protocol, net_decision = d,
              net_justification = justification\<rparr>]\<rparr>))"

definition set_host_executable_paths ::
    "ustring \<Rightarrow> 'a list \<Rightarrow> ('m, 'a) policy \<Rightarrow> ('m, 'a) policy" where
  "set_host_executable_paths name paths p =
     p\<lparr>host_executables_by_name := (host_executables_by_name p)(name \<mapsto> paths)\<rparr>"

definition merge_overlay ::
    "'m rules_ops \<Rightarrow> ('m, 'a) policy \<Rightarrow> ('m, 'a) policy \<Rightarrow> ('m, 'a) policy" where
  "merge_overlay mm p overlay =
     \<lparr>rules_by_program =
        foldl (\<lambda>m (prog, rules). foldl (\<lambda>m r. mm_insert mm prog r m) m rules)
          (rules_by_program p) (mm_iter_all mm (rules_by_program overlay)),
      network_rules = network_rules p @ network_rules overlay,
      host_executables_by_name = host_executables_by_name p ++ host_executables_by_name overlay\<rparr>"

definition upsert_domain :: "ustring list \<Rightarrow> ustring \<Rightarrow> ustring list" where
  "upsert_domain entries host = filter (\<lambda>e. e \<noteq> host) entries @ [host]"

definition compile_network_rule ::
    "ustring list \<times> ustring list \<Rightarrow> network_rule \<Rightarrow> ustring list \<times> ustring list" where
  "compile_network_rule acc rule =
     (case acc of (allowed, denied) \<Rightarrow>
        (case net_decision rule of
           Allow \<Rightarrow> (upsert_domain allowed (net_host rule), filter (\<lambda>e. e \<noteq> net_host rule) denied)
         | Forbidden \<Rightarrow> (filter (\<lambda>e. e \<noteq> net_host rule) allowed, upsert_domain denied (net_host rule))
         | Prompt \<Rightarrow> (allowed, denied)))"

definition compiled_network_domains :: "('m, 'a) policy \<Rightarrow> ustring list \<times> ustring list" where
  "compiled_network_domains p = foldl compile_network_rule ([], []) (network_rules p)"

section \<open>Checking commands\<close>

definition match_exact_rules ::
    "'m rules_ops \<Rightarrow> ('m, 'a) policy \<Rightarrow> ustring list \<Rightarrow> 'a rule_match list option" where
  "match_exact_rules mm p cmd =
     (case cmd of
        [] \<Rightarrow> None
      | first # _ \<Rightarrow>
          Some (case mm_get_vec mm (rules_by_program p) first of
                  Some rules \<Rightarrow> List.map_filter (\<lambda>r. rule_matches r cmd) rules
                | None \<Rightarrow> []))"

definition match_host_executable_rules ::
    "'a platform \<Rightarrow> 'm rules_ops \<Rightarrow> ('m, 'a) policy \<Rightarrow> ustring list \<Rightarrow> 'a rule_match list" where
  "match_host_executable_rules pf mm p cmd =
     (case cmd of
        [] \<Rightarrow> []
      | first # args \<Rightarrow>
          (case abs_try_from pf first of
             None \<Rightarrow> []
           | Some prog \<Rightarrow>
               (case executable_path_lookup_key pf prog of
                  None \<Rightarrow> []
                | Some basename \<Rightarrow>
                    (case mm_get_vec mm (rules_by_program p) basename of
                       None \<Rightarrow> []
                     | Some rules \<Rightarrow>
                         if (case host_executables_by_name p basename of
                               Some paths \<Rightarrow> \<not> list_ex (\<lambda>path. path = prog) paths
                             | None \<Rightarrow> False)
                         then []
                         else map (with_resolved_program prog)
                                (List.map_filter (\<lambda>r. rule_matches r (basename # args)) rules)))))"

definition matches_for_command_with_options ::
    "'a platform \<Rightarrow> 'm rules_ops \<Rightarrow> ('m, 'a) policy \<Rightarrow> ustring list \<Rightarrow>
     (ustring list \<Rightarrow> decision) option \<Rightarrow> bool \<Rightarrow> 'a rule_match list" where
  "matches_for_command_with_options pf mm p cmd heuristics_fallback resolve_host_executables =
     (let matched_rules =
            (case match_exact_rules mm p cmd of
               Some (m # ms) \<Rightarrow> m # ms
             | _ \<Rightarrow> if resolve_host_executables then match_host_executable_rules pf mm p cmd else [])
      in case (matched_rules, heuristics_fallback) of
           ([], Some h) \<Rightarrow> [HeuristicsRuleMatch cmd (h cmd)]
         | _ \<Rightarrow> matched_rules)"

definition matches_for_command ::
    "'a platform \<Rightarrow> 'm rules_ops \<Rightarrow> ('m, 'a) policy \<Rightarrow> ustring list \<Rightarrow>
     (ustring list \<Rightarrow> decision) option \<Rightarrow> 'a rule_match list" where
  "matches_for_command pf mm p cmd heuristics_fallback =
     matches_for_command_with_options pf mm p cmd heuristics_fallback False"

record 'a evaluation =
  eval_decision :: decision
  eval_matched_rules :: "'a rule_match list"

text \<open>\<open>from\_matches\<close> panics on an empty list, which is \<open>None\<close> here.\<close>

definition from_matches :: "'a rule_match list \<Rightarrow> 'a evaluation option" where
  "from_matches matched_rules =
     (case map match_decision matched_rules of
        [] \<Rightarrow> None
      | d # ds \<Rightarrow> Some \<lparr>eval_decision = foldl max d ds, eval_matched_rules = matched_rules\<rparr>)"

fun is_prefix_match :: "'a rule_match \<Rightarrow> bool" where
  "is_prefix_match (HeuristicsRuleMatch _ _) = False"
| "is_prefix_match (PrefixRuleMatch _ _ _ _) = True"

definition is_match :: "'a evaluation \<Rightarrow> bool" where
  "is_match ev = list_ex is_prefix_match (eval_matched_rules ev)"

definition check_with_options ::
    "'a platform \<Rightarrow> 'm rules_ops \<Rightarrow> ('m, 'a) policy \<Rightarrow> ustring list \<Rightarrow> (ustring list \<Rightarrow> decision) \<Rightarrow>
     bool \<Rightarrow> 'a evaluation option" where
  "check_with_options pf mm p cmd h options =
     from_matches (matches_for_command_with_options pf mm p cmd (Some h) options)"

definition check ::
    "'a platform \<Rightarrow> 'm rules_ops \<Rightarrow> ('m, 'a) policy \<Rightarrow> ustring list \<Rightarrow> (ustring list \<Rightarrow> decision) \<Rightarrow>
     'a evaluation option" where
  "check pf mm p cmd h = check_with_options pf mm p cmd h False"

definition check_multiple_with_options ::
    "'a platform \<Rightarrow> 'm rules_ops \<Rightarrow> ('m, 'a) policy \<Rightarrow> ustring list list \<Rightarrow>
     (ustring list \<Rightarrow> decision) \<Rightarrow> bool \<Rightarrow> 'a evaluation option" where
  "check_multiple_with_options pf mm p commands h options =
     from_matches
       (concat (map (\<lambda>cmd. matches_for_command_with_options pf mm p cmd (Some h) options) commands))"

definition check_multiple ::
    "'a platform \<Rightarrow> 'm rules_ops \<Rightarrow> ('m, 'a) policy \<Rightarrow> ustring list list \<Rightarrow>
     (ustring list \<Rightarrow> decision) \<Rightarrow> 'a evaluation option" where
  "check_multiple pf mm p commands h = check_multiple_with_options pf mm p commands h False"

section \<open>Matching\<close>

text \<open>What a rule covers: the command starts with the first token, and each further token of the pattern
  lists the command's token at its place.\<close>

definition covers :: "prefix_rule \<Rightarrow> ustring list \<Rightarrow> bool" where
  "covers r cmd \<longleftrightarrow>
     (let pat = rule_pattern r
      in length (pat_rest pat) < length cmd \<and> cmd ! 0 = pat_first pat \<and>
         (\<forall>i < length (pat_rest pat). cmd ! Suc i \<in> set (alternatives (pat_rest pat ! i))))"

lemma token_matches_iff: "token_matches t c \<longleftrightarrow> c \<in> set (alternatives t)"
  by (cases t) (auto simp: token_matches_def alternatives_def list_ex_iff)

lemma tokens_match_nth:
  "length ps \<le> length cs \<Longrightarrow>
   tokens_match ps (take (length ps) cs) \<longleftrightarrow> (\<forall>i < length ps. cs ! i \<in> set (alternatives (ps ! i)))"
proof (induction ps cs rule: tokens_match.induct)
  case (1 p ps c cs)
  then show ?case by (auto simp: token_matches_iff less_Suc_eq_0_disj)
qed auto

lemma matches_prefix_iff:
  "matches_prefix (rule_pattern r) cmd =
     (if covers r cmd then Some (take (length (pat_rest (rule_pattern r)) + 1) cmd) else None)"
proof (cases cmd)
  case (Cons c cs)
  then show ?thesis
    using tokens_match_nth [of "pat_rest (rule_pattern r)" cs]
    by (auto simp: matches_prefix_def covers_def Let_def)
qed (simp add: matches_prefix_def covers_def)

lemma rule_matches_iff:
  "rule_matches r cmd =
     (if covers r cmd
      then Some (PrefixRuleMatch (take (length (pat_rest (rule_pattern r)) + 1) cmd) (rule_decision r) None
        (rule_justification r))
      else None)"
  by (simp add: rule_matches_def matches_prefix_iff)

lemma map_filter_matches:
  "map match_decision (List.map_filter (\<lambda>r. rule_matches r cmd) rules) =
   map rule_decision (filter (\<lambda>r. covers r cmd) rules)"
  by (induction rules) (simp_all add: List.map_filter_simps rule_matches_iff)

lemma map_filter_Nil: "List.map_filter (\<lambda>r. rule_matches r cmd) rules = [] \<longleftrightarrow> filter (\<lambda>r. covers r cmd) rules = []"
  by (metis map_filter_matches map_is_Nil_conv)

lemma covers_program: "covers r cmd \<Longrightarrow> cmd \<noteq> [] \<and> program r = hd cmd"
  by (cases cmd) (auto simp: covers_def program_def Let_def)

lemma match_exact_rules_eq:
  "match_exact_rules mm p (c # cs) =
     Some (List.map_filter (\<lambda>r. rule_matches r (c # cs)) (mm_values mm (rules_by_program p) c))"
  by (simp add: match_exact_rules_def mm_values_def List.map_filter_simps split: option.split)

text \<open>Without host executables: the covering rules of the program, in order, or the fallback.\<close>

definition exact_matches :: "'m rules_ops \<Rightarrow> ('m, 'a) policy \<Rightarrow> ustring list \<Rightarrow> 'a rule_match list" where
  "exact_matches mm p cmd = (case match_exact_rules mm p cmd of Some ms \<Rightarrow> ms | None \<Rightarrow> [])"

lemma matches_for_command_cases:
  "matches_for_command pf mm p cmd (Some h) =
    (if exact_matches mm p cmd = [] then [HeuristicsRuleMatch cmd (h cmd)] else exact_matches mm p cmd)"
  by (auto simp: exact_matches_def matches_for_command_def matches_for_command_with_options_def
      split: option.split list.split)

lemma exact_matches_eq:
  "exact_matches mm p cmd =
     (if cmd = [] then []
      else List.map_filter (\<lambda>r. rule_matches r cmd) (mm_values mm (rules_by_program p) (hd cmd)))"
  by (cases cmd) (simp_all add: exact_matches_def match_exact_rules_eq, simp add: match_exact_rules_def)

lemma exact_matches_prefix: "m \<in> set (exact_matches mm p cmd) \<Longrightarrow> is_prefix_match m"
  by (auto simp: exact_matches_eq List.map_filter_def rule_matches_iff split: if_splits)

lemma foldl_max: "foldl max d ds = Max (set (d # ds))" for d :: decision
  unfolding Max.set_eq_fold foldl_conv_fold by (rule fold_cong) (simp_all add: fun_eq_iff max.commute)

lemma from_matches_eq:
  "from_matches ms =
     (if ms = [] then None
      else Some \<lparr>eval_decision = Max (match_decision ` set ms), eval_matched_rules = ms\<rparr>)"
  by (cases ms) (simp_all add: from_matches_def foldl_max)

lemma check_eq:
  "check pf mm p cmd h =
     Some (if exact_matches mm p cmd = []
           then \<lparr>eval_decision = h cmd, eval_matched_rules = [HeuristicsRuleMatch cmd (h cmd)]\<rparr>
           else \<lparr>eval_decision = Max (match_decision ` set (exact_matches mm p cmd)),
                 eval_matched_rules = exact_matches mm p cmd\<rparr>)"
  by (simp add: check_def check_with_options_def from_matches_eq
      matches_for_command_cases [unfolded matches_for_command_def])

lemma matches_for_command_nonempty: "matches_for_command_with_options pf mm p cmd (Some h) b \<noteq> []"
  by (auto simp: matches_for_command_with_options_def Let_def split: list.split)

section \<open>Compiled network domains\<close>

text \<open>The last rule for a host that is no prompt decides.\<close>

definition last_network_decision :: "network_rule list \<Rightarrow> ustring \<Rightarrow> decision option" where
  "last_network_decision rules host =
     last_opt (map net_decision (filter (\<lambda>r. net_host r = host \<and> net_decision r \<noteq> Prompt) rules))"

lemma set_upsert_domain: "set (upsert_domain xs h) = insert h (set xs)"
  by (auto simp: upsert_domain_def)

lemma distinct_upsert_domain: "distinct xs \<Longrightarrow> distinct (upsert_domain xs h)"
  by (simp add: upsert_domain_def)

lemma compile_network_domains_inv:
  "case foldl compile_network_rule ([], []) rules of (allowed, denied) \<Rightarrow>
     distinct allowed \<and> distinct denied \<and>
     (\<forall>h. h \<in> set allowed \<longleftrightarrow> last_network_decision rules h = Some Allow) \<and>
     (\<forall>h. h \<in> set denied \<longleftrightarrow> last_network_decision rules h = Some Forbidden)"
proof (induction rules rule: rev_induct)
  case (snoc r rules)
  obtain allowed denied where acc: "foldl compile_network_rule ([], []) rules = (allowed, denied)"
    by fastforce
  have last_snoc: "last_network_decision (rules @ [r]) h =
      (if net_host r = h \<and> net_decision r \<noteq> Prompt then Some (net_decision r)
       else last_network_decision rules h)" for h
    by (simp add: last_network_decision_def)
  from snoc acc show ?case
    by (cases "net_decision r")
      (auto simp: compile_network_rule_def last_snoc set_upsert_domain distinct_upsert_domain)
qed (simp add: last_network_decision_def)

section \<open>A multimap\<close>

text \<open>Association lists of vectors satisfy the laws.\<close>

definition alist_mm :: "('k, 'v, ('k \<times> 'v list) list) multimap_ops" where
  "alist_mm =
     \<lparr>mm_new = [],
      mm_insert = (\<lambda>k v m. AList.update k ((case map_of m k of Some vs \<Rightarrow> vs | None \<Rightarrow> []) @ [v]) m),
      mm_get_vec = map_of, mm_iter_all = AList.clearjunk\<rparr>"

interpretation alist_mm: multimap alist_mm
  by unfold_locales (simp_all add: alist_mm_def update_conv map_of_clearjunk distinct_clearjunk)

section \<open>Properties\<close>

text \<open>A policy with the rules added one after the other, as the policy builder adds them.\<close>

definition rules_policy :: "'m rules_ops \<Rightarrow> prefix_rule list \<Rightarrow> ('m, 'a) policy" where
  "rules_policy mm rules =
     (empty_policy mm)\<lparr>rules_by_program := foldl (\<lambda>m r. mm_insert mm (program r) r m) (mm_new mm) rules\<rparr>"

definition strictest_decision ::
    "prefix_rule list \<Rightarrow> ustring list \<Rightarrow> (ustring list \<Rightarrow> decision) \<Rightarrow> decision" where
  "strictest_decision rules cmd h =
     (let rs = filter (\<lambda>r. covers r cmd) rules
      in if rs = [] then h cmd else Max (rule_decision ` set rs))"

text \<open>C6.  The strictest covering rule decides: a check answers (it never fails), its decision is the
  largest decision among all rules whose pattern covers the command, in whatever order they were
  added, and the heuristics decide exactly when no rule covers it.\<close>

theorem check_strictest_rule:
  fixes pf :: "'a platform" and mm :: "'m rules_ops"
  assumes "multimap mm"
  shows "map_option eval_decision (check pf mm (rules_policy mm rules) cmd h) =
    Some (strictest_decision rules cmd h)"
proof -
  let ?p = "rules_policy mm rules :: ('m, 'a) policy"
  let ?ms = "exact_matches mm ?p cmd"
  have v: "mm_values mm (rules_by_program ?p) k = filter (\<lambda>r. program r = k) rules" for k
    using multimap.values_insert_list [OF assms, of program "mm_new mm" rules k]
      multimap.values_new [OF assms] by (simp add: rules_policy_def)
  have f: "filter (\<lambda>r. covers r cmd) (filter (\<lambda>r. program r = hd cmd) rules) = filter (\<lambda>r. covers r cmd) rules"
    by (auto intro!: filter_cong dest: covers_program)
  have "filter (\<lambda>r. covers r []) rules = []" by (auto dest: covers_program simp: filter_empty_conv)
  then have ds: "map match_decision ?ms = map rule_decision (filter (\<lambda>r. covers r cmd) rules)"
    using f by (simp add: exact_matches_eq v map_filter_matches)
  then have "match_decision ` set ?ms = rule_decision ` set (filter (\<lambda>r. covers r cmd) rules)"
    by (metis list.set_map)
  moreover have "?ms = [] \<longleftrightarrow> filter (\<lambda>r. covers r cmd) rules = []" using ds by (metis map_is_Nil_conv)
  ultimately show ?thesis
    by (cases "filter (\<lambda>r. covers r cmd) rules = []") (simp_all add: check_eq strictest_decision_def Let_def)
qed

definition git_rule :: "ustring list \<Rightarrow> decision \<Rightarrow> prefix_rule" where
  "git_rule args d =
     \<lparr>rule_pattern = \<lparr>pat_first = lit ''git'', pat_rest = map Single args\<rparr>, rule_decision = d,
      rule_justification = None\<rparr>"

definition demo_platform :: "ustring platform" where
  "demo_platform =
     \<lparr>is_windows = False, abs_try_from = (\<lambda>s. if starts_with s (lit ''/'') then Some s else None),
      abs_file_name = (\<lambda>p. last_opt (split_on 47 p))\<rparr>"

theorem check_strictest_rule_witness:
  "map_option eval_decision (check demo_platform alist_mm
     (rules_policy alist_mm [git_rule [lit ''push''] Forbidden, git_rule [] Allow])
     [lit ''git'', lit ''push'', lit ''-f''] (\<lambda>_. Prompt)) = Some Forbidden"
proof -
  have "strictest_decision [git_rule [lit ''push''] Forbidden, git_rule [] Allow]
      [lit ''git'', lit ''push'', lit ''-f''] (\<lambda>_. Prompt) = Forbidden"
    by (simp add: strictest_decision_def covers_def git_rule_def alternatives_def lit_def max_def)
  then show ?thesis by (subst check_strictest_rule [OF alist_mm.multimap_axioms]) simp
qed

text \<open>An overlay only adds matches: what matches a command in the merged policy is what matches it
  in the base followed by what matches it in the overlay.  So a decision made by a rule of either
  policy is never relaxed by the merge.\<close>

theorem merge_overlay_matches:
  fixes p q :: "('m, 'a) policy"
  assumes "multimap mm"
  shows "exact_matches mm (merge_overlay mm p q) cmd = exact_matches mm p cmd @ exact_matches mm q cmd \<and>
    (\<forall>ev ev'. (check pf mm p cmd h = Some ev \<or> check pf mm q cmd h = Some ev) \<longrightarrow> is_match ev \<longrightarrow>
      check pf mm (merge_overlay mm p q) cmd h = Some ev' \<longrightarrow> eval_decision ev \<le> eval_decision ev')"
proof -
  have "mm_values mm (rules_by_program (merge_overlay mm p q)) k =
      mm_values mm (rules_by_program p) k @ mm_values mm (rules_by_program q) k" for k
    using multimap.values_merge [OF assms] by (simp add: merge_overlay_def)
  then have m: "exact_matches mm (merge_overlay mm p q) cmd = exact_matches mm p cmd @ exact_matches mm q cmd"
    by (simp add: exact_matches_eq List.map_filter_def)
  have le: "eval_decision ev \<le> eval_decision ev'"
    if "check pf mm r cmd h = Some ev" "set (exact_matches mm r cmd) \<subseteq> set (exact_matches mm (merge_overlay mm p q) cmd)"
      "is_match ev" "check pf mm (merge_overlay mm p q) cmd h = Some ev'" for r :: "('m, 'a) policy" and ev ev'
  proof -
    have ne: "exact_matches mm r cmd \<noteq> []"
      using that(1,3) by (auto simp: check_eq is_match_def split: if_splits)
    with that(2) have "exact_matches mm (merge_overlay mm p q) cmd \<noteq> []" by auto
    moreover have "Max (match_decision ` set (exact_matches mm r cmd)) \<le>
        Max (match_decision ` set (exact_matches mm (merge_overlay mm p q) cmd))"
      using that(2) ne by (intro Max_mono) auto
    ultimately show ?thesis using that(1,4) ne by (auto simp: check_eq)
  qed
  with m show ?thesis by auto
qed

theorem merge_overlay_matches_witness:
  "length (exact_matches alist_mm
     (merge_overlay alist_mm (rules_policy alist_mm [git_rule [] Forbidden])
        (rules_policy alist_mm [git_rule [] Allow])) [lit ''git''] :: ustring rule_match list) = 2"
proof -
  let ?p = "rules_policy alist_mm [git_rule [] Forbidden] :: (_, ustring) policy"
  let ?q = "rules_policy alist_mm [git_rule [] Allow] :: (_, ustring) policy"
  have "exact_matches alist_mm (merge_overlay alist_mm ?p ?q) [lit ''git''] =
      exact_matches alist_mm ?p [lit ''git''] @ exact_matches alist_mm ?q [lit ''git'']"
    using merge_overlay_matches [OF alist_mm.multimap_axioms, of ?p ?q "[lit ''git'']" demo_platform "\<lambda>_. Prompt"]
    by (rule conjunct1)
  moreover have "length (exact_matches alist_mm ?p [lit ''git'']) = 1" by code_simp
  moreover have "length (exact_matches alist_mm ?q [lit ''git'']) = 1" by code_simp
  ultimately show ?thesis by simp
qed

text \<open>Several commands are as strict as the strictest of them: checking a list of commands fails only
  for the empty list (where the code panics), and otherwise its decision is the largest decision of
  the single checks.\<close>

theorem check_multiple_strictest:
  "map_option eval_decision (check_multiple_with_options pf mm p cmds h opts) =
     (if cmds = [] then None
      else Some (Max ((\<lambda>c. eval_decision (the (check_with_options pf mm p c h opts))) ` set cmds)))"
proof (cases "cmds = []")
  case False
  let ?m = "\<lambda>c. matches_for_command_with_options pf mm p c (Some h) opts"
  let ?D = "\<lambda>c. match_decision ` set (?m c)"
  have one: "eval_decision (the (check_with_options pf mm p c h opts)) = Max (?D c)" for c
    by (simp add: check_with_options_def from_matches_eq matches_for_command_nonempty)
  note nonempty = matches_for_command_nonempty [of pf mm p _ h opts]
  have ne: "concat (map ?m cmds) \<noteq> []" using False nonempty by (cases cmds) simp_all
  have "Max (\<Union> (?D ` set cmds)) = Max (Max ` ?D ` set cmds)"
  proof (rule Max_eqI)
    fix d assume "d \<in> \<Union> (?D ` set cmds)"
    then obtain c where c: "c \<in> set cmds" "d \<in> ?D c" by auto
    then have "d \<le> Max (?D c)" by simp
    also have "\<dots> \<le> Max (Max ` ?D ` set cmds)" using c(1) by (intro Max_ge) auto
    finally show "d \<le> Max (Max ` ?D ` set cmds)" .
  next
    have "Max (Max ` ?D ` set cmds) \<in> Max ` ?D ` set cmds" using False by (intro Max_in) auto
    then obtain c where c: "c \<in> set cmds" "Max (Max ` ?D ` set cmds) = Max (?D c)" by auto
    have "Max (?D c) \<in> ?D c" using nonempty [of c] by (intro Max_in) simp_all
    with c(1) show "Max (Max ` ?D ` set cmds) \<in> \<Union> (?D ` set cmds)" unfolding c(2) by (rule UN_I)
  qed simp
  moreover have "match_decision ` set (concat (map ?m cmds)) = \<Union> (?D ` set cmds)" by auto
  ultimately show ?thesis
    using False ne by (simp add: check_multiple_with_options_def from_matches_eq one image_image)
qed (simp add: check_multiple_with_options_def from_matches_eq)

text \<open>The last word on a host wins: a host is in the compiled allow list exactly when the last
  network rule for it that is no prompt allows it, in the deny list exactly when that rule forbids
  it; no host is listed twice.\<close>

theorem network_domains_last_wins:
  "case compiled_network_domains p of (allowed, denied) \<Rightarrow>
     distinct allowed \<and> distinct denied \<and>
     set allowed = {h. last_network_decision (network_rules p) h = Some Allow} \<and>
     set denied = {h. last_network_decision (network_rules p) h = Some Forbidden}"
proof (cases "compiled_network_domains p")
  case (Pair allowed denied)
  with compile_network_domains_inv [of "network_rules p"] show ?thesis
    by (auto simp: compiled_network_domains_def)
qed

lemma dropWhile_subset: "set (dropWhile P xs) \<subseteq> set xs"
  by (auto dest: set_dropWhileD)

lemma trim_subset: "set (trim s) \<subseteq> set s" "set (trim_end_matches c s) \<subseteq> set s"
proof -
  have "set (trim_end t) \<subseteq> set t" "set (trim_start t) \<subseteq> set t" for t
    using dropWhile_subset [of is_whitespace "rev t"] dropWhile_subset [of is_whitespace t]
    by (simp_all add: trim_end_def trim_start_def)
  then show "set (trim s) \<subseteq> set s" unfolding trim_of_trim_end by blast
  show "set (trim_end_matches c s) \<subseteq> set s"
    using dropWhile_subset [of "\<lambda>d. d = c" "rev s"] by (simp add: trim_end_matches_def)
qed

lemma strip_port_subset:
  assumes "strip_port raw host = Inr h"
  shows "set h \<subseteq> set host"
proof (cases "strip_prefix host (lit ''['')")
  case None
  then have "h = host \<or> (\<exists>port. rsplit_once 58 host = Some (h, port))"
    using assms by (auto simp: strip_port_def split: option.split_asm prod.split_asm if_split_asm)
  then show ?thesis by (auto simp: rsplit_once_Some)
next
  case (Some stripped)
  then obtain rest where "split_once 93 stripped = Some (h, rest)"
    using assms by (auto simp: strip_port_def Let_def split: option.split_asm prod.split_asm if_split_asm)
  then show ?thesis using Some by (auto simp: split_once_Some strip_prefix_Some)
qed



text \<open>A listed executable name is a gate: when the policy lists the paths a name may resolve to and
  the program is not one of them, resolving host executables adds nothing to the exact matches.\<close>

theorem host_executable_gate:
  assumes "abs_try_from pf prog_text = Some prog" and "executable_path_lookup_key pf prog = Some name"
    and "host_executables_by_name p name = Some paths" and "prog \<notin> set paths"
  shows "matches_for_command_with_options pf mm p (prog_text # args) h True =
    matches_for_command pf mm p (prog_text # args) h"
proof -
  have "match_host_executable_rules pf mm p (prog_text # args) = []"
    using assms by (auto simp: match_host_executable_rules_def list_ex_iff split: option.split)
  then show ?thesis
    by (simp add: matches_for_command_def matches_for_command_with_options_def split: option.split list.split)
qed

theorem host_executable_gate_witness:
  "matches_for_command_with_options demo_platform alist_mm
     (set_host_executable_paths (lit ''git'') [lit ''/usr/bin/git''] (rules_policy alist_mm [git_rule [] Allow]))
     [lit ''/tmp/git''] None True = []"
proof -
  let ?p = "set_host_executable_paths (lit ''git'') [lit ''/usr/bin/git''] (rules_policy alist_mm [git_rule [] Allow])"
  have "abs_try_from demo_platform (lit ''/tmp/git'') = Some (lit ''/tmp/git'')" by code_simp
  moreover have "executable_path_lookup_key demo_platform (lit ''/tmp/git'') = Some (lit ''git'')" by code_simp
  moreover have "host_executables_by_name ?p (lit ''git'') = Some [lit ''/usr/bin/git'']"
    by (simp add: set_host_executable_paths_def)
  moreover have "lit ''/tmp/git'' \<notin> set [lit ''/usr/bin/git'']" by code_simp
  ultimately have "matches_for_command_with_options demo_platform alist_mm ?p [lit ''/tmp/git''] None True =
      matches_for_command demo_platform alist_mm ?p [lit ''/tmp/git''] None"
    by (rule host_executable_gate)
  moreover have "matches_for_command demo_platform alist_mm ?p [lit ''/tmp/git''] None = []" by code_simp
  ultimately show ?thesis by simp
qed

end
