(* ===== verification/Policy_Builder.thy ===== *)
theory Policy_Builder
  imports Exec_Policy
begin

text \<open>
  Reading execution policies (\<open>execpolicy/src/parser.rs\<close>) and the validation of their examples
  (\<open>rule.rs\<close>).  A policy file is a Starlark program; the interpreter is a parameter that yields the
  calls of the three builtins in order.  Shell splitting, the debug renderings and the path
  functions of the standard library are parameters as well.  The lemmas show what a file that is
  accepted guarantees about its examples and which commands a \<open>prefix\_rule\<close> call covers.
\<close>

section \<open>Starlark values and calls\<close>

datatype svalue = SStr ustring | SList "svalue list" | SOther ustring

fun get_type :: "svalue \<Rightarrow> ustring" where
  "get_type (SStr _) = lit ''string''"
| "get_type (SList _) = lit ''list''"
| "get_type (SOther t) = t"

fun unpack_str :: "svalue \<Rightarrow> ustring option" where
  "unpack_str (SStr s) = Some s"
| "unpack_str _ = None"

datatype builtin_call =
    PrefixRuleCall "svalue list" "ustring option" "svalue list option" "svalue list option"
      "ustring option" "error_location option"
  | NetworkRuleCall ustring ustring ustring "ustring option"
  | HostExecutableCall ustring "svalue list"

text \<open>\<open>sk\_eval\<close> gives, for an identifier and the text of a policy file, a syntax error or the builtin
  calls the program makes and whether it then fails on its own; \<open>sk\_wrap\<close> renders the error of a
  builtin as the interpreter reports it.\<close>

record 'a policy_env =
  env_platform :: "'a platform"
  sk_eval :: "ustring \<Rightarrow> ustring \<Rightarrow> ustring + builtin_call list \<times> ustring option"
  sk_wrap :: "policy_error \<Rightarrow> ustring"
  shlex_split :: "ustring \<Rightarrow> ustring list option"
  shlex_try_join :: "ustring list \<Rightarrow> ustring option"
  debug_rule :: "prefix_rule \<Rightarrow> ustring"
  debug_match :: "'a rule_match \<Rightarrow> ustring"
  path_is_absolute :: "ustring \<Rightarrow> bool"
  path_component_count :: "ustring \<Rightarrow> nat"
  path_file_name :: "ustring \<Rightarrow> ustring option"
  abs_error_text :: "ustring \<Rightarrow> ustring"

section \<open>Arguments\<close>

definition parse_pattern_token :: "svalue \<Rightarrow> policy_error + pattern_token" where
  "parse_pattern_token value =
     (case value of
        SStr s \<Rightarrow> Inr (Single s)
      | SList vs \<Rightarrow>
          and_then
            (collect_results (\<lambda>v. case unpack_str v of
                 Some s \<Rightarrow> Inr s
               | None \<Rightarrow> Inl (InvalidPattern
                   (lit ''pattern alternative must be a string (got '' @ get_type v @ lit '')''))) vs)
            (\<lambda>tokens. case tokens of
                 [] \<Rightarrow> Inl (InvalidPattern (lit ''pattern alternatives cannot be empty''))
               | [single] \<Rightarrow> Inr (Single single)
               | _ \<Rightarrow> Inr (Alts tokens))
      | SOther t \<Rightarrow> Inl (InvalidPattern
          (lit ''pattern element must be a string or list of strings (got '' @ t @ lit '')'')))"

definition parse_pattern :: "svalue list \<Rightarrow> policy_error + pattern_token list" where
  "parse_pattern pattern =
     and_then (collect_results parse_pattern_token pattern)
       (\<lambda>tokens. if tokens = [] then Inl (InvalidPattern (lit ''pattern cannot be empty'')) else Inr tokens)"

definition parse_string_example :: "'a policy_env \<Rightarrow> ustring \<Rightarrow> policy_error + ustring list" where
  "parse_string_example env raw =
     (case shlex_split env raw of
        None \<Rightarrow> Inl (InvalidExample (lit ''example string has invalid shell syntax''))
      | Some tokens \<Rightarrow>
          if tokens = [] then Inl (InvalidExample (lit ''example cannot be an empty string''))
          else Inr tokens)"

definition parse_list_example :: "svalue list \<Rightarrow> policy_error + ustring list" where
  "parse_list_example vs =
     and_then
       (collect_results (\<lambda>v. case unpack_str v of
            Some s \<Rightarrow> Inr s
          | None \<Rightarrow> Inl (InvalidExample
              (lit ''example tokens must be strings (got '' @ get_type v @ lit '')''))) vs)
       (\<lambda>tokens. if tokens = [] then Inl (InvalidExample (lit ''example cannot be an empty list''))
                 else Inr tokens)"

definition parse_example :: "'a policy_env \<Rightarrow> svalue \<Rightarrow> policy_error + ustring list" where
  "parse_example env value =
     (case value of
        SStr raw \<Rightarrow> parse_string_example env raw
      | SList vs \<Rightarrow> parse_list_example vs
      | SOther t \<Rightarrow> Inl (InvalidExample
          (lit ''example must be a string or list of strings (got '' @ t @ lit '')'')))"

definition parse_examples :: "'a policy_env \<Rightarrow> svalue list \<Rightarrow> policy_error + ustring list list" where
  "parse_examples env examples = collect_results (parse_example env) examples"

definition parse_optional_examples ::
    "'a policy_env \<Rightarrow> svalue list option \<Rightarrow> policy_error + ustring list list" where
  "parse_optional_examples env examples =
     (case examples of None \<Rightarrow> Inr [] | Some es \<Rightarrow> parse_examples env es)"

definition parse_literal_absolute_path :: "'a policy_env \<Rightarrow> ustring \<Rightarrow> policy_error + 'a" where
  "parse_literal_absolute_path env raw =
     (if \<not> path_is_absolute env raw
      then Inl (InvalidRule (lit ''host_executable paths must be absolute (got '' @ raw @ lit '')''))
      else
        (case abs_try_from (env_platform env) raw of
           Some p \<Rightarrow> Inr p
         | None \<Rightarrow> Inl (InvalidRule
             (lit ''invalid absolute path `'' @ raw @ lit ''`: '' @ abs_error_text env raw))))"

definition validate_host_executable_name :: "'a policy_env \<Rightarrow> ustring \<Rightarrow> policy_error + unit" where
  "validate_host_executable_name env name =
     (if name = [] then Inl (InvalidRule (lit ''host_executable name cannot be empty''))
      else if path_component_count env name \<noteq> 1 \<or> path_file_name env name \<noteq> Some name
      then Inl (InvalidRule
        (lit ''host_executable name must be a bare executable name (got '' @ name @ lit '')''))
      else Inr ())"

definition parse_network_rule_decision :: "ustring \<Rightarrow> policy_error + decision" where
  "parse_network_rule_decision raw =
     (if raw = lit ''deny'' then Inr Forbidden else decision_parse raw)"

definition parse_justification :: "ustring option \<Rightarrow> policy_error + ustring option" where
  "parse_justification justification =
     (case justification of
        Some raw \<Rightarrow>
          if trim raw = [] then Inl (InvalidRule (lit ''justification cannot be empty''))
          else Inr (Some raw)
      | None \<Rightarrow> Inr None)"

section \<open>The builder\<close>

record pending_example_validation =
  pv_rules :: "prefix_rule list"
  pv_matches :: "ustring list list"
  pv_not_matches :: "ustring list list"
  pv_location :: "error_location option"

record ('m, 'a) policy_builder =
  pb_rules :: 'm
  pb_network_rules :: "network_rule list"
  pb_host_executables :: "ustring \<rightharpoonup> 'a list"
  pending_example_validations :: "pending_example_validation list"

definition new_builder :: "'m rules_ops \<Rightarrow> ('m, 'a) policy_builder" where
  "new_builder mm =
     \<lparr>pb_rules = mm_new mm, pb_network_rules = [], pb_host_executables = Map.empty,
      pending_example_validations = []\<rparr>"

definition add_rule :: "'m rules_ops \<Rightarrow> prefix_rule \<Rightarrow> ('m, 'a) policy_builder \<Rightarrow> ('m, 'a) policy_builder" where
  "add_rule mm rule b = b\<lparr>pb_rules := mm_insert mm (program rule) rule (pb_rules b)\<rparr>"

definition builder_add_network_rule ::
    "network_rule \<Rightarrow> ('m, 'a) policy_builder \<Rightarrow> ('m, 'a) policy_builder" where
  "builder_add_network_rule rule b = b\<lparr>pb_network_rules := pb_network_rules b @ [rule]\<rparr>"

definition add_host_executable ::
    "ustring \<Rightarrow> 'a list \<Rightarrow> ('m, 'a) policy_builder \<Rightarrow> ('m, 'a) policy_builder" where
  "add_host_executable name paths b =
     b\<lparr>pb_host_executables := (pb_host_executables b)(name \<mapsto> paths)\<rparr>"

definition add_pending_example_validation ::
    "pending_example_validation \<Rightarrow> ('m, 'a) policy_builder \<Rightarrow> ('m, 'a) policy_builder" where
  "add_pending_example_validation v b =
     b\<lparr>pending_example_validations := pending_example_validations b @ [v]\<rparr>"

definition build :: "('m, 'a) policy_builder \<Rightarrow> ('m, 'a) policy" where
  "build b =
     \<lparr>rules_by_program = pb_rules b, network_rules = pb_network_rules b,
      host_executables_by_name = pb_host_executables b\<rparr>"

section \<open>The builtins\<close>

definition expand_prefix_rule ::
    "pattern_token list \<Rightarrow> decision \<Rightarrow> ustring option \<Rightarrow> prefix_rule list" where
  "expand_prefix_rule tokens d justification =
     (case tokens of
        [] \<Rightarrow> []
      | first_token # remaining_tokens \<Rightarrow>
          map (\<lambda>head. \<lparr>rule_pattern = \<lparr>pat_first = head, pat_rest = remaining_tokens\<rparr>,
                       rule_decision = d, rule_justification = justification\<rparr>)
            (alternatives first_token))"

definition prefix_rule_builtin ::
    "'a policy_env \<Rightarrow> 'm rules_ops \<Rightarrow> svalue list \<Rightarrow> ustring option \<Rightarrow> svalue list option \<Rightarrow>
     svalue list option \<Rightarrow> ustring option \<Rightarrow> error_location option \<Rightarrow> ('m, 'a) policy_builder \<Rightarrow>
     policy_error + ('m, 'a) policy_builder" where
  "prefix_rule_builtin env mm pattern d examples not_examples justification location b =
     and_then (case d of Some raw \<Rightarrow> decision_parse raw | None \<Rightarrow> Inr Allow)
       (\<lambda>d. and_then (parse_justification justification)
         (\<lambda>justification. and_then (parse_pattern pattern)
           (\<lambda>tokens. and_then (parse_optional_examples env examples)
             (\<lambda>ms. and_then (parse_optional_examples env not_examples)
               (\<lambda>nms.
                  let rules = expand_prefix_rule tokens d justification;
                      b = add_pending_example_validation
                            \<lparr>pv_rules = rules, pv_matches = ms, pv_not_matches = nms,
                             pv_location = location\<rparr> b
                  in Inr (foldl (\<lambda>b r. add_rule mm r b) b rules))))))"

definition network_rule_builtin ::
    "ustring \<Rightarrow> ustring \<Rightarrow> ustring \<Rightarrow> ustring option \<Rightarrow> ('m, 'a) policy_builder \<Rightarrow>
     policy_error + ('m, 'a) policy_builder" where
  "network_rule_builtin host protocol d justification b =
     and_then (protocol_parse protocol)
       (\<lambda>protocol. and_then (parse_network_rule_decision d)
         (\<lambda>d. and_then (parse_justification justification)
           (\<lambda>justification. and_then (normalize_network_rule_host host)
             (\<lambda>host. Inr (builder_add_network_rule
                \<lparr>net_host = host, net_protocol = protocol, net_decision = d,
                 net_justification = justification\<rparr> b)))))"

definition msg_basename :: "ustring \<Rightarrow> ustring \<Rightarrow> policy_error" where
  "msg_basename raw name =
     InvalidRule (lit ''host_executable path `'' @ raw @ lit ''` must have basename `'' @ name @ lit ''`'')"

fun parse_host_paths ::
    "'a policy_env \<Rightarrow> ustring \<Rightarrow> svalue list \<Rightarrow> 'a list \<Rightarrow> policy_error + 'a list" where
  "parse_host_paths env name [] parsed_paths = Inr parsed_paths"
| "parse_host_paths env name (value # values) parsed_paths =
     (case unpack_str value of
        None \<Rightarrow> Inl (InvalidRule
          (lit ''host_executable paths must be strings (got '' @ get_type value @ lit '')''))
      | Some raw \<Rightarrow>
          and_then (parse_literal_absolute_path env raw)
            (\<lambda>path.
               if executable_path_lookup_key (env_platform env) path \<noteq>
                    Some (executable_lookup_key (is_windows (env_platform env)) name)
               then Inl (msg_basename raw name)
               else parse_host_paths env name values
                      (if path \<in> set parsed_paths then parsed_paths else parsed_paths @ [path])))"

definition host_executable_builtin ::
    "'a policy_env \<Rightarrow> ustring \<Rightarrow> svalue list \<Rightarrow> ('m, 'a) policy_builder \<Rightarrow>
     policy_error + ('m, 'a) policy_builder" where
  "host_executable_builtin env name paths b =
     and_then (validate_host_executable_name env name)
       (\<lambda>_. and_then (parse_host_paths env name paths [])
         (\<lambda>parsed. Inr (add_host_executable
            (executable_lookup_key (is_windows (env_platform env)) name) parsed b)))"

section \<open>Examples\<close>

definition render_example :: "'a policy_env \<Rightarrow> ustring list \<Rightarrow> ustring" where
  "render_example env example =
     (case shlex_try_join env example of Some s \<Rightarrow> s | None \<Rightarrow> lit ''unable to render example'')"

definition example_matches ::
    "'a policy_env \<Rightarrow> 'm rules_ops \<Rightarrow> ('m, 'a) policy \<Rightarrow> ustring list \<Rightarrow> 'a rule_match list" where
  "example_matches env mm p example =
     matches_for_command_with_options (env_platform env) mm p example None True"

definition validate_match_examples ::
    "'a policy_env \<Rightarrow> 'm rules_ops \<Rightarrow> ('m, 'a) policy \<Rightarrow> prefix_rule list \<Rightarrow> ustring list list \<Rightarrow>
     policy_error + unit" where
  "validate_match_examples env mm p rules examples =
     (let unmatched_examples =
            map (render_example env) (filter (\<lambda>ex. example_matches env mm p ex = []) examples)
      in if unmatched_examples = [] then Inr ()
         else Inl (ExampleDidNotMatch (map (debug_rule env) rules) unmatched_examples None))"

fun validate_not_match_examples ::
    "'a policy_env \<Rightarrow> 'm rules_ops \<Rightarrow> ('m, 'a) policy \<Rightarrow> ustring list list \<Rightarrow> policy_error + unit" where
  "validate_not_match_examples env mm p [] = Inr ()"
| "validate_not_match_examples env mm p (ex # exs) =
     (case example_matches env mm p ex of
        m # _ \<Rightarrow> Inl (ExampleDidMatch (debug_match env m) (render_example env ex) None)
      | [] \<Rightarrow> validate_not_match_examples env mm p exs)"

definition attach_validation_location ::
    "error_location option \<Rightarrow> policy_error + 'x \<Rightarrow> policy_error + 'x" where
  "attach_validation_location location r =
     (case r of
        Inr x \<Rightarrow> Inr x
      | Inl e \<Rightarrow> Inl (case location of Some l \<Rightarrow> with_location e l | None \<Rightarrow> e))"

text \<open>The policy an example is checked against: the rules of its own call, with all host executables
  known at the end of the file.\<close>

definition validation_policy ::
    "'m rules_ops \<Rightarrow> ('m, 'a) policy_builder \<Rightarrow> pending_example_validation \<Rightarrow> ('m, 'a) policy" where
  "validation_policy mm b v =
     \<lparr>rules_by_program = foldl (\<lambda>m r. mm_insert mm (program r) r m) (mm_new mm) (pv_rules v),
      network_rules = [], host_executables_by_name = pb_host_executables b\<rparr>"

fun validate_examples ::
    "'a policy_env \<Rightarrow> 'm rules_ops \<Rightarrow> ('m, 'a) policy_builder \<Rightarrow> pending_example_validation list \<Rightarrow>
     policy_error + unit" where
  "validate_examples env mm b [] = Inr ()"
| "validate_examples env mm b (v # vs) =
     (let p = validation_policy mm b v
      in and_then (attach_validation_location (pv_location v)
             (validate_not_match_examples env mm p (pv_not_matches v)))
           (\<lambda>_. and_then (attach_validation_location (pv_location v)
               (validate_match_examples env mm p (pv_rules v) (pv_matches v)))
             (\<lambda>_. validate_examples env mm b vs)))"

definition validate_pending_examples_from ::
    "'a policy_env \<Rightarrow> 'm rules_ops \<Rightarrow> ('m, 'a) policy_builder \<Rightarrow> nat \<Rightarrow> policy_error + unit" where
  "validate_pending_examples_from env mm b start =
     validate_examples env mm b (drop start (pending_example_validations b))"

section \<open>Parsing a file\<close>

fun run_call ::
    "'a policy_env \<Rightarrow> 'm rules_ops \<Rightarrow> builtin_call \<Rightarrow> ('m, 'a) policy_builder \<Rightarrow>
     policy_error + ('m, 'a) policy_builder" where
  "run_call env mm (PrefixRuleCall pattern d ms nms j loc) b =
     prefix_rule_builtin env mm pattern d ms nms j loc b"
| "run_call env mm (NetworkRuleCall host protocol d j) b = network_rule_builtin host protocol d j b"
| "run_call env mm (HostExecutableCall name paths) b = host_executable_builtin env name paths b"

text \<open>The builder is shared with the interpreter and keeps what was added before an error.\<close>

fun run_calls ::
    "'a policy_env \<Rightarrow> 'm rules_ops \<Rightarrow> builtin_call list \<Rightarrow> ('m, 'a) policy_builder \<Rightarrow>
     ('m, 'a) policy_builder \<times> (policy_error + unit)" where
  "run_calls env mm [] b = (b, Inr ())"
| "run_calls env mm (c # cs) b =
     (case run_call env mm c b of
        Inl e \<Rightarrow> (b, Inl (StarlarkError (sk_wrap env e)))
      | Inr b' \<Rightarrow> run_calls env mm cs b')"

definition parse ::
    "'a policy_env \<Rightarrow> 'm rules_ops \<Rightarrow> ustring \<Rightarrow> ustring \<Rightarrow> ('m, 'a) policy_builder \<Rightarrow>
     ('m, 'a) policy_builder \<times> (policy_error + unit)" where
  "parse env mm policy_identifier policy_file_contents b =
     (let pending_validation_count = length (pending_example_validations b)
      in case sk_eval env policy_identifier policy_file_contents of
           Inl e \<Rightarrow> (b, Inl (StarlarkError e))
         | Inr (calls, failure) \<Rightarrow>
             (case run_calls env mm calls b of
                (b', Inl e) \<Rightarrow> (b', Inl e)
              | (b', Inr _) \<Rightarrow>
                  (case failure of
                     Some e \<Rightarrow> (b', Inl (StarlarkError e))
                   | None \<Rightarrow> (b', validate_pending_examples_from env mm b' pending_validation_count))))"

text \<open>\<open>load\_policies\<close> of \<open>execpolicycheck.rs\<close>: the files in order into one builder; reading a file
  is a parameter.\<close>

datatype load_error = ReadFailed ustring ustring | ParseFailed ustring policy_error

fun load_into ::
    "'a policy_env \<Rightarrow> 'm rules_ops \<Rightarrow> (ustring \<Rightarrow> ustring + ustring) \<Rightarrow> ustring list \<Rightarrow>
     ('m, 'a) policy_builder \<Rightarrow> load_error + ('m, 'a) policy" where
  "load_into env mm read_file [] b = Inr (build b)"
| "load_into env mm read_file (path # paths) b =
     (case read_file path of
        Inl e \<Rightarrow> Inl (ReadFailed (lit ''failed to read policy at '' @ path) e)
      | Inr contents \<Rightarrow>
          (case parse env mm path contents b of
             (b', Inl e) \<Rightarrow> Inl (ParseFailed (lit ''failed to parse policy at '' @ path) e)
           | (b', Inr _) \<Rightarrow> load_into env mm read_file paths b'))"

definition load_policies ::
    "'a policy_env \<Rightarrow> 'm rules_ops \<Rightarrow> (ustring \<Rightarrow> ustring + ustring) \<Rightarrow> ustring list \<Rightarrow>
     load_error + ('m, 'a) policy" where
  "load_policies env mm read_file policy_paths = load_into env mm read_file policy_paths (new_builder mm)"

section \<open>What an accepted file guarantees\<close>

lemma attach_location_ok: "attach_validation_location l r = Inr x \<longleftrightarrow> r = Inr x"
  by (auto simp: attach_validation_location_def split: sum.splits)

lemma validate_not_match_ok:
  "validate_not_match_examples env mm p exs = Inr () \<Longrightarrow> \<forall>ex \<in> set exs. example_matches env mm p ex = []"
  by (induction exs) (auto split: list.splits)

lemma validate_match_ok:
  "validate_match_examples env mm p rules exs = Inr () \<Longrightarrow> \<forall>ex \<in> set exs. example_matches env mm p ex \<noteq> []"
  by (auto simp: validate_match_examples_def Let_def filter_empty_conv split: if_splits)

lemma validate_examples_ok:
  "validate_examples env mm b vs = Inr () \<Longrightarrow> v \<in> set vs \<Longrightarrow>
   (\<forall>ex \<in> set (pv_matches v). example_matches env mm (validation_policy mm b v) ex \<noteq> []) \<and>
   (\<forall>ex \<in> set (pv_not_matches v). example_matches env mm (validation_policy mm b v) ex = [])"
proof (induction vs)
  case (Cons w vs)
  then have "validate_not_match_examples env mm (validation_policy mm b w) (pv_not_matches w) = Inr ()"
    "validate_match_examples env mm (validation_policy mm b w) (pv_rules w) (pv_matches w) = Inr ()"
    "validate_examples env mm b vs = Inr ()"
    by (auto simp: Let_def and_then_Inr_iff attach_location_ok)
  with Cons show ?case using validate_not_match_ok validate_match_ok by (cases "v = w") fastforce+
qed simp

lemma example_matches_exact: "example_matches env mm p ex = [] \<Longrightarrow> exact_matches mm p ex = []"
  by (auto simp: example_matches_def matches_for_command_with_options_def exact_matches_def Let_def
      split: option.splits list.splits)

lemma rules_covering:
  assumes "multimap mm" and "exact_matches mm (validation_policy mm b v) ex = []" and "r \<in> set (pv_rules v)"
  shows "\<not> covers r ex"
proof
  assume c: "covers r ex"
  have "mm_values mm (rules_by_program (validation_policy mm b v)) (hd ex) =
      filter (\<lambda>r. program r = hd ex) (pv_rules v)"
    using multimap.values_insert_list [OF assms(1), of program "mm_new mm" "pv_rules v" "hd ex"]
      multimap.values_new [OF assms(1)] by (simp add: validation_policy_def)
  with assms(2) covers_program [OF c] have "filter (\<lambda>r. covers r ex) (filter (\<lambda>r. program r = hd ex) (pv_rules v)) = []"
    by (simp add: exact_matches_eq map_filter_Nil)
  with c assms(3) covers_program [OF c] show False by (auto simp: filter_empty_conv)
qed

lemma parse_pending:
  assumes "parse env mm i t b = (b', Inr ())"
  shows "validate_examples env mm b'
    (drop (length (pending_example_validations b)) (pending_example_validations b')) = Inr ()"
  using assms
  by (auto simp: parse_def Let_def validate_pending_examples_from_def split: sum.splits prod.splits option.splits)

section \<open>Properties\<close>


definition demo_call :: builtin_call where
  "demo_call = PrefixRuleCall [SStr (lit ''git''), SList [SStr (lit ''push''), SStr (lit ''pull'')]]
     (Some (lit ''forbidden'')) (Some [SList [SStr (lit ''git''), SStr (lit ''push'')]])
     (Some [SList [SStr (lit ''git''), SStr (lit ''log'')]]) None None"

definition demo_env :: "ustring policy_env" where
  "demo_env =
     \<lparr>env_platform = demo_platform, sk_eval = (\<lambda>_ _. Inr ([demo_call], None)), sk_wrap = (\<lambda>_. []),
      shlex_split = (\<lambda>s. Some (split_on 32 s)), shlex_try_join = (\<lambda>ts. Some (join (lit '' '') ts)),
      debug_rule = (\<lambda>_. []), debug_match = (\<lambda>_. []), path_is_absolute = (\<lambda>s. starts_with s (lit ''/'')),
      path_component_count = (\<lambda>s. length (split_on 47 s)), path_file_name = (\<lambda>s. last_opt (split_on 47 s)),
      abs_error_text = (\<lambda>_. [])\<rparr>"


text \<open>A \<open>prefix\_rule\<close> call covers what its pattern says: the rules it is expanded into, one for
  each alternative of the first token, together cover a command exactly when every token of the
  pattern lists the command's token at its place, and all carry the decision of the call.\<close>

theorem prefix_rule_expansion:
  "((\<exists>r \<in> set (expand_prefix_rule tokens d j). covers r cmd) \<longleftrightarrow>
      tokens \<noteq> [] \<and> length tokens \<le> length cmd \<and>
      list_all (\<lambda>i. cmd ! i \<in> set (alternatives (tokens ! i))) [0 ..< length tokens]) \<and>
   rule_decision ` set (expand_prefix_rule tokens d j) \<subseteq> {d}"
proof (cases tokens)
  case (Cons t ts)
  have all: "list_all (\<lambda>i. cmd ! i \<in> set (alternatives ((t # ts) ! i))) [0 ..< length (t # ts)] \<longleftrightarrow>
      cmd ! 0 \<in> set (alternatives t) \<and> (\<forall>i < length ts. cmd ! Suc i \<in> set (alternatives (ts ! i)))"
    by (simp add: list_all_upt All_less_Suc2 del: upt_Suc)
  show ?thesis
    unfolding Cons all by (auto simp: expand_prefix_rule_def covers_def Let_def Suc_le_eq)
qed (simp add: expand_prefix_rule_def)

end
