(* ===== verification/Policy_Amend.thy ===== *)
theory Policy_Amend
  imports Exec_Policy Executor_FS
begin

text \<open>
  Changing policy files: appending rules that the user approved (\<open>execpolicy/src/amend.rs\<close>) and the
  one-shot removal of rules that are no longer offered (\<open>sandbox\_migration.rs\<close>).  JSON
  serialisation is a parameter, with the documented laws as hypotheses.  The lemmas show that
  appending is idempotent and keeps what is in the file, and that the migration removes exactly the
  banned rules, once.
\<close>

section \<open>Appending a line\<close>

datatype amend_error =
    EmptyPrefix
  | InvalidNetworkRule ustring
  | MissingParent
  | CreatePolicyDir io_error
  | SerializePrefix ustring
  | SerializeNetworkRule ustring
  | OpenPolicyFile io_error
  | WritePolicyFile io_error
  | LockPolicyFile io_error
  | SeekPolicyFile io_error
  | ReadPolicyFile io_error
  | PolicyMetadata io_error

text \<open>What the operating system answers during one call: each system call succeeds or fails.  A
  failed write of the line may have written a part of it.\<close>

record amend_io =
  has_parent :: bool
  create_dir_result :: "io_error + unit"
  open_result :: "io_error + unit"
  lock_result :: "io_error + unit"
  seek_result :: "io_error + unit"
  read_result :: "io_error + unit"
  write_newline_result :: "io_error + unit"
  write_line_result :: "io_error + unit"
  partial_line :: nat

definition io_try :: "(io_error \<Rightarrow> amend_error) \<Rightarrow> io_error + unit \<Rightarrow> amend_error + unit" where
  "io_try f r = (case r of Inl e \<Rightarrow> Inl (f e) | Inr u \<Rightarrow> Inr u)"

definition write_line :: "amend_io \<Rightarrow> ustring \<Rightarrow> ustring \<Rightarrow> ustring option \<times> (amend_error + unit)" where
  "write_line io contents line =
     (case io_try WritePolicyFile (write_line_result io) of
        Inl e \<Rightarrow> (Some (contents @ take (partial_line io) (line @ [newline])), Inl e)
      | Inr _ \<Rightarrow> (Some (contents @ line @ [newline]), Inr ()))"

text \<open>\<open>None\<close> is a file that does not exist; opening it creates it.\<close>

definition append_locked_line ::
    "amend_io \<Rightarrow> ustring option \<Rightarrow> ustring \<Rightarrow> ustring option \<times> (amend_error + unit)" where
  "append_locked_line io file line =
     (case io_try OpenPolicyFile (open_result io) of
        Inl e \<Rightarrow> (file, Inl e)
      | Inr _ \<Rightarrow>
          (let contents = (case file of None \<Rightarrow> [] | Some c \<Rightarrow> c)
           in case and_then (io_try LockPolicyFile (lock_result io))
                (\<lambda>_. and_then (io_try SeekPolicyFile (seek_result io))
                  (\<lambda>_. io_try ReadPolicyFile (read_result io))) of
                Inl e \<Rightarrow> (Some contents, Inl e)
              | Inr _ \<Rightarrow>
                  if list_ex (\<lambda>existing. existing = line) (str_lines contents)
                  then (Some contents, Inr ())
                  else if contents \<noteq> [] \<and> \<not> ends_with contents [newline]
                  then
                    (case io_try WritePolicyFile (write_newline_result io) of
                       Inl e \<Rightarrow> (Some contents, Inl e)
                     | Inr _ \<Rightarrow> write_line io (contents @ [newline]) line)
                  else write_line io contents line))"

definition append_rule_line ::
    "amend_io \<Rightarrow> ustring option \<Rightarrow> ustring \<Rightarrow> ustring option \<times> (amend_error + unit)" where
  "append_rule_line io file rule =
     (if \<not> has_parent io then (file, Inl MissingParent)
      else
        (case create_dir_result io of
           Inl e \<Rightarrow>
             if io_error_kind e = AlreadyExists then append_locked_line io file rule
             else (file, Inl (CreatePolicyDir e))
         | Inr _ \<Rightarrow> append_locked_line io file rule))"

section \<open>The rules that are appended\<close>

record json_ops =
  json_to_string :: "ustring \<Rightarrow> ustring + ustring"
  json_list_from_str :: "ustring \<Rightarrow> ustring list option"

definition allow_rule_line :: "ustring list \<Rightarrow> ustring" where
  "allow_rule_line tokens =
     lit ''prefix_rule(pattern='' @ (lit ''['' @ join (lit '', '') tokens @ lit '']'') @
     (lit '', decision='' @ dquote @ lit ''allow'' @ dquote @ lit '')'')"

definition blocking_append_allow_prefix_rule ::
    "json_ops \<Rightarrow> amend_io \<Rightarrow> ustring option \<Rightarrow> ustring list \<Rightarrow> ustring option \<times> (amend_error + unit)" where
  "blocking_append_allow_prefix_rule json io file prefix =
     (if prefix = [] then (file, Inl EmptyPrefix)
      else
        (case collect_results (json_to_string json) prefix of
           Inl e \<Rightarrow> (file, Inl (SerializePrefix e))
         | Inr tokens \<Rightarrow> append_rule_line io file (allow_rule_line tokens)))"

fun network_decision_string :: "decision \<Rightarrow> ustring" where
  "network_decision_string Allow = lit ''allow''"
| "network_decision_string Prompt = lit ''prompt''"
| "network_decision_string Forbidden = lit ''deny''"

text \<open>The text of the only errors that the normalisation of a host returns.\<close>

fun policy_error_message :: "policy_error \<Rightarrow> ustring" where
  "policy_error_message (InvalidRule m) = lit ''invalid rule: '' @ m"
| "policy_error_message _ = []"

definition network_rule_line ::
    "json_ops \<Rightarrow> ustring \<Rightarrow> network_rule_protocol \<Rightarrow> decision \<Rightarrow> ustring option \<Rightarrow> amend_error + ustring" where
  "network_rule_line json host protocol d justification =
     (let ser = (\<lambda>s. case json_to_string json s of Inl e \<Rightarrow> Inl (SerializeNetworkRule e) | Inr t \<Rightarrow> Inr t)
      in and_then (ser host)
        (\<lambda>host. and_then (ser (as_policy_string protocol))
          (\<lambda>protocol. and_then (ser (network_decision_string d))
            (\<lambda>d. and_then (case justification of
                              None \<Rightarrow> Inr []
                            | Some j \<Rightarrow> and_then (ser j) (\<lambda>j. Inr [lit ''justification='' @ j]))
              (\<lambda>js. Inr (lit ''network_rule('' @
                 join (lit '', '') ([lit ''host='' @ host, lit ''protocol='' @ protocol,
                   lit ''decision='' @ d] @ js) @ lit '')''))))))"

definition blocking_append_network_rule ::
    "json_ops \<Rightarrow> amend_io \<Rightarrow> ustring option \<Rightarrow> ustring \<Rightarrow> network_rule_protocol \<Rightarrow> decision \<Rightarrow> ustring option \<Rightarrow>
     ustring option \<times> (amend_error + unit)" where
  "blocking_append_network_rule json io file host protocol d justification =
     (case normalize_network_rule_host host of
        Inl e \<Rightarrow> (file, Inl (InvalidNetworkRule (policy_error_message e)))
      | Inr host \<Rightarrow>
          if (case justification of Some raw \<Rightarrow> trim raw = [] | None \<Rightarrow> False)
          then (file, Inl (InvalidNetworkRule (lit ''justification cannot be empty'')))
          else
            (case network_rule_line json host protocol d justification of
               Inl e \<Rightarrow> (file, Inl e)
             | Inr rule \<Rightarrow> append_rule_line io file rule))"

section \<open>The migration\<close>

definition lowercase_tokens :: "ustring list \<Rightarrow> ustring list" where
  "lowercase_tokens prefix = map to_ascii_lowercase prefix"

definition strip_suffix_or :: "ustring \<Rightarrow> ustring \<Rightarrow> ustring" where
  "strip_suffix_or s suffix = (case strip_suffix s suffix of Some t \<Rightarrow> t | None \<Rightarrow> s)"

definition should_remove_rule :: "json_ops \<Rightarrow> ustring list list \<Rightarrow> ustring \<Rightarrow> bool" where
  "should_remove_rule json banned_prefixes line =
     (case strip_prefix (strip_suffix_or (strip_suffix_or line [newline]) [carriage_return])
             (lit ''prefix_rule(pattern='') of
        None \<Rightarrow> False
      | Some rest \<Rightarrow>
          (case strip_suffix rest
                  (lit '', decision='' @ dquote @ lit ''allow'' @ dquote @ lit '')'') of
             None \<Rightarrow> False
           | Some pattern \<Rightarrow>
               (case json_list_from_str json pattern of
                  None \<Rightarrow> False
                | Some prefix \<Rightarrow> lowercase_tokens prefix \<in> set banned_prefixes)))"

definition strip_banned_allow_rules :: "json_ops \<Rightarrow> ustring \<Rightarrow> ustring list list \<Rightarrow> ustring" where
  "strip_banned_allow_rules json contents banned_prefixes =
     (let banned = map lowercase_tokens banned_prefixes
      in concat (filter (\<lambda>line. \<not> should_remove_rule json banned line)
           (split_inclusive newline contents)))"

text \<open>The file is read twice, by its name and then through the handle it is rewritten with; another
  process may change it in between.  A failed rewrite leaves the text that the environment says.\<close>

record migration_state =
  marker_exists :: bool
  policy_contents :: "ustring option"

record migration_io =
  exists_result :: "io_error + unit"
  read_policy_result :: "io_error + unit"
  interference :: "ustring option \<Rightarrow> ustring option"
  open_policy_result :: "io_error + unit"
  reread_result :: "io_error + unit"
  seek_start_result :: "io_error + unit"
  rewrite_result :: "io_error + unit"
  set_len_result :: "io_error + unit"
  left_by_failure :: ustring
  home_result :: "io_error + unit"
  temp_file_result :: "io_error + unit"
  temp_write_result :: "io_error + unit"
  persist_result :: "io_error + unit"
  join_result :: "io_error + unit"

definition rewrite_policy ::
    "migration_io \<Rightarrow> ustring \<Rightarrow> migration_state \<Rightarrow> migration_state \<times> (io_error + unit)" where
  "rewrite_policy io retained s =
     (case seek_start_result io of
        Inl e \<Rightarrow> (s, Inl e)
      | Inr _ \<Rightarrow>
          (case and_then (rewrite_result io) (\<lambda>_. set_len_result io) of
             Inl e \<Rightarrow> (s\<lparr>policy_contents := Some (left_by_failure io)\<rparr>, Inl e)
           | Inr _ \<Rightarrow> (s\<lparr>policy_contents := Some retained\<rparr>, Inr ())))"

definition clean_opened_file ::
    "json_ops \<Rightarrow> migration_io \<Rightarrow> ustring list list \<Rightarrow> migration_state \<Rightarrow>
     migration_state \<times> (io_error + unit)" where
  "clean_opened_file json io banned_prefixes s =
     (case policy_contents s of
        None \<Rightarrow> (s, Inr ())
      | Some contents \<Rightarrow>
          (case and_then (open_policy_result io) (\<lambda>_. reread_result io) of
             Inl e \<Rightarrow> (s, Inl e)
           | Inr _ \<Rightarrow>
               (let retained = strip_banned_allow_rules json contents banned_prefixes
                in if retained = contents then (s, Inr ()) else rewrite_policy io retained s)))"

definition clean_rules_file ::
    "json_ops \<Rightarrow> migration_io \<Rightarrow> ustring list list \<Rightarrow> migration_state \<Rightarrow>
     migration_state \<times> (io_error + unit)" where
  "clean_rules_file json io banned_prefixes s =
     (case policy_contents s of
        None \<Rightarrow> (s, Inr ())
      | Some contents \<Rightarrow>
          (case read_policy_result io of
             Inl e \<Rightarrow> (s, Inl e)
           | Inr _ \<Rightarrow>
               if strip_banned_allow_rules json contents banned_prefixes = contents then (s, Inr ())
               else
                 clean_opened_file json io banned_prefixes
                   (s\<lparr>policy_contents := interference io (Some contents)\<rparr>)))"

definition write_migration_marker ::
    "migration_io \<Rightarrow> migration_state \<Rightarrow> migration_state \<times> (io_error + unit)" where
  "write_migration_marker io s =
     (case and_then (home_result io)
             (\<lambda>_. and_then (temp_file_result io) (\<lambda>_. temp_write_result io)) of
        Inl e \<Rightarrow> (s, Inl e)
      | Inr _ \<Rightarrow>
          (case persist_result io of
             Inl e \<Rightarrow>
               if io_error_kind e = AlreadyExists
               then (s\<lparr>marker_exists := True\<rparr>, join_result io)
               else (s, Inl e)
           | Inr _ \<Rightarrow> (s\<lparr>marker_exists := True\<rparr>, join_result io)))"

definition prefix_rule_migration ::
    "json_ops \<Rightarrow> migration_io \<Rightarrow> ustring list list \<Rightarrow> migration_state \<Rightarrow>
     migration_state \<times> (io_error + unit)" where
  "prefix_rule_migration json io banned_prefixes s =
     (case exists_result io of
        Inl e \<Rightarrow> (s, Inl e)
      | Inr _ \<Rightarrow>
          if marker_exists s then (s, Inr ())
          else
            (case clean_rules_file json io banned_prefixes s of
               (s', Inl e) \<Rightarrow> (s', Inl e)
             | (s', Inr _) \<Rightarrow> write_migration_marker io s'))"

section \<open>What appending does\<close>

definition contents_of :: "ustring option \<Rightarrow> ustring" where
  "contents_of file = (case file of None \<Rightarrow> [] | Some c \<Rightarrow> c)"

lemma io_try_cases:
  obtains (Failed) e where "io_try f r = Inl e" | (Done) "io_try f r = Inr ()"
  by (cases r) (auto simp: io_try_def)

lemma write_line_ok: "write_line io c l = (file', Inr ()) \<Longrightarrow> file' = Some (c @ l @ [newline])"
  by (simp add: write_line_def split: sum.splits)

lemma append_locked_line_paths:
  assumes "append_locked_line io file line = (file', Inr ())"
  obtains (Present) "line \<in> set (str_lines (contents_of file))" "file' = Some (contents_of file)"
    | (Unended) "contents_of file \<noteq> [] \<and> \<not> ends_with (contents_of file) [newline]"
        "write_line io (contents_of file @ [newline]) line = (file', Inr ())"
    | (Ended) "\<not> (contents_of file \<noteq> [] \<and> \<not> ends_with (contents_of file) [newline])"
        "write_line io (contents_of file) line = (file', Inr ())"
proof -
  let ?r = "and_then (io_try LockPolicyFile (lock_result io))
    (\<lambda>_. and_then (io_try SeekPolicyFile (seek_result io)) (\<lambda>_. io_try ReadPolicyFile (read_result io)))"
  from assms have "io_try OpenPolicyFile (open_result io) = Inr ()" and "?r = Inr ()"
    by (auto simp: append_locked_line_def contents_of_def [symmetric] Let_def split: sum.splits)
  with assms have *: "(if line \<in> set (str_lines (contents_of file)) then (Some (contents_of file), Inr ())
      else if contents_of file \<noteq> [] \<and> \<not> ends_with (contents_of file) [newline]
      then (case io_try WritePolicyFile (write_newline_result io) of
              Inl e \<Rightarrow> (Some (contents_of file), Inl e)
            | Inr _ \<Rightarrow> write_line io (contents_of file @ [newline]) line)
      else write_line io (contents_of file) line) = (file', Inr ())"
    by (simp only: append_locked_line_def contents_of_def [symmetric] Let_def list_ex_iff sum.case) simp
  show thesis
  proof (cases "line \<in> set (str_lines (contents_of file))")
    case True
    with * Present show ?thesis by simp
  next
    case False
    with * Unended Ended show ?thesis
      by (cases "contents_of file \<noteq> [] \<and> \<not> ends_with (contents_of file) [newline]")
        (simp_all split: sum.splits)
  qed
qed

lemma append_locked_line_ok:
  assumes "append_locked_line io file line = (file', Inr ())"
  shows "(line \<in> set (str_lines (contents_of file)) \<and> file' = Some (contents_of file)) \<or>
    (\<exists>sep. file' = Some (contents_of file @ sep @ line @ [newline]) \<and>
      (contents_of file @ sep = [] \<or> last (contents_of file @ sep) = newline))"
proof -
  let ?c = "contents_of file"
  consider "line \<in> set (str_lines ?c)" "file' = Some ?c"
    | "?c \<noteq> [] \<and> \<not> ends_with ?c [newline]" "write_line io (?c @ [newline]) line = (file', Inr ())"
    | "\<not> (?c \<noteq> [] \<and> \<not> ends_with ?c [newline])" "write_line io ?c line = (file', Inr ())"
    by (rule append_locked_line_paths [OF assms])
  then show ?thesis
  proof cases
    case 2
    then show ?thesis using write_line_ok [OF 2(2)] by (intro disjI2 exI [of _ "[newline]"]) simp
  next
    case 3
    then have "?c = [] \<or> last ?c = newline" by (auto simp: ends_with_iff)
    then show ?thesis using write_line_ok [OF 3(2)] by (intro disjI2 exI [of _ "[]"]) simp
  qed blast
qed

lemma append_locked_line_present:
  "line \<in> set (str_lines c) \<Longrightarrow> fst (append_locked_line io (Some c) line) = Some c"
  by (auto simp: append_locked_line_def list_ex_iff split: sum.splits)

lemma append_rule_line_ok:
  "append_rule_line io file rule = (file', Inr ()) \<Longrightarrow> append_locked_line io file rule = (file', Inr ())"
  by (auto simp: append_rule_line_def split: if_splits sum.splits)

lemma append_rule_line_present:
  "rule \<in> set (str_lines c) \<Longrightarrow> fst (append_rule_line io (Some c) rule) = Some c"
  by (simp add: append_rule_line_def append_locked_line_present split: sum.splits)

lemma str_lines_snoc:
  assumes "c = [] \<or> last c = newline" and "clean_line l"
  shows "str_lines (c @ l @ [newline]) = str_lines c @ [l]"
  using assms split_inclusive_append_ended [OF assms(1), of "l @ [newline]"]
    split_inclusive_append [of newline l "[]"]
  by (simp add: str_lines_def clean_line_def strip_line_end_simps)

lemma append_rule_line_effect:
  assumes "append_rule_line io file rule = (file', Inr ())" and "clean_line rule"
  obtains c' where "file' = Some c'" "starts_with c' (contents_of file)" "rule \<in> set (str_lines c')"
proof -
  from append_locked_line_ok [OF append_rule_line_ok [OF assms(1)]]
  consider "rule \<in> set (str_lines (contents_of file))" "file' = Some (contents_of file)"
    | sep where "file' = Some (contents_of file @ sep @ rule @ [newline])"
        "contents_of file @ sep = [] \<or> last (contents_of file @ sep) = newline"
    by blast
  then show thesis
  proof cases
    case 1
    then show thesis using that [of "contents_of file"] starts_with_iff by (metis append_Nil2)
  next
    case (2 sep)
    from str_lines_snoc [OF 2(2) assms(2)]
    show thesis using that [of "contents_of file @ sep @ rule @ [newline]"] 2(1) starts_with_iff by auto
  qed
qed

section \<open>What the migration removes\<close>

lemma strip_line_end_ends:
  assumes "strip_line_end p = l" and "l = [] \<or> last l \<noteq> carriage_return"
  shows "strip_suffix_or (strip_suffix_or p [newline]) [carriage_return] = l"
proof (cases "strip_suffix p [newline]")
  case None
  with assms(1) have "p = l" by (simp add: strip_line_end_def)
  moreover have "strip_suffix l [carriage_return] = None"
    using assms(2) by (metis append_is_Nil_conv last_snoc not_Cons_self2 not_None_eq strip_suffix_Some)
  ultimately show ?thesis using None by (simp add: strip_suffix_or_def)
next
  case (Some q)
  then show ?thesis using assms(1) by (simp add: strip_line_end_def strip_suffix_or_def split: option.splits)
qed

text \<open>What the code relies on of the JSON library: serialised strings hold no raw line feed, and the
  list that the rule line shows reads back as the tokens.\<close>

definition json_laws :: "json_ops \<Rightarrow> bool" where
  "json_laws json \<longleftrightarrow>
     (\<forall>s t. json_to_string json s = Inr t \<longrightarrow> newline \<notin> set t) \<and>
     (\<forall>prefix tokens. prefix \<noteq> [] \<longrightarrow> collect_results (json_to_string json) prefix = Inr tokens \<longrightarrow>
       json_list_from_str json (lit ''['' @ join (lit '', '') tokens @ lit '']'') = Some prefix)"

lemma newline_join: "newline \<notin> set sep \<Longrightarrow> newline \<in> set (join sep xs) \<Longrightarrow> \<exists>x \<in> set xs. newline \<in> set x"
  by (induction sep xs rule: join.induct) auto

lemma allow_rule_line_clean:
  assumes "json_laws json" and "collect_results (json_to_string json) prefix = Inr tokens"
  shows "clean_line (allow_rule_line tokens)"
proof -
  have "newline \<notin> set t" if t: "t \<in> set tokens" for t
  proof -
    obtain s where "json_to_string json s = Inr t"
      using assms(2) t unfolding collect_results_Inr list_all2_conv_all_nth in_set_conv_nth by auto
    then show ?thesis using assms(1) unfolding json_laws_def by blast
  qed
  then have "newline \<notin> set (join (lit '', '') tokens)"
    using newline_join [of "lit '', ''" tokens] by (auto simp: lit_def)
  then show ?thesis by (simp add: clean_line_def allow_rule_line_def lit_def)
qed

lemma should_remove_allow_rule:
  assumes "json_laws json" "prefix \<noteq> []" "collect_results (json_to_string json) prefix = Inr tokens"
    and "strip_line_end p = allow_rule_line tokens"
  shows "should_remove_rule json banned p \<longleftrightarrow> lowercase_tokens prefix \<in> set banned"
proof -
  have "strip_suffix_or (strip_suffix_or p [newline]) [carriage_return] = allow_rule_line tokens"
    using strip_line_end_ends [OF assms(4)] allow_rule_line_clean [OF assms(1,3)]
    by (simp add: clean_line_def)
  moreover have "json_list_from_str json (lit ''['' @ join (lit '', '') tokens @ lit '']'') = Some prefix"
    using assms(1-3) unfolding json_laws_def by blast
  ultimately show ?thesis
    unfolding should_remove_rule_def allow_rule_line_def strip_prefix_append
    by (simp only: option.case strip_prefix_append strip_suffix_append)
qed

lemma clean_rules_file_ok:
  assumes "clean_rules_file json io banned s = (s', Inr ())" and "interference io = id"
  shows "s' = s\<lparr>policy_contents :=
    map_option (\<lambda>c. strip_banned_allow_rules json c banned) (policy_contents s)\<rparr>"
  using assms
  by (cases "policy_contents s")
    (auto simp: clean_rules_file_def clean_opened_file_def rewrite_policy_def Let_def
      split: sum.splits if_splits)

lemma write_migration_marker_ok:
  "write_migration_marker io s = (s', Inr ()) \<Longrightarrow> s' = s\<lparr>marker_exists := True\<rparr>"
  by (auto simp: write_migration_marker_def split: sum.splits if_splits)

lemma prefix_rule_migration_ok:
  assumes "prefix_rule_migration json io banned s = (s', Inr ())" and "interference io = id"
    and "\<not> marker_exists s"
  shows "s' = \<lparr>marker_exists = True, policy_contents =
    map_option (\<lambda>c. strip_banned_allow_rules json c banned) (policy_contents s)\<rparr>"
proof -
  from assms(1,3) obtain t where "clean_rules_file json io banned s = (t, Inr ())"
    and "write_migration_marker io t = (s', Inr ())"
    by (auto simp: prefix_rule_migration_def split: sum.splits prod.splits)
  then show ?thesis using clean_rules_file_ok [OF _ assms(2)] write_migration_marker_ok by fastforce
qed

lemma prefix_rule_migration_marked:
  "marker_exists s \<Longrightarrow> fst (prefix_rule_migration json io banned s) = s"
  by (simp add: prefix_rule_migration_def split: sum.splits)

section \<open>A concrete serialiser\<close>

text \<open>Strings without quotation marks, backslashes and control characters are written between
  quotation marks; such a list reads back by taking what stands between them.\<close>

fun every_second :: "'a list \<Rightarrow> 'a list" where
  "every_second (x # y # ys) = y # every_second ys"
| "every_second _ = []"

definition demo_json :: json_ops where
  "demo_json =
     \<lparr>json_to_string = (\<lambda>s. if list_all (\<lambda>c. 32 \<le> c \<and> c \<noteq> 34 \<and> c \<noteq> 92) s then Inr (34 # s @ [34]) else Inl []),
      json_list_from_str = (\<lambda>s. Some (every_second (split_on 34 s)))\<rparr>"

lemma every_second_join:
  assumes "prefix \<noteq> []" and "\<forall>t \<in> set prefix. 34 \<notin> set t" and "34 \<notin> set pre"
  shows "every_second (split_on 34 (pre @ join (lit '', '') (map (\<lambda>s. 34 # s @ [34]) prefix) @ lit '']'')) = prefix"
  using assms
proof (induction prefix arbitrary: pre rule: list_nonempty_induct)
  case (single t)
  then show ?case by (simp add: split_on_append lit_def)
next
  case (cons t ts)
  let ?q = "\<lambda>s. 34 # s @ [34]"
  have j: "join (lit '', '') (map ?q (t # ts)) = 34 # t @ 34 # lit '', '' @ join (lit '', '') (map ?q ts)"
    using cons.hyps by (cases ts) simp_all
  have "every_second (split_on 34 (lit '', '' @ join (lit '', '') (map ?q ts) @ lit '']'')) = ts"
    using cons.prems by (intro cons.IH) (simp_all add: lit_def)
  with cons.prems show ?case unfolding j by (simp add: split_on_append)
qed

lemma demo_json_laws: "json_laws demo_json"
proof -
  have "json_list_from_str demo_json (lit ''['' @ join (lit '', '') tokens @ lit '']'') = Some prefix"
    if p: "prefix \<noteq> []" "collect_results (json_to_string demo_json) prefix = Inr tokens" for prefix tokens
  proof -
    have a: "list_all2 (\<lambda>x y. json_to_string demo_json x = Inr y) prefix tokens"
      using p(2) by (simp only: collect_results_Inr)
    have "tokens = map (\<lambda>s. 34 # s @ [34]) prefix" and "\<forall>t \<in> set prefix. 34 \<notin> set t"
      using a by (induction rule: list_all2_induct) (auto simp: demo_json_def list_all_iff split: if_splits)
    with every_second_join [OF p(1), of "lit ''[''"] show ?thesis by (simp add: demo_json_def lit_def)
  qed
  moreover have "newline \<notin> set t" if "json_to_string demo_json s = Inr t" for s t
    using that by (fastforce simp: demo_json_def list_all_iff split: if_splits)
  ultimately show ?thesis unfolding json_laws_def by blast
qed

definition demo_amend_io :: amend_io where
  "demo_amend_io =
     \<lparr>has_parent = True, create_dir_result = Inl (Io AlreadyExists []),
      open_result = Inr (), lock_result = Inr (), seek_result = Inr (), read_result = Inr (),
      write_newline_result = Inr (), write_line_result = Inr (), partial_line = 0\<rparr>"

definition demo_migration_io :: migration_io where
  "demo_migration_io =
     \<lparr>exists_result = Inr (), read_policy_result = Inr (), interference = id,
      open_policy_result = Inr (), reread_result = Inr (), seek_start_result = Inr (),
      rewrite_result = Inr (), set_len_result = Inr (), left_by_failure = [], home_result = Inr (),
      temp_file_result = Inr (), temp_write_result = Inr (), persist_result = Inr (),
      join_result = Inr ()\<rparr>"

section \<open>Properties\<close>

text \<open>Appending an approved prefix is safe to repeat: when it succeeds, the old text of the policy file
  is a prefix of the new one, the rule is one of its lines, and appending the same prefix again, whatever
  system calls fail then, leaves the file as it is.\<close>

theorem append_allow_rule_idempotent:
  assumes "json_laws json"
    and "blocking_append_allow_prefix_rule json io file prefix = (file', Inr ())"
  shows "\<exists>c' tokens. file' = Some c' \<and> starts_with c' (contents_of file) \<and>
    collect_results (json_to_string json) prefix = Inr tokens \<and>
    allow_rule_line tokens \<in> set (str_lines c') \<and>
    fst (blocking_append_allow_prefix_rule json io' file' prefix) = file'"
proof -
  from assms(2) obtain tokens where t: "prefix \<noteq> []"
      "collect_results (json_to_string json) prefix = Inr tokens"
      "append_rule_line io file (allow_rule_line tokens) = (file', Inr ())"
    by (auto simp: blocking_append_allow_prefix_rule_def split: if_splits sum.splits)
  obtain c' where c: "file' = Some c'" "starts_with c' (contents_of file)"
      "allow_rule_line tokens \<in> set (str_lines c')"
    using append_rule_line_effect [OF t(3) allow_rule_line_clean [OF assms(1) t(2)]] .
  have "fst (blocking_append_allow_prefix_rule json io' file' prefix) = file'"
    using append_rule_line_present [OF c(3)] t(1,2) c(1)
    by (simp add: blocking_append_allow_prefix_rule_def)
  with c t(2) show ?thesis by blast
qed

theorem append_allow_rule_idempotent_witness:
  "fst (blocking_append_allow_prefix_rule demo_json demo_amend_io
     (fst (blocking_append_allow_prefix_rule demo_json demo_amend_io (Some (lit ''# rules'')) [lit ''ls'', lit ''-l'']))
     [lit ''ls'', lit ''-l'']) =
   fst (blocking_append_allow_prefix_rule demo_json demo_amend_io (Some (lit ''# rules'')) [lit ''ls'', lit ''-l''])"
proof -
  let ?r = "blocking_append_allow_prefix_rule demo_json demo_amend_io (Some (lit ''# rules'')) [lit ''ls'', lit ''-l'']"
  have "snd ?r = Inr ()" by code_simp
  then have "?r = (fst ?r, Inr ())" by (metis prod.collapse)
  from append_allow_rule_idempotent [OF demo_json_laws this, of demo_amend_io] show ?thesis by blast
qed

text \<open>The migration removes the banned rules and nothing else, once: after it has run on a policy file,
  the lines that are left are the lines that are no banned allow rule, in their order; a rule line that
  the program itself appended is left exactly when its prefix is not banned, compared without regard to
  case; and running the migration again changes nothing.\<close>

theorem migration_removes_banned:
  assumes "json_laws json" and "interference io = id" and "policy_contents s = Some c"
    and "\<not> marker_exists s" and "prefix_rule_migration json io banned s = (s', Inr ())"
  shows "\<exists>c'. policy_contents s' = Some c' \<and>
    split_inclusive newline c' =
      filter (\<lambda>l. \<not> should_remove_rule json (map lowercase_tokens banned) l) (split_inclusive newline c) \<and>
    (\<forall>prefix tokens. prefix \<noteq> [] \<longrightarrow> collect_results (json_to_string json) prefix = Inr tokens \<longrightarrow>
      allow_rule_line tokens \<in> set (str_lines c) \<longrightarrow>
      (allow_rule_line tokens \<in> set (str_lines c') \<longleftrightarrow>
        lowercase_tokens prefix \<notin> set (map lowercase_tokens banned))) \<and>
    fst (prefix_rule_migration json io' banned' s') = s'"
proof -
  let ?c = "strip_banned_allow_rules json c banned"
  let ?b = "map lowercase_tokens banned"
  have s': "s' = \<lparr>marker_exists = True, policy_contents = Some ?c\<rparr>"
    using prefix_rule_migration_ok [OF assms(5,2,4)] assms(3) by simp
  have f: "split_inclusive newline ?c =
      filter (\<lambda>l. \<not> should_remove_rule json ?b l) (split_inclusive newline c)"
    unfolding strip_banned_allow_rules_def Let_def by (rule split_inclusive_filter)
  have "allow_rule_line tokens \<in> set (str_lines ?c) \<longleftrightarrow> lowercase_tokens prefix \<notin> set ?b"
    if "prefix \<noteq> []" "collect_results (json_to_string json) prefix = Inr tokens"
      "allow_rule_line tokens \<in> set (str_lines c)" for prefix tokens
    using should_remove_allow_rule [OF assms(1) that(1,2), of _ ?b] that(3)
    unfolding str_lines_def f by force
  with s' f prefix_rule_migration_marked [of s'] show ?thesis by simp
qed

definition quoted :: "ustring \<Rightarrow> ustring" where
  "quoted s = dquote @ s @ dquote"

definition demo_rules :: ustring where
  "demo_rules = lit ''# rules'' @ newline # allow_rule_line [quoted (lit ''git'')] @ newline #
     allow_rule_line [quoted (lit ''Python3'')] @ [newline]"

theorem migration_removes_banned_witness:
  "str_lines (contents_of (policy_contents (fst (prefix_rule_migration demo_json demo_migration_io
     [[lit ''python3'']] \<lparr>marker_exists = False, policy_contents = Some demo_rules\<rparr>)))) =
   [lit ''# rules'', allow_rule_line [quoted (lit ''git'')]]"
proof -
  let ?s = "\<lparr>marker_exists = False, policy_contents = Some demo_rules\<rparr>"
  let ?r = "prefix_rule_migration demo_json demo_migration_io [[lit ''python3'']] ?s"
  have "snd ?r = Inr ()" by code_simp
  then have r: "?r = (fst ?r, Inr ())" by (metis prod.collapse)
  obtain c' where c: "policy_contents (fst ?r) = Some c'"
    and f: "split_inclusive newline c' = filter (\<lambda>l. \<not> should_remove_rule demo_json
      (map lowercase_tokens [[lit ''python3'']]) l) (split_inclusive newline demo_rules)"
    using migration_removes_banned [OF demo_json_laws _ _ _ r, of demo_rules demo_migration_io "[]"]
    by (auto simp: demo_migration_io_def)
  have "map strip_line_end (filter (\<lambda>l. \<not> should_remove_rule demo_json
      (map lowercase_tokens [[lit ''python3'']]) l) (split_inclusive newline demo_rules)) =
      [lit ''# rules'', allow_rule_line [quoted (lit ''git'')]]"
    by code_simp
  then show ?thesis unfolding c contents_of_def str_lines_def option.case f .
qed

end
