(* ===== verification/Head_Tail_Buffer.thy ===== *)
theory Head_Tail_Buffer
  imports Rust_Str
begin

text \<open>
  The capped buffer for the output of a running command
  (\<open>core/src/unified\_exec/head\_tail\_buffer.rs\<close>).  Bytes are numbers, \<open>usize\<close> counters saturate.  The
  abstract buffer of a byte sequence is its first and its last half; the lemmas show that every
  operation of the code is the corresponding operation on sequences.
\<close>

section \<open>The buffer\<close>

type_synonym byte = nat

record head_tail_buffer =
  max_bytes :: nat
  head_budget :: nat
  tail_budget :: nat
  hd_bytes :: "byte list"
  tl_bytes :: "byte list"
  omitted_bytes :: nat

definition UNIFIED_EXEC_OUTPUT_MAX_BYTES :: nat where
  "UNIFIED_EXEC_OUTPUT_MAX_BYTES = 1024 * 1024"

definition new_buffer :: "nat \<Rightarrow> head_tail_buffer" where
  "new_buffer cap =
     (let head = cap div 2
      in \<lparr>max_bytes = cap, head_budget = head, tail_budget = cap - head, hd_bytes = [], tl_bytes = [],
          omitted_bytes = 0\<rparr>)"

definition default_buffer :: head_tail_buffer where
  "default_buffer = new_buffer UNIFIED_EXEC_OUTPUT_MAX_BYTES"

definition retained_bytes :: "head_tail_buffer \<Rightarrow> nat" where
  "retained_bytes b = sat_add (length (hd_bytes b)) (length (tl_bytes b))"

definition total_bytes :: "head_tail_buffer \<Rightarrow> nat" where
  "total_bytes b = sat_add (retained_bytes b) (omitted_bytes b)"

definition trim_tail_to_budget :: "head_tail_buffer \<Rightarrow> head_tail_buffer" where
  "trim_tail_to_budget b =
     (let excess = length (tl_bytes b) - tail_budget b
      in if excess > 0
         then b\<lparr>tl_bytes := drop excess (tl_bytes b),
                omitted_bytes := sat_add (omitted_bytes b) excess\<rparr>
         else b)"

definition push_to_tail :: "byte list \<Rightarrow> head_tail_buffer \<Rightarrow> head_tail_buffer" where
  "push_to_tail chunk b =
     (if chunk = [] then b
      else if tail_budget b = 0
      then b\<lparr>omitted_bytes := sat_add (omitted_bytes b) (length chunk)\<rparr>
      else if length chunk \<ge> tail_budget b
      then
        (let start = length chunk - tail_budget b;
             kept = drop start chunk;
             dropped = length chunk - length kept
         in b\<lparr>omitted_bytes :=
                sat_add (sat_add (omitted_bytes b) (length (tl_bytes b))) dropped,
              tl_bytes := kept\<rparr>)
      else trim_tail_to_budget (b\<lparr>tl_bytes := tl_bytes b @ chunk\<rparr>))"

definition push_chunk :: "byte list \<Rightarrow> head_tail_buffer \<Rightarrow> head_tail_buffer" where
  "push_chunk chunk b =
     (if chunk = [] then b
      else if max_bytes b = 0
      then b\<lparr>omitted_bytes := sat_add (omitted_bytes b) (length chunk)\<rparr>
      else
        (let remaining_head = head_budget b - length (hd_bytes b);
             head_len = min remaining_head (length chunk);
             b' = (if head_len > 0 then b\<lparr>hd_bytes := hd_bytes b @ take head_len chunk\<rparr> else b)
         in push_to_tail (drop head_len chunk) b'))"

definition snapshot_chunks :: "head_tail_buffer \<Rightarrow> byte list list" where
  "snapshot_chunks b =
     (if hd_bytes b \<noteq> [] then [hd_bytes b] else []) @ (if tl_bytes b \<noteq> [] then [tl_bytes b] else [])"

definition to_bytes :: "head_tail_buffer \<Rightarrow> byte list" where
  "to_bytes b = hd_bytes b @ tl_bytes b"

definition format_output_omission_marker :: "nat \<Rightarrow> ustring" where
  "format_output_omission_marker n = lit ''... '' @ nat_decimal n @ lit '' bytes omitted ...''"

text \<open>The marker is ASCII text: its code points are its bytes.\<close>

definition to_bytes_with_omission_marker :: "head_tail_buffer \<Rightarrow> byte list" where
  "to_bytes_with_omission_marker b =
     (if omitted_bytes b = 0 then to_bytes b
      else hd_bytes b @ [newline] @ format_output_omission_marker (omitted_bytes b) @ [newline] @ tl_bytes b)"

text \<open>Draining returns what is handed out and what stays behind.\<close>

definition drain :: "head_tail_buffer \<Rightarrow> head_tail_buffer \<times> head_tail_buffer" where
  "drain b = (b, b\<lparr>hd_bytes := [], tl_bytes := [], omitted_bytes := 0\<rparr>)"

definition push_buffer :: "head_tail_buffer \<Rightarrow> head_tail_buffer \<Rightarrow> head_tail_buffer" where
  "push_buffer buffer b =
     (let b = push_chunk (hd_bytes buffer) b;
          b = push_chunk (tl_bytes buffer) b
      in b\<lparr>omitted_bytes := sat_add (omitted_bytes b) (omitted_bytes buffer)\<rparr>)"

section \<open>The abstract buffer\<close>

text \<open>The buffer of everything that was pushed: the first bytes, the last bytes of the rest, and
  the number of the bytes in between.\<close>

definition buffer_of :: "nat \<Rightarrow> byte list \<Rightarrow> head_tail_buffer" where
  "buffer_of cap xs =
     (let hb = cap div 2; tb = cap - hb; rest = drop hb xs
      in \<lparr>max_bytes = cap, head_budget = hb, tail_budget = tb, hd_bytes = take hb xs,
          tl_bytes = drop (length rest - tb) rest, omitted_bytes = min (length rest - tb) usize_max\<rparr>)"

lemma push_to_tail_of:
  assumes "tail_budget b = tb" "tl_bytes b = drop (length r - tb) r" "omitted_bytes b = min (length r - tb) usize_max"
  shows "push_to_tail c b = b\<lparr>tl_bytes := drop (length (r @ c) - tb) (r @ c),
    omitted_bytes := min (length (r @ c) - tb) usize_max\<rparr>"
proof -
  consider "c = []" | "c \<noteq> []" "tb = 0" | "c \<noteq> []" "0 < tb" "tb \<le> length c" | "c \<noteq> []" "0 < tb" "length c < tb"
    by linarith
  then show ?thesis
  proof cases
    case 3
    have "sat_add (sat_add (omitted_bytes b) (length (tl_bytes b))) (length c - tb) =
        min (length (r @ c) - tb) usize_max"
      unfolding assms(2,3) sat_add_min using 3(3) by (simp add: add.commute)
    moreover have "drop (length (r @ c) - tb) (r @ c) = drop (length c - tb) c"
      using 3(3) by simp
    moreover have "length c - length (drop (length c - tb) c) = length c - tb" using 3(3) by simp
    ultimately show ?thesis
      using 3 assms(1) by (simp only: push_to_tail_def Let_def if_False if_True not_gr_zero) simp
  next
    case 4
    show ?thesis
    proof (cases "length (r @ c) \<le> tb")
      case True
      with 4 assms show ?thesis by (simp add: push_to_tail_def trim_tail_to_budget_def Let_def)
    next
      case False
      let ?e = "(length (r @ c) - tb) - (length r - tb)"
      have e: "length (drop (length r - tb) r @ c) - tb = ?e" and pos: "0 < ?e"
        using 4 False by (simp, cases "length r \<le> tb") (auto simp flip: length_greater_0_conv)
      have d: "drop ?e (drop (length r - tb) r @ c) = drop (length (r @ c) - tb) (r @ c)"
        using False 4 by (cases "length r \<le> tb") (auto simp: add.commute)
      have o: "sat_add (min (length r - tb) usize_max) ?e = min (length (r @ c) - tb) usize_max"
        by (simp only: sat_add_min(1), simp only: sat_add_def) (rule arg_cong2 [where f = min], simp_all)
      have "push_to_tail c b = trim_tail_to_budget (b\<lparr>tl_bytes := tl_bytes b @ c\<rparr>)"
        using 4 assms(1) by (simp add: push_to_tail_def)
      also have "\<dots> = b\<lparr>tl_bytes := drop ?e (tl_bytes b @ c), omitted_bytes := sat_add (omitted_bytes b) ?e\<rparr>"
        unfolding trim_tail_to_budget_def Let_def using e pos assms(1,2) by simp
      finally show ?thesis unfolding assms(2,3) d o .
    qed
  qed (use assms in \<open>simp_all add: push_to_tail_def sat_add_def\<close>)
qed

lemma push_chunk_of: "push_chunk c (buffer_of cap xs) = buffer_of cap (xs @ c)"
proof -
  define hb where "hb = cap div 2"
  define b where "b = buffer_of cap xs"
  have b: "max_bytes b = cap" "head_budget b = hb" "hd_bytes b = take hb xs" "tail_budget b = cap - hb"
      "tl_bytes b = drop (length (drop hb xs) - (cap - hb)) (drop hb xs)"
      "omitted_bytes b = min (length (drop hb xs) - (cap - hb)) usize_max"
    by (simp_all add: b_def buffer_of_def hb_def Let_def)
  define n where "n = min (hb - length (hd_bytes b)) (length c)"
  have n: "take n c = take (hb - length xs) c" "drop n c = drop (hb - length xs) c"
    by (auto simp: n_def b(3) min_def)
  define b' where "b' = b\<lparr>hd_bytes := hd_bytes b @ take n c\<rparr>"
  have t: "push_to_tail (drop n c) b' = b'\<lparr>tl_bytes := drop (length (drop hb (xs @ c)) - (cap - hb)) (drop hb (xs @ c)),
      omitted_bytes := min (length (drop hb (xs @ c)) - (cap - hb)) usize_max\<rparr>"
    using push_to_tail_of [of b' "cap - hb" "drop hb xs" "drop n c"] by (simp add: b'_def b n(2))
  consider "c = []" | "c \<noteq> []" "cap = 0" | "c \<noteq> []" "cap \<noteq> 0" by blast
  then have "push_chunk c b = buffer_of cap (xs @ c)"
  proof cases
    case 2
    then show ?thesis by (simp add: push_chunk_def b_def buffer_of_def Let_def sat_add_def)
  next
    case 3
    have "(if 0 < n then b\<lparr>hd_bytes := hd_bytes b @ take n c\<rparr> else b) = b'" by (simp add: b'_def)
    with 3 t have "push_chunk c b = b'\<lparr>tl_bytes := drop (length (drop hb (xs @ c)) - (cap - hb)) (drop hb (xs @ c)),
      omitted_bytes := min (length (drop hb (xs @ c)) - (cap - hb)) usize_max\<rparr>"
      by (simp only: push_chunk_def b(1,2) n_def [symmetric] Let_def if_False)
    also have "\<dots> = buffer_of cap (xs @ c)"
      by (simp add: b'_def b_def buffer_of_def hb_def [symmetric] Let_def n(1))
    finally show ?thesis .
  qed (simp add: push_chunk_def b_def)
  then show ?thesis by (simp add: b_def)
qed

text \<open>Merging in another buffer of the same capacity is as if its whole output had been pushed, also
  the bytes that it had already dropped.\<close>

lemma push_buffer_of: "push_buffer (buffer_of cap ys) (buffer_of cap xs) = buffer_of cap (xs @ ys)"
proof -
  define hb tb where "hb = cap div 2" and "tb = cap - hb"
  define zs where "zs = take hb ys @ drop (length (drop hb ys) - tb) (drop hb ys)"
  define om where "om = length (drop hb ys) - tb"
  have "push_buffer (buffer_of cap ys) (buffer_of cap xs) =
      (buffer_of cap (xs @ zs))\<lparr>omitted_bytes := sat_add (omitted_bytes (buffer_of cap (xs @ zs))) om\<rparr>"
    unfolding push_buffer_def Let_def push_chunk_of
    by (simp add: buffer_of_def [of cap ys] Let_def hb_def [symmetric] tb_def [symmetric] zs_def om_def)
  also have "\<dots> = buffer_of cap (xs @ ys)"
  proof (cases "length ys \<le> hb + tb")
    case True
    then have "zs = ys" "om = 0" by (simp_all add: zs_def om_def)
    then show ?thesis by (simp add: buffer_of_def Let_def sat_add_def)
  next
    case False
    then have l: "length zs = hb + tb" and h: "take hb zs = take hb ys" by (simp_all add: zs_def)
    have 1: "take hb (xs @ zs) = take hb (xs @ ys)"
      using h by (metis diff_le_self take_append take_take min.absorb1)
    have 2: "drop (length xs) (drop hb (xs @ zs)) = drop (length (drop hb ys) - tb) (drop hb ys)"
      using False by (simp add: zs_def)
    have 3: "drop (length (drop hb (xs @ ys)) - tb) (drop hb (xs @ ys)) = drop (length (drop hb ys) - tb) (drop hb ys)"
      using False by simp
    have 4: "length (drop hb (xs @ zs)) - tb = length xs" "length (drop hb (xs @ ys)) - tb = length xs + om"
      using False l by (simp_all add: om_def)
    show ?thesis
      by (simp only: buffer_of_def Let_def hb_def [symmetric] tb_def [symmetric] 1 2 4 3 [unfolded 4(2)]
          head_tail_buffer.simps sat_add_min(1)) (simp add: sat_add_def)
  qed
  finally show ?thesis .
qed

lemma new_buffer_of: "new_buffer cap = buffer_of cap []"
  by (simp add: new_buffer_def buffer_of_def Let_def)

section \<open>Properties\<close>

text \<open>C9.  The buffer is its abstract buffer: pushing a chunk, however the output is cut into chunks, merging
  another buffer of the same capacity, even one that has already dropped bytes, and draining all give
  the first bytes, the last bytes and the number of the bytes in between of the whole output so far.\<close>

theorem buffer_refines_output:
  "foldl (\<lambda>b c. push_chunk c b) (buffer_of cap xs) chunks = buffer_of cap (xs @ concat chunks) \<and>
   push_buffer (buffer_of cap ys) (buffer_of cap xs) = buffer_of cap (xs @ ys) \<and>
   new_buffer cap = buffer_of cap [] \<and>
   drain (buffer_of cap xs) = (buffer_of cap xs, new_buffer cap)"
proof -
  have "foldl (\<lambda>b c. push_chunk c b) (buffer_of cap xs) chunks = buffer_of cap (xs @ concat chunks)"
    by (induction chunks arbitrary: xs) (simp_all add: push_chunk_of)
  then show ?thesis
    by (simp add: push_buffer_of new_buffer_of) (simp add: drain_def buffer_of_def Let_def)
qed

text \<open>The buffer keeps its bounds: it retains at most its capacity, counts every byte (up to the largest
  \<open>usize\<close>), and what it shows has at most 44 bytes more than its capacity; output within the
  capacity is shown in full and without a marker.\<close>

theorem buffer_bounds:
  "retained_bytes (buffer_of cap xs) \<le> cap \<and>
   total_bytes (buffer_of cap xs) = min (length xs) usize_max \<and>
   length (to_bytes_with_omission_marker (buffer_of cap xs)) \<le> cap + 44 \<and>
   (omitted_bytes (buffer_of cap xs) = 0 \<longleftrightarrow> length xs \<le> cap) \<and>
   (length xs \<le> cap \<longrightarrow> to_bytes_with_omission_marker (buffer_of cap xs) = xs)"
proof -
  define b hb tb where "b = buffer_of cap xs" and "hb = cap div 2" and "tb = cap - hb"
  have hb: "hb \<le> cap" and M: "0 < usize_max" by (simp_all add: hb_def usize_max_def)
  have f: "hd_bytes b = take hb xs" "tl_bytes b = drop (length (drop hb xs) - tb) (drop hb xs)"
      "omitted_bytes b = min (length (drop hb xs) - tb) usize_max"
    by (simp_all add: b_def buffer_of_def Let_def hb_def tb_def)
  have l: "length (hd_bytes b) + length (tl_bytes b) \<le> cap"
    unfolding f using hb by (simp add: tb_def)
  have "length (hd_bytes b) + length (tl_bytes b) + (length (drop hb xs) - tb) = length xs"
    unfolding f by simp
  then have t: "total_bytes b = min (length xs) usize_max"
    by (simp add: total_bytes_def retained_bytes_def f(3))
  have r: "retained_bytes b \<le> cap" using l by (simp add: retained_bytes_def sat_add_def)
  have z: "omitted_bytes b = 0 \<longleftrightarrow> length xs \<le> cap" unfolding f using M hb by (auto simp: tb_def)
  have s: "to_bytes_with_omission_marker b = xs" if "length xs \<le> cap"
    using that z hb by (simp add: to_bytes_with_omission_marker_def to_bytes_def f tb_def)
  have "length (nat_decimal (omitted_bytes b)) \<le> 20"
    by (rule nat_decimal_length) (simp_all add: f(3) usize_max_def min_def)
  then have "length (to_bytes_with_omission_marker b) \<le> cap + 44"
    using l by (simp add: to_bytes_with_omission_marker_def to_bytes_def format_output_omission_marker_def lit_def)
  with r t z s show ?thesis unfolding b_def by blast
qed

theorem buffer_bounds_witness:
  "to_bytes_with_omission_marker (push_chunk [3, 4] (push_chunk [1, 2] (new_buffer 4))) = [1, 2, 3, 4]"
proof -
  have "push_chunk [3, 4] (push_chunk [1, 2] (new_buffer 4)) = buffer_of 4 [1, 2, 3, 4]" by code_simp
  with buffer_bounds [of 4 "[1, 2, 3, 4]"] show ?thesis by simp
qed

end
