(* ===== verification/Stream_Text.thy ===== *)
theory Stream_Text
  imports Rust_Str
begin

text \<open>
  The interface of the incremental text parsers (\<open>utils/stream-parser/src/stream\_text.rs\<close>): a parser
  takes text in chunks and emits visible text and extracted payloads.  The locale states what a client
  may rely on: a chunk is always digested, and cutting the text into chunks differently does not
  change what is emitted.  Its lemmas carry this over to whole streams of chunks.
\<close>

record 'e stream_text_chunk =
  visible_text :: ustring
  extracted :: "'e list"

definition default_chunk :: "'e stream_text_chunk" where
  "default_chunk = \<lparr>visible_text = [], extracted = []\<rparr>"

definition text_chunk_is_empty :: "'e stream_text_chunk \<Rightarrow> bool" where
  "text_chunk_is_empty c \<longleftrightarrow> visible_text c = [] \<and> extracted c = []"

text \<open>What a client does with two results in a row.\<close>

definition append_chunk :: "'e stream_text_chunk \<Rightarrow> 'e stream_text_chunk \<Rightarrow> 'e stream_text_chunk" where
  "append_chunk a b =
     \<lparr>visible_text = visible_text a @ visible_text b, extracted = extracted a @ extracted b\<rparr>"

lemma append_chunk_simps [simp]:
  "visible_text (append_chunk a b) = visible_text a @ visible_text b"
  "extracted (append_chunk a b) = extracted a @ extracted b"
  "append_chunk a default_chunk = a" "append_chunk default_chunk a = a"
  "append_chunk (append_chunk a b) c = append_chunk a (append_chunk b c)"
  "visible_text default_chunk = []" "extracted default_chunk = []"
  by (simp_all add: append_chunk_def default_chunk_def)

section \<open>Streams of chunks\<close>

text \<open>Feeding a stream of chunks, with the way results are joined and the empty result; \<open>None\<close>
  would be a chunk on which the parser never returns.\<close>

fun push_all ::
    "('o \<Rightarrow> 'o \<Rightarrow> 'o) \<Rightarrow> 'o \<Rightarrow> ('s \<Rightarrow> 'c list \<Rightarrow> ('s \<times> 'o) option) \<Rightarrow> 's \<Rightarrow> 'c list list \<Rightarrow> ('s \<times> 'o) option" where
  "push_all jn emp push s [] = Some (s, emp)"
| "push_all jn emp push s (c # cs) =
     (case push s c of
        None \<Rightarrow> None
      | Some (s', out) \<Rightarrow>
          (case push_all jn emp push s' cs of
             None \<Rightarrow> None
           | Some (s'', out') \<Rightarrow> Some (s'', jn out out')))"

text \<open>A stream ends with \<open>finish\<close>.\<close>

definition run_stream ::
    "('o \<Rightarrow> 'o \<Rightarrow> 'o) \<Rightarrow> 'o \<Rightarrow> ('s \<Rightarrow> 'c list \<Rightarrow> ('s \<times> 'o) option) \<Rightarrow> ('s \<Rightarrow> 's \<times> 'o) \<Rightarrow> 's \<Rightarrow> 'c list list \<Rightarrow>
     'o option" where
  "run_stream jn emp push fin s cs =
     (case push_all jn emp push s cs of
        None \<Rightarrow> None
      | Some (s', out) \<Rightarrow> Some (jn out (snd (fin s'))))"

text \<open>What a parser of chunks promises: it digests every chunk, and two chunks in a row give the same
  state, and an equivalent result, as both at once.\<close>

locale chunked_parser =
  fixes push :: "'s \<Rightarrow> 'c list \<Rightarrow> ('s \<times> 'o) option"
    and fin :: "'s \<Rightarrow> 's \<times> 'o"
    and valid :: "'s \<Rightarrow> bool"
    and jn :: "'o \<Rightarrow> 'o \<Rightarrow> 'o"
    and emp :: 'o
    and eqv :: "'o \<Rightarrow> 'o \<Rightarrow> bool"
  assumes jn_emp: "jn x emp = x" and jn_emp_left: "jn emp x = x" and jn_assoc: "jn (jn x y) z = jn x (jn y z)"
    and eqv_refl: "eqv x x" and eqv_trans: "eqv x y \<Longrightarrow> eqv y z \<Longrightarrow> eqv x z" and eqv_sym: "eqv x y \<Longrightarrow> eqv y x"
    and eqv_jn: "eqv x x' \<Longrightarrow> eqv y y' \<Longrightarrow> eqv (jn x y) (jn x' y')"
    and push_returns: "valid s \<Longrightarrow> \<exists>s' out. push s c = Some (s', out) \<and> valid s'"
    and push_append: "valid s \<Longrightarrow> push s a = Some (s1, o1) \<Longrightarrow> push s1 b = Some (s2, o2) \<Longrightarrow>
      \<exists>out. push s (a @ b) = Some (s2, out) \<and> eqv out (jn o1 o2)"
begin

lemma push_all_returns: "valid s \<Longrightarrow> \<exists>s' out. push_all jn emp push s cs = Some (s', out) \<and> valid s'"
proof (induction cs arbitrary: s)
  case (Cons c cs)
  from push_returns [OF Cons.prems, of c] obtain s' out where "push s c = Some (s', out)" "valid s'" by blast
  with Cons.IH [of s'] show ?case by fastforce
qed simp

lemma push_all_snoc:
  "push_all jn emp push s (xs @ [d]) =
    (case push_all jn emp push s xs of
       None \<Rightarrow> None
     | Some (t, o1) \<Rightarrow> (case push t d of None \<Rightarrow> None | Some (u, o2) \<Rightarrow> Some (u, jn o1 o2)))"
  by (induction xs arbitrary: s) (auto simp: jn_emp jn_emp_left jn_assoc split: option.splits prod.splits)

lemma push_all_append:
  "push_all jn emp push s xs = Some (t, o1) \<Longrightarrow> push_all jn emp push t ys = Some (u, o2) \<Longrightarrow>
    push_all jn emp push s (xs @ ys) = Some (u, jn o1 o2)"
  by (induction xs arbitrary: s o1) (auto simp: jn_emp_left jn_assoc split: option.splits prod.splits)

text \<open>A stream is its text: the chunks do not matter.\<close>

lemma push_all_concat:
  assumes "valid s" and "push_all jn emp push s (c # cs) = Some (s', out)"
  shows "\<exists>out'. push s (concat (c # cs)) = Some (s', out') \<and> eqv out' out"
  using assms
proof (induction cs arbitrary: s c out s' rule: rev_induct)
  case Nil
  then show ?case by (auto simp: jn_emp eqv_refl split: option.splits)
next
  case (snoc d cs)
  obtain t o1 where t: "push_all jn emp push s (c # cs) = Some (t, o1)" "valid t"
    using push_all_returns [OF snoc.prems(1)] by blast
  with snoc.prems(2) push_all_snoc [of s "c # cs" d] obtain o2 where d: "push t d = Some (s', o2)" "out = jn o1 o2"
    by (auto split: option.splits prod.splits)
  obtain o1' where o: "push s (concat (c # cs)) = Some (t, o1')" "eqv o1' o1"
    using snoc.IH [OF snoc.prems(1) t(1)] by blast
  obtain out' where "push s (concat (c # cs) @ d) = Some (s', out')" "eqv out' (jn o1' o2)"
    using push_append [OF snoc.prems(1) o(1) d(1)] by blast
  moreover have "eqv (jn o1' o2) out" using eqv_jn [OF o(2) eqv_refl] d(2) by simp
  ultimately show ?case using eqv_trans by auto
qed

lemma run_stream_chunks:
  assumes "valid s" and "push s [] = Some (s, emp)"
  obtains out out' where "run_stream jn emp push fin s cs = Some out"
    "run_stream jn emp push fin s [concat cs] = Some out'" "eqv out out'"
proof (cases cs)
  case Nil
  then show thesis using that assms(2) by (simp add: run_stream_def jn_emp eqv_refl)
next
  case (Cons c ds)
  obtain s' o1 where p: "push_all jn emp push s cs = Some (s', o1)" using push_all_returns [OF assms(1)] by blast
  with push_all_concat [OF assms(1), of c ds s' o1] Cons
  obtain o2 where q: "push s (concat cs) = Some (s', o2)" "eqv o2 o1" by auto
  have "eqv (jn o1 (snd (fin s'))) (jn o2 (snd (fin s')))"
    using eqv_jn [OF eqv_sym [OF q(2)] eqv_refl] .
  with p q(1) show thesis using that by (simp add: run_stream_def jn_emp)
qed

end

section \<open>Text parsers\<close>

text \<open>Payloads are compared by the events they stand for: a payload that may be cut anywhere (a piece
  of text) is the sequence of its parts.\<close>

definition same_output :: "('e list \<Rightarrow> 'o list) \<Rightarrow> 'e stream_text_chunk \<Rightarrow> 'e stream_text_chunk \<Rightarrow> bool" where
  "same_output events a b \<longleftrightarrow>
     visible_text a = visible_text b \<and> events (extracted a) = events (extracted b)"

locale stream_text_parser =
  fixes push :: "'s \<Rightarrow> ustring \<Rightarrow> ('s \<times> 'e stream_text_chunk) option"
    and fin :: "'s \<Rightarrow> 's \<times> 'e stream_text_chunk"
    and valid :: "'s \<Rightarrow> bool"
    and events :: "'e list \<Rightarrow> 'o list"
  assumes events_append: "events (xs @ ys) = events xs @ events ys"
    and text_returns: "valid s \<Longrightarrow> \<exists>s' out. push s c = Some (s', out) \<and> valid s'"
    and text_append: "valid s \<Longrightarrow> push s a = Some (s1, o1) \<Longrightarrow> push s1 b = Some (s2, o2) \<Longrightarrow>
      \<exists>out. push s (a @ b) = Some (s2, out) \<and> same_output events out (append_chunk o1 o2)"

sublocale stream_text_parser \<subseteq> chunked_parser push fin valid append_chunk default_chunk "same_output events"
proof
  show "\<And>s c. valid s \<Longrightarrow> \<exists>s' out. push s c = Some (s', out) \<and> valid s'" by (rule text_returns)
  show "\<And>s a s1 o1 b s2 o2. valid s \<Longrightarrow> push s a = Some (s1, o1) \<Longrightarrow> push s1 b = Some (s2, o2) \<Longrightarrow>
      \<exists>out. push s (a @ b) = Some (s2, out) \<and> same_output events out (append_chunk o1 o2)"
    by (rule text_append)
qed (simp_all add: same_output_def events_append)

end
