(* ===== verification/Inline_Tags.thy ===== *)
theory Inline_Tags
  imports Stream_Text
begin

text \<open>
  The parser that hides inline tags and extracts their bodies
  (\<open>utils/stream-parser/src/inline\_hidden\_tag.rs\<close>) and its instance for memory citations
  (\<open>citation.rs\<close>).  The loop of the parser is a partial function; the lemmas show that it ends
  for every tag list that the constructor accepts, and that it is a stream parser in the sense of
  the interface whenever no opening tag occurs inside another one.
\<close>

section \<open>The parser\<close>

record 't extracted_inline_tag =
  ext_tag :: 't
  ext_content :: ustring

record 't inline_tag_spec =
  spec_tag :: 't
  spec_open :: ustring
  spec_close :: ustring

record 't active_tag =
  act_tag :: 't
  act_close :: ustring
  act_content :: ustring

record 't inline_hidden_tag_parser =
  specs :: "'t inline_tag_spec list"
  pending :: ustring
  active :: "'t active_tag option"

text \<open>The constructor; \<open>None\<close> is a failed assertion.\<close>

definition inline_new :: "'t inline_tag_spec list \<Rightarrow> 't inline_hidden_tag_parser option" where
  "inline_new ss =
     (if ss \<noteq> [] \<and> list_all (\<lambda>s. spec_open s \<noteq> [] \<and> spec_close s \<noteq> []) ss
      then Some \<lparr>specs = ss, pending = [], active = None\<rparr> else None)"

text \<open>The loop over \<open>k\<close> from \<open>max\<close> down to 1.\<close>

fun suffix_prefix_loop :: "ustring \<Rightarrow> ustring \<Rightarrow> nat \<Rightarrow> nat" where
  "suffix_prefix_loop s needle 0 = 0"
| "suffix_prefix_loop s needle (Suc k) =
     (if ends_with s (take (Suc k) needle) then Suc k else suffix_prefix_loop s needle k)"

definition longest_suffix_prefix_len :: "ustring \<Rightarrow> ustring \<Rightarrow> nat" where
  "longest_suffix_prefix_len s needle = suffix_prefix_loop s needle (min (length s) (length needle - 1))"

text \<open>\<open>Iterator::min\_by\<close> keeps the first of the least elements.\<close>

fun min_by :: "('a \<Rightarrow> 'a \<Rightarrow> bool) \<Rightarrow> 'a list \<Rightarrow> 'a option" where
  "min_by lt [] = None"
| "min_by lt (x # xs) = Some (foldl (\<lambda>m y. if lt y m then y else m) x xs)"

fun open_less :: "nat \<times> nat \<times> nat \<Rightarrow> nat \<times> nat \<times> nat \<Rightarrow> bool" where
  "open_less (pos_a, len_a, idx_a) (pos_b, len_b, idx_b) \<longleftrightarrow>
     pos_a < pos_b \<or> pos_a = pos_b \<and> (len_b < len_a \<or> len_b = len_a \<and> idx_a < idx_b)"

definition open_candidates :: "'t inline_tag_spec list \<Rightarrow> ustring \<Rightarrow> (nat \<times> nat \<times> nat) list" where
  "open_candidates ss text =
     List.map_filter (\<lambda>(idx, spec).
       map_option (\<lambda>pos. (pos, length (spec_open spec), idx)) (find_str text (spec_open spec)))
       (enumerate 0 ss)"

definition find_next_open :: "'t inline_hidden_tag_parser \<Rightarrow> (nat \<times> nat) option" where
  "find_next_open p =
     map_option (\<lambda>(pos, _, idx). (pos, idx)) (min_by open_less (open_candidates (specs p) (pending p)))"

definition max_open_prefix_suffix_len :: "'t inline_hidden_tag_parser \<Rightarrow> nat" where
  "max_open_prefix_suffix_len p =
     (case map (\<lambda>spec. longest_suffix_prefix_len (pending p) (spec_open spec)) (specs p) of
        [] \<Rightarrow> 0
      | n # ns \<Rightarrow> foldl max n ns)"

definition push_visible_prefix ::
    "'e stream_text_chunk \<Rightarrow> ustring \<Rightarrow> 'e stream_text_chunk" where
  "push_visible_prefix out text =
     (if text \<noteq> [] then out\<lparr>visible_text := visible_text out @ text\<rparr> else out)"

definition drain_visible_to_suffix_match ::
    "'t inline_hidden_tag_parser \<Rightarrow> 't extracted_inline_tag stream_text_chunk \<Rightarrow> nat \<Rightarrow>
     't inline_hidden_tag_parser \<times> 't extracted_inline_tag stream_text_chunk" where
  "drain_visible_to_suffix_match p out keep_suffix_len =
     (let n = length (pending p) - keep_suffix_len
      in if n = 0 then (p, out)
         else (p\<lparr>pending := drop n (pending p)\<rparr>, push_visible_prefix out (take n (pending p))))"

text \<open>The loop of \<open>push\_str\<close>; each branch is one pass.\<close>

partial_function (option) push_loop ::
    "'t inline_hidden_tag_parser \<Rightarrow> 't extracted_inline_tag stream_text_chunk \<Rightarrow>
     ('t inline_hidden_tag_parser \<times> 't extracted_inline_tag stream_text_chunk) option" where
  "push_loop p out =
     (case active p of
        Some act \<Rightarrow>
          (case find_str (pending p) (act_close act) of
             Some close_idx \<Rightarrow>
               push_loop
                 (p\<lparr>active := None, pending := drop (close_idx + length (act_close act)) (pending p)\<rparr>)
                 (out\<lparr>extracted := extracted out @
                    [\<lparr>ext_tag = act_tag act, ext_content = act_content act @ take close_idx (pending p)\<rparr>]\<rparr>)
           | None \<Rightarrow>
               (let keep = longest_suffix_prefix_len (pending p) (act_close act);
                    n = length (pending p) - keep
                in if n > 0
                   then Some (p\<lparr>active := Some (act\<lparr>act_content := act_content act @ take n (pending p)\<rparr>),
                                pending := drop n (pending p)\<rparr>, out)
                   else Some (p, out)))
      | None \<Rightarrow>
          (case find_next_open p of
             Some (open_idx, spec_idx) \<Rightarrow>
               (let spec = specs p ! spec_idx
                in push_loop
                     (p\<lparr>pending := drop (open_idx + length (spec_open spec)) (pending p),
                        active := Some \<lparr>act_tag = spec_tag spec, act_close = spec_close spec, act_content = []\<rparr>\<rparr>)
                     (push_visible_prefix out (take open_idx (pending p))))
           | None \<Rightarrow> Some (drain_visible_to_suffix_match p out (max_open_prefix_suffix_len p))))"

definition inline_push_str ::
    "'t inline_hidden_tag_parser \<Rightarrow> ustring \<Rightarrow>
     ('t inline_hidden_tag_parser \<times> 't extracted_inline_tag stream_text_chunk) option" where
  "inline_push_str p chunk = push_loop (p\<lparr>pending := pending p @ chunk\<rparr>) default_chunk"

definition inline_finish ::
    "'t inline_hidden_tag_parser \<Rightarrow>
     't inline_hidden_tag_parser \<times> 't extracted_inline_tag stream_text_chunk" where
  "inline_finish p =
     (case active p of
        Some act \<Rightarrow>
          (p\<lparr>active := None, pending := []\<rparr>,
           \<lparr>visible_text = [],
            extracted = [\<lparr>ext_tag = act_tag act, ext_content = act_content act @ pending p\<rparr>]\<rparr>)
      | None \<Rightarrow> (p\<lparr>pending := []\<rparr>, \<lparr>visible_text = pending p, extracted = []\<rparr>))"

section \<open>Citations\<close>

datatype citation_tag = Citation

definition CITATION_OPEN :: ustring where
  "CITATION_OPEN = lit ''<oai-mem-citation>''"

definition CITATION_CLOSE :: ustring where
  "CITATION_CLOSE = lit ''</oai-mem-citation>''"

type_synonym citation_stream_parser = "citation_tag inline_hidden_tag_parser"

definition citation_spec :: "citation_tag inline_tag_spec" where
  "citation_spec = \<lparr>spec_tag = Citation, spec_open = CITATION_OPEN, spec_close = CITATION_CLOSE\<rparr>"

definition citation_new :: "citation_stream_parser option" where
  "citation_new = inline_new [citation_spec]"

definition citation_chunk :: "'t extracted_inline_tag stream_text_chunk \<Rightarrow> ustring stream_text_chunk" where
  "citation_chunk inner =
     \<lparr>visible_text = visible_text inner, extracted = map ext_content (extracted inner)\<rparr>"

definition citation_push_str ::
    "citation_stream_parser \<Rightarrow> ustring \<Rightarrow> (citation_stream_parser \<times> ustring stream_text_chunk) option" where
  "citation_push_str p chunk =
     map_option (\<lambda>(p', inner). (p', citation_chunk inner)) (inline_push_str p chunk)"

definition citation_finish :: "citation_stream_parser \<Rightarrow> citation_stream_parser \<times> ustring stream_text_chunk" where
  "citation_finish p = (case inline_finish p of (p', inner) \<Rightarrow> (p', citation_chunk inner))"

definition strip_citations :: "ustring \<Rightarrow> (ustring \<times> ustring list) option" where
  "strip_citations text =
     (case citation_new of
        None \<Rightarrow> None
      | Some parser \<Rightarrow>
          (case citation_push_str parser text of
             None \<Rightarrow> None
           | Some (parser, out) \<Rightarrow>
               (let out = append_chunk out (snd (citation_finish parser))
                in Some (visible_text out, extracted out))))"

section \<open>What is held back\<close>

text \<open>The held back suffix is the longest one that may still become a delimiter.\<close>

lemma suffix_prefix_loop_eq:
  "suffix_prefix_loop s n m = Max (insert 0 {j. 0 < j \<and> j \<le> m \<and> ends_with s (take j n)})"
proof (induction m)
  case 0
  have "{j. 0 < j \<and> j \<le> (0::nat) \<and> ends_with s (take j n)} = {}" by auto
  then show ?case by (simp only: suffix_prefix_loop.simps) simp
next
  case (Suc m)
  let ?S = "\<lambda>m. {j. 0 < j \<and> j \<le> m \<and> ends_with s (take j n)}"
  show ?case
  proof (cases "ends_with s (take (Suc m) n)")
    case True
    have "Max (insert 0 (?S (Suc m))) = Suc m"
      by (rule Max_eqI) (use True in auto)
    with True show ?thesis by simp
  next
    case False
    then have "?S (Suc m) = ?S m" by (auto simp: le_Suc_eq)
    with False Suc show ?thesis by simp
  qed
qed

definition partial_matches :: "ustring \<Rightarrow> ustring \<Rightarrow> nat set" where
  "partial_matches s n = {j. 0 < j \<and> j < length n \<and> ends_with s (take j n)}"

lemma longest_suffix_prefix_len_eq: "longest_suffix_prefix_len s n = Max (insert 0 (partial_matches s n))"
proof -
  have "{j. 0 < j \<and> j \<le> min (length s) (length n - 1) \<and> ends_with s (take j n)} = partial_matches s n"
    by (auto simp: partial_matches_def ends_with_def)
  then show ?thesis by (simp add: longest_suffix_prefix_len_def suffix_prefix_loop_eq)
qed

lemma finite_partial_matches [simp]: "finite (partial_matches s n)"
  by (simp add: partial_matches_def)

lemma longest_suffix_prefix_len_le: "longest_suffix_prefix_len s n \<le> length s"
  unfolding longest_suffix_prefix_len_eq by (auto simp: partial_matches_def ends_with_def)

lemma partial_match_le: "j \<in> partial_matches s n \<Longrightarrow> j \<le> longest_suffix_prefix_len s n"
  unfolding longest_suffix_prefix_len_eq by (simp add: Max_ge)

text \<open>Text that is let go can not be the start of a delimiter, whatever follows: searching the held
  back suffix finds what searching the whole text finds.\<close>

lemma no_start_before:
  assumes "find_str p n = None" and "longest_suffix_prefix_len p n \<le> k" and "j < length p - k"
  shows "\<not> starts_with (drop j (p @ x)) n"
proof
  assume s: "starts_with (drop j (p @ x)) n"
  have d: "drop j (p @ x) = drop j p @ x" using assms(3) by simp
  show False
  proof (cases "length n \<le> length (drop j p)")
    case True
    then have "starts_with (drop j p) n" using s starts_with_shorter unfolding d by blast
    with assms(1) show False using assms(3) by (simp add: find_str_None)
  next
    case False
    let ?m = "length (drop j p)"
    obtain r where "drop j p @ x = n @ r" using s unfolding d by (auto simp: starts_with_iff)
    then have "take ?m (n @ r) = drop j p" by (metis append_eq_conv_conj)
    then have "take ?m n = drop j p" using False by simp
    then have "ends_with p (take ?m n)" using assms(3) by (simp add: ends_with_def)
    then have "?m \<in> partial_matches p n" using False assms(3) by (simp add: partial_matches_def)
    with partial_match_le assms(2,3) show False by fastforce
  qed
qed

lemma find_str_held_back:
  assumes "find_str p n = None" and "longest_suffix_prefix_len p n \<le> k"
  shows "find_str (p @ x) n = map_option (\<lambda>i. length p - k + i) (find_str (drop (length p - k) p @ x) n)"
  using find_str_shift [of "length p - k" "p @ x" n] no_start_before [OF assms] by simp

lemma longest_suffix_prefix_held_back:
  assumes "longest_suffix_prefix_len p n \<le> k"
  shows "longest_suffix_prefix_len (p @ x) n = longest_suffix_prefix_len (drop (length p - k) p @ x) n"
proof -
  have "ends_with (p @ x) (take j n) \<longleftrightarrow> ends_with (drop (length p - k) p @ x) (take j n)"
    if j: "0 < j" "j < length n" for j
  proof (cases "j \<le> min k (length p) + length x")
    case True
    then have "length (take j n) \<le> length (drop (length p - k) p @ x)" using j by (simp add: min_def split: if_splits)
    from ends_with_append_short [OF this, of "take (length p - k) p"] show ?thesis
      by (metis append.assoc append_take_drop_id)
  next
    case False
    have "\<not> ends_with (p @ x) (take j n)"
    proof
      assume e: "ends_with (p @ x) (take j n)"
      then have "j \<le> length p + length x" using j by (simp add: ends_with_def)
      with False have l: "length x < j" "k < j - length x" by auto
      have "drop (length p - (j - length x)) p @ x = take j n"
        using e j l \<open>j \<le> length p + length x\<close> by (simp add: ends_with_def)
      then have "drop (length p - (j - length x)) p = take (j - length x) n"
        using l j \<open>j \<le> length p + length x\<close>
        by (metis (no_types, lifting) append_eq_conv_conj diff_le_self length_drop diff_diff_cancel
            le_diff_conv min.absorb1 take_take add.commute)
      then have "j - length x \<in> partial_matches p n"
        using l j \<open>j \<le> length p + length x\<close> by (auto simp: partial_matches_def ends_with_def)
      with partial_match_le assms l(2) show False by fastforce
    qed
    moreover have "length (drop (length p - k) p @ x) = min k (length p) + length x" by simp
    then have "\<not> ends_with (drop (length p - k) p @ x) (take j n)"
      unfolding ends_with_def using False j(2) by simp
    ultimately show ?thesis by blast
  qed
  then have "partial_matches (p @ x) n = partial_matches (drop (length p - k) p @ x) n"
    by (auto simp: partial_matches_def)
  then show ?thesis by (simp add: longest_suffix_prefix_len_eq)
qed

section \<open>The next opening tag\<close>

lemma open_less_order:
  "\<not> open_less a a" "open_less a b \<Longrightarrow> open_less b c \<Longrightarrow> open_less a c" "open_less a b \<or> a = b \<or> open_less b a"
  by (cases a; cases b; cases c; auto)+

lemma min_by_foldl:
  "(let m = foldl (\<lambda>m y. if open_less y m then y else m) x xs
    in m \<in> set (x # xs) \<and> (\<forall>y \<in> set (x # xs). \<not> open_less y m))"
proof (induction xs arbitrary: x)
  case (Cons z zs)
  show ?case
  proof (cases "open_less z x")
    case True
    with Cons.IH [of z] show ?thesis
      by (auto simp: Let_def dest: open_less_order(2) [of z x])
  next
    case False
    let ?m = "foldl (\<lambda>m y. if open_less y m then y else m) x zs"
    have m: "?m \<in> set (x # zs)" "\<forall>y \<in> set (x # zs). \<not> open_less y ?m"
      using Cons.IH [of x] unfolding Let_def by blast+
    then have "\<not> open_less z ?m"
      using False open_less_order(2) [of z ?m x] open_less_order(3) [of ?m x] by auto
    with m False show ?thesis by (simp only: Let_def foldl.simps if_False) auto
  qed
qed (simp add: open_less_order)

lemma min_by_iff:
  "min_by open_less xs = Some m \<longleftrightarrow> m \<in> set xs \<and> (\<forall>y \<in> set xs. \<not> open_less y m)"
proof (cases xs)
  case (Cons x ys)
  let ?m = "foldl (\<lambda>m y. if open_less y m then y else m) x ys"
  have "?m \<in> set xs" "\<forall>y \<in> set xs. \<not> open_less y ?m"
    using min_by_foldl [of x ys] unfolding Cons Let_def by blast+
  then show ?thesis using open_less_order(3) [of ?m m] by (auto simp: Cons)
qed simp

lemma min_by_None [simp]: "min_by lt xs = None \<longleftrightarrow> xs = []"
  by (cases xs) simp_all

lemma set_open_candidates:
  "set (open_candidates ss text) =
     {(pos, length (spec_open (ss ! i)), i) | pos i. i < length ss \<and> find_str text (spec_open (ss ! i)) = Some pos}"
  unfolding open_candidates_def List.map_filter_def
  by (force simp: image_iff in_set_enumerate_eq)

lemma open_candidates_Nil:
  "open_candidates ss text = [] \<longleftrightarrow> (\<forall>i < length ss. find_str text (spec_open (ss ! i)) = None)"
proof
  assume e: "open_candidates ss text = []"
  show "\<forall>i < length ss. find_str text (spec_open (ss ! i)) = None"
  proof (intro allI impI, rule ccontr)
    fix i
    assume "i < length ss" "find_str text (spec_open (ss ! i)) \<noteq> None"
    then obtain pos where "(pos, length (spec_open (ss ! i)), i) \<in> set (open_candidates ss text)"
      unfolding set_open_candidates by blast
    with e show False by simp
  qed
next
  assume "\<forall>i < length ss. find_str text (spec_open (ss ! i)) = None"
  then have "set (open_candidates ss text) = {}" unfolding set_open_candidates by auto
  then show "open_candidates ss text = []" by simp
qed

text \<open>No opening tag occurs in another one.\<close>

definition infix_free :: "'t inline_tag_spec list \<Rightarrow> bool" where
  "infix_free ss \<longleftrightarrow>
     (\<forall>i < length ss. \<forall>j < length ss. i \<noteq> j \<longrightarrow> find_str (spec_open (ss ! j)) (spec_open (ss ! i)) = None)"

lemma min_candidate_append:
  assumes "infix_free ss" and m: "min_by open_less (open_candidates ss p) = Some m"
  shows "min_by open_less (open_candidates ss (p @ x)) = Some m"
proof -
  obtain pos i where i: "m = (pos, length (spec_open (ss ! i)), i)" "i < length ss"
      "find_str p (spec_open (ss ! i)) = Some pos"
    using m unfolding min_by_iff set_open_candidates by blast
  have "\<not> open_less (q, length (spec_open (ss ! j)), j) m"
    if j: "j < length ss" "find_str (p @ x) (spec_open (ss ! j)) = Some q" for q j
  proof (cases "find_str p (spec_open (ss ! j))")
    case (Some q')
    then have "q' = q" using find_str_append_Some [OF Some, of x] j(2) by simp
    with Some j(1) m show ?thesis unfolding min_by_iff set_open_candidates by blast
  next
    case None
    let ?oi = "spec_open (ss ! i)" and ?oj = "spec_open (ss ! j)"
    have ij: "i \<noteq> j" using None i(3) by auto
    have li: "pos + length ?oi \<le> length p" "take (length ?oi) (drop pos p) = ?oi"
      using find_str_Some_occurs [OF i(3)] by auto
    have qj: "take (length ?oj) (drop q (p @ x)) = ?oj"
      using find_str_Some_occurs [OF j(2)] by blast
    have out: "length p < q + length ?oj"
    proof (rule ccontr)
      assume "\<not> length p < q + length ?oj"
      with qj have "starts_with (drop q p) ?oj" "q \<le> length p" by (simp_all add: starts_with_def)
      with None show False by (simp add: find_str_None)
    qed
    have "\<not> q \<le> pos"
    proof
      assume q: "q \<le> pos"
      have "take (length ?oi) (drop (pos - q) ?oj) = take (length ?oi) (drop pos (p @ x))"
      proof -
        have "drop (pos - q) ?oj = take (length ?oj - (pos - q)) (drop pos (p @ x))"
          using q by (subst qj [symmetric]) (simp add: drop_take del: drop_append)
        moreover have "length ?oi \<le> length ?oj - (pos - q)" using q out li(1) by linarith
        ultimately show ?thesis by (simp add: min_def del: drop_append)
      qed
      also have "\<dots> = ?oi" using li by simp
      finally have "starts_with (drop (pos - q) ?oj) ?oi" by (simp add: starts_with_def)
      moreover have "pos - q \<le> length ?oj" using q out li(1) by linarith
      ultimately have "find_str ?oj ?oi \<noteq> None" by (auto simp: find_str_None)
      with assms(1) ij i(2) j(1) show False by (simp add: infix_free_def)
    qed
    then show ?thesis by (simp add: i(1))
  qed
  moreover have "m \<in> set (open_candidates ss (p @ x))"
    unfolding set_open_candidates using i find_str_append_Some by blast
  ultimately show ?thesis unfolding min_by_iff by (auto simp: set_open_candidates)
qed

text \<open>Candidates in the held back text are the candidates of the whole text, moved.\<close>

lemma open_candidates_held_back:
  assumes "open_candidates ss p = []"
    and "\<forall>i < length ss. longest_suffix_prefix_len p (spec_open (ss ! i)) \<le> k"
  shows "open_candidates ss (p @ x) =
    map (\<lambda>(pos, r). (length p - k + pos, r)) (open_candidates ss (drop (length p - k) p @ x))"
proof -
  have "map_option (\<lambda>pos. (pos, length (spec_open spec), idx)) (find_str (p @ x) (spec_open spec)) =
      map_option ((\<lambda>(pos, r). (length p - k + pos, r)) \<circ> (\<lambda>pos. (pos, length (spec_open spec), idx)))
        (find_str (drop (length p - k) p @ x) (spec_open spec))"
    if "(idx, spec) \<in> set (enumerate 0 ss)" for idx spec
  proof -
    have "idx < length ss" "spec = ss ! idx" using that by (auto simp: in_set_enumerate_eq)
    with assms find_str_held_back [of p "spec_open spec" k x] show ?thesis
      by (simp add: open_candidates_Nil option.map_comp comp_def)
  qed
  then show ?thesis
    unfolding open_candidates_def by (intro map_filter_map_cong) (auto simp: option.map_comp)
qed

lemma min_by_map:
  "(\<And>a b. lt (f a) (f b) \<longleftrightarrow> lt a b) \<Longrightarrow> min_by lt (map f xs) = map_option f (min_by lt xs)"
proof (cases xs)
  case (Cons y ys)
  assume f: "\<And>a b. lt (f a) (f b) \<longleftrightarrow> lt a b"
  have "foldl (\<lambda>m y. if lt y m then y else m) (f z) (map f ys) = f (foldl (\<lambda>m y. if lt y m then y else m) z ys)" for z
    by (induction ys arbitrary: z) (simp_all add: f)
  with Cons show ?thesis by simp
qed simp

lemma max_open_ge:
  assumes "i < length (specs p)"
  shows "longest_suffix_prefix_len (pending p) (spec_open (specs p ! i)) \<le> max_open_prefix_suffix_len p"
proof -
  let ?f = "\<lambda>spec. longest_suffix_prefix_len (pending p) (spec_open spec)"
  from assms obtain z zs where z: "specs p = z # zs" by (cases "specs p") auto
  have "?f (specs p ! i) \<in> set (map ?f (specs p))" using assms by simp
  then have "?f (specs p ! i) \<in> set (?f z # map ?f zs)" unfolding z by simp
  from foldl_max_ge [OF this] show ?thesis unfolding max_open_prefix_suffix_len_def z by simp
qed

lemma max_open_le: "max_open_prefix_suffix_len p \<le> length (pending p)"
  unfolding max_open_prefix_suffix_len_def
  by (auto split: list.splits intro!: foldl_max_le longest_suffix_prefix_len_le)

section \<open>The loop\<close>

definition add_pending :: "'t inline_hidden_tag_parser \<Rightarrow> ustring \<Rightarrow> 't inline_hidden_tag_parser" where
  "add_pending p x = p\<lparr>pending := pending p @ x\<rparr>"

text \<open>The tags that the constructor accepts, also when one of them is open.\<close>

definition valid_parser :: "'t inline_hidden_tag_parser \<Rightarrow> bool" where
  "valid_parser p \<longleftrightarrow>
     list_all (\<lambda>s. spec_open s \<noteq> [] \<and> spec_close s \<noteq> []) (specs p) \<and>
     (case active p of None \<Rightarrow> True | Some a \<Rightarrow> act_close a \<noteq> [])"

definition vis :: "ustring \<Rightarrow> 'e stream_text_chunk" where
  "vis t = \<lparr>visible_text = t, extracted = []\<rparr>"

definition ext :: "'e \<Rightarrow> 'e stream_text_chunk" where
  "ext e = \<lparr>visible_text = [], extracted = [e]\<rparr>"

lemma chunk_parts:
  "push_visible_prefix out t = append_chunk out (vis t)"
  "out\<lparr>extracted := extracted out @ [e]\<rparr> = append_chunk out (ext e)"
  "append_chunk (vis a) (vis b) = vis (a @ b)" "vis [] = default_chunk"
  by (simp_all add: push_visible_prefix_def append_chunk_def vis_def ext_def default_chunk_def)

lemma push_loop_closes:
  "active p = Some a \<Longrightarrow> find_str (pending p) (act_close a) = Some i \<Longrightarrow>
    push_loop p out = push_loop (p\<lparr>active := None, pending := drop (i + length (act_close a)) (pending p)\<rparr>)
      (append_chunk out (ext \<lparr>ext_tag = act_tag a, ext_content = act_content a @ take i (pending p)\<rparr>))"
  by (subst push_loop.simps) (simp add: chunk_parts)

lemma push_loop_holds:
  assumes "active p = Some a" "find_str (pending p) (act_close a) = None"
    and "n = length (pending p) - longest_suffix_prefix_len (pending p) (act_close a)"
  shows "push_loop p out = Some (p\<lparr>active := Some (a\<lparr>act_content := act_content a @ take n (pending p)\<rparr>),
    pending := drop n (pending p)\<rparr>, out)"
  using assms by (subst push_loop.simps) (simp add: Let_def)

lemma push_loop_opens:
  "active p = None \<Longrightarrow> min_by open_less (open_candidates (specs p) (pending p)) = Some (i, l, j) \<Longrightarrow>
    push_loop p out = push_loop
      (p\<lparr>pending := drop (i + length (spec_open (specs p ! j))) (pending p),
         active := Some \<lparr>act_tag = spec_tag (specs p ! j), act_close = spec_close (specs p ! j), act_content = []\<rparr>\<rparr>)
      (append_chunk out (vis (take i (pending p))))"
  by (subst push_loop.simps) (simp add: find_next_open_def Let_def chunk_parts)

lemma push_loop_rests:
  assumes "active p = None" "open_candidates (specs p) (pending p) = []"
    and "n = length (pending p) - max_open_prefix_suffix_len p"
  shows "push_loop p out = Some (p\<lparr>pending := drop n (pending p)\<rparr>, append_chunk out (vis (take n (pending p))))"
  using assms by (subst push_loop.simps)
    (simp add: find_next_open_def drain_visible_to_suffix_match_def Let_def chunk_parts)

text \<open>The loop ends, and it is resumable: more text may as well arrive after it has ended.\<close>

definition resumes :: "'t inline_hidden_tag_parser \<Rightarrow> bool" where
  "resumes p \<longleftrightarrow> (\<exists>p' o'. valid_parser p' \<and> specs p' = specs p \<and>
    (\<forall>out. push_loop p out = Some (p', append_chunk out o')) \<and>
    (infix_free (specs p) \<longrightarrow>
      (\<forall>x out. push_loop (add_pending p x) out = push_loop (add_pending p' x) (append_chunk out o'))))"

lemma add_pending_simps [simp]:
  "pending (add_pending p x) = pending p @ x" "active (add_pending p x) = active p"
  "specs (add_pending p x) = specs p" "add_pending p [] = p"
  by (simp_all add: add_pending_def)

lemma inline_update_order: "p\<lparr>pending := a, active := b\<rparr> = p\<lparr>active := b, pending := a\<rparr>"
  for p :: "'t inline_hidden_tag_parser"
  by simp

lemma resumes_step:
  assumes "resumes q" "specs q = specs p" "\<And>out. push_loop p out = push_loop q (append_chunk out e)"
    and "\<And>x out. infix_free (specs p) \<Longrightarrow>
      push_loop (add_pending p x) out = push_loop (add_pending q x) (append_chunk out e)"
  shows "resumes p"
proof -
  from assms(1,2) obtain p' o' where p': "valid_parser p'" "specs p' = specs p"
      "\<And>out. push_loop q out = Some (p', append_chunk out o')"
      "\<And>x out. infix_free (specs p) \<Longrightarrow>
        push_loop (add_pending q x) out = push_loop (add_pending p' x) (append_chunk out o')"
    unfolding resumes_def by metis
  with assms(3,4) show ?thesis unfolding resumes_def
    by (intro exI [of _ p'] exI [of _ "append_chunk e o'"]) simp
qed

lemma resumes_closing:
  assumes "active p = Some a" "find_str (pending p) (act_close a) = Some i"
    and "resumes (p\<lparr>active := None, pending := drop (i + length (act_close a)) (pending p)\<rparr>)"
  shows "resumes p"
proof (rule resumes_step [OF assms(3), where
      e = "ext \<lparr>ext_tag = act_tag a, ext_content = act_content a @ take i (pending p)\<rparr>"])
  show "push_loop (add_pending p x) out =
      push_loop (add_pending (p\<lparr>active := None, pending := drop (i + length (act_close a)) (pending p)\<rparr>) x)
        (append_chunk out (ext \<lparr>ext_tag = act_tag a, ext_content = act_content a @ take i (pending p)\<rparr>))" for x out
    using push_loop_closes [of "add_pending p x" a i out] assms(1) find_str_append_Some [OF assms(2), of x]
      find_str_Some_occurs [OF assms(2)]
    by (simp add: add_pending_def)
qed (use push_loop_closes [OF assms(1,2)] in simp_all)

lemma resumes_opening:
  assumes "active p = None" "min_by open_less (open_candidates (specs p) (pending p)) = Some (i, l, j)"
    and "resumes (p\<lparr>pending := drop (i + length (spec_open (specs p ! j))) (pending p),
      active := Some \<lparr>act_tag = spec_tag (specs p ! j), act_close = spec_close (specs p ! j), act_content = []\<rparr>\<rparr>)"
      (is "resumes ?q")
  shows "resumes p"
proof (rule resumes_step [OF assms(3), where e = "vis (take i (pending p))"])
  have "find_str (pending p) (spec_open (specs p ! j)) = Some i"
    using assms(2) unfolding min_by_iff set_open_candidates by blast
  then have len: "i + length (spec_open (specs p ! j)) \<le> length (pending p)"
    using find_str_Some_occurs by blast
  show "push_loop (add_pending p x) out = push_loop (add_pending ?q x) (append_chunk out (vis (take i (pending p))))"
    if "infix_free (specs p)" for x out
    using push_loop_opens [of "add_pending p x" i l j out] assms(1) min_candidate_append [OF that assms(2), of x] len
    by (simp add: add_pending_def inline_update_order)
qed (use push_loop_opens [OF assms(1,2)] in simp_all)

lemma split_at:
  assumes "n \<le> length s"
  shows "take (n + i) (s @ x) = take n s @ take i (drop n s @ x)" "drop (n + i) (s @ x) = drop i (drop n s @ x)"
proof -
  have "drop n (s @ x) = drop n s @ x" "take n (s @ x) = take n s" using assms by simp_all
  then show "take (n + i) (s @ x) = take n s @ take i (drop n s @ x)" by (simp only: take_add)
  show "drop (n + i) (s @ x) = drop i (drop n s @ x)"
    using \<open>drop n (s @ x) = drop n s @ x\<close> by (metis add.commute drop_drop)
qed

lemma take_held_back:
  assumes "L \<le> length (drop n s @ x)" and "n \<le> length s"
  shows "take (length (s @ x) - L) (s @ x) = take n s @ take (length (drop n s @ x) - L) (drop n s @ x)"
    and "drop (length (s @ x) - L) (s @ x) = drop (length (drop n s @ x) - L) (drop n s @ x)"
proof -
  have e: "length (s @ x) - L = n + (length (drop n s @ x) - L)" using assms by simp
  show "take (length (s @ x) - L) (s @ x) = take n s @ take (length (drop n s @ x) - L) (drop n s @ x)"
    and "drop (length (s @ x) - L) (s @ x) = drop (length (drop n s @ x) - L) (drop n s @ x)"
    unfolding e by (rule split_at [OF assms(2)])+
qed

lemma resumes_holding:
  assumes "valid_parser p" "active p = Some a" "find_str (pending p) (act_close a) = None"
  shows "resumes p"
proof -
  define k n where "k = longest_suffix_prefix_len (pending p) (act_close a)" and "n = length (pending p) - k"
  define a' where "a' = a\<lparr>act_content := act_content a @ take n (pending p)\<rparr>"
  define p' where "p' = p\<lparr>active := Some a', pending := drop n (pending p)\<rparr>"
  have stop: "push_loop p out = Some (p', out)" for out
    using push_loop_holds [OF assms(2,3)] by (simp add: p'_def a'_def k_def n_def)
  have k: "k \<le> length (pending p)" unfolding k_def by (rule longest_suffix_prefix_len_le)
  have n: "n \<le> length (pending p)" by (simp add: n_def)
  have "push_loop (add_pending p x) out = push_loop (add_pending p' x) out" for x out
  proof -
    let ?s = "drop n (pending p) @ x"
    have f: "find_str (pending p @ x) (act_close a) = map_option (\<lambda>i. n + i) (find_str ?s (act_close a))"
      unfolding n_def by (rule find_str_held_back [OF assms(3)]) (simp add: k_def)
    have l: "longest_suffix_prefix_len (pending p @ x) (act_close a) = longest_suffix_prefix_len ?s (act_close a)"
      unfolding n_def by (rule longest_suffix_prefix_held_back) (simp add: k_def)
    have act: "active (add_pending p x) = Some a" "active (add_pending p' x) = Some a'"
        "act_close a' = act_close a" "act_tag a' = act_tag a" "pending (add_pending p' x) = ?s"
      using assms(2) by (simp_all add: p'_def a'_def)
    show ?thesis
    proof (cases "find_str ?s (act_close a)")
      case (Some i)
      with f push_loop_closes [OF act(1), of "n + i" out] push_loop_closes [OF act(2), of i out] n
      show ?thesis
        by (simp add: act a'_def p'_def add_pending_def add.assoc split_at [OF n] del: take_append drop_append)
    next
      case None
      let ?L = "longest_suffix_prefix_len ?s (act_close a)"
      have L: "?L \<le> length ?s" by (rule longest_suffix_prefix_len_le)
      show ?thesis
        using push_loop_holds [OF act(1) _ refl, of out] push_loop_holds [OF act(2) _ refl, of out] None f
          take_held_back [OF L n]
        by (simp only: act l add_pending_simps option.map)
          (simp add: a'_def p'_def add_pending_def inline_update_order)
    qed
  qed
  moreover have "valid_parser p'" using assms(1,2) by (simp add: valid_parser_def p'_def a'_def)
  moreover have "specs p' = specs p" by (simp add: p'_def)
  ultimately show ?thesis unfolding resumes_def
    by (intro exI [of _ p'] exI [of _ default_chunk]) (simp add: stop)
qed

lemma resumes_resting:
  assumes "valid_parser p" "active p = None" "open_candidates (specs p) (pending p) = []"
  shows "resumes p"
proof -
  define k n where "k = max_open_prefix_suffix_len p" and "n = length (pending p) - k"
  define p' where "p' = p\<lparr>pending := drop n (pending p)\<rparr>"
  have stop: "push_loop p out = Some (p', append_chunk out (vis (take n (pending p))))" for out
    using push_loop_rests [OF assms(2,3)] by (simp add: p'_def k_def n_def)
  have n: "n \<le> length (pending p)" by (simp add: n_def)
  have ge: "\<forall>i < length (specs p). longest_suffix_prefix_len (pending p) (spec_open (specs p ! i)) \<le> k"
    unfolding k_def using max_open_ge by blast
  have "push_loop (add_pending p x) out =
      push_loop (add_pending p' x) (append_chunk out (vis (take n (pending p))))" for x out
  proof -
    let ?s = "drop n (pending p) @ x"
    let ?sh = "\<lambda>(pos, r). (n + pos, r) :: nat \<times> nat \<times> nat"
    have c: "open_candidates (specs p) (pending p @ x) = map ?sh (open_candidates (specs p) ?s)"
      unfolding n_def by (rule open_candidates_held_back [OF assms(3) ge])
    have m: "min_by open_less (open_candidates (specs p) (pending p @ x)) =
        map_option ?sh (min_by open_less (open_candidates (specs p) ?s))"
      unfolding c by (rule min_by_map) (auto split: prod.splits)
    have act: "active (add_pending p x) = None" "active (add_pending p' x) = None"
        "specs (add_pending p' x) = specs p" "pending (add_pending p' x) = ?s"
      using assms(2) by (simp_all add: p'_def)
    show ?thesis
    proof (cases "min_by open_less (open_candidates (specs p) ?s)")
      case (Some t)
      obtain i l j where t: "t = (i, l, j)" by (metis prod.exhaust)
      with Some m push_loop_opens [OF act(1), of "n + i" l j out]
        push_loop_opens [OF act(2), of i l j "append_chunk out (vis (take n (pending p)))"] n
      show ?thesis
        by (simp add: act p'_def add_pending_def inline_update_order chunk_parts add.assoc split_at [OF n]
            del: take_append drop_append)
    next
      case None
      have "map (\<lambda>spec. longest_suffix_prefix_len (pending p @ x) (spec_open spec)) (specs p) =
          map (\<lambda>spec. longest_suffix_prefix_len ?s (spec_open spec)) (specs p)"
        unfolding n_def using longest_suffix_prefix_held_back ge
        by (intro map_cong refl) (metis in_set_conv_nth)
      then have L: "max_open_prefix_suffix_len (add_pending p x) = max_open_prefix_suffix_len (add_pending p' x)"
        unfolding max_open_prefix_suffix_len_def act by (simp only: add_pending_simps)
      let ?L = "max_open_prefix_suffix_len (add_pending p' x)"
      have "?L \<le> length ?s" using max_open_le [of "add_pending p' x"] by (simp only: act)
      with None m c take_held_back [OF _ n, of ?L x] push_loop_rests [OF act(1) _ refl, of out]
        push_loop_rests [OF act(2) _ refl, of "append_chunk out (vis (take n (pending p)))"]
      show ?thesis
        by (simp only: act L add_pending_simps min_by_None list.map)
          (simp add: p'_def add_pending_def inline_update_order chunk_parts)
    qed
  qed
  moreover have "valid_parser p'" using assms(1,2) by (simp add: valid_parser_def p'_def)
  moreover have "specs p' = specs p" by (simp add: p'_def)
  ultimately show ?thesis unfolding resumes_def
    by (intro exI [of _ p'] exI [of _ "vis (take n (pending p))"]) (simp add: stop)
qed

lemma push_loop_resumes: "valid_parser p \<Longrightarrow> resumes p"
proof (induction p rule: measure_induct_rule [of "\<lambda>p. length (pending p)"])
  case (less p)
  show ?case
  proof (cases "active p")
    case a: (Some a)
    have ne: "act_close a \<noteq> []" using less.prems a by (simp add: valid_parser_def)
    show ?thesis
    proof (cases "find_str (pending p) (act_close a)")
      case (Some i)
      show ?thesis
      proof (rule resumes_closing [OF a Some less.IH])
        show "length (pending (p\<lparr>active := None, pending := drop (i + length (act_close a)) (pending p)\<rparr>)) <
            length (pending p)"
          using find_str_Some_occurs [OF Some] ne by (cases "act_close a") auto
      qed (use less.prems in \<open>simp add: valid_parser_def split: option.splits\<close>)
    qed (rule resumes_holding [OF less.prems a])
  next
    case n: None
    show ?thesis
    proof (cases "min_by open_less (open_candidates (specs p) (pending p))")
      case (Some m)
      obtain i l j where m: "m = (i, l, j)" by (metis prod.exhaust)
      have j: "j < length (specs p)" "find_str (pending p) (spec_open (specs p ! j)) = Some i"
        using Some unfolding m min_by_iff set_open_candidates by auto
      have ne: "spec_open (specs p ! j) \<noteq> []" "spec_close (specs p ! j) \<noteq> []"
        using less.prems j(1) by (auto simp: valid_parser_def list_all_length)
      show ?thesis
      proof (rule resumes_opening [OF n Some [unfolded m] less.IH])
        show "length (pending (p\<lparr>pending := drop (i + length (spec_open (specs p ! j))) (pending p),
            active := Some \<lparr>act_tag = spec_tag (specs p ! j), act_close = spec_close (specs p ! j),
              act_content = []\<rparr>\<rparr>)) < length (pending p)"
          using find_str_Some_occurs [OF j(2)] ne(1) by (cases "spec_open (specs p ! j)") auto
      qed (use less.prems ne(2) in \<open>simp add: valid_parser_def\<close>)
    qed (simp add: resumes_resting [OF less.prems n])
  qed
qed

lemma inline_push_strE:
  assumes "valid_parser p"
  obtains p' o' where "valid_parser p'" "specs p' = specs p"
    "\<And>out. push_loop (add_pending p c) out = Some (p', append_chunk out o')"
    "inline_push_str p c = Some (p', o')"
    "\<And>x out. infix_free (specs p) \<Longrightarrow>
      push_loop (add_pending p (c @ x)) out = push_loop (add_pending p' x) (append_chunk out o')"
proof -
  have "resumes (add_pending p c)"
    using assms by (intro push_loop_resumes) (simp add: valid_parser_def)
  then obtain p' o' where "valid_parser p'" "specs p' = specs p"
      "\<And>out. push_loop (add_pending p c) out = Some (p', append_chunk out o')"
      "\<And>x out. infix_free (specs p) \<Longrightarrow>
        push_loop (add_pending (add_pending p c) x) out = push_loop (add_pending p' x) (append_chunk out o')"
    unfolding resumes_def add_pending_simps by metis
  then show thesis
    using that [of p' o'] by (simp add: add_pending_def inline_push_str_def)
qed

interpretation inline: stream_text_parser inline_push_str inline_finish
  "\<lambda>p. valid_parser p \<and> infix_free (specs p)" "\<lambda>es. es"
proof
  fix p :: "'a inline_hidden_tag_parser" and c
  assume "valid_parser p \<and> infix_free (specs p)"
  then show "\<exists>p' out. inline_push_str p c = Some (p', out) \<and> valid_parser p' \<and> infix_free (specs p')"
    by (metis inline_push_strE)
next
  fix p :: "'a inline_hidden_tag_parser" and a b s1 o1 s2 o2
  assume v: "valid_parser p \<and> infix_free (specs p)"
    and a: "inline_push_str p a = Some (s1, o1)" and b: "inline_push_str s1 b = Some (s2, o2)"
  from v obtain p' o' where p: "valid_parser p'" "inline_push_str p a = Some (p', o')"
      "push_loop (add_pending p (a @ b)) default_chunk = push_loop (add_pending p' b) (append_chunk default_chunk o')"
    by (metis inline_push_strE)
  with a have s1: "p' = s1" "o' = o1" by simp_all
  obtain q oq where "push_loop (add_pending s1 b) o1 = Some (q, append_chunk o1 oq)" "inline_push_str s1 b = Some (q, oq)"
    using p(1) unfolding s1 by (metis inline_push_strE)
  with b p(3) show "\<exists>out. inline_push_str p (a @ b) = Some (s2, out) \<and> same_output (\<lambda>es. es) out (append_chunk o1 o2)"
    by (simp add: s1 inline_push_str_def add_pending_def [symmetric] same_output_def)
qed simp

interpretation citation: stream_text_parser citation_push_str citation_finish
  "\<lambda>p. valid_parser p \<and> infix_free (specs p)" "\<lambda>es. es"
proof
  fix p :: citation_stream_parser and c
  assume "valid_parser p \<and> infix_free (specs p)"
  from inline.text_returns [OF this, of c]
  show "\<exists>p' out. citation_push_str p c = Some (p', out) \<and> valid_parser p' \<and> infix_free (specs p')"
    by (auto simp: citation_push_str_def)
next
  fix p :: citation_stream_parser and a b s1 o1 s2 o2
  assume v: "valid_parser p \<and> infix_free (specs p)"
    and a: "citation_push_str p a = Some (s1, o1)" and b: "citation_push_str s1 b = Some (s2, o2)"
  from a b obtain i1 i2 where i: "inline_push_str p a = Some (s1, i1)" "o1 = citation_chunk i1"
      "inline_push_str s1 b = Some (s2, i2)" "o2 = citation_chunk i2"
    by (auto simp: citation_push_str_def)
  from inline.text_append [OF v i(1,3)] i(2,4)
  show "\<exists>out. citation_push_str p (a @ b) = Some (s2, out) \<and> same_output (\<lambda>es. es) out (append_chunk o1 o2)"
    by (auto simp: citation_push_str_def same_output_def citation_chunk_def)
qed simp

section \<open>What stripping leaves\<close>

definition citation_parser :: "ustring \<Rightarrow> citation_stream_parser" where
  "citation_parser text = \<lparr>specs = [citation_spec], pending = text, active = None\<rparr>"

lemma citation_new_eq: "citation_new = Some (citation_parser [])"
  by (simp add: citation_new_def inline_new_def citation_spec_def CITATION_OPEN_def CITATION_CLOSE_def
      lit_def citation_parser_def)

lemma citation_parser_valid: "valid_parser (citation_parser text)" "infix_free (specs (citation_parser text))"
  by (simp_all add: valid_parser_def citation_parser_def citation_spec_def CITATION_OPEN_def
      CITATION_CLOSE_def lit_def infix_free_def)

definition end_result :: "citation_stream_parser \<times> citation_tag extracted_inline_tag stream_text_chunk \<Rightarrow> ustring \<times> ustring list" where
  "end_result r = (case r of (p, out) \<Rightarrow>
     (case append_chunk out (snd (inline_finish p)) of c \<Rightarrow> (visible_text c, map ext_content (extracted c))))"

lemma strip_citations_loop: "strip_citations text = map_option end_result (push_loop (citation_parser text) default_chunk)"
  unfolding strip_citations_def citation_new_eq citation_push_str_def inline_push_str_def
  by (cases "push_loop (citation_parser text) default_chunk")
    (auto simp: citation_parser_def end_result_def citation_finish_def citation_chunk_def Let_def
      split: prod.splits)

lemma citation_candidates:
  "open_candidates (specs (citation_parser text)) s =
    (case find_str s CITATION_OPEN of None \<Rightarrow> [] | Some i \<Rightarrow> [(i, length CITATION_OPEN, 0)])"
  by (simp add: open_candidates_def citation_parser_def citation_spec_def List.map_filter_def split: option.split)

lemma citation_push_empty: "citation_push_str (citation_parser []) [] = Some (citation_parser [], default_chunk)"
proof -
  let ?p = "citation_parser []"
  have "push_loop ?p default_chunk = Some (?p, default_chunk)"
    using push_loop_rests [OF _ _ refl, of ?p default_chunk] citation_candidates [of "[]" "[]"]
    by (simp add: citation_parser_def CITATION_OPEN_def lit_def chunk_parts)
  then show ?thesis
    by (simp add: citation_push_str_def inline_push_str_def citation_parser_def citation_chunk_def default_chunk_def)
qed

text \<open>However a message is cut into chunks, the citation parser shows the text and extracts the citations
  that stripping the whole message at once gives.\<close>

lemma citation_stream:
  "case (citation_new, strip_citations (concat chunks)) of
     (Some parser, Some (text, citations)) \<Rightarrow>
       run_stream append_chunk default_chunk citation_push_str citation_finish parser chunks =
         Some \<lparr>visible_text = text, extracted = citations\<rparr>
   | _ \<Rightarrow> False"
proof -
  let ?p = "citation_parser []"
  obtain out out' where o: "run_stream append_chunk default_chunk citation_push_str citation_finish ?p chunks = Some out"
      "run_stream append_chunk default_chunk citation_push_str citation_finish ?p [concat chunks] = Some out'"
      "same_output (\<lambda>es. es) out out'"
    using citation.run_stream_chunks [OF _ citation_push_empty, of chunks] citation_parser_valid [of "[]"] by blast
  then have "out = out'" by (simp add: same_output_def)
  moreover have "strip_citations (concat chunks) = Some (visible_text out', extracted out')"
    using o(2) by (auto simp: strip_citations_def citation_new_eq run_stream_def split: option.splits prod.splits)
  ultimately show ?thesis using o(1) by (simp add: citation_new_eq)
qed

section \<open>Properties\<close>

text \<open>C38.  The loop of the tag parser ends: a parser that the constructor accepts digests every stream of
  chunks, whatever its tags.\<close>

theorem inline_parser_returns:
  assumes "inline_new ss = Some p"
  shows "\<exists>p' out. push_all append_chunk default_chunk inline_push_str p chunks = Some (p', out)"
proof -
  have "\<exists>p' out. push_all append_chunk default_chunk inline_push_str p chunks = Some (p', out)" if "valid_parser p" for p :: "'a inline_hidden_tag_parser"
    using that
  proof (induction chunks arbitrary: p)
    case (Cons c cs)
    from Cons.prems obtain p' o' where "valid_parser p'" "inline_push_str p c = Some (p', o')"
      by (metis inline_push_strE)
    with Cons.IH [of p'] show ?case by auto
  qed simp
  moreover have "valid_parser p"
    using assms by (auto simp: inline_new_def valid_parser_def split: if_splits)
  ultimately show ?thesis by blast
qed

theorem inline_parser_returns_witness:
  "\<exists>p' out. push_all append_chunk default_chunk inline_push_str
     \<lparr>specs = [\<lparr>spec_tag = True, spec_open = lit ''<a>'', spec_close = lit ''</a>''\<rparr>], pending = [], active = None\<rparr>
     [lit ''x<'', lit ''a>y''] = Some (p', out)"
  by (rule inline_parser_returns [of "[\<lparr>spec_tag = True, spec_open = lit ''<a>'', spec_close = lit ''</a>''\<rparr>]"])
    (simp add: inline_new_def lit_def)

text \<open>Stripping is the leftmost, non-nested matching that is documented: text without an opening tag is
  kept; otherwise the text before the first opening tag is kept, the text up to the first closing tag
  after it is a citation and the rest is stripped in the same way; without a closing tag all the rest
  is a citation.\<close>

theorem strip_citations_spec:
  "strip_citations text =
     (case find_str text CITATION_OPEN of
        None \<Rightarrow> Some (text, [])
      | Some i \<Rightarrow>
          (let body = drop (i + length CITATION_OPEN) text
           in case find_str body CITATION_CLOSE of
                None \<Rightarrow> Some (take i text, [body])
              | Some j \<Rightarrow>
                  map_option (\<lambda>(v, cs). (take i text @ v, take j body # cs))
                    (strip_citations (drop (j + length CITATION_CLOSE) body))))"
proof (cases "find_str text CITATION_OPEN")
  case None
  let ?n = "length text - max_open_prefix_suffix_len (citation_parser text)"
  have "push_loop (citation_parser text) default_chunk =
      Some (citation_parser (drop ?n text), vis (take ?n text))"
    using push_loop_rests [of "citation_parser text" ?n default_chunk] None citation_candidates [of "text" "text"]
    by (simp add: citation_parser_def)
  then show ?thesis using None
    by (simp add: strip_citations_loop end_result_def inline_finish_def citation_parser_def vis_def)
next
  case (Some i)
  define body where "body = drop (i + length CITATION_OPEN) text"
  define p where "p = \<lparr>specs = [citation_spec], pending = body,
    active = Some \<lparr>act_tag = Citation, act_close = CITATION_CLOSE, act_content = []\<rparr>\<rparr>"
  have l: "push_loop (citation_parser text) default_chunk = push_loop p (vis (take i text))"
    using push_loop_opens [of "citation_parser text" i "length CITATION_OPEN" 0 default_chunk] Some
      citation_candidates [of "text" "text"]
    by (simp add: citation_parser_def p_def body_def citation_spec_def)
  show ?thesis
  proof (cases "find_str body CITATION_CLOSE")
    case None
    then show ?thesis using Some push_loop_holds [of p _ _ "vis (take i text)"]
      by (simp add: strip_citations_loop l p_def body_def [symmetric] end_result_def inline_finish_def vis_def)
  next
    case j: (Some j)
    let ?rest = "drop (j + length CITATION_CLOSE) body"
    let ?e = "ext \<lparr>ext_tag = Citation, ext_content = take j body\<rparr>"
    obtain q oq where q: "\<And>out. push_loop (citation_parser ?rest) out = Some (q, append_chunk out oq)"
      using push_loop_resumes [OF citation_parser_valid(1)] unfolding resumes_def by metis
    have "push_loop p (vis (take i text)) = push_loop (citation_parser ?rest) (append_chunk (vis (take i text)) ?e)"
      using push_loop_closes [of p _ j "vis (take i text)"] j by (simp add: p_def citation_parser_def)
    then show ?thesis using Some j q [of default_chunk] q [of "append_chunk (vis (take i text)) ?e"]
      by (simp add: strip_citations_loop l body_def [symmetric] end_result_def vis_def ext_def)
  qed
qed

end
