(* ===== verification/Tagged_Lines.thy ===== *)
theory Tagged_Lines
  imports Stream_Text
begin

text \<open>
  The parser for blocks between tags that stand alone on a line
  (\<open>utils/stream-parser/src/tagged\_line\_parser.rs\<close>) and its instance for proposed plans
  (\<open>proposed\_plan.rs\<close>).  Segments of text may be cut anywhere; the events of a segment list are its
  characters, with the tag they belong to, and its starts and ends of blocks.
\<close>

section \<open>The parser\<close>

record 't tag_spec =
  tl_open :: ustring
  tl_close :: ustring
  tl_tag :: 't

datatype 't tagged_line_segment =
    Normal ustring
  | TagStart 't
  | TagDelta 't ustring
  | TagEnd 't

record 't tagged_line_parser =
  tl_specs :: "'t tag_spec list"
  active_tag :: "'t option"
  detect_tag :: bool
  line_buffer :: ustring

definition tagged_new :: "'t tag_spec list \<Rightarrow> 't tagged_line_parser" where
  "tagged_new ss = \<lparr>tl_specs = ss, active_tag = None, detect_tag = True, line_buffer = []\<rparr>"

fun push_segment :: "'t tagged_line_segment list \<Rightarrow> 't tagged_line_segment \<Rightarrow> 't tagged_line_segment list" where
  "push_segment segments (Normal delta) =
     (if delta = [] then segments
      else if segments = [] then [Normal delta]
      else
        (case last segments of
           Normal existing \<Rightarrow> butlast segments @ [Normal (existing @ delta)]
         | _ \<Rightarrow> segments @ [Normal delta]))"
| "push_segment segments (TagDelta tag delta) =
     (if delta = [] then segments
      else if segments = [] then [TagDelta tag delta]
      else
        (case last segments of
           TagDelta existing_tag existing \<Rightarrow>
             if existing_tag = tag then butlast segments @ [TagDelta existing_tag (existing @ delta)]
             else segments @ [TagDelta tag delta]
         | _ \<Rightarrow> segments @ [TagDelta tag delta]))"
| "push_segment segments (TagStart tag) = segments @ [TagStart tag]"
| "push_segment segments (TagEnd tag) = segments @ [TagEnd tag]"

definition push_text ::
    "'t tagged_line_parser \<Rightarrow> ustring \<Rightarrow> 't tagged_line_segment list \<Rightarrow> 't tagged_line_segment list" where
  "push_text p txt segments =
     (case active_tag p of
        Some tag \<Rightarrow> push_segment segments (TagDelta tag txt)
      | None \<Rightarrow> push_segment segments (Normal txt))"

definition is_tag_prefix :: "'t tagged_line_parser \<Rightarrow> ustring \<Rightarrow> bool" where
  "is_tag_prefix p slug =
     (let slug = trim_end slug
      in list_ex (\<lambda>spec. starts_with (tl_open spec) slug \<or> starts_with (tl_close spec) slug) (tl_specs p))"

definition match_open :: "'t tagged_line_parser \<Rightarrow> ustring \<Rightarrow> 't option" where
  "match_open p slug = map_option tl_tag (find (\<lambda>spec. tl_open spec = slug) (tl_specs p))"

definition match_close :: "'t tagged_line_parser \<Rightarrow> ustring \<Rightarrow> 't option" where
  "match_close p slug = map_option tl_tag (find (\<lambda>spec. tl_close spec = slug) (tl_specs p))"

definition line_slug :: "ustring \<Rightarrow> ustring" where
  "line_slug line =
     (let without_newline = (case strip_suffix line [newline] of Some l \<Rightarrow> l | None \<Rightarrow> line)
      in trim_end (trim_start without_newline))"

definition finish_line ::
    "'t tagged_line_parser \<Rightarrow> 't tagged_line_segment list \<Rightarrow>
     't tagged_line_parser \<times> 't tagged_line_segment list" where
  "finish_line p segments =
     (let line = line_buffer p;
          p = p\<lparr>line_buffer := []\<rparr>;
          slug = line_slug line
      in case (match_open p slug, active_tag p) of
           (Some tag, None) \<Rightarrow>
             (p\<lparr>active_tag := Some tag, detect_tag := True\<rparr>, push_segment segments (TagStart tag))
         | _ \<Rightarrow>
             (case match_close p slug of
                Some tag \<Rightarrow>
                  if active_tag p = Some tag
                  then (p\<lparr>active_tag := None, detect_tag := True\<rparr>, push_segment segments (TagEnd tag))
                  else (p\<lparr>detect_tag := True\<rparr>, push_text p line segments)
              | None \<Rightarrow> (p\<lparr>detect_tag := True\<rparr>, push_text p line segments)))"

definition flush_run ::
    "'t tagged_line_parser \<Rightarrow> ustring \<Rightarrow> 't tagged_line_segment list \<Rightarrow> 't tagged_line_segment list" where
  "flush_run p run segments = (if run \<noteq> [] then push_text p run segments else segments)"

text \<open>The loop of \<open>parse\<close> over the characters, with its local \<open>run\<close> and \<open>segments\<close>.\<close>

fun parse_chars ::
    "'t tagged_line_parser \<Rightarrow> ustring \<Rightarrow> 't tagged_line_segment list \<Rightarrow> ustring \<Rightarrow>
     't tagged_line_parser \<times> 't tagged_line_segment list" where
  "parse_chars p run segments [] = (p, flush_run p run segments)"
| "parse_chars p run segments (ch # cs) =
     (if detect_tag p then
        (let segments = flush_run p run segments;
             p = p\<lparr>line_buffer := line_buffer p @ [ch]\<rparr>
         in if ch = newline
            then (case finish_line p segments of (p, segments) \<Rightarrow> parse_chars p [] segments cs)
            else
              (let slug = trim_start (line_buffer p)
               in if slug = [] \<or> is_tag_prefix p slug then parse_chars p [] segments cs
                  else
                    (let buffered = line_buffer p;
                         p = p\<lparr>line_buffer := [], detect_tag := False\<rparr>
                     in parse_chars p [] (push_text p buffered segments) cs)))
      else
        (let run = run @ [ch]
         in if ch = newline
            then parse_chars (p\<lparr>detect_tag := True\<rparr>) [] (push_text p run segments) cs
            else parse_chars p run segments cs))"

definition tagged_parse ::
    "'t tagged_line_parser \<Rightarrow> ustring \<Rightarrow> 't tagged_line_parser \<times> 't tagged_line_segment list" where
  "tagged_parse p delta = parse_chars p [] [] delta"

definition finish_buffered ::
    "'t tagged_line_parser \<Rightarrow> 't tagged_line_parser \<times> 't tagged_line_segment list" where
  "finish_buffered p =
     (if line_buffer p = [] then (p, [])
      else
        (let buffered = line_buffer p;
             p = p\<lparr>line_buffer := []\<rparr>;
             slug = line_slug buffered
         in case (match_open p slug, active_tag p) of
              (Some tag, None) \<Rightarrow> (p\<lparr>active_tag := Some tag\<rparr>, push_segment [] (TagStart tag))
            | _ \<Rightarrow>
                (case match_close p slug of
                   Some tag \<Rightarrow>
                     if active_tag p = Some tag
                     then (p\<lparr>active_tag := None\<rparr>, push_segment [] (TagEnd tag))
                     else (p, push_text p buffered [])
                 | None \<Rightarrow> (p, push_text p buffered []))))"

definition tagged_finish ::
    "'t tagged_line_parser \<Rightarrow> 't tagged_line_parser \<times> 't tagged_line_segment list" where
  "tagged_finish p =
     (case finish_buffered p of
        (p, segments) \<Rightarrow>
          (case active_tag p of
             Some tag \<Rightarrow> (p\<lparr>active_tag := None, detect_tag := True\<rparr>, push_segment segments (TagEnd tag))
           | None \<Rightarrow> (p\<lparr>detect_tag := True\<rparr>, segments)))"

section \<open>Proposed plans\<close>

definition OPEN_TAG :: ustring where
  "OPEN_TAG = lit ''<proposed_plan>''"

definition CLOSE_TAG :: ustring where
  "CLOSE_TAG = lit ''</proposed_plan>''"

datatype plan_tag = ProposedPlan

datatype proposed_plan_segment =
    PlanNormal ustring
  | ProposedPlanStart
  | ProposedPlanDelta ustring
  | ProposedPlanEnd

type_synonym proposed_plan_parser = "plan_tag tagged_line_parser"

definition plan_new :: proposed_plan_parser where
  "plan_new = tagged_new [\<lparr>tl_open = OPEN_TAG, tl_close = CLOSE_TAG, tl_tag = ProposedPlan\<rparr>]"

fun map_segment :: "plan_tag tagged_line_segment \<Rightarrow> proposed_plan_segment" where
  "map_segment (Normal txt) = PlanNormal txt"
| "map_segment (TagStart ProposedPlan) = ProposedPlanStart"
| "map_segment (TagDelta ProposedPlan txt) = ProposedPlanDelta txt"
| "map_segment (TagEnd ProposedPlan) = ProposedPlanEnd"

definition map_segments :: "plan_tag tagged_line_segment list \<Rightarrow> proposed_plan_segment stream_text_chunk" where
  "map_segments segments =
     foldl (\<lambda>out segment.
       let mapped = map_segment segment;
           out = (case mapped of
                    PlanNormal txt \<Rightarrow> out\<lparr>visible_text := visible_text out @ txt\<rparr>
                  | _ \<Rightarrow> out)
       in out\<lparr>extracted := extracted out @ [mapped]\<rparr>) default_chunk segments"

definition plan_push_str ::
    "proposed_plan_parser \<Rightarrow> ustring \<Rightarrow> proposed_plan_parser \<times> proposed_plan_segment stream_text_chunk" where
  "plan_push_str p chunk = (case tagged_parse p chunk of (p', segs) \<Rightarrow> (p', map_segments segs))"

definition plan_finish ::
    "proposed_plan_parser \<Rightarrow> proposed_plan_parser \<times> proposed_plan_segment stream_text_chunk" where
  "plan_finish p = (case tagged_finish p of (p', segs) \<Rightarrow> (p', map_segments segs))"

definition strip_proposed_plan_blocks :: "ustring \<Rightarrow> ustring" where
  "strip_proposed_plan_blocks txt =
     (case plan_push_str plan_new txt of
        (p, out) \<Rightarrow> visible_text out @ visible_text (snd (plan_finish p)))"

fun plan_step :: "bool \<times> ustring \<Rightarrow> proposed_plan_segment \<Rightarrow> bool \<times> ustring" where
  "plan_step (saw, plan_text) ProposedPlanStart = (True, [])"
| "plan_step (saw, plan_text) (ProposedPlanDelta delta) = (saw, plan_text @ delta)"
| "plan_step st _ = st"

definition extract_proposed_plan_text :: "ustring \<Rightarrow> ustring option" where
  "extract_proposed_plan_text txt =
     (case plan_push_str plan_new txt of
        (p, out) \<Rightarrow>
          (case foldl plan_step (False, []) (extracted out @ extracted (snd (plan_finish p))) of
             (saw, plan_text) \<Rightarrow> if saw then Some plan_text else None))"

section \<open>Events\<close>

datatype 't text_event = Ch uchar | TagCh 't uchar | TagOpen 't | TagClosed 't

fun segment_events :: "'t tagged_line_segment \<Rightarrow> 't text_event list" where
  "segment_events (Normal txt) = map Ch txt"
| "segment_events (TagStart tag) = [TagOpen tag]"
| "segment_events (TagDelta tag txt) = map (TagCh tag) txt"
| "segment_events (TagEnd tag) = [TagClosed tag]"

definition segments_events :: "'t tagged_line_segment list \<Rightarrow> 't text_event list" where
  "segments_events segs = concat (map segment_events segs)"

lemma segments_events_simps [simp]:
  "segments_events [] = []" "segments_events (s # ss) = segment_events s @ segments_events ss"
  "segments_events (xs @ ys) = segments_events xs @ segments_events ys"
  by (simp_all add: segments_events_def)

lemma segments_events_push [simp]:
  "segments_events (push_segment segs s) = segments_events segs @ segment_events s"
proof (cases segs rule: rev_cases)
  case (snoc xs x)
  then show ?thesis by (cases s) (auto split: tagged_line_segment.splits)
qed (cases s, auto)

declare push_segment.simps [simp del]

definition text_events :: "'t option \<Rightarrow> ustring \<Rightarrow> 't text_event list" where
  "text_events act txt = (case act of None \<Rightarrow> map Ch txt | Some tag \<Rightarrow> map (TagCh tag) txt)"

lemma text_events_simps [simp]:
  "text_events act [] = []" "text_events act (a @ b) = text_events act a @ text_events act b"
  by (simp_all add: text_events_def split: option.split)

lemma segments_events_push_text [simp]:
  "segments_events (push_text p txt segs) = segments_events segs @ text_events (active_tag p) txt"
  by (simp add: push_text_def text_events_def split: option.split)

lemma segments_events_flush [simp]:
  "segments_events (flush_run p run segs) = segments_events segs @ text_events (active_tag p) run"
  by (simp add: flush_run_def)

text \<open>The segments collected so far and the pending run only contribute their events.\<close>

lemma finish_line_acc:
  "fst (finish_line p segs) = fst (finish_line p [])"
  "segments_events (snd (finish_line p segs)) = segments_events segs @ segments_events (snd (finish_line p []))"
  by (auto simp: finish_line_def Let_def split: option.splits)

lemma parse_chars_flush:
  "fst (parse_chars p run segs cs) = fst (parse_chars p [] [] cs) \<and>
   segments_events (snd (parse_chars p run segs cs)) =
     segments_events segs @ text_events (active_tag p) run @ segments_events (snd (parse_chars p [] [] cs))"
proof (induction cs arbitrary: p run segs)
  case (Cons ch cs)
  show ?case
  proof (cases "detect_tag p")
    case True
    define p1 where "p1 = p\<lparr>line_buffer := line_buffer p @ [ch]\<rparr>"
    have act: "active_tag p1 = active_tag p" by (simp add: p1_def)
    consider "ch = newline" | "ch \<noteq> newline" "trim_start (line_buffer p1) = [] \<or> is_tag_prefix p1 (trim_start (line_buffer p1))"
      | "ch \<noteq> newline" "\<not> (trim_start (line_buffer p1) = [] \<or> is_tag_prefix p1 (trim_start (line_buffer p1)))"
      by blast
    then show ?thesis
    proof cases
      case 1
      have e: "parse_chars p run segs (ch # cs) =
          parse_chars (fst (finish_line p1 segs')) [] (snd (finish_line p1 segs')) cs"
        if "segs' = flush_run p run segs" for run segs segs'
        using True 1 that by (simp add: p1_def Let_def split: prod.split)
      show ?thesis
        unfolding e [OF refl]
        using Cons.IH [of "fst (finish_line p1 (flush_run p run segs))" "[]" "snd (finish_line p1 (flush_run p run segs))"]
          Cons.IH [of "fst (finish_line p1 (flush_run p [] []))" "[]" "snd (finish_line p1 (flush_run p [] []))"]
          finish_line_acc [of p1 "flush_run p run segs"] finish_line_acc [of p1 "flush_run p [] []"]
        by simp
    next
      case 2
      have e: "parse_chars p run segs (ch # cs) = parse_chars p1 [] (flush_run p run segs) cs" for run segs
        using True 2 by (simp add: p1_def Let_def)
      show ?thesis
        unfolding e using Cons.IH [of p1 "[]" "flush_run p run segs"] Cons.IH [of p1 "[]" "flush_run p [] []"] by simp
    next
      case 3
      let ?p2 = "p1\<lparr>line_buffer := [], detect_tag := False\<rparr>"
      have e: "parse_chars p run segs (ch # cs) =
          parse_chars ?p2 [] (push_text ?p2 (line_buffer p1) (flush_run p run segs)) cs" for run segs
        using True 3 by (simp add: p1_def Let_def)
      show ?thesis
        unfolding e using Cons.IH [of ?p2 "[]" "push_text ?p2 (line_buffer p1) (flush_run p run segs)"]
          Cons.IH [of ?p2 "[]" "push_text ?p2 (line_buffer p1) (flush_run p [] [])"] by (simp add: act)
    qed
  next
    case False
    let ?p2 = "p\<lparr>detect_tag := True\<rparr>"
    have e: "parse_chars p run segs (ch # cs) =
        (if ch = newline then parse_chars ?p2 [] (push_text p (run @ [ch]) segs) cs
         else parse_chars p (run @ [ch]) segs cs)" for run segs
      using False by (simp add: Let_def)
    show ?thesis
      unfolding e using Cons.IH [of ?p2 "[]" "push_text p (run @ [ch]) segs"] Cons.IH [of p "run @ [ch]" segs]
        Cons.IH [of ?p2 "[]" "push_text p [ch] []"] Cons.IH [of p "[ch]" "[]"]
      by (cases "ch = newline") simp_all
  qed
qed simp

lemma parse_chars_step: "\<exists>p' run' segs'. \<forall>cs. parse_chars p run segs (ch # cs) = parse_chars p' run' segs' cs"
proof (cases "detect_tag p")
  case True
  define p1 where "p1 = p\<lparr>line_buffer := line_buffer p @ [ch]\<rparr>"
  let ?s = "flush_run p run segs" and ?p2 = "p1\<lparr>line_buffer := [], detect_tag := False\<rparr>"
  have "\<forall>cs. parse_chars p run segs (ch # cs) =
     (if ch = newline then parse_chars (fst (finish_line p1 ?s)) [] (snd (finish_line p1 ?s)) cs
      else if trim_start (line_buffer p1) = [] \<or> is_tag_prefix p1 (trim_start (line_buffer p1))
      then parse_chars p1 [] ?s cs
      else parse_chars ?p2 [] (push_text ?p2 (line_buffer p1) ?s) cs)"
    using True by (simp add: p1_def Let_def split: prod.split)
  then show ?thesis by (metis (full_types))
next
  case False
  then have "\<forall>cs. parse_chars p run segs (ch # cs) =
     (if ch = newline then parse_chars (p\<lparr>detect_tag := True\<rparr>) [] (push_text p (run @ [ch]) segs) cs
      else parse_chars p (run @ [ch]) segs cs)"
    by (simp add: Let_def)
  then show ?thesis by (metis (full_types))
qed

declare parse_chars.simps(2) [simp del]

lemma parse_chars_append:
  "fst (parse_chars p run segs (a @ b)) = fst (tagged_parse (fst (parse_chars p run segs a)) b) \<and>
   segments_events (snd (parse_chars p run segs (a @ b))) =
     segments_events (snd (parse_chars p run segs a)) @
     segments_events (snd (tagged_parse (fst (parse_chars p run segs a)) b))"
proof (induction a arbitrary: p run segs)
  case Nil
  then show ?case using parse_chars_flush [of p run segs b] by (simp add: tagged_parse_def)
next
  case (Cons ch cs)
  obtain p' run' segs' where "\<And>cs. parse_chars p run segs (ch # cs) = parse_chars p' run' segs' cs"
    using parse_chars_step by metis
  then show ?case using Cons.IH [of p' run' segs'] by simp
qed

lemma tagged_parse_append:
  assumes "tagged_parse p a = (p1, s1)" "tagged_parse p1 b = (p2, s2)"
  obtains s where "tagged_parse p (a @ b) = (p2, s)" "segments_events s = segments_events s1 @ segments_events s2"
  using assms parse_chars_append [of p "[]" "[]" a b] that unfolding tagged_parse_def
  by (metis fst_conv prod.exhaust_sel snd_conv)

section \<open>The plan parser is a stream parser\<close>

fun plan_segment_events :: "proposed_plan_segment \<Rightarrow> plan_tag text_event list" where
  "plan_segment_events (PlanNormal txt) = map Ch txt"
| "plan_segment_events ProposedPlanStart = [TagOpen ProposedPlan]"
| "plan_segment_events (ProposedPlanDelta txt) = map (TagCh ProposedPlan) txt"
| "plan_segment_events ProposedPlanEnd = [TagClosed ProposedPlan]"

definition plan_events :: "proposed_plan_segment list \<Rightarrow> plan_tag text_event list" where
  "plan_events segs = concat (map plan_segment_events segs)"

fun plain_char :: "'t text_event \<Rightarrow> ustring" where
  "plain_char (Ch c) = [c]"
| "plain_char _ = []"

definition plain_text :: "'t text_event list \<Rightarrow> ustring" where
  "plain_text evs = concat (map plain_char evs)"

lemma plain_text_append [simp]: "plain_text (a @ b) = plain_text a @ plain_text b"
  by (simp add: plain_text_def)

lemma plan_tag_all: "t = ProposedPlan"
  by (cases t) simp

lemma map_segment_events: "plan_segment_events (map_segment s) = segment_events s"
  by (cases s rule: map_segment.cases) simp_all

lemma map_segments_eq:
  "map_segments segs = \<lparr>visible_text = plain_text (segments_events segs), extracted = map map_segment segs\<rparr>"
proof (induction segs rule: rev_induct)
  case Nil
  then show ?case by (simp add: map_segments_def default_chunk_def plain_text_def)
next
  case (snoc s segs)
  have n: "plain_text (map Ch t) = t" "plain_text (map (TagCh ProposedPlan) t) = []" for t
    by (induction t) (simp_all add: plain_text_def)
  have "map_segments (segs @ [s]) = (let mapped = map_segment s; out = map_segments segs;
      out = (case mapped of PlanNormal txt \<Rightarrow> out\<lparr>visible_text := visible_text out @ txt\<rparr> | _ \<Rightarrow> out)
      in out\<lparr>extracted := extracted out @ [mapped]\<rparr>)"
    by (simp only: map_segments_def foldl_append foldl.simps Let_def)
  then show ?case unfolding snoc
    by (cases s rule: map_segment.cases) (simp_all add: n Let_def plain_text_def [of "[_]"])
qed

lemma plan_events_map [simp]: "plan_events (map map_segment segs) = segments_events segs"
  by (induction segs) (simp_all add: plan_events_def map_segment_events)

interpretation plan: stream_text_parser "\<lambda>p c. Some (plan_push_str p c)" plan_finish "\<lambda>_. True" plan_events
proof
  fix p :: proposed_plan_parser and a b s1 o1 s2 o2
  assume "Some (plan_push_str p a) = Some (s1, o1)" and "Some (plan_push_str s1 b) = Some (s2, o2)"
  then obtain g1 g2 where g: "tagged_parse p a = (s1, g1)" "o1 = map_segments g1"
      "tagged_parse s1 b = (s2, g2)" "o2 = map_segments g2"
    by (auto simp: plan_push_str_def split: prod.splits)
  from tagged_parse_append [OF g(1,3)] obtain g where "tagged_parse p (a @ b) = (s2, g)"
    "segments_events g = segments_events g1 @ segments_events g2" .
  then show "\<exists>out. Some (plan_push_str p (a @ b)) = Some (s2, out) \<and> same_output plan_events out (append_chunk o1 o2)"
    by (simp add: plan_push_str_def same_output_def g map_segments_eq) (metis map_append plan_events_map segments_events_simps(3))
qed (auto simp: plan_events_def)

section \<open>The reference: line by line\<close>

fun ref_line :: "'t tagged_line_parser \<Rightarrow> 't option \<Rightarrow> ustring \<Rightarrow> 't option \<times> 't text_event list" where
  "ref_line p act line =
     (case (match_open p (line_slug line), act) of
        (Some tag, None) \<Rightarrow> (Some tag, [TagOpen tag])
      | _ \<Rightarrow>
          (case match_close p (line_slug line) of
             Some tag \<Rightarrow> if act = Some tag then (None, [TagClosed tag]) else (act, text_events act line)
           | None \<Rightarrow> (act, text_events act line)))"

text \<open>A block that is open at the end of the text is closed there.\<close>

fun ref_lines :: "'t tagged_line_parser \<Rightarrow> 't option \<Rightarrow> ustring list \<Rightarrow> 't text_event list" where
  "ref_lines p act [] = (case act of None \<Rightarrow> [] | Some tag \<Rightarrow> [TagClosed tag])"
| "ref_lines p act (l # ls) = (case ref_line p act l of (act', evs) \<Rightarrow> evs @ ref_lines p act' ls)"

lemma match_specs [simp]:
  "match_open (p\<lparr>line_buffer := x\<rparr>) = match_open p" "match_open (p\<lparr>active_tag := a\<rparr>) = match_open p"
  "match_open (p\<lparr>detect_tag := d\<rparr>) = match_open p"
  "match_close (p\<lparr>line_buffer := x\<rparr>) = match_close p" "match_close (p\<lparr>active_tag := a\<rparr>) = match_close p"
  "match_close (p\<lparr>detect_tag := d\<rparr>) = match_close p"
  "is_tag_prefix (p\<lparr>line_buffer := x\<rparr>) = is_tag_prefix p"
  by (simp_all add: fun_eq_iff match_open_def match_close_def is_tag_prefix_def)

declare ref_line.simps [simp del]

lemma ref_line_specs [simp]:
  "ref_line (p\<lparr>line_buffer := x\<rparr>) = ref_line p" "ref_line (p\<lparr>active_tag := a\<rparr>) = ref_line p"
  "ref_line (p\<lparr>detect_tag := d\<rparr>) = ref_line p"
  by (auto simp: fun_eq_iff ref_line.simps split: option.split)

text \<open>A line whose beginning is no prefix of a tag is no tag.\<close>

lemma slug_prefix:
  assumes "trim_start v \<noteq> []" and "newline \<notin> set v"
  shows "starts_with (line_slug (v @ w)) (trim_end (trim_start v))"
proof -
  let ?l = "case strip_suffix (v @ w) [newline] of Some l \<Rightarrow> l | None \<Rightarrow> v @ w"
  obtain w' where "?l = v @ w'"
  proof (cases "strip_suffix (v @ w) [newline]")
    case (Some l)
    then have e: "v @ w = l @ [newline]" by (simp add: strip_suffix_Some)
    with assms(2) obtain w' where "w = w' @ [newline]"
      by (cases w rule: rev_cases) (auto dest: arg_cong [of _ _ last])
    with e Some that show thesis by auto
  qed (use that in auto)
  then have sl: "line_slug (v @ w) = trim_end (trim_start v @ w')"
    using trim_start_append [OF assms(1), of w'] by (simp add: line_slug_def)
  obtain ws where ws: "trim_start v = trim_end (trim_start v) @ ws" using trim_end_decomp by blast
  show ?thesis
  proof (cases "trim_end (trim_start v) = []")
    case False
    let ?u = "trim_end (trim_start v)"
    define T where "T = trim_end (?u @ ws @ w')"
    obtain x where x: "?u @ ws @ w' = T @ x" "\<forall>c \<in> set x. is_whitespace c"
      using trim_end_decomp unfolding T_def by blast
    have "length ?u \<le> length T"
    proof (rule ccontr)
      assume short: "\<not> length ?u \<le> length T"
      then have "drop (length T) ?u @ ws @ w' = x" using x(1) unfolding append_eq_append_conv_if by simp
      moreover have "last ?u \<in> set (drop (length T) ?u)"
        using short by (metis drop_eq_Nil last_drop last_in_set linorder_not_le)
      ultimately have "is_whitespace (last ?u)" using x(2) by auto
      with last_trim_end [OF False] show False by simp
    qed
    then have "take (length ?u) T = ?u" using x(1) unfolding append_eq_append_conv_if by simp
    then have "take (length ?u) (trim_end (?u @ ws @ w')) = ?u" unfolding T_def .
    moreover have "trim_start v @ w' = ?u @ ws @ w'" using ws by (metis append.assoc)
    ultimately show ?thesis unfolding starts_with_def sl by (simp only:)
  qed (simp add: starts_with_def)
qed

lemma not_a_tag:
  assumes "trim_start v \<noteq> []" "newline \<notin> set v" "\<not> is_tag_prefix p (trim_start v)"
  shows "match_open p (line_slug (v @ w)) = None" "match_close p (line_slug (v @ w)) = None"
  using assms(3) slug_prefix [OF assms(1,2), of w]
  by (auto simp: is_tag_prefix_def match_open_def match_close_def find_None_iff list_ex_iff Let_def)

text \<open>A line outside of tag detection is text.\<close>

lemma parse_plain_line:
  "\<not> detect_tag p \<Longrightarrow> newline \<notin> set l \<Longrightarrow>
    parse_chars p run segs (l @ newline # cs) =
      parse_chars (p\<lparr>detect_tag := True\<rparr>) [] (push_text p (run @ l @ [newline]) segs) cs"
  by (induction l arbitrary: run) (simp_all add: parse_chars.simps(2))

lemma parse_plain_rest:
  "\<not> detect_tag p \<Longrightarrow> newline \<notin> set l \<Longrightarrow> parse_chars p run segs l = (p, flush_run p (run @ l) segs)"
  by (induction l arbitrary: run) (simp_all add: parse_chars.simps(2))

definition line_start :: "'t tagged_line_parser \<Rightarrow> 't option \<Rightarrow> 't tagged_line_parser" where
  "line_start p act = p\<lparr>active_tag := act, detect_tag := True, line_buffer := []\<rparr>"

lemma tagged_update_order:
  "p\<lparr>line_buffer := x, detect_tag := d\<rparr> = p\<lparr>detect_tag := d, line_buffer := x\<rparr>"
  for p :: "'t tagged_line_parser"
  by simp

lemma ref_line_text:
  assumes "trim_start v \<noteq> []" "newline \<notin> set v" "\<not> is_tag_prefix p (trim_start v)"
  shows "ref_line p act (v @ w) = (act, text_events act (v @ w))"
  using not_a_tag [OF assms] by (simp add: ref_line.simps split: option.split)

lemma finish_line_ref:
  "finish_line p segs = (line_start p (fst (ref_line p (active_tag p) (line_buffer p))), snd (finish_line p segs)) \<and>
   segments_events (snd (finish_line p segs)) = segments_events segs @ snd (ref_line p (active_tag p) (line_buffer p))"
  by (auto simp: finish_line_def line_start_def Let_def ref_line.simps split: option.splits)

lemma parse_line:
  assumes "detect_tag p" "newline \<notin> set (line_buffer p)" "newline \<notin> set l"
    and r: "ref_line p (active_tag p) (line_buffer p @ l @ [newline]) = (act, evs)"
  shows "\<exists>segs'. (\<forall>cs. parse_chars p [] segs (l @ newline # cs) = parse_chars (line_start p act) [] segs' cs) \<and>
    segments_events segs' = segments_events segs @ evs"
  using assms
proof (induction l arbitrary: p)
  case Nil
  let ?p = "p\<lparr>line_buffer := line_buffer p @ [newline]\<rparr>"
  have "parse_chars p [] segs (newline # cs) = (case finish_line ?p segs of (p, segs) \<Rightarrow> parse_chars p [] segs cs)" for cs
    using Nil.prems(1) by (simp add: parse_chars.simps(2) flush_run_def Let_def)
  with finish_line_ref [of ?p segs] Nil.prems(4) show ?case
    by (intro exI [of _ "snd (finish_line ?p segs)"]) (auto simp: line_start_def split: prod.splits)
next
  case (Cons c l)
  let ?b = "line_buffer p @ [c]"
  let ?p = "p\<lparr>line_buffer := ?b\<rparr>" and ?q = "p\<lparr>line_buffer := [], detect_tag := False\<rparr>"
  have c: "c \<noteq> newline" "newline \<notin> set ?b" "newline \<notin> set l" using Cons.prems by auto
  show ?case
  proof (cases "trim_start ?b = [] \<or> is_tag_prefix p (trim_start ?b)")
    case True
    have "parse_chars p [] segs (c # cs) = parse_chars ?p [] segs cs" for cs
      using Cons.prems(1) c True by (simp add: parse_chars.simps(2) flush_run_def Let_def)
    with Cons.IH [of ?p] Cons.prems c show ?thesis by (simp add: line_start_def)
  next
    case False
    have "parse_chars p [] segs (c # cs) = parse_chars ?q [] (push_text ?q ?b segs) cs" for cs
      using Cons.prems(1) c False by (simp add: parse_chars.simps(2) flush_run_def Let_def)
    moreover have "(act, evs) = (active_tag p, text_events (active_tag p) (?b @ l @ [newline]))"
      using ref_line_text [of ?b p "active_tag p" "l @ [newline]"] False c(2) Cons.prems(4) by auto
    ultimately show ?thesis
      using parse_plain_line [of ?q l "[]" "push_text ?q ?b segs"] c(3)
      by (intro exI [of _ "push_text ?q (l @ [newline]) (push_text ?q ?b segs)"])
        (auto simp: line_start_def tagged_update_order text_events_def split: option.split)
  qed
qed

lemma parse_last_line:
  assumes "detect_tag p" "newline \<notin> set (line_buffer p)" "newline \<notin> set l"
    and "parse_chars p [] [] l = (p1, s1)" "tagged_finish p1 = (p2, s2)"
  shows "segments_events s1 @ segments_events s2 =
    ref_lines p (active_tag p) (if line_buffer p @ l = [] then [] else [line_buffer p @ l])"
  using assms
proof (induction l arbitrary: p)
  case Nil
  then have "s1 = []" "p1 = p" by (simp_all add: flush_run_def)
  with Nil.prems show ?case
    by (auto simp: tagged_finish_def finish_buffered_def ref_line.simps Let_def split: option.splits prod.splits if_splits)
next
  case (Cons c l)
  let ?b = "line_buffer p @ [c]"
  let ?p = "p\<lparr>line_buffer := ?b\<rparr>" and ?q = "p\<lparr>line_buffer := [], detect_tag := False\<rparr>"
  have c: "c \<noteq> newline" "newline \<notin> set ?b" "newline \<notin> set l" using Cons.prems by auto
  show ?case
  proof (cases "trim_start ?b = [] \<or> is_tag_prefix p (trim_start ?b)")
    case True
    have "parse_chars p [] [] (c # cs) = parse_chars ?p [] [] cs" for cs
      using Cons.prems(1) c True by (simp add: parse_chars.simps(2) flush_run_def Let_def)
    with Cons.IH [of ?p] Cons.prems c show ?thesis by (simp split: prod.splits)
  next
    case False
    have "parse_chars p [] [] (c # cs) = parse_chars ?q [] (push_text ?q ?b []) cs" for cs
      using Cons.prems(1) c False by (simp add: parse_chars.simps(2) flush_run_def Let_def)
    then have p1: "p1 = ?q" "s1 = flush_run ?q l (push_text ?q ?b [])"
      using parse_plain_rest [of ?q l "[]" "push_text ?q ?b []"] c(3) Cons.prems(4) by auto
    moreover have "ref_line p (active_tag p) (?b @ l) = (active_tag p, text_events (active_tag p) (?b @ l))"
      by (rule ref_line_text) (use False c in auto)
    ultimately show ?thesis using Cons.prems(5)
      by (auto simp: tagged_finish_def finish_buffered_def text_events_def split: option.splits)
  qed
qed

text \<open>Parsing a text and finishing is going through its lines.\<close>

lemma parse_lines:
  assumes "detect_tag p" "line_buffer p = []" "tagged_parse p msg = (p1, s1)" "tagged_finish p1 = (p2, s2)"
  shows "segments_events s1 @ segments_events s2 = ref_lines p (active_tag p) (split_inclusive newline msg)"
  using assms
proof (induction msg arbitrary: p s1 rule: measure_induct_rule [of length])
  case (less msg)
  show ?case
  proof (cases "newline \<in> set msg")
    case True
    then obtain l r where msg: "msg = l @ newline # r" "newline \<notin> set l" by (meson split_list_first)
    obtain act evs where r: "ref_line p (active_tag p) (l @ [newline]) = (act, evs)" by force
    obtain segs where segs: "parse_chars p [] [] msg = parse_chars (line_start p act) [] segs r"
        "segments_events segs = evs"
      using parse_line [of p l act evs "[]"] less.prems(1,2) msg r by auto
    let ?q = "line_start p act"
    obtain q1 t1 where q: "tagged_parse ?q r = (q1, t1)" by force
    have "q1 = p1" "segments_events s1 = evs @ segments_events t1"
      using parse_chars_flush [of ?q "[]" segs r] segs less.prems(3) q by (auto simp: tagged_parse_def)
    moreover have "segments_events t1 @ segments_events s2 = ref_lines ?q act (split_inclusive newline r)"
      using less.IH [of r ?q t1] q less.prems(4) \<open>q1 = p1\<close> msg(1) by (simp add: line_start_def)
    moreover have "ref_lines ?q act ls = ref_lines p act ls" for act ls
      by (induction ls arbitrary: act) (simp_all add: line_start_def split: prod.split)
    ultimately show ?thesis
      using msg r by (simp add: split_inclusive_append)
  next
    case False
    with parse_last_line [of p msg p1 s1 p2 s2] less.prems show ?thesis
      by (simp add: tagged_parse_def split_inclusive_single)
  qed
qed

lemma plan_push_empty: "plan_push_str plan_new [] = (plan_new, default_chunk)"
  by (simp add: plan_push_str_def tagged_parse_def flush_run_def map_segments_def)

text \<open>However a message is cut into chunks, the segments that the plan parser emits stand for the events
  of its lines, and the visible text is the text outside of blocks.\<close>

lemma plan_stream_ref:
  "case run_stream append_chunk default_chunk (\<lambda>p c. Some (plan_push_str p c)) plan_finish plan_new chunks of
     None \<Rightarrow> False
   | Some out \<Rightarrow>
       plan_events (extracted out) = ref_lines plan_new None (split_inclusive newline (concat chunks)) \<and>
       visible_text out = plain_text (ref_lines plan_new None (split_inclusive newline (concat chunks)))"
proof -
  let ?txt = "concat chunks"
  have "Some (plan_push_str plan_new []) = Some (plan_new, default_chunk)" by (simp add: plan_push_empty)
  from plan.run_stream_chunks [OF TrueI this, of chunks]
  obtain out out' where o: "run_stream append_chunk default_chunk (\<lambda>p c. Some (plan_push_str p c)) plan_finish plan_new chunks = Some out"
      "run_stream append_chunk default_chunk (\<lambda>p c. Some (plan_push_str p c)) plan_finish plan_new [?txt] = Some out'"
      "same_output plan_events out out'" .
  obtain p1 s1 p2 s2 where p: "tagged_parse plan_new ?txt = (p1, s1)" "tagged_finish p1 = (p2, s2)" by force
  have "segments_events s1 @ segments_events s2 = ref_lines plan_new None (split_inclusive newline ?txt)"
    using parse_lines [OF _ _ p] by (simp add: plan_new_def tagged_new_def)
  moreover have "out' = append_chunk (map_segments s1) (map_segments s2)"
    using o(2) p by (simp add: run_stream_def plan_push_str_def plan_finish_def)
  ultimately show ?thesis
    using o(1,3) by (simp add: same_output_def map_segments_eq flip: plain_text_append)
      (metis map_append plan_events_map segments_events_simps(3))
qed

end
