(* ===== verification/Assistant_Text.thy ===== *)
theory Assistant_Text
  imports Inline_Tags Tagged_Lines
begin

text \<open>
  The parser for the markup in streamed assistant messages
  (\<open>utils/stream-parser/src/assistant\_text.rs\<close>): citations are stripped first, and in plan mode the
  visible rest goes through the plan parser.  It is a parser of chunks because its two parts are.
\<close>

record assistant_text_chunk =
  at_visible :: ustring
  at_citations :: "ustring list"
  at_plan_segments :: "proposed_plan_segment list"

definition empty_assistant_chunk :: assistant_text_chunk where
  "empty_assistant_chunk = \<lparr>at_visible = [], at_citations = [], at_plan_segments = []\<rparr>"

definition assistant_chunk_is_empty :: "assistant_text_chunk \<Rightarrow> bool" where
  "assistant_chunk_is_empty c \<longleftrightarrow> at_visible c = [] \<and> at_citations c = [] \<and> at_plan_segments c = []"

record assistant_text_parser =
  plan_mode :: bool
  ap_citations :: citation_stream_parser
  ap_plan :: proposed_plan_parser

definition assistant_new :: "bool \<Rightarrow> assistant_text_parser option" where
  "assistant_new mode =
     map_option (\<lambda>c. \<lparr>plan_mode = mode, ap_citations = c, ap_plan = plan_new\<rparr>) citation_new"

definition parse_visible_text ::
    "assistant_text_parser \<Rightarrow> ustring \<Rightarrow> assistant_text_parser \<times> assistant_text_chunk" where
  "parse_visible_text p visible =
     (if \<not> plan_mode p then (p, empty_assistant_chunk\<lparr>at_visible := visible\<rparr>)
      else
        (case plan_push_str (ap_plan p) visible of
           (plan, plan_chunk) \<Rightarrow>
             (p\<lparr>ap_plan := plan\<rparr>,
              empty_assistant_chunk\<lparr>at_visible := visible_text plan_chunk, at_plan_segments := extracted plan_chunk\<rparr>)))"

definition assistant_push_str ::
    "assistant_text_parser \<Rightarrow> ustring \<Rightarrow> (assistant_text_parser \<times> assistant_text_chunk) option" where
  "assistant_push_str p chunk =
     (case citation_push_str (ap_citations p) chunk of
        None \<Rightarrow> None
      | Some (c, cc) \<Rightarrow>
          (case parse_visible_text (p\<lparr>ap_citations := c\<rparr>) (visible_text cc) of
             (p, out) \<Rightarrow> Some (p, out\<lparr>at_citations := extracted cc\<rparr>)))"

definition assistant_finish ::
    "assistant_text_parser \<Rightarrow> assistant_text_parser \<times> assistant_text_chunk" where
  "assistant_finish p =
     (case citation_finish (ap_citations p) of
        (c, cc) \<Rightarrow>
          (case parse_visible_text (p\<lparr>ap_citations := c\<rparr>) (visible_text cc) of
             (p, out) \<Rightarrow>
               (case (if plan_mode p
                      then
                        (case plan_finish (ap_plan p) of
                           (plan, tail) \<Rightarrow>
                             (p\<lparr>ap_plan := plan\<rparr>,
                              if \<not> text_chunk_is_empty tail
                              then out\<lparr>at_visible := at_visible out @ visible_text tail,
                                       at_plan_segments := at_plan_segments out @ extracted tail\<rparr>
                              else out))
                      else (p, out)) of
                  (p, out) \<Rightarrow> (p, out\<lparr>at_citations := extracted cc\<rparr>))))"

section \<open>A parser of chunks\<close>

definition append_assistant_chunk :: "assistant_text_chunk \<Rightarrow> assistant_text_chunk \<Rightarrow> assistant_text_chunk" where
  "append_assistant_chunk a b =
     \<lparr>at_visible = at_visible a @ at_visible b, at_citations = at_citations a @ at_citations b,
      at_plan_segments = at_plan_segments a @ at_plan_segments b\<rparr>"

definition same_assistant_chunk :: "assistant_text_chunk \<Rightarrow> assistant_text_chunk \<Rightarrow> bool" where
  "same_assistant_chunk a b \<longleftrightarrow>
     at_visible a = at_visible b \<and> at_citations a = at_citations b \<and>
     plan_events (at_plan_segments a) = plan_events (at_plan_segments b)"

lemma parse_visible_text_append:
  assumes "parse_visible_text p a = (p1, o1)" "parse_visible_text p1 b = (p2, o2)"
  obtains out where "parse_visible_text p (a @ b) = (p2, out)" "same_assistant_chunk out (append_assistant_chunk o1 o2)"
proof (cases "plan_mode p")
  case True
  from assms True obtain g1 c1 g2 c2 where g: "plan_push_str (ap_plan p) a = (g1, c1)" "plan_push_str g1 b = (g2, c2)"
      "p1 = p\<lparr>ap_plan := g1\<rparr>" "p2 = p\<lparr>ap_plan := g2\<rparr>"
      "o1 = empty_assistant_chunk\<lparr>at_visible := visible_text c1, at_plan_segments := extracted c1\<rparr>"
      "o2 = empty_assistant_chunk\<lparr>at_visible := visible_text c2, at_plan_segments := extracted c2\<rparr>"
    by (auto simp: parse_visible_text_def split: prod.splits)
  from plan.text_append [of "ap_plan p" a g1 c1 b g2 c2] g
  obtain c where "plan_push_str (ap_plan p) (a @ b) = (g2, c)" "same_output plan_events c (append_chunk c1 c2)" by auto
  with g True that show thesis
    by (simp add: parse_visible_text_def same_output_def same_assistant_chunk_def append_assistant_chunk_def
        empty_assistant_chunk_def)
next
  case False
  with assms that show thesis
    by (auto simp: parse_visible_text_def same_assistant_chunk_def append_assistant_chunk_def empty_assistant_chunk_def)
qed

lemma parse_visible_text_frame:
  assumes "parse_visible_text p v = (p', out)"
  shows "parse_visible_text (p\<lparr>ap_citations := c\<rparr>) v = (p'\<lparr>ap_citations := c\<rparr>, out)"
    "ap_citations p' = ap_citations p" "plan_mode p' = plan_mode p"
  using assms by (auto simp: parse_visible_text_def split: if_splits prod.splits)

interpretation assistant: chunked_parser assistant_push_str assistant_finish
  "\<lambda>p. valid_parser (ap_citations p) \<and> infix_free (specs (ap_citations p))"
  append_assistant_chunk empty_assistant_chunk same_assistant_chunk
proof
  fix p :: assistant_text_parser and c
  assume "valid_parser (ap_citations p) \<and> infix_free (specs (ap_citations p))"
  from citation.text_returns [OF this, of c] obtain q cc where q: "citation_push_str (ap_citations p) c = Some (q, cc)"
      "valid_parser q" "infix_free (specs q)" by blast
  obtain p' out where "parse_visible_text (p\<lparr>ap_citations := q\<rparr>) (visible_text cc) = (p', out)" by force
  with q parse_visible_text_frame(2) [OF this]
  show "\<exists>p' out. assistant_push_str p c = Some (p', out) \<and>
      valid_parser (ap_citations p') \<and> infix_free (specs (ap_citations p'))"
    by (simp add: assistant_push_str_def)
next
  fix p :: assistant_text_parser and a b s1 o1 s2 o2
  assume v: "valid_parser (ap_citations p) \<and> infix_free (specs (ap_citations p))"
    and a: "assistant_push_str p a = Some (s1, o1)" and b: "assistant_push_str s1 b = Some (s2, o2)"
  from a obtain q1 c1 t1 where 1: "citation_push_str (ap_citations p) a = Some (q1, c1)"
      "parse_visible_text (p\<lparr>ap_citations := q1\<rparr>) (visible_text c1) = (s1, t1)" "o1 = t1\<lparr>at_citations := extracted c1\<rparr>"
    by (auto simp: assistant_push_str_def split: option.splits prod.splits)
  have s1: "ap_citations s1 = q1" using parse_visible_text_frame(2) [OF 1(2)] by simp
  from b s1 obtain q2 c2 t2 where 2: "citation_push_str q1 b = Some (q2, c2)"
      "parse_visible_text (s1\<lparr>ap_citations := q2\<rparr>) (visible_text c2) = (s2, t2)" "o2 = t2\<lparr>at_citations := extracted c2\<rparr>"
    by (auto simp: assistant_push_str_def split: option.splits prod.splits)
  obtain cc where c: "citation_push_str (ap_citations p) (a @ b) = Some (q2, cc)" "same_output (\<lambda>es. es) cc (append_chunk c1 c2)"
    using citation.text_append [OF v 1(1) 2(1)] by blast
  from parse_visible_text_frame(1) [OF 1(2), of q2]
  have "parse_visible_text (p\<lparr>ap_citations := q2\<rparr>) (visible_text c1) = (s1\<lparr>ap_citations := q2\<rparr>, t1)" by simp
  from parse_visible_text_append [OF this 2(2)]
  obtain t where t: "parse_visible_text (p\<lparr>ap_citations := q2\<rparr>) (visible_text c1 @ visible_text c2) = (s2, t)"
      "same_assistant_chunk t (append_assistant_chunk t1 t2)" .
  show "\<exists>out. assistant_push_str p (a @ b) = Some (s2, out) \<and> same_assistant_chunk out (append_assistant_chunk o1 o2)"
    using c t 1(3) 2(3)
    by (simp add: assistant_push_str_def same_output_def same_assistant_chunk_def append_assistant_chunk_def)
qed (auto simp: append_assistant_chunk_def empty_assistant_chunk_def same_assistant_chunk_def plan.events_append)

section \<open>Properties\<close>

text \<open>C7.  The markup of an assistant message is handled as if the message had arrived at once, however it is cut
  into chunks: the citations are those of the whole message; outside of plan mode the visible text is
  the message without them; in plan mode the emitted segments stand for the lines of that text, where
  a line that is only the opening or the closing plan tag delimits a block and the end of the message
  closes an open block, and the visible text is the text outside of blocks.\<close>

theorem assistant_any_chunks:
  "case (assistant_new mode, strip_citations (concat chunks)) of
     (Some parser, Some (txt, citations)) \<Rightarrow>
       (case run_stream append_assistant_chunk empty_assistant_chunk assistant_push_str assistant_finish parser chunks of
          None \<Rightarrow> False
        | Some out \<Rightarrow>
            at_citations out = citations \<and>
            (if mode
             then plan_events (at_plan_segments out) = ref_lines plan_new None (split_inclusive newline txt) \<and>
               at_visible out = plain_text (ref_lines plan_new None (split_inclusive newline txt))
             else plan_events (at_plan_segments out) = [] \<and> at_visible out = txt))
   | _ \<Rightarrow> False"
proof -
  let ?t = "concat chunks" and ?c = "citation_parser []"
  let ?p = "\<lparr>plan_mode = mode, ap_citations = ?c, ap_plan = plan_new\<rparr>"
  have "assistant_push_str ?p [] = Some (?p, empty_assistant_chunk)"
    using citation_push_empty
    by (simp add: assistant_push_str_def parse_visible_text_def empty_assistant_chunk_def plan_push_empty)
  then obtain out out' where o:
      "run_stream append_assistant_chunk empty_assistant_chunk assistant_push_str assistant_finish ?p chunks = Some out"
      "run_stream append_assistant_chunk empty_assistant_chunk assistant_push_str assistant_finish ?p [?t] = Some out'"
      "same_assistant_chunk out out'"
    using assistant.run_stream_chunks [of ?p chunks] citation_parser_valid [of "[]"] by auto
  obtain q c1 q' c2 where c: "citation_push_str ?c ?t = Some (q, c1)" "citation_finish q = (q', c2)"
    using citation.text_returns [of ?c ?t] citation_parser_valid [of "[]"] by (metis prod.exhaust)
  have s: "strip_citations ?t = Some (visible_text c1 @ visible_text c2, extracted c1 @ extracted c2)"
    using c by (simp add: strip_citations_def citation_new_eq)
  have new: "assistant_new mode = Some ?p" by (simp add: assistant_new_def citation_new_eq)
  show ?thesis
  proof (cases mode)
    case True
    obtain g1 d1 g2 d2 g3 d3 where d: "plan_push_str plan_new (visible_text c1) = (g1, d1)"
        "plan_push_str g1 (visible_text c2) = (g2, d2)" "plan_finish g2 = (g3, d3)" by (metis prod.exhaust)
    have "out' = \<lparr>at_visible = visible_text d1 @ visible_text d2 @ visible_text d3,
        at_citations = extracted c1 @ extracted c2, at_plan_segments = extracted d1 @ extracted d2 @ extracted d3\<rparr>"
      using o(2) c d True
      by (auto simp: run_stream_def assistant_push_str_def assistant_finish_def parse_visible_text_def
          append_assistant_chunk_def empty_assistant_chunk_def text_chunk_is_empty_def)
    with plan_stream_ref [of "[visible_text c1, visible_text c2]"] d o(1,3) s new True show ?thesis
      by (simp add: run_stream_def same_assistant_chunk_def)
  next
    case False
    have "out' = \<lparr>at_visible = visible_text c1 @ visible_text c2,
        at_citations = extracted c1 @ extracted c2, at_plan_segments = []\<rparr>"
      using o(2) c False
      by (simp add: run_stream_def assistant_push_str_def assistant_finish_def parse_visible_text_def
          append_assistant_chunk_def empty_assistant_chunk_def)
    with o(1,3) s new False show ?thesis by (simp add: same_assistant_chunk_def plan_events_def)
  qed
qed

end
