(* ===== verification/Utf8_Stream.thy ===== *)
theory Utf8_Stream
  imports Inline_Tags
begin

text \<open>
  Feeding bytes to a text parser (\<open>utils/stream-parser/src/utf8\_stream.rs\<close>): bytes that end inside a
  character are held back, and an invalid chunk is rolled back.  The decoder is \<open>str::from\_utf8\<close> of the
  standard library.  The lemmas are proved for every parser with the interface of text parsers.
\<close>

section \<open>UTF-8\<close>

type_synonym bytes = "nat list"

datatype utf8_step = Utf8Char uchar nat | Utf8Invalid nat | Utf8Incomplete

definition is_continuation :: "nat \<Rightarrow> bool" where
  "is_continuation b \<longleftrightarrow> 128 \<le> b \<and> b < 192"

definition second_of_three :: "nat \<Rightarrow> nat \<Rightarrow> bool" where
  "second_of_three b0 b1 \<longleftrightarrow>
     (if b0 = 224 then 160 \<le> b1 \<and> b1 < 192
      else if b0 = 237 then 128 \<le> b1 \<and> b1 < 160 else is_continuation b1)"

definition second_of_four :: "nat \<Rightarrow> nat \<Rightarrow> bool" where
  "second_of_four b0 b1 \<longleftrightarrow>
     (if b0 = 240 then 144 \<le> b1 \<and> b1 < 192
      else if b0 = 244 then 128 \<le> b1 \<and> b1 < 144 else is_continuation b1)"

text \<open>The first character, or why there is none: bytes that no continuation makes valid, with the length
  of the invalid sequence, or bytes that end too early.\<close>

fun first_char :: "bytes \<Rightarrow> utf8_step" where
  "first_char [] = Utf8Incomplete"
| "first_char (b0 # r) =
     (if b0 < 128 then Utf8Char b0 1
      else if 194 \<le> b0 \<and> b0 \<le> 223 then
        (case r of
           [] \<Rightarrow> Utf8Incomplete
         | b1 # _ \<Rightarrow>
             if is_continuation b1 then Utf8Char ((b0 - 192) * 64 + (b1 - 128)) 2 else Utf8Invalid 1)
      else if 224 \<le> b0 \<and> b0 \<le> 239 then
        (case r of
           [] \<Rightarrow> Utf8Incomplete
         | b1 # r1 \<Rightarrow>
             if \<not> second_of_three b0 b1 then Utf8Invalid 1
             else
               (case r1 of
                  [] \<Rightarrow> Utf8Incomplete
                | b2 # _ \<Rightarrow>
                    if is_continuation b2
                    then Utf8Char ((b0 - 224) * 4096 + (b1 - 128) * 64 + (b2 - 128)) 3
                    else Utf8Invalid 2))
      else if 240 \<le> b0 \<and> b0 \<le> 244 then
        (case r of
           [] \<Rightarrow> Utf8Incomplete
         | b1 # r1 \<Rightarrow>
             if \<not> second_of_four b0 b1 then Utf8Invalid 1
             else
               (case r1 of
                  [] \<Rightarrow> Utf8Incomplete
                | b2 # r2 \<Rightarrow>
                    if \<not> is_continuation b2 then Utf8Invalid 2
                    else
                      (case r2 of
                         [] \<Rightarrow> Utf8Incomplete
                       | b3 # _ \<Rightarrow>
                           if is_continuation b3
                           then Utf8Char ((b0 - 240) * 262144 + (b1 - 128) * 4096 + (b2 - 128) * 64 + (b3 - 128)) 4
                           else Utf8Invalid 3)))
      else Utf8Invalid 1)"

lemma first_char_bounds: "first_char bs = Utf8Char c n \<Longrightarrow> 0 < n \<and> n \<le> length bs"
  by (cases bs rule: first_char.cases) (auto split: if_splits list.splits)

lemma first_char_append:
  "first_char a = Utf8Char c n \<Longrightarrow> first_char (a @ b) = Utf8Char c n"
  "first_char a = Utf8Invalid l \<Longrightarrow> first_char (a @ b) = Utf8Invalid l"
  by (cases a rule: first_char.cases; auto split: if_splits list.splits)+

lemma first_char_take: "first_char bs = Utf8Char c n \<Longrightarrow> first_char (take n bs @ x) = Utf8Char c n"
  by (cases bs rule: first_char.cases) (auto split: if_splits list.splits)

text \<open>The decoded text, the number of bytes it takes (\<open>valid\_up\_to\<close>) and the error, if any, with its
  \<open>error\_len\<close>.\<close>

function utf8_decode :: "bytes \<Rightarrow> ustring \<times> nat \<times> nat option option" where
  "utf8_decode bs =
     (if bs = [] then ([], 0, None)
      else
        (case first_char bs of
           Utf8Char c n \<Rightarrow> (case utf8_decode (drop n bs) of (t, v, e) \<Rightarrow> (c # t, n + v, e))
         | Utf8Invalid l \<Rightarrow> ([], 0, Some (Some l))
         | Utf8Incomplete \<Rightarrow> ([], 0, Some None)))"
  by pat_completeness auto
termination
  by (relation "measure length") (auto dest!: first_char_bounds)

declare utf8_decode.simps [simp del]

definition from_utf8 :: "bytes \<Rightarrow> nat \<times> nat option + ustring" where
  "from_utf8 bs = (case utf8_decode bs of (t, v, None) \<Rightarrow> Inr t | (t, v, Some l) \<Rightarrow> Inl (v, l))"

section \<open>The byte parser\<close>

datatype utf8_stream_parser_error = InvalidUtf8 nat nat | IncompleteUtf8AtEof

record 's utf8_stream_parser =
  utf8_inner :: 's
  pending_utf8 :: bytes

definition utf8_new :: "'s \<Rightarrow> 's utf8_stream_parser" where
  "utf8_new inner = \<lparr>utf8_inner = inner, pending_utf8 = []\<rparr>"

text \<open>Handing text to the inner parser, then dropping the first \<open>n\<close> pending bytes.\<close>

definition push_inner ::
    "('s \<Rightarrow> ustring \<Rightarrow> ('s \<times> 'e stream_text_chunk) option) \<Rightarrow> 's utf8_stream_parser \<Rightarrow> ustring \<Rightarrow> nat \<Rightarrow>
     ('s utf8_stream_parser \<times> (utf8_stream_parser_error + 'e stream_text_chunk)) option" where
  "push_inner push u txt n =
     map_option (\<lambda>(s, out). (u\<lparr>utf8_inner := s, pending_utf8 := drop n (pending_utf8 u)\<rparr>, Inr out))
       (push (utf8_inner u) txt)"

definition push_bytes ::
    "('s \<Rightarrow> ustring \<Rightarrow> ('s \<times> 'e stream_text_chunk) option) \<Rightarrow> 's utf8_stream_parser \<Rightarrow> bytes \<Rightarrow>
     ('s utf8_stream_parser \<times> (utf8_stream_parser_error + 'e stream_text_chunk)) option" where
  "push_bytes push u chunk =
     (let old_len = length (pending_utf8 u);
          u = u\<lparr>pending_utf8 := pending_utf8 u @ chunk\<rparr>
      in case from_utf8 (pending_utf8 u) of
           Inr txt \<Rightarrow> push_inner push u txt (length (pending_utf8 u))
         | Inl (valid_up_to, Some error_len) \<Rightarrow>
             Some (u\<lparr>pending_utf8 := take old_len (pending_utf8 u)\<rparr>, Inl (InvalidUtf8 valid_up_to error_len))
         | Inl (valid_up_to, None) \<Rightarrow>
             if valid_up_to = 0 then Some (u, Inr default_chunk)
             else
               (case from_utf8 (take valid_up_to (pending_utf8 u)) of
                  Inr txt \<Rightarrow> push_inner push u txt valid_up_to
                | Inl (v, l) \<Rightarrow>
                    Some (u\<lparr>pending_utf8 := take old_len (pending_utf8 u)\<rparr>,
                      Inl (InvalidUtf8 v (case l of Some n \<Rightarrow> n | None \<Rightarrow> 0)))))"

definition utf8_error :: "nat \<times> nat option \<Rightarrow> utf8_stream_parser_error" where
  "utf8_error e = (case e of (v, Some l) \<Rightarrow> InvalidUtf8 v l | (v, None) \<Rightarrow> IncompleteUtf8AtEof)"

definition utf8_finish ::
    "('s \<Rightarrow> ustring \<Rightarrow> ('s \<times> 'e stream_text_chunk) option) \<Rightarrow> ('s \<Rightarrow> 's \<times> 'e stream_text_chunk) \<Rightarrow>
     's utf8_stream_parser \<Rightarrow> ('s utf8_stream_parser \<times> (utf8_stream_parser_error + 'e stream_text_chunk)) option" where
  "utf8_finish push fin u =
     (case (if pending_utf8 u = [] then Some (u, Inr default_chunk)
            else
              (case from_utf8 (pending_utf8 u) of
                 Inl e \<Rightarrow> Some (u, Inl (utf8_error e))
               | Inr txt \<Rightarrow> push_inner push u txt (length (pending_utf8 u)))) of
        None \<Rightarrow> None
      | Some (u, Inl e) \<Rightarrow> Some (u, Inl e)
      | Some (u, Inr out) \<Rightarrow>
          (case fin (utf8_inner u) of
             (s, tail) \<Rightarrow> Some (u\<lparr>utf8_inner := s\<rparr>, Inr (append_chunk out tail))))"

definition into_inner :: "'s utf8_stream_parser \<Rightarrow> utf8_stream_parser_error + 's" where
  "into_inner u =
     (if pending_utf8 u = [] then Inr (utf8_inner u)
      else
        (case from_utf8 (pending_utf8 u) of
           Inr _ \<Rightarrow> Inr (utf8_inner u)
         | Inl e \<Rightarrow> Inl (utf8_error e)))"

definition into_inner_lossy :: "'s utf8_stream_parser \<Rightarrow> 's" where
  "into_inner_lossy u = utf8_inner u"

text \<open>A client pushes chunks until one is refused.\<close>

fun push_bytes_all ::
    "('s \<Rightarrow> ustring \<Rightarrow> ('s \<times> 'e stream_text_chunk) option) \<Rightarrow> 's utf8_stream_parser \<Rightarrow> bytes list \<Rightarrow>
     ('s utf8_stream_parser \<times> (utf8_stream_parser_error + 'e stream_text_chunk)) option" where
  "push_bytes_all push u [] = Some (u, Inr default_chunk)"
| "push_bytes_all push u (c # cs) =
     (case push_bytes push u c of
        None \<Rightarrow> None
      | Some (u, Inl e) \<Rightarrow> Some (u, Inl e)
      | Some (u, Inr out) \<Rightarrow>
          (case push_bytes_all push u cs of
             Some (u, Inr out') \<Rightarrow> Some (u, Inr (append_chunk out out'))
           | r \<Rightarrow> r))"

definition utf8_run ::
    "('s \<Rightarrow> ustring \<Rightarrow> ('s \<times> 'e stream_text_chunk) option) \<Rightarrow> ('s \<Rightarrow> 's \<times> 'e stream_text_chunk) \<Rightarrow>
     's \<Rightarrow> bytes list \<Rightarrow> (utf8_stream_parser_error + 'e stream_text_chunk) option" where
  "utf8_run push fin s cs =
     (case push_bytes_all push (utf8_new s) cs of
        None \<Rightarrow> None
      | Some (u, Inl e) \<Rightarrow> Some (Inl e)
      | Some (u, Inr out) \<Rightarrow>
          (case utf8_finish push fin u of
             None \<Rightarrow> None
           | Some (_, Inl e) \<Rightarrow> Some (Inl e)
           | Some (_, Inr tail) \<Rightarrow> Some (Inr (append_chunk out tail))))"

section \<open>Decoding in pieces\<close>

lemma utf8_decode_Nil [simp]: "utf8_decode [] = ([], 0, None)"
  by (simp add: utf8_decode.simps)

lemma utf8_decode_bounds:
  "utf8_decode bs = (t, v, e) \<Longrightarrow> v \<le> length bs \<and> (e = None \<longrightarrow> v = length bs) \<and> (v = 0 \<longleftrightarrow> t = [])"
proof (induction bs arbitrary: t v e rule: utf8_decode.induct)
  case (1 bs)
  show ?case
  proof (cases "bs = []")
    case False
    show ?thesis
    proof (cases "first_char bs")
      case (Utf8Char c n)
      obtain t' v' e' where d: "utf8_decode (drop n bs) = (t', v', e')" by (metis prod.exhaust)
      with "1.IH" [OF False Utf8Char d] "1.prems" False Utf8Char first_char_bounds [OF Utf8Char] show ?thesis
        by (auto simp: utf8_decode.simps [of bs])
    qed (use "1.prems" False in \<open>auto simp: utf8_decode.simps [of bs]\<close>)
  qed (use "1.prems" in simp)
qed

text \<open>More bytes never change what is decoded already, and never repair invalid ones.\<close>

lemma utf8_decode_append:
  "utf8_decode a = (t, v, e) \<Longrightarrow>
    utf8_decode (a @ b) =
      (case e of
         Some (Some l) \<Rightarrow> (t, v, e)
       | _ \<Rightarrow> (case utf8_decode (drop v a @ b) of (t', v', e') \<Rightarrow> (t @ t', v + v', e')))"
proof (induction a arbitrary: t v e rule: utf8_decode.induct)
  case (1 a)
  show ?case
  proof (cases "a = []")
    case True
    with "1.prems" show ?thesis by (auto split: prod.split)
  next
    case False
    show ?thesis
    proof (cases "first_char a")
      case (Utf8Char c n)
      obtain t' v' e' where d: "utf8_decode (drop n a) = (t', v', e')" by (metis prod.exhaust)
      have t: "t = c # t'" "v = n + v'" "e = e'"
        using "1.prems" False Utf8Char d by (auto simp: utf8_decode.simps [of a])
      have "utf8_decode (a @ b) = (case utf8_decode (drop n a @ b) of (t, v, e) \<Rightarrow> (c # t, n + v, e))"
        using False first_char_append(1) [OF Utf8Char, of b] first_char_bounds [OF Utf8Char]
        by (simp add: utf8_decode.simps [of "a @ b"])
      moreover have "drop v' (drop n a) = drop v a" by (simp add: t add.commute)
      ultimately show ?thesis
        using "1.IH" [OF False Utf8Char d] t by (auto split: option.splits prod.splits)
    next
      case (Utf8Invalid l)
      with "1.prems" False first_char_append(2) [OF Utf8Invalid, of b] show ?thesis
        by (auto simp: utf8_decode.simps [of a] utf8_decode.simps [of "a @ b"])
    next
      case Utf8Incomplete
      with "1.prems" False show ?thesis by (auto simp: utf8_decode.simps [of a] split: prod.split)
    qed
  qed
qed

lemma utf8_decode_valid_part: "utf8_decode bs = (t, v, e) \<Longrightarrow> utf8_decode (take v bs) = (t, v, None)"
proof (induction bs arbitrary: t v e rule: utf8_decode.induct)
  case (1 bs)
  show ?case
  proof (cases "bs = []")
    case False
    show ?thesis
    proof (cases "first_char bs")
      case (Utf8Char c n)
      obtain t' v' e' where d: "utf8_decode (drop n bs) = (t', v', e')" by (metis prod.exhaust)
      have t: "t = c # t'" "v = n + v'" "e = e'"
        using "1.prems" False Utf8Char d by (auto simp: utf8_decode.simps [of bs])
      have n: "0 < n" "n \<le> length bs" using first_char_bounds [OF Utf8Char] by auto
      have s: "take v bs = take n bs @ take v' (drop n bs)" by (simp only: t take_add)
      have "utf8_decode (take v bs) = (case utf8_decode (take v' (drop n bs)) of (t, v, e) \<Rightarrow> (c # t, n + v, e))"
        unfolding s using first_char_take [OF Utf8Char, of "take v' (drop n bs)"] n
        by (auto simp: utf8_decode.simps [of "take n bs @ _"])
      then show ?thesis using "1.IH" [OF False Utf8Char d] t by simp
    qed (use "1.prems" False in \<open>auto simp: utf8_decode.simps [of bs]\<close>)
  qed (use "1.prems" in simp)
qed

lemma utf8_decode_rest: "utf8_decode bs = (t, v, e) \<Longrightarrow> utf8_decode (drop v bs) = ([], 0, e)"
proof (induction bs arbitrary: t v e rule: utf8_decode.induct)
  case (1 bs)
  show ?case
  proof (cases "bs = []")
    case False
    show ?thesis
    proof (cases "first_char bs")
      case (Utf8Char c n)
      obtain t' v' e' where d: "utf8_decode (drop n bs) = (t', v', e')" by (metis prod.exhaust)
      have t: "v = n + v'" "e = e'"
        using "1.prems" False Utf8Char d by (auto simp: utf8_decode.simps [of bs])
      then have "drop v bs = drop v' (drop n bs)" by (simp add: add.commute)
      with "1.IH" [OF False Utf8Char d] t(2) show ?thesis by (simp only:)
    qed (use "1.prems" False in \<open>auto simp: utf8_decode.simps [of bs]\<close>)
  qed (use "1.prems" in simp)
qed

section \<open>Byte streams\<close>

text \<open>One push hands over the text that is complete by then and keeps the rest; an invalid chunk leaves
  the parser as it was.\<close>

lemma push_bytes_valid:
  assumes d: "utf8_decode (pending_utf8 u @ chunk) = (t, v, e)" and e: "e = None \<or> e = Some None"
  shows "push_bytes push u chunk =
    (if e = Some None \<and> v = 0 then Some (u\<lparr>pending_utf8 := pending_utf8 u @ chunk\<rparr>, Inr default_chunk)
     else map_option (\<lambda>(s, out). (u\<lparr>utf8_inner := s, pending_utf8 := drop v (pending_utf8 u @ chunk)\<rparr>, Inr out))
       (push (utf8_inner u) t))"
  using e
proof
  assume "e = None"
  with d utf8_decode_bounds [OF d] show ?thesis
    by (simp add: push_bytes_def from_utf8_def Let_def push_inner_def)
next
  assume "e = Some None"
  with d utf8_decode_valid_part [OF d] show ?thesis
    by (simp add: push_bytes_def from_utf8_def Let_def push_inner_def)
qed

lemma push_bytes_invalid:
  assumes "utf8_decode (pending_utf8 u @ chunk) = (t, v, Some (Some l))"
  shows "push_bytes push u chunk = Some (u, Inl (InvalidUtf8 v l))"
  using assms by (simp add: push_bytes_def from_utf8_def Let_def)

context stream_text_parser
begin

lemma push_bytes_all_valid:
  assumes "valid (utf8_inner u)" and "utf8_decode (pending_utf8 u @ concat cs) = (t, v, e)"
    and "e = None \<or> e = Some None" and "\<exists>e0. utf8_decode (pending_utf8 u) = ([], 0, e0)"
  shows "\<exists>u' out ts. push_bytes_all push u cs = Some (u', Inr out) \<and> concat ts = t \<and>
    push_all append_chunk default_chunk push (utf8_inner u) ts = Some (utf8_inner u', out) \<and>
    pending_utf8 u' = drop v (pending_utf8 u @ concat cs)"
  using assms
proof (induction cs arbitrary: u t v)
  case Nil
  then have "t = []" "v = 0" by auto
  then show ?case by (intro exI [of _ u] exI [of _ default_chunk] exI [of _ "[]"]) simp
next
  case (Cons c cs)
  let ?p = "pending_utf8 u @ c"
  obtain t1 v1 e1 where d: "utf8_decode ?p = (t1, v1, e1)" by (metis prod.exhaust)
  have le: "v1 \<le> length ?p" using utf8_decode_bounds [OF d] by simp
  have e1: "e1 = None \<or> e1 = Some None"
    using utf8_decode_append [OF d, of "concat cs"] Cons.prems(2,3) by (auto split: option.splits)
  obtain t2 v2 e2 where d2: "utf8_decode (drop v1 ?p @ concat cs) = (t2, v2, e2)" by (metis prod.exhaust)
  have t: "t = t1 @ t2" "v = v1 + v2" "e = e2"
    using utf8_decode_append [OF d, of "concat cs"] Cons.prems(2) e1 d2 by auto
  have v: "drop v2 (drop v1 ?p @ concat cs) = drop v (?p @ concat cs)"
    by (simp only: t(2) split_at(2) [OF le])
  obtain u1 out1 ts1 where u1: "push_bytes push u c = Some (u1, Inr out1)" "pending_utf8 u1 = drop v1 ?p"
      "valid (utf8_inner u1)" "concat ts1 = t1"
      "push_all append_chunk default_chunk push (utf8_inner u) ts1 = Some (utf8_inner u1, out1)"
  proof (cases "e1 = Some None \<and> v1 = 0")
    case True
    then show thesis using that [of "u\<lparr>pending_utf8 := ?p\<rparr>" default_chunk "[]"] push_bytes_valid [OF d e1, of push]
        utf8_decode_bounds [OF d] Cons.prems(1) by simp
  next
    case False
    obtain s' out where "push (utf8_inner u) t1 = Some (s', out)" "valid s'"
      using text_returns [OF Cons.prems(1)] by blast
    with False that [of "u\<lparr>utf8_inner := s', pending_utf8 := drop v1 ?p\<rparr>" out "[t1]"] push_bytes_valid [OF d e1, of push]
    show thesis by auto
  qed
  have "\<exists>e0. utf8_decode (pending_utf8 u1) = ([], 0, e0)" using utf8_decode_rest [OF d] u1(2) by simp
  from Cons.IH [OF u1(3) _ _ this] d2 u1(2) Cons.prems(3) t(3)
  obtain u' out2 ts2 where r: "push_bytes_all push u1 cs = Some (u', Inr out2)" "concat ts2 = t2"
      "push_all append_chunk default_chunk push (utf8_inner u1) ts2 = Some (utf8_inner u', out2)"
      "pending_utf8 u' = drop v2 (drop v1 ?p @ concat cs)"
    by auto
  have "push_all append_chunk default_chunk push (utf8_inner u) (ts1 @ ts2) = Some (utf8_inner u', append_chunk out1 out2)"
    by (rule push_all_append [OF u1(5) r(3)])
  then show ?case using u1(1,4) r(1,2,4) t(1) v
    by (intro exI [of _ u'] exI [of _ "append_chunk out1 out2"] exI [of _ "ts1 @ ts2"]) simp
qed

lemma push_bytes_all_invalid:
  assumes "valid (utf8_inner u)" and "utf8_decode (pending_utf8 u @ concat cs) = (t, v, Some (Some l))"
    and "\<exists>e0. utf8_decode (pending_utf8 u) = ([], 0, e0) \<and> e0 \<noteq> Some (Some l)"
  shows "\<exists>u' v'. push_bytes_all push u cs = Some (u', Inl (InvalidUtf8 v' l))"
  using assms
proof (induction cs arbitrary: u t v)
  case (Cons c cs)
  let ?p = "pending_utf8 u @ c"
  obtain t1 v1 e1 where d: "utf8_decode ?p = (t1, v1, e1)" by (metis prod.exhaust)
  consider l1 where "e1 = Some (Some l1)" | "e1 = None \<or> e1 = Some None" by (metis option.exhaust)
  then show ?case
  proof cases
    case 1
    with utf8_decode_append [OF d, of "concat cs"] Cons.prems(2) have "l1 = l" by simp
    with push_bytes_invalid [of u c t1 v1 l push] d 1 show ?thesis by simp
  next
    case 2
    obtain t2 v2 e2 where d2: "utf8_decode (drop v1 ?p @ concat cs) = (t2, v2, e2)" by (metis prod.exhaust)
    have e2: "e2 = Some (Some l)"
      using utf8_decode_append [OF d, of "concat cs"] Cons.prems(2) 2 d2 by auto
    obtain u1 out1 where u1: "push_bytes push u c = Some (u1, Inr out1)" "pending_utf8 u1 = drop v1 ?p"
        "valid (utf8_inner u1)"
    proof (cases "e1 = Some None \<and> v1 = 0")
      case True
      then show thesis using that [of "u\<lparr>pending_utf8 := ?p\<rparr>" default_chunk] push_bytes_valid [OF d 2, of push] Cons.prems(1) by simp
    next
      case False
      obtain s' out where "push (utf8_inner u) t1 = Some (s', out)" "valid s'"
        using text_returns [OF Cons.prems(1)] by blast
      with False that [of "u\<lparr>utf8_inner := s', pending_utf8 := drop v1 ?p\<rparr>" out] push_bytes_valid [OF d 2, of push]
      show thesis by auto
    qed
    have "utf8_decode (pending_utf8 u1) = ([], 0, e1) \<and> e1 \<noteq> Some (Some l)"
      using utf8_decode_rest [OF d] u1(2) 2 by auto
    with Cons.IH [OF u1(3), of t2 v2] d2 e2 u1(2) obtain u' v' where
      "push_bytes_all push u1 cs = Some (u', Inl (InvalidUtf8 v' l))" by auto
    with u1(1) show ?thesis by simp
  qed
qed auto

text \<open>A stream of bytes is the text it encodes, or an error.\<close>

lemma utf8_run_text:
  assumes "valid s" "push s [] = Some (s, default_chunk)" "utf8_decode (concat cs) = (t, v, None)"
  obtains out out' where "utf8_run push fin s cs = Some (Inr out)"
    "run_stream append_chunk default_chunk push fin s [t] = Some out'" "same_output events out out'"
proof -
  obtain u' out ts where u: "push_bytes_all push (utf8_new s) cs = Some (u', Inr out)" "concat ts = t"
      "push_all append_chunk default_chunk push s ts = Some (utf8_inner u', out)"
      "pending_utf8 u' = drop v (concat cs)"
    using push_bytes_all_valid [of "utf8_new s" cs t v None] assms(1,3) by (auto simp: utf8_new_def)
  have "pending_utf8 u' = []" using u(4) utf8_decode_bounds [OF assms(3)] by simp
  then have "utf8_run push fin s cs = Some (Inr (append_chunk out (snd (fin (utf8_inner u')))))"
    using u(1) by (simp add: utf8_run_def utf8_finish_def split: prod.split)
  moreover have "run_stream append_chunk default_chunk push fin s ts = Some (append_chunk out (snd (fin (utf8_inner u'))))"
    using u(3) by (simp add: run_stream_def)
  moreover obtain o1 o2 where "run_stream append_chunk default_chunk push fin s ts = Some o1"
      "run_stream append_chunk default_chunk push fin s [t] = Some o2" "same_output events o1 o2"
    using run_stream_chunks [OF assms(1,2), of ts] u(2) by metis
  ultimately show thesis using that by simp
qed

lemma utf8_run_incomplete:
  assumes "valid s" "utf8_decode (concat cs) = (t, v, Some None)"
  shows "utf8_run push fin s cs = Some (Inl IncompleteUtf8AtEof)"
proof -
  obtain u' out where u: "push_bytes_all push (utf8_new s) cs = Some (u', Inr out)"
      "pending_utf8 u' = drop v (concat cs)"
    using push_bytes_all_valid [of "utf8_new s" cs t v "Some None"] assms by (auto simp: utf8_new_def)
  have "utf8_decode (pending_utf8 u') = ([], 0, Some None)" using utf8_decode_rest [OF assms(2)] u(2) by simp
  then have "pending_utf8 u' \<noteq> []" "from_utf8 (pending_utf8 u') = Inl (0, None)" by (auto simp: from_utf8_def)
  with u(1) show ?thesis by (simp add: utf8_run_def utf8_finish_def utf8_error_def)
qed

lemma utf8_run_invalid:
  assumes "valid s" "utf8_decode (concat cs) = (t, v, Some (Some l))"
  shows "\<exists>v'. utf8_run push fin s cs = Some (Inl (InvalidUtf8 v' l))"
  using push_bytes_all_invalid [of "utf8_new s" cs t v l] assms by (auto simp: utf8_run_def utf8_new_def)

end

section \<open>Properties\<close>

text \<open>C8.  Bytes may be cut anywhere, also inside a character: feeding a message to the citation parser byte
  chunk by byte chunk gives what stripping the decoded message gives; when the bytes end inside a
  character that is reported at the end, and when they are invalid the invalid chunk is refused, with
  the length of the invalid sequence.\<close>

theorem utf8_citations_any_chunks:
  "case (citation_new, from_utf8 (concat chunks)) of
     (None, _) \<Rightarrow> False
   | (Some parser, Inr txt) \<Rightarrow>
       utf8_run citation_push_str citation_finish parser chunks =
         map_option (\<lambda>(v, cs). Inr \<lparr>visible_text = v, extracted = cs\<rparr>) (strip_citations txt) \<and>
       strip_citations txt \<noteq> None
   | (Some parser, Inl (_, None)) \<Rightarrow>
       utf8_run citation_push_str citation_finish parser chunks = Some (Inl IncompleteUtf8AtEof)
   | (Some parser, Inl (_, Some l)) \<Rightarrow>
       (\<exists>v. utf8_run citation_push_str citation_finish parser chunks = Some (Inl (InvalidUtf8 v l)))"
proof -
  let ?c = "citation_parser []"
  have v: "valid_parser ?c \<and> infix_free (specs ?c)" using citation_parser_valid by blast
  obtain t n e where d: "utf8_decode (concat chunks) = (t, n, e)" by (metis prod.exhaust)
  consider "e = None" | "e = Some None" | l where "e = Some (Some l)" by (metis option.exhaust)
  then show ?thesis
  proof cases
    case 1
    obtain out out' where o: "utf8_run citation_push_str citation_finish ?c chunks = Some (Inr out)"
        "run_stream append_chunk default_chunk citation_push_str citation_finish ?c [t] = Some out'"
        "same_output (\<lambda>es. es) out out'"
      using citation.utf8_run_text [OF v citation_push_empty d [unfolded 1]] .
    then have "out = out'" by (simp add: same_output_def)
    with o citation_stream [of "[t]"] d 1 show ?thesis
      by (auto simp: citation_new_eq from_utf8_def split: option.splits)
  next
    case 2
    with d citation.utf8_run_incomplete [OF v d [unfolded 2]] show ?thesis
      by (simp add: citation_new_eq from_utf8_def)
  next
    case (3 l)
    with d citation.utf8_run_invalid [OF v d [unfolded 3]] show ?thesis
      by (simp add: citation_new_eq from_utf8_def)
  qed
qed



end
