(* ===== verification/Py_Prelude.thy ===== *)
theory Py_Prelude
  imports Rust_Str Complex_Main "HOL-Library.List_Lexorder"
begin

text \<open>
  The vocabulary of the theories on the Python services under \<open>src/omnidoer\<close>: JSON-like
  values, dictionaries, exceptions, and the parts of the interpreter whose tables are not
  written out.

  Every dictionary of the modelled services is either written to a state file with
  \<open>sort_keys=True\<close> and read back before its order is looked at, or consumed in a way that
  does not depend on the order.  A dictionary is therefore the list of its items in the order of
  the keys, which is a canonical form: two dictionaries are equal in Python exactly if these
  lists are.  Strings compare by code point, which is the lexicographic order on
  \<open>ustring\<close>.

  Times are the floats of \<open>time.time()\<close>, modelled as reals: they are only compared and
  shifted by whole numbers of seconds.  Every reading of the clock is an argument of the operation
  that makes it.
\<close>

named_theorems py_dict

section \<open>Values\<close>

datatype pyval =
    PNone
  | PBool bool
  | PInt int
  | PFloat real
  | PStr ustring
  | PList "pyval list"
  | PDict "(ustring \<times> pyval) list"

datatype py_error =
    Key_Error ustring
  | Value_Error ustring
  | Permission_Error ustring
  | Runtime_Error ustring
  | Timeout_Error ustring
  | Type_Error

text \<open>What \<open>float()\<close> returns for a text from outside.\<close>

datatype py_float = Finite real | Infinite | Not_A_Number

text \<open>The tables of the interpreter that the services consult outside ASCII (the Unicode
  character database), and \<open>str()\<close> of values that are neither text, numbers without a
  fraction, booleans nor \<open>None\<close>.\<close>

record py_runtime =
  u_digit :: "uchar \<Rightarrow> bool"
  u_isdigit :: "uchar \<Rightarrow> bool"
  u_space :: "uchar \<Rightarrow> bool"
  u_word :: "uchar \<Rightarrow> bool"
  u_lower :: "uchar \<Rightarrow> uchar"
  repr_of :: "pyval \<Rightarrow> ustring"

text \<open>A runtime without characters outside ASCII, for evaluating the model on concrete inputs.\<close>

definition ascii_runtime :: py_runtime where
  "ascii_runtime = \<lparr>u_digit = \<lambda>_. False, u_isdigit = \<lambda>_. False, u_space = \<lambda>_. False, u_word = \<lambda>_. False,
     u_lower = \<lambda>x. x, repr_of = \<lambda>_. []\<rparr>"

section \<open>Operations on a state\<close>

text \<open>An operation of a service maps its state to the new state and either an exception or a
  result; what was written before an exception stays written.\<close>

type_synonym ('s, 'a) py_op = "'s \<Rightarrow> 's \<times> (py_error + 'a)"

definition py_return :: "'a \<Rightarrow> ('s, 'a) py_op" where
  "py_return x st = (st, Inr x)"

definition py_raise :: "py_error \<Rightarrow> ('s, 'a) py_op" where
  "py_raise e st = (st, Inl e)"

definition py_bind :: "('s, 'a) py_op \<Rightarrow> ('a \<Rightarrow> ('s, 'b) py_op) \<Rightarrow> ('s, 'b) py_op" where
  "py_bind op f st =
     (case op st of (st', Inl e) \<Rightarrow> (st', Inl e) | (st', Inr x) \<Rightarrow> f x st')"

lemma py_bind_Inl: "op st = (st', Inl e) \<Longrightarrow> py_bind op f st = (st', Inl e)"
  by (simp add: py_bind_def)

lemma py_bind_Inr: "op st = (st', Inr x) \<Longrightarrow> py_bind op f st = f x st'"
  by (simp add: py_bind_def)

lemma py_bind_ok:
  "py_bind op f st = (st'', Inr y) \<longleftrightarrow>
     (\<exists>st' x. op st = (st', Inr x) \<and> f x st' = (st'', Inr y))"
  by (auto simp: py_bind_def split: prod.split sum.split)

section \<open>Characters and strings\<close>

definition py_is_digit :: "py_runtime \<Rightarrow> uchar \<Rightarrow> bool" where
  "py_is_digit U c = (if c < 128 then 48 \<le> c \<and> c \<le> 57 else u_digit U c)"

text \<open>\<open>str.isdigit\<close>, which admits more characters than the class \<open>\d\<close>.\<close>

definition py_isdigit :: "py_runtime \<Rightarrow> uchar \<Rightarrow> bool" where
  "py_isdigit U c = (if c < 128 then 48 \<le> c \<and> c \<le> 57 else u_isdigit U c)"

definition py_is_space :: "py_runtime \<Rightarrow> uchar \<Rightarrow> bool" where
  "py_is_space U c =
     (if c < 128 then (9 \<le> c \<and> c \<le> 13) \<or> (28 \<le> c \<and> c \<le> 32) else u_space U c)"

definition py_is_word :: "py_runtime \<Rightarrow> uchar \<Rightarrow> bool" where
  "py_is_word U c =
     (if c < 128
      then (48 \<le> c \<and> c \<le> 57) \<or> (65 \<le> c \<and> c \<le> 90) \<or> (97 \<le> c \<and> c \<le> 122) \<or> c = 95
      else u_word U c)"

definition py_lower_char :: "py_runtime \<Rightarrow> uchar \<Rightarrow> uchar" where
  "py_lower_char U c = (if c < 128 then ascii_lower c else u_lower U c)"

definition py_lower :: "py_runtime \<Rightarrow> ustring \<Rightarrow> ustring" where
  "py_lower U s = map (py_lower_char U) s"

definition py_strip :: "py_runtime \<Rightarrow> ustring \<Rightarrow> ustring" where
  "py_strip U s = rev (dropWhile (py_is_space U) (rev (dropWhile (py_is_space U) s)))"

definition py_rstrip_char :: "uchar \<Rightarrow> ustring \<Rightarrow> ustring" where
  "py_rstrip_char c s = rev (dropWhile (\<lambda>x. x = c) (rev s))"

definition int_str :: "int \<Rightarrow> ustring" where
  "int_str i = (if i < 0 then 45 # nat_decimal (nat (- i)) else nat_decimal (nat i))"

fun py_str :: "py_runtime \<Rightarrow> pyval \<Rightarrow> ustring" where
  "py_str U PNone = lit ''None''"
| "py_str U (PBool b) = (if b then lit ''True'' else lit ''False'')"
| "py_str U (PInt i) = int_str i"
| "py_str U (PStr s) = s"
| "py_str U v = repr_of U v"

lemma py_strip_idem [simp]: "py_strip U (py_strip U s) = py_strip U s"
proof -
  let ?d = "dropWhile (py_is_space U)"
  have *: "?d (rev (?d (rev (?d s)))) = rev (?d (rev (?d s)))"
  proof (cases "?d s")
    case (Cons x xs)
    then have x: "\<not> py_is_space U x"
      by (metis hd_dropWhile list.distinct(1) list.sel(1))
    then have "?d (rev (x # xs)) = ?d (rev xs @ [x])" by simp
    also have "\<dots> = ?d (rev xs) @ [x]"
      using x by (induction "rev xs") (auto simp: dropWhile_append3 dropWhile_append1)
    finally show ?thesis using Cons x by simp
  next
    case Nil
    then show ?thesis by (simp only: rev.simps dropWhile.simps)
  qed
  show ?thesis
    unfolding py_strip_def * by simp
qed

section \<open>Dictionaries\<close>

fun dict_put :: "ustring \<Rightarrow> 'v \<Rightarrow> (ustring \<times> 'v) list \<Rightarrow> (ustring \<times> 'v) list" where
  "dict_put k v [] = [(k, v)]"
| "dict_put k v ((k', v') # d) =
     (if k = k' then (k, v) # d
      else if k < k' then (k, v) # (k', v') # d
      else (k', v') # dict_put k v d)"

definition dict_get :: "(ustring \<times> 'v) list \<Rightarrow> ustring \<Rightarrow> 'v option" where
  "dict_get d k = map_of d k"

definition dict_ok :: "(ustring \<times> 'v) list \<Rightarrow> bool" where
  "dict_ok d = (sorted (map fst d) \<and> distinct (map fst d))"

definition dict_of :: "(ustring \<times> 'v) list \<Rightarrow> (ustring \<times> 'v) list" where
  "dict_of items = foldl (\<lambda>d (k, v). dict_put k v d) [] items"

lemma dict_put_keys [simp]: "set (map fst (dict_put k v d)) = insert k (fst ` set d)"
  by (induction k v d rule: dict_put.induct) auto

lemma dict_put_keys' [simp]: "fst ` set (dict_put k v d) = insert k (fst ` set d)"
  using dict_put_keys [of k v d] by simp

lemma dict_put_ok [py_dict, intro]: "dict_ok d \<Longrightarrow> dict_ok (dict_put k v d)"
  unfolding dict_ok_def
proof (induction k v d rule: dict_put.induct)
  case (2 k v k' v' d)
  then show ?case
    by (auto simp: image_iff)
qed simp

lemma dict_nil_ok [py_dict, simp]: "dict_ok []"
  by (simp add: dict_ok_def)

lemma dict_put_get [py_dict]:
  "dict_ok d \<Longrightarrow> dict_get (dict_put k v d) j = (if j = k then Some v else dict_get d j)"
  unfolding dict_get_def
proof (induction k v d rule: dict_put.induct)
  case (2 k v k' v' d)
  then show ?case by (auto simp: dict_ok_def)
qed simp

lemma dict_get_None_iff: "dict_get d k = None \<longleftrightarrow> k \<notin> fst ` set d"
  by (simp add: dict_get_def map_of_eq_None_iff)

lemma dict_get_in: "dict_ok d \<Longrightarrow> dict_get d k = Some v \<longleftrightarrow> (k, v) \<in> set d"
  by (simp add: dict_get_def dict_ok_def)

text \<open>Two dictionaries with the same items are equal.\<close>

lemma dict_ext: "dict_ok d \<Longrightarrow> dict_ok e \<Longrightarrow> (\<And>k. dict_get d k = dict_get e k) \<Longrightarrow> d = e"
proof -
  assume d: "dict_ok d" and e: "dict_ok e" and *: "\<And>k. dict_get d k = dict_get e k"
  then have s: "set d = set e"
    by (metis dict_get_in surj_pair subrelI subset_antisym)
  have "inj_on fst (set d \<union> set e)"
    using d s by (simp add: dict_ok_def distinct_map)
  then show ?thesis
    using d e s by (intro map_sorted_distinct_set_unique [of fst]) (auto simp: dict_ok_def)
qed

text \<open>The interface of the services to the dictionary of their state file.  A property that every
  entry has is kept by writing an entry that has it.\<close>

locale state_file =
  fixes get :: "'d \<Rightarrow> 'k \<Rightarrow> 'v option"
    and put :: "'k \<Rightarrow> 'v \<Rightarrow> 'd \<Rightarrow> 'd"
    and ok :: "'d \<Rightarrow> bool"
    and entries :: "'d \<Rightarrow> ('k \<times> 'v) list"
  assumes ok_put: "ok d \<Longrightarrow> ok (put k v d)"
    and get_put: "ok d \<Longrightarrow> get (put k v d) j = (if j = k then Some v else get d j)"
    and get_entries: "ok d \<Longrightarrow> get d k = Some v \<longleftrightarrow> (k, v) \<in> set (entries d)"
begin

lemma all_entries: "ok d \<Longrightarrow> list_all (\<lambda>(k, v). P k v) (entries d) \<longleftrightarrow> (\<forall>k v. get d k = Some v \<longrightarrow> P k v)"
  by (auto simp: get_entries list_all_iff)

lemma all_entries_put:
  "ok d \<Longrightarrow> list_all (\<lambda>(k, v). P k v) (entries d) \<Longrightarrow> P k v \<Longrightarrow>
     list_all (\<lambda>(k, v). P k v) (entries (put k v d))"
  by (simp add: all_entries ok_put get_put)

end

interpretation pyd: state_file dict_get dict_put dict_ok "\<lambda>d. d"
  by unfold_locales (simp_all add: dict_put_ok dict_put_get dict_get_in)

definition dict_pop :: "ustring \<Rightarrow> (ustring \<times> 'v) list \<Rightarrow> (ustring \<times> 'v) list" where
  "dict_pop k d = filter (\<lambda>x. fst x \<noteq> k) d"

lemma dict_pop_ok [py_dict, intro]: "dict_ok d \<Longrightarrow> dict_ok (dict_pop k d)"
  by (simp add: dict_ok_def dict_pop_def sorted_wrt_filter sorted_filter distinct_map_filter)

lemma dict_pop_get [py_dict]: "dict_get (dict_pop k d) j = (if j = k then None else dict_get d j)"
  unfolding dict_get_def dict_pop_def by (induction d) auto

lemma dict_pop_put [py_dict]: "k \<notin> fst ` set d \<Longrightarrow> dict_pop k (dict_put k v d) = d"
  unfolding dict_pop_def by (induction k v d rule: dict_put.induct) (auto simp: filter_id_conv)

lemma dict_put_pop:
  assumes "dict_ok d" "dict_get d k = Some v"
  shows "dict_put k v (dict_pop k d) = d"
  using assms by (intro dict_ext) (auto simp: py_dict)

lemma dict_map_ok [py_dict]: "dict_ok (map (\<lambda>(k, v). (k, f k v)) d) = dict_ok d"
  by (simp add: dict_ok_def comp_def split_def)

lemma dict_map_get [py_dict]:
  "dict_get (map (\<lambda>(k, v). (k, f k v)) d) j = map_option (f j) (dict_get d j)"
  unfolding dict_get_def by (induction d) auto

lemma foldl_put_ok: "dict_ok d \<Longrightarrow> dict_ok (foldl (\<lambda>d (k, v). dict_put k v d) d items)"
  by (induction items arbitrary: d) (auto simp: dict_put_ok)

lemma dict_of_ok [py_dict, simp]: "dict_ok (dict_of items)"
  by (simp add: dict_of_def foldl_put_ok)

lemma foldl_put_get:
  "dict_ok d \<Longrightarrow> dict_get (foldl (\<lambda>d (k, v). dict_put k v d) d items) j =
     (case map_of (rev items) j of None \<Rightarrow> dict_get d j | Some v \<Rightarrow> Some v)"
  by (induction items arbitrary: d)
    (auto simp: dict_put_ok dict_put_get map_add_def split: option.splits)

text \<open>The later of two items with the same key wins.\<close>

lemma dict_of_get [py_dict]: "dict_get (dict_of items) j = map_of (rev items) j"
  by (simp add: dict_of_def foldl_put_get [of "[]", simplified]) (simp add: dict_get_def split: option.split)

end
