(* ===== verification/Py_Regex.thy ===== *)
theory Py_Regex
  imports Py_Prelude
begin

text \<open>
  The part of Python's \<open>re\<close> module that the redactor uses: character classes, sequences,
  alternatives, greedy repetition, word boundaries and the \<open>IGNORECASE\<close> flag, with
  \<open>search\<close> and \<open>sub\<close>.

  The engine of CPython backtracks.  \<open>ends U ic r s i\<close> is the list of the positions where
  a match of \<open>r\<close> that starts at position \<open>i\<close> can end, in the order in which the
  engine tries them; the match it reports ends at the first of them.
\<close>

section \<open>Expressions\<close>

datatype class_item = Ch uchar | Range uchar uchar | Digit | Space

datatype regex =
    Eps
  | Cls bool "class_item list"
  | Seq regex regex
  | Alt regex regex
  | Rep regex nat "nat option"
  | Bnd

text \<open>With \<open>IGNORECASE\<close> a character is lowered and looked up among the lowered members of
  the class, to which the compiler adds the two characters outside ASCII whose lower case form is
  not the ASCII letter they match: the long s and the dotless i.\<close>

fun item_match :: "py_runtime \<Rightarrow> bool \<Rightarrow> uchar \<Rightarrow> class_item \<Rightarrow> bool" where
  "item_match U ic x (Ch m) =
     (if ic then
        py_lower_char U x = py_lower_char U m \<or>
        (py_lower_char U m = 115 \<and> py_lower_char U x = 383) \<or>
        (py_lower_char U m = 105 \<and> py_lower_char U x = 305)
      else x = m)"
| "item_match U ic x (Range a b) =
     (if ic then
        (\<exists>m \<in> set [a ..< Suc b].
           py_lower_char U x = py_lower_char U m \<or>
           (py_lower_char U m = 115 \<and> py_lower_char U x = 383) \<or>
           (py_lower_char U m = 105 \<and> py_lower_char U x = 305))
      else a \<le> x \<and> x \<le> b)"
| "item_match U ic x Digit = py_is_digit U x"
| "item_match U ic x Space = py_is_space U x"

definition class_match :: "py_runtime \<Rightarrow> bool \<Rightarrow> bool \<Rightarrow> class_item list \<Rightarrow> uchar \<Rightarrow> bool" where
  "class_match U ic neg items x = (list_ex (item_match U ic x) items \<noteq> neg)"

definition word_boundary :: "py_runtime \<Rightarrow> ustring \<Rightarrow> nat \<Rightarrow> bool" where
  "word_boundary U s i =
     ((0 < i \<and> i \<le> length s \<and> py_is_word U (s ! (i - 1))) \<noteq>
      (i < length s \<and> py_is_word U (s ! i)))"

section \<open>Matching\<close>

text \<open>Greedy repetition: another round first, then what the rounds so far have matched.\<close>

primrec rep_ends :: "nat \<Rightarrow> (nat \<Rightarrow> nat list) \<Rightarrow> nat \<Rightarrow> nat \<Rightarrow> nat list" where
  "rep_ends 0 f m i = (if m = 0 then [i] else [])"
| "rep_ends (Suc n) f m i =
     concat (map (rep_ends n f (m - 1)) (f i)) @ (if m = 0 then [i] else [])"

text \<open>The expressions repeated in the patterns match at least one character, so the number of
  characters of the text bounds an unlimited repetition.\<close>

primrec ends :: "py_runtime \<Rightarrow> bool \<Rightarrow> regex \<Rightarrow> ustring \<Rightarrow> nat \<Rightarrow> nat list" where
  "ends U ic Eps s i = [i]"
| "ends U ic (Cls neg items) s i =
     (if i < length s \<and> class_match U ic neg items (s ! i) then [Suc i] else [])"
| "ends U ic (Seq a b) s i = concat (map (ends U ic b s) (ends U ic a s i))"
| "ends U ic (Alt a b) s i = ends U ic a s i @ ends U ic b s i"
| "ends U ic (Rep r m n) s i =
     rep_ends (case n of None \<Rightarrow> length s + m | Some k \<Rightarrow> k) (ends U ic r s) m i"
| "ends U ic Bnd s i = (if word_boundary U s i then [i] else [])"

definition match_end :: "py_runtime \<Rightarrow> bool \<Rightarrow> regex \<Rightarrow> ustring \<Rightarrow> nat \<Rightarrow> nat option" where
  "match_end U ic r s i = (case ends U ic r s i of [] \<Rightarrow> None | j # _ \<Rightarrow> Some j)"

definition re_search :: "py_runtime \<Rightarrow> bool \<Rightarrow> regex \<Rightarrow> ustring \<Rightarrow> bool" where
  "re_search U ic r s = list_ex (\<lambda>i. match_end U ic r s i \<noteq> None) [0 ..< Suc (length s)]"

text \<open>\<open>pattern.sub(repl, s)\<close>: the leftmost match is replaced and the scan resumes behind it;
  behind an empty match it resumes one character later.\<close>

function sub_from :: "py_runtime \<Rightarrow> bool \<Rightarrow> regex \<Rightarrow> ustring \<Rightarrow> ustring \<Rightarrow> nat \<Rightarrow> ustring" where
  "sub_from U ic r rp s i =
     (if length s < i then []
      else case match_end U ic r s i of
        None \<Rightarrow> take 1 (drop i s) @ sub_from U ic r rp s (Suc i)
      | Some j \<Rightarrow>
          if i < j then rp @ sub_from U ic r rp s j
          else rp @ take 1 (drop i s) @ sub_from U ic r rp s (Suc i))"
  by pat_completeness auto
termination
  by (relation "measure (\<lambda>(U, ic, r, rp, s, i). Suc (length s) - i)") auto

declare sub_from.simps [simp del]

definition re_sub :: "py_runtime \<Rightarrow> bool \<Rightarrow> regex \<Rightarrow> ustring \<Rightarrow> ustring \<Rightarrow> ustring" where
  "re_sub U ic r rp s = sub_from U ic r rp s 0"

section \<open>Notation for patterns\<close>

fun seqs :: "regex list \<Rightarrow> regex" where
  "seqs [] = Eps"
| "seqs [r] = r"
| "seqs (r # rs) = Seq r (seqs rs)"

fun alts :: "regex list \<Rightarrow> regex" where
  "alts [] = Eps"
| "alts [r] = r"
| "alts (r # rs) = Alt r (alts rs)"

definition word_re :: "string \<Rightarrow> regex" where
  "word_re w = seqs (map (\<lambda>x. Cls False [Ch x]) (lit w))"

abbreviation opt_re :: "regex \<Rightarrow> regex" where
  "opt_re r \<equiv> Rep r 0 (Some 1)"

abbreviation plus_re :: "regex \<Rightarrow> regex" where
  "plus_re r \<equiv> Rep r 1 None"

abbreviation star_re :: "regex \<Rightarrow> regex" where
  "star_re r \<equiv> Rep r 0 None"

section \<open>Texts an expression cannot match in\<close>

lemma sub_from_no_match:
  assumes "\<And>j. i \<le> j \<Longrightarrow> ends U ic r s j = []"
  shows "sub_from U ic r rp s i = drop i s"
  using assms
proof (induction "Suc (length s) - i" arbitrary: i)
  case 0
  then show ?case by (simp add: sub_from.simps [of _ _ _ _ _ i])
next
  case (Suc n)
  have "sub_from U ic r rp s (Suc i) = drop (Suc i) s"
    using Suc by (intro Suc(1)) auto
  moreover have "match_end U ic r s i = None"
    using Suc(3) [of i] by (simp add: match_end_def)
  moreover have "take 1 (drop i s) @ drop (Suc i) s = drop i s"
    by (metis Cons_nth_drop_Suc One_nat_def append_Nil append_take_drop_id drop_drop plus_1_eq_Suc)
  ultimately show ?case
    by (simp add: sub_from.simps [of _ _ _ _ _ i])
qed

lemma re_sub_no_match: "(\<And>j. ends U ic r s j = []) \<Longrightarrow> re_sub U ic r rp s = s"
  by (simp add: re_sub_def sub_from_no_match)

lemma rep_ends_none: "(\<And>i. f i = []) \<Longrightarrow> 0 < m \<Longrightarrow> rep_ends n f m i = []"
  by (cases n) auto

text \<open>\<open>dead U ic cs r\<close>: \<open>r\<close> needs a character that is not among \<open>cs\<close>.\<close>

primrec dead :: "py_runtime \<Rightarrow> bool \<Rightarrow> uchar list \<Rightarrow> regex \<Rightarrow> bool" where
  "dead U ic cs Eps = False"
| "dead U ic cs (Cls neg items) = list_all (\<lambda>x. \<not> class_match U ic neg items x) cs"
| "dead U ic cs (Seq a b) = (dead U ic cs a \<or> dead U ic cs b)"
| "dead U ic cs (Alt a b) = (dead U ic cs a \<and> dead U ic cs b)"
| "dead U ic cs (Rep r m n) = (0 < m \<and> dead U ic cs r)"
| "dead U ic cs Bnd = False"

lemma dead_ends: "dead U ic cs r \<Longrightarrow> set s \<subseteq> set cs \<Longrightarrow> ends U ic r s i = []"
proof (induction r arbitrary: i)
  case (Cls neg items)
  then show ?case
    using nth_mem by (fastforce simp: list_all_iff)
next
  case (Rep r m n)
  then show ?case by (auto intro: rep_ends_none)
qed auto

lemma word_boundary_inside:
  assumes "list_all (py_is_word U) s" "word_boundary U s i"
  shows "i = 0 \<or> length s \<le> i"
  using assms by (auto simp: word_boundary_def list_all_length)

text \<open>Lower and upper bounds on the number of characters of a match; an unlimited repetition has
  no upper bound.\<close>

primrec min_width :: "regex \<Rightarrow> nat" where
  "min_width Eps = 0"
| "min_width (Cls neg items) = 1"
| "min_width (Seq a b) = min_width a + min_width b"
| "min_width (Alt a b) = min (min_width a) (min_width b)"
| "min_width (Rep r m n) = m * min_width r"
| "min_width Bnd = 0"

primrec max_width :: "regex \<Rightarrow> nat option" where
  "max_width Eps = Some 0"
| "max_width (Cls neg items) = Some 1"
| "max_width (Seq a b) =
     (case (max_width a, max_width b) of (Some x, Some y) \<Rightarrow> Some (x + y) | _ \<Rightarrow> None)"
| "max_width (Alt a b) =
     (case (max_width a, max_width b) of (Some x, Some y) \<Rightarrow> Some (max x y) | _ \<Rightarrow> None)"
| "max_width (Rep r m n) =
     (case (max_width r, n) of (Some x, Some k) \<Rightarrow> Some (k * x) | _ \<Rightarrow> None)"
| "max_width Bnd = Some 0"

lemma rep_ends_lower:
  assumes "\<And>i j. j \<in> set (f i) \<Longrightarrow> i + w \<le> j"
  shows "j \<in> set (rep_ends n f m i) \<Longrightarrow> i + m * w \<le> j"
proof (induction n arbitrary: m i)
  case (Suc n)
  then consider "m = 0" "j = i" | k where "k \<in> set (f i)" "j \<in> set (rep_ends n f (m - 1) k)"
    by (auto split: if_splits)
  then show ?case
  proof cases
    case 2
    then have "i + w + (m - 1) * w \<le> j"
      using Suc.IH [OF 2(2)] assms [OF 2(1)] by linarith
    then show ?thesis by (cases m) auto
  qed simp
qed (auto split: if_splits)

lemma rep_ends_upper:
  assumes "\<And>i j. j \<in> set (f i) \<Longrightarrow> j \<le> i + w"
  shows "j \<in> set (rep_ends n f m i) \<Longrightarrow> j \<le> i + n * w"
proof (induction n arbitrary: m i)
  case (Suc n)
  then consider "j = i" | k where "k \<in> set (f i)" "j \<in> set (rep_ends n f (m - 1) k)"
    by (auto split: if_splits)
  then show ?case
  proof cases
    case 2
    then show ?thesis
      using Suc.IH [OF 2(2)] assms [OF 2(1)] by simp
  qed simp
qed (auto split: if_splits)

lemma rep_ends_inside:
  assumes "\<And>i j. j \<in> set (f i) \<Longrightarrow> j \<le> max i l"
  shows "j \<in> set (rep_ends n f m i) \<Longrightarrow> j \<le> max i (l :: nat)"
proof (induction n arbitrary: m i)
  case (Suc n)
  then consider "j = i" | k where "k \<in> set (f i)" "j \<in> set (rep_ends n f (m - 1) k)"
    by (auto split: if_splits)
  then show ?case
  proof cases
    case 2
    then show ?thesis
      using Suc.IH [OF 2(2)] assms [OF 2(1)] by simp
  qed simp
qed (auto split: if_splits)

lemma ends_lower: "j \<in> set (ends U ic r s i) \<Longrightarrow> i + min_width r \<le> j"
proof (induction r arbitrary: i j)
  case (Seq a b)
  then obtain k where "k \<in> set (ends U ic a s i)" "j \<in> set (ends U ic b s k)" by auto
  then show ?case using Seq.IH(1) [of k i] Seq.IH(2) [of j k] by simp
next
  case (Alt a b)
  then consider "j \<in> set (ends U ic a s i)" | "j \<in> set (ends U ic b s i)" by auto
  then show ?case
    using Alt.IH(1) [of j i] Alt.IH(2) [of j i] by cases (simp_all add: min_def split: if_splits)
next
  case (Rep r m n)
  then show ?case
    using rep_ends_lower [of "ends U ic r s" "min_width r" j _ m i] by simp
qed (simp_all split: if_splits)

lemma ends_upper:
  "j \<in> set (ends U ic r s i) \<Longrightarrow> max_width r = Some w \<Longrightarrow> j \<le> i + w"
proof (induction r arbitrary: i j w)
  case (Seq a b)
  then obtain k where "k \<in> set (ends U ic a s i)" "j \<in> set (ends U ic b s k)" by auto
  moreover obtain x y where "max_width a = Some x" "max_width b = Some y" "w = x + y"
    using Seq.prems(2) by (auto split: option.splits)
  ultimately show ?case using Seq.IH(1) [of k i x] Seq.IH(2) [of j k y] by simp
next
  case (Alt a b)
  obtain x y where "max_width a = Some x" "max_width b = Some y" "w = max x y"
    using Alt.prems(2) by (auto split: option.splits)
  then show ?case using Alt.prems(1) Alt.IH(1) [of j i x] Alt.IH(2) [of j i y] by auto
next
  case (Rep r m n)
  obtain x k where x: "max_width r = Some x" "n = Some k" "w = k * x"
    using Rep.prems(2) by (auto split: option.splits)
  show ?case
    using rep_ends_upper [of "ends U ic r s" x j k m i] Rep.prems(1) Rep.IH x by simp
qed (simp_all split: if_splits)

lemma ends_inside: "j \<in> set (ends U ic r s i) \<Longrightarrow> j \<le> max i (length s)"
proof (induction r arbitrary: i j)
  case (Seq a b)
  then obtain k where "k \<in> set (ends U ic a s i)" "j \<in> set (ends U ic b s k)" by auto
  then show ?case using Seq.IH(1) [of k i] Seq.IH(2) [of j k] by simp
next
  case (Alt a b)
  then show ?case using Alt.IH(1) [of j i] Alt.IH(2) [of j i] by auto
next
  case (Rep r m n)
  then show ?case
    using rep_ends_inside [of "ends U ic r s" "length s" j _ m i] by simp
qed (simp_all split: if_splits)

text \<open>Between two word boundaries a short expression does not match inside a long word.\<close>

lemma bounded_no_match:
  assumes word: "list_all (py_is_word U) s" and w: "max_width r = Some w" "w < length s"
    and m: "0 < min_width r" and tl: "tl_re = Bnd \<or> (\<exists>q. tl_re = Seq Bnd q)"
  shows "ends U ic (Seq Bnd (Seq r tl_re)) s i = []"
proof -
  have "\<not> word_boundary U s j" if i: "word_boundary U s i" and j: "j \<in> set (ends U ic r s i)" for j
    using word_boundary_inside [OF word i] word_boundary_inside [OF word, of j]
      ends_lower [OF j] ends_upper [OF j w(1)] ends_inside [OF j] w(2) m by auto
  then show ?thesis using tl by auto
qed

end
