(* ===== verification/Redactor.thy ===== *)
theory Redactor
  imports Py_Regex
begin

text \<open>
  \<open>omni_observer/redactor.py\<close>: what the model and the audit log may see of a JSON-like
  value.  Text is passed through six patterns, a dictionary entry whose key looks like a secret
  is replaced as a whole, and so are the value, text, name and description of a node that
  describes a secret field.
\<close>

section \<open>Patterns\<close>

definition REDACTED :: ustring where
  "REDACTED = lit ''[REDACTED]''"

definition LABEL_MAP_KEYS :: "ustring list" where
  "LABEL_MAP_KEYS = [lit ''credential_labels'', lit ''field_labels'']"

abbreviation sep_re :: regex where
  "sep_re \<equiv> opt_re (Cls False [Ch 45, Ch 95, Ch 32])"

abbreviation two_words :: "string \<Rightarrow> string \<Rightarrow> regex" where
  "two_words a b \<equiv> seqs [word_re a, sep_re, word_re b]"

definition SECRET_FIELD_RE :: regex where
  "SECRET_FIELD_RE = alts
     [word_re ''password'', word_re ''passwd'', word_re ''pwd'', word_re ''totp'', word_re ''otp'',
      word_re ''mfa'', word_re ''2fa'', word_re ''token'', word_re ''cookie'',
      word_re ''authorization'', two_words ''api'' ''key'',
      word_re ''secret'', two_words ''private'' ''key'', word_re ''recovery'',
      two_words ''backup'' ''code'', two_words ''one'' ''time'', word_re ''sms'',
      two_words ''email'' ''code'',
      two_words ''verification'' ''code'', word_re ''passcode'', two_words ''challenge'' ''answer'',
      two_words ''captcha'' ''answer'', two_words ''3ds'' ''code'',
      two_words ''user'' ''input'', two_words ''input'' ''text'', two_words ''typed'' ''text'',
      two_words ''error'' ''message'', two_words ''raw'' ''error'',
      word_re ''exception'', word_re ''traceback'', two_words ''stack'' ''trace'',
      word_re ''challenge'', word_re ''card'', word_re ''cvv'', word_re ''cvc'', word_re ''iban'',
      word_re ''account'']"

definition bearer_re :: regex where
  "bearer_re = seqs
     [word_re ''Bearer'', plus_re (Cls False [Space]),
      Rep (Cls False [Range 65 90, Range 97 122, Range 48 57, Ch 46, Ch 95, Ch 126, Ch 43, Ch 47,
        Ch 61, Ch 45]) 12 None]"

definition prefixed_key_re :: regex where
  "prefixed_key_re = seqs
     [Bnd, alts [word_re ''ghp'', word_re ''github_pat'', word_re ''sk'', word_re ''pk''],
      word_re ''_'',
      Rep (Cls False [Range 65 90, Range 97 122, Range 48 57, Ch 95]) 12 None, Bnd]"

definition card_number_re :: regex where
  "card_number_re = seqs
     [Bnd, Rep (seqs [Cls False [Digit], opt_re (Cls False [Ch 32, Ch 45])]) 13 (Some 19), Bnd]"

definition email_re :: regex where
  "email_re = seqs
     [Bnd,
      plus_re (Cls False [Range 65 90, Range 48 57, Ch 46, Ch 95, Ch 37, Ch 43, Ch 45]),
      word_re ''@'', plus_re (Cls False [Range 65 90, Range 48 57, Ch 46, Ch 45]),
      word_re ''.'', Rep (Cls False [Range 65 90]) 2 None, Bnd]"

text \<open>The class at the end is written \<open>[^\\s<]\<close> in a raw string: a backslash, the letter
  \<open>s\<close> and \<open><\<close> are excluded, white space is not.\<close>

definition assignment_re :: regex where
  "assignment_re = seqs
     [alts [word_re ''password'', word_re ''token'', two_words ''api'' ''key'', word_re ''secret'',
        word_re ''cookie''],
      star_re (Cls False [Space]), Cls False [Ch 58, Ch 61], star_re (Cls False [Space]),
      plus_re (Cls True [Ch 92, Ch 115, Ch 60])]"

definition code_names_re :: regex where
  "code_names_re = alts
     [word_re ''totp'', word_re ''otp'', word_re ''mfa'', word_re ''2fa'',
      two_words ''sms'' ''code'', two_words ''email'' ''code'',
      seqs [two_words ''one'' ''time'', sep_re, word_re ''code''],
      two_words ''verification'' ''code'', two_words ''captcha'' ''answer'',
      two_words ''challenge'' ''answer'', two_words ''3ds'' ''code'', word_re ''passcode'']"

definition code_re :: regex where
  "code_re = seqs
     [Bnd, code_names_re, Bnd, star_re (Cls False [Space]), opt_re (Cls False [Ch 58, Ch 61]),
      star_re (Cls False [Space]),
      Rep (Cls False [Range 65 90, Range 97 122, Range 48 57, Ch 45]) 4 None]"

definition TEXT_PATTERNS :: "(bool \<times> regex) list" where
  "TEXT_PATTERNS =
     [(True, bearer_re), (False, prefixed_key_re), (False, card_number_re), (True, email_re),
      (True, assignment_re), (True, code_re)]"

section \<open>Redaction\<close>

definition redact_text :: "py_runtime \<Rightarrow> ustring \<Rightarrow> ustring" where
  "redact_text U v = foldl (\<lambda>t (ic, r). re_sub U ic r REDACTED t) v TEXT_PATTERNS"

definition sensitive_attributes :: "ustring list" where
  "sensitive_attributes =
     [lit ''type'', lit ''name'', lit ''id'', lit ''label'', lit ''placeholder'',
      lit ''autocomplete'', lit ''role'', lit ''aria_label'', lit ''description'']"

definition field_is_sensitive :: "py_runtime \<Rightarrow> (ustring \<times> pyval) list \<Rightarrow> bool" where
  "field_is_sensitive U node =
     re_search U True SECRET_FIELD_RE
       (join (lit '' '')
         (map (\<lambda>k. case dict_get node k of None \<Rightarrow> [] | Some v \<Rightarrow> py_str U v)
           sensitive_attributes))"

fun redact_label_map :: "py_runtime \<Rightarrow> pyval \<Rightarrow> pyval" where
  "redact_label_map U (PStr s) = PStr (redact_text U s)"
| "redact_label_map U (PList vs) = PList (map (redact_label_map U) vs)"
| "redact_label_map U (PDict d) = PDict (map (\<lambda>(k, v). (k, redact_label_map U v)) d)"
| "redact_label_map U v = v"

definition value_keys :: "ustring list" where
  "value_keys = [lit ''value'', lit ''text'', lit ''name'', lit ''description'']"

definition secret_key :: "py_runtime \<Rightarrow> bool \<Rightarrow> ustring \<Rightarrow> bool" where
  "secret_key U sensitive k =
     (sensitive \<and> py_lower U k \<in> set value_keys \<or> re_search U True SECRET_FIELD_RE k)"

fun redact_dom_snapshot :: "py_runtime \<Rightarrow> pyval \<Rightarrow> pyval" where
  "redact_dom_snapshot U (PStr s) = PStr (redact_text U s)"
| "redact_dom_snapshot U (PList vs) = PList (map (redact_dom_snapshot U) vs)"
| "redact_dom_snapshot U (PDict d) = PDict (map (\<lambda>(k, v).
     (k, if k \<in> set LABEL_MAP_KEYS then redact_label_map U v
         else if secret_key U (field_is_sensitive U d) k then PStr REDACTED
         else redact_dom_snapshot U v)) d)"
| "redact_dom_snapshot U v = v"

section \<open>Hexadecimal digests survive redaction\<close>

definition hex_digits :: "uchar list" where
  "hex_digits = lit ''0123456789abcdef''"

definition is_digest :: "ustring \<Rightarrow> bool" where
  "is_digest h = (length h = 64 \<and> list_all (\<lambda>x. x \<in> set hex_digits) h)"

lemma hex_dead:
  "dead U True hex_digits bearer_re" "dead U False hex_digits prefixed_key_re"
  "dead U True hex_digits email_re" "dead U True hex_digits assignment_re"
  by code_simp+

lemma hex_word: "list_all (py_is_word U) hex_digits"
  by code_simp

lemma digest_no_card:
  assumes "list_all (py_is_word U) h" "38 < length h"
  shows "ends U ic card_number_re h i = []"
  unfolding card_number_re_def seqs.simps
  by (rule bounded_no_match [OF assms(1) _ assms(2)]) simp_all

lemma code_names_width: "max_width code_names_re = Some 17" "min_width code_names_re = 3"
  by code_simp+

lemma digest_no_code:
  assumes "list_all (py_is_word U) h" "38 < length h"
  shows "ends U ic code_re h i = []"
  unfolding code_re_def seqs.simps
  using assms(2) by (intro bounded_no_match [OF assms(1) code_names_width(1)])
    (simp_all add: code_names_width)

lemma redact_text_digest:
  assumes "is_digest h"
  shows "redact_text U h = h"
proof -
  have sub: "set h \<subseteq> set hex_digits" and len: "38 < length h"
    using assms by (auto simp: is_digest_def list_all_iff)
  have word: "list_all (py_is_word U) h"
    using sub hex_word [of U] by (auto simp: list_all_iff)
  note none = dead_ends [OF hex_dead(1) sub] dead_ends [OF hex_dead(2) sub]
    dead_ends [OF hex_dead(3) sub] dead_ends [OF hex_dead(4) sub]
    digest_no_card [OF word len] digest_no_code [OF word len]
  show ?thesis
    by (simp only: redact_text_def TEXT_PATTERNS_def foldl.simps prod.case re_sub_no_match none)
qed

section \<open>Non-interference\<close>

text \<open>Two values that differ only where a secret stands: below a key that looks like a secret, or
  in the value, text, name or description of a node that both values describe as sensitive.\<close>

fun public_eq :: "py_runtime \<Rightarrow> pyval \<Rightarrow> pyval \<Rightarrow> bool" where
  "public_eq U (PList vs) (PList ws) = list_all2 (public_eq U) vs ws"
| "public_eq U (PDict d) (PDict e) =
     (field_is_sensitive U d = field_is_sensitive U e \<and>
      list_all2 (\<lambda>x y. fst x = fst y \<and>
        (if fst x \<in> set LABEL_MAP_KEYS then snd x = snd y
         else secret_key U (field_is_sensitive U d) (fst x) \<or> public_eq U (snd x) (snd y))) d e)"
| "public_eq U v w = (v = w)"

lemma list_all2_map_eq: "list_all2 (\<lambda>x y. f x = g y) xs ys \<Longrightarrow> map f xs = map g ys"
  by (induction rule: list_all2_induct) auto

text \<open>C16.  What redaction shows does not depend on the secrets: values that differ only in secret
  entries have the same redacted form.\<close>

theorem redact_noninterference:
  "public_eq U v w \<Longrightarrow> redact_dom_snapshot U v = redact_dom_snapshot U w"
proof (induction U v w rule: public_eq.induct)
  case (1 U vs ws)
  then have "list_all2 (\<lambda>x y. redact_dom_snapshot U x = redact_dom_snapshot U y) vs ws"
    by (auto elim: list.rel_mono_strong)
  then show ?case by (simp add: list_all2_map_eq)
next
  case (2 U d e)
  let ?s = "field_is_sensitive U d"
  let ?f = "\<lambda>(k, v). (k, if k \<in> set LABEL_MAP_KEYS then redact_label_map U v
         else if secret_key U ?s k then PStr REDACTED else redact_dom_snapshot U v)"
  have IH: "redact_dom_snapshot U v = redact_dom_snapshot U w"
    if "(k, v) \<in> set d" "(k', w) \<in> set e" "public_eq U v w" "k \<notin> set LABEL_MAP_KEYS"
      "\<not> secret_key U ?s k" for k k' v w
    using 2(1) [of "(k, v)" "(k', w)"] that by simp
  have "list_all2 (\<lambda>x y. ?f x = ?f y) d e"
    using 2(2) unfolding public_eq.simps
    by (auto elim!: list.rel_mono_strong dest: IH split: if_splits)
  then have "map ?f d = map ?f e" by (rule list_all2_map_eq)
  moreover have "?s = field_is_sensitive U e" using 2(2) by simp
  ultimately show ?case by (simp only: redact_dom_snapshot.simps)
qed auto

theorem redact_noninterference_witness:
  "redact_dom_snapshot ascii_runtime (PDict [(lit ''password'', PStr (lit ''hunter2''))]) =
   redact_dom_snapshot ascii_runtime (PDict [(lit ''password'', PInt 17)])"
  by (rule redact_noninterference) code_simp

text \<open>The pattern for assignments of a password or token excludes the letter s instead of white
  space, so a value that starts with this letter is left in the text.\<close>

theorem redact_text_leaks_assignment:
  "redact_text U (lit ''password=swordfish'') = lit ''password=swordfish'' \<and>
   redact_text U (lit ''token: s3cr3t'') = REDACTED @ lit ''s3cr3t'' \<and>
   redact_text U (lit ''password=hunter2'') = REDACTED"
  by code_simp

end
