(* ===== verification/Audit_Log.thy ===== *)
theory Audit_Log
  imports Redactor
begin

text \<open>
  \<open>omni_audit/audit.py\<close>: the hash-chained audit log.  The log is the list of its events, each
  the dictionary one line of the file holds.  The digest of an event, \<open>sha256\<close> of its
  canonical JSON text in hexadecimal, is the parameter \<open>H\<close>; the theorems use that it is 64
  hexadecimal digits, and for tamper evidence that it does not collide on the events compared.
\<close>

type_synonym event = "(ustring \<times> pyval) list"
type_synonym digest_fun = "event \<Rightarrow> ustring"

section \<open>Operations\<close>

definition GENESIS :: ustring where
  "GENESIS = replicate 64 48"

definition previous_hash_of :: "event list \<Rightarrow> py_error + pyval" where
  "previous_hash_of evs =
     (case last_opt evs of
        None \<Rightarrow> Inr (PStr GENESIS)
      | Some e \<Rightarrow>
          (case dict_get e (lit ''event_hash'') of
             None \<Rightarrow> Inl (Key_Error (lit ''event_hash''))
           | Some h \<Rightarrow> Inr h))"

definition audit_event ::
  "py_runtime \<Rightarrow> digest_fun \<Rightarrow> pyval \<Rightarrow> real \<Rightarrow> ustring \<Rightarrow> (ustring \<times> pyval) list \<Rightarrow> event" where
  "audit_event U H prev t event_type flds =
     (case redact_dom_snapshot U (PDict (dict_of
         ([(lit ''timestamp'', PFloat t), (lit ''event_type'', PStr event_type),
           (lit ''previous_hash'', prev)] @ flds))) of
        PDict e \<Rightarrow> dict_put (lit ''event_hash'') (PStr (H e)) e
      | _ \<Rightarrow> [])"

definition audit_append ::
  "py_runtime \<Rightarrow> digest_fun \<Rightarrow> event list \<Rightarrow> real \<Rightarrow> ustring \<Rightarrow> (ustring \<times> pyval) list \<Rightarrow>
     py_error + event list" where
  "audit_append U H evs t event_type flds =
     and_then (previous_hash_of evs) (\<lambda>prev. Inr (evs @ [audit_event U H prev t event_type flds]))"

definition audit_tail :: "int \<Rightarrow> event list \<Rightarrow> event list" where
  "audit_tail limit evs =
     (if limit \<le> 0 then drop (nat (- limit)) evs else drop (length evs - nat limit) evs)"

fun verify_from :: "digest_fun \<Rightarrow> pyval \<Rightarrow> event list \<Rightarrow> bool" where
  "verify_from H previous [] = True"
| "verify_from H previous (e # es) =
     (let event_hash = dict_get e (lit ''event_hash'');
          body = dict_pop (lit ''event_hash'') e in
      if dict_get body (lit ''previous_hash'') \<noteq> Some previous then False
      else if Some (PStr (H body)) \<noteq> event_hash then False
      else verify_from H (PStr (H body)) es)"

definition audit_verify :: "digest_fun \<Rightarrow> event list \<Rightarrow> bool" where
  "audit_verify H evs = verify_from H (PStr GENESIS) evs"

section \<open>Appending keeps the chain\<close>

definition digest_law :: "digest_fun \<Rightarrow> bool" where
  "digest_law H = (\<forall>e. is_digest (H e))"

text \<open>The names the chain uses are not passed as fields.\<close>

definition plain_fields :: "(ustring \<times> 'v) list \<Rightarrow> bool" where
  "plain_fields flds =
     (lit ''previous_hash'' \<notin> fst ` set flds \<and> lit ''event_hash'' \<notin> fst ` set flds)"

lemma genesis_digest: "is_digest GENESIS"
  by code_simp

lemma chain_key_public:
  "\<not> secret_key U b (lit ''previous_hash'')" "lit ''previous_hash'' \<notin> set LABEL_MAP_KEYS"
proof -
  have "\<not> re_search U True SECRET_FIELD_RE (lit ''previous_hash'')"
    "py_lower U (lit ''previous_hash'') \<notin> set value_keys"
    by code_simp+
  then show "\<not> secret_key U b (lit ''previous_hash'')" by (simp add: secret_key_def)
  show "lit ''previous_hash'' \<notin> set LABEL_MAP_KEYS" by code_simp
qed

lemma chain_keys_differ:
  "lit ''previous_hash'' \<noteq> lit ''event_hash''"
  "lit ''timestamp'' \<noteq> lit ''previous_hash''" "lit ''event_type'' \<noteq> lit ''previous_hash''"
  "lit ''timestamp'' \<noteq> lit ''event_hash''" "lit ''event_type'' \<noteq> lit ''event_hash''"
  by code_simp+

lemma audit_event_chain:
  assumes "plain_fields flds" "is_digest h"
    and e_def: "e = audit_event U H (PStr h) t event_type flds"
    and body_def: "body = dict_pop (lit ''event_hash'') e"
  shows "dict_get body (lit ''previous_hash'') = Some (PStr h)"
    and "dict_get e (lit ''event_hash'') = Some (PStr (H body))"
    and "dict_ok e"
proof -
  let ?items = "[(lit ''timestamp'', PFloat t), (lit ''event_type'', PStr event_type),
           (lit ''previous_hash'', PStr h)] @ flds"
  let ?d = "dict_of ?items"
  define r where "r = (\<lambda>k v. if k \<in> set LABEL_MAP_KEYS then redact_label_map U v
         else if secret_key U (field_is_sensitive U ?d) k then PStr REDACTED
         else redact_dom_snapshot U v)"
  let ?e = "map (\<lambda>(k, v). (k, r k v)) ?d"
  have e: "e = dict_put (lit ''event_hash'') (PStr (H ?e)) ?e"
    by (simp only: e_def audit_event_def r_def redact_dom_snapshot.simps pyval.case)
  have ok: "dict_ok ?e" by (simp add: dict_map_ok)
  have "map_of (rev ?items) (lit ''event_hash'') = None"
    using assms(1) chain_keys_differ by (auto simp: plain_fields_def map_of_eq_None_iff)
  then have fresh: "lit ''event_hash'' \<notin> fst ` set ?e"
    by (simp only: dict_get_None_iff [symmetric] dict_map_get dict_of_get) simp
  have body: "body = ?e"
    by (simp only: body_def e dict_pop_put [OF fresh])
  have "map_of (rev flds) (lit ''previous_hash'') = None"
    using assms(1) by (simp add: plain_fields_def map_of_eq_None_iff)
  then have "map_of (rev ?items) (lit ''previous_hash'') = Some (PStr h)"
    by (simp add: map_add_def)
  then show "dict_get body (lit ''previous_hash'') = Some (PStr h)"
    by (simp only: body dict_map_get dict_of_get)
      (simp add: r_def chain_key_public redact_text_digest [OF assms(2)])
  show "dict_get e (lit ''event_hash'') = Some (PStr (H body))"
    by (simp only: body e dict_put_get [OF ok]) simp
  show "dict_ok e" by (simp only: e dict_put_ok [OF ok])
qed

text \<open>One link of the chain, and the hash the next link has to name.\<close>

definition verify_link :: "digest_fun \<Rightarrow> pyval \<Rightarrow> event \<Rightarrow> bool" where
  "verify_link H p e =
     (dict_get (dict_pop (lit ''event_hash'') e) (lit ''previous_hash'') = Some p \<and>
      dict_get e (lit ''event_hash'') = Some (PStr (H (dict_pop (lit ''event_hash'') e))))"

definition tail_hash :: "digest_fun \<Rightarrow> ustring \<Rightarrow> event list \<Rightarrow> ustring" where
  "tail_hash H p es =
     (case last_opt es of None \<Rightarrow> p | Some e \<Rightarrow> H (dict_pop (lit ''event_hash'') e))"

lemma verify_from_Cons:
  "verify_from H p (e # es) =
     (verify_link H p e \<and> verify_from H (PStr (H (dict_pop (lit ''event_hash'') e))) es)"
  unfolding verify_from.simps(2) [of H p e es] verify_link_def Let_def
  by (auto simp del: verify_from.simps split: if_splits)

declare verify_from.simps(2) [simp del]

lemma tail_hash_simps [simp]:
  "tail_hash H p [] = p" "tail_hash H p (es @ [e]) = H (dict_pop (lit ''event_hash'') e)"
  "tail_hash H p (e # es) = tail_hash H (H (dict_pop (lit ''event_hash'') e)) es"
  by (auto simp: tail_hash_def last_opt_def)

lemma verify_from_append:
  "verify_from H (PStr p) (es @ [e]) =
     (verify_from H (PStr p) es \<and> verify_link H (PStr (tail_hash H p es)) e)"
  by (induction es arbitrary: p) (simp_all add: verify_from_Cons)

lemma verified_last_hash:
  assumes "audit_verify H evs"
  shows "previous_hash_of evs = Inr (PStr (tail_hash H GENESIS evs))"
  using assms
  by (cases evs rule: rev_cases)
    (simp_all add: audit_verify_def verify_from_append previous_hash_of_def last_opt_def verify_link_def)

lemma tail_hash_digest: "digest_law H \<Longrightarrow> is_digest (tail_hash H GENESIS evs)"
  by (simp add: tail_hash_def digest_law_def genesis_digest split: option.split)

lemma audit_append_step:
  assumes "audit_verify H evs" "digest_law H" "plain_fields flds"
  shows "\<exists>e. audit_append U H evs t event_type flds = Inr (evs @ [e]) \<and>
    audit_verify H (evs @ [e]) \<and> dict_ok e"
  using assms(1) audit_event_chain [OF assms(3) tail_hash_digest [OF assms(2)] refl refl]
  by (simp add: audit_append_def verified_last_hash and_then_def audit_verify_def
      verify_from_append verify_link_def)

section \<open>Tamper evidence\<close>

lemma verify_link_body:
  assumes "verify_link H p e" "verify_link H q f" "dict_ok e" "dict_ok f"
    "dict_pop (lit ''event_hash'') e = dict_pop (lit ''event_hash'') f"
  shows "e = f \<and> p = q"
  using assms dict_put_pop [of e "lit ''event_hash''"] dict_put_pop [of f "lit ''event_hash''"]
  unfolding verify_link_def by (metis option.inject)

lemma chain_determined:
  assumes "verify_from H (PStr p) xs" "verify_from H (PStr p) ys" "length xs = length ys"
    "tail_hash H p xs = tail_hash H p ys" "list_all dict_ok xs" "list_all dict_ok ys"
    "inj_on H (dict_pop (lit ''event_hash'') ` (set xs \<union> set ys))"
  shows "xs = ys"
  using assms
proof (induction xs arbitrary: ys rule: rev_induct)
  case (snoc x xs)
  then obtain zs y where ys: "ys = zs @ [y]"
    by (metis length_0_conv rev_exhaust snoc_eq_iff_butlast)
  have "dict_pop (lit ''event_hash'') x = dict_pop (lit ''event_hash'') y"
    using snoc.prems(4) by (intro inj_onD [OF snoc.prems(7)]) (simp_all add: ys)
  then have *: "x = y \<and> PStr (tail_hash H p xs) = PStr (tail_hash H p zs)"
    using snoc.prems by (intro verify_link_body [of H]) (auto simp: ys verify_from_append)
  moreover have "xs = zs"
    using snoc.prems *
    by (intro snoc.IH) (auto simp: ys verify_from_append elim: inj_on_subset)
  ultimately show ?case by (simp add: ys)
qed simp

text \<open>C18.  The audit log is tamper evident: two verified logs of the same length that end in the
  same event hash are the same log, provided the digest does not collide on their events.\<close>

theorem audit_tamper_evident:
  assumes "audit_verify H xs" "audit_verify H ys" "length xs = length ys"
    "tail_hash H GENESIS xs = tail_hash H GENESIS ys"
    "list_all dict_ok xs" "list_all dict_ok ys"
    "inj_on H (dict_pop (lit ''event_hash'') ` (set xs \<union> set ys))"
  shows "xs = ys"
  using assms unfolding audit_verify_def by (rule chain_determined)

text \<open>A digest for concrete runs: it separates the first event of a log from the later ones.\<close>

definition demo_digest :: digest_fun where
  "demo_digest e =
     (if dict_get e (lit ''previous_hash'') = Some (PStr GENESIS) then replicate 64 49
      else replicate 64 50)"

definition demo_event :: "ustring \<Rightarrow> event" where
  "demo_event ty = audit_event ascii_runtime demo_digest (PStr GENESIS) 1 ty []"

lemma demo_digest_law: "digest_law demo_digest"
  by (simp add: digest_law_def demo_digest_def is_digest_def hex_digits_def lit_def list_all_iff)

lemma demo_event_chain:
  "dict_get (dict_pop (lit ''event_hash'') (demo_event ty)) (lit ''previous_hash'') =
     Some (PStr GENESIS)"
  "dict_get (demo_event ty) (lit ''event_hash'') =
     Some (PStr (demo_digest (dict_pop (lit ''event_hash'') (demo_event ty))))"
  "dict_ok (demo_event ty)"
  using audit_event_chain [of "[]", OF _ genesis_digest demo_event_def refl]
  by (simp_all add: plain_fields_def)

lemma demo_event_verifies: "audit_verify demo_digest [demo_event ty]"
  by (simp add: audit_verify_def verify_from_Cons verify_link_def demo_event_chain)

lemma demo_event_append:
  "audit_append ascii_runtime demo_digest [] 1 ty [] = Inr ([] @ [demo_event ty])"
  by (simp add: audit_append_def previous_hash_of_def last_opt_def and_then_def demo_event_def)

theorem audit_tamper_evident_witness:
  "[demo_event (lit ''paired'')] = map id [demo_event (lit ''paired'')] \<and>
   audit_verify demo_digest [demo_event (lit ''paired'')]"
  using audit_tamper_evident [of demo_digest "[demo_event (lit ''paired'')]"
      "map id [demo_event (lit ''paired'')]"] demo_event_verifies demo_event_chain(3)
  by simp

text \<open>Appending reads the last hash and writes the event without holding a lock.  When two
  writers read the same last hash, the log they leave behind no longer verifies, although nobody
  tampered with it.\<close>

theorem audit_append_race:
  assumes "audit_verify H evs" "digest_law H" "plain_fields f1" "plain_fields f2"
    "audit_append U H evs t1 ty1 f1 = Inr (evs @ [e1])"
    "audit_append U H evs t2 ty2 f2 = Inr (evs @ [e2])"
    "tail_hash H GENESIS (evs @ [e1]) \<noteq> tail_hash H GENESIS evs"
  shows "\<not> audit_verify H (evs @ [e1, e2])"
proof -
  have "e2 = audit_event U H (PStr (tail_hash H GENESIS evs)) t2 ty2 f2"
    using assms(6) by (simp add: audit_append_def verified_last_hash [OF assms(1)] and_then_def)
  then have "dict_get (dict_pop (lit ''event_hash'') e2) (lit ''previous_hash'') =
      Some (PStr (tail_hash H GENESIS evs))"
    by (simp add: audit_event_chain(1) [OF assms(4) tail_hash_digest [OF assms(2)] refl refl])
  then have "\<not> verify_link H (PStr (tail_hash H GENESIS (evs @ [e1]))) e2"
    using assms(7) by (simp add: verify_link_def)
  then have "\<not> verify_from H (PStr GENESIS) ((evs @ [e1]) @ [e2])"
    by (simp only: verify_from_append) simp
  then show ?thesis by (simp add: audit_verify_def)
qed

theorem audit_append_race_witness:
  "\<not> audit_verify demo_digest ([] @ [demo_event (lit ''paired''), demo_event (lit ''revoked'')])"
proof (rule audit_append_race [OF _ demo_digest_law _ _ demo_event_append demo_event_append])
  show "tail_hash demo_digest GENESIS ([] @ [demo_event (lit ''paired'')]) \<noteq>
      tail_hash demo_digest GENESIS []"
    by (simp add: demo_digest_def demo_event_chain GENESIS_def)
qed (simp_all add: audit_verify_def plain_fields_def)

end
