(* ===== verification/Control_Requests.thy ===== *)
theory Control_Requests
  imports Audit_Log
begin

text \<open>
  \<open>omni_control/requests.py\<close>: the store of control, challenge, approval and takeover
  requests.  The state is the content of the state file, by request id, and the calls made to the
  audit log.  Every method of \<open>RequestStore\<close> is an operation on this state; a method that
  the code composes of \<open>get\<close>, \<open>_ensure_actionable\<close> and \<open>update\<close> is composed of
  them here.

  The state file is locked inside \<open>get\<close>, \<open>update\<close>, \<open>create\<close> and \<open>list\<close>, but
  not from \<open>get\<close> to \<open>update\<close>.  A method is one step here; threads whose calls overlap are
  treated in \<open>Request_Runs\<close>.
\<close>

section \<open>Data\<close>

definition REQUEST_TYPES :: "string list" where
  "REQUEST_TYPES =
     [''credential'', ''totp'', ''one_time_code'', ''sms_code'', ''email_code'', ''captcha'',
      ''passkey'', ''webauthn'', ''device_confirmation'', ''payment_3ds'', ''human_takeover'',
      ''payment_approval'', ''oauth_approval'', ''account_delete'', ''password_change'',
      ''two_factor_change'', ''file_upload'', ''message_send'', ''account_registration'',
      ''console_restart'']"

definition EXPIRABLE_STATUSES :: "string list" where
  "EXPIRABLE_STATUSES = [''pending'', ''user_control'', ''fulfilled'', ''approved'']"

definition COMPLETED_REQUEST_STATUSES :: "string list" where
  "COMPLETED_REQUEST_STATUSES =
     [''fulfilled'', ''approved'', ''consumed'', ''denied'', ''released'', ''challenge_completed'']"

definition ABORTED_REQUEST_STATUSES :: "string list" where
  "ABORTED_REQUEST_STATUSES = [''denied'', ''expired'', ''cancelled'', ''rejected'', ''failed'']"

definition TAKEOVER_FRAME_MAX_AGE_SECONDS :: real where
  "TAKEOVER_FRAME_MAX_AGE_SECONDS = 30"

definition takeover_types :: "string list" where
  "takeover_types = [''human_takeover'', ''account_registration'']"

record control_request =
  request_id :: ustring
  request_type :: string
  rq_origin :: ustring
  top_level_url :: ustring
  action_summary :: ustring
  risk_level :: ustring
  rq_expires_at :: real
  rq_status :: string
  broker_public_key_fingerprint :: "ustring option"
  one_time_use :: bool
  save_to_vault :: bool
  requested_fields :: "ustring list"
  challenge_type :: "ustring option"
  takeover_reason :: "ustring option"
  browser_context_id :: "ustring option"
  takeover_frame_id :: "ustring option"
  takeover_frame_captured_at :: "real option"
  takeover_frame_viewport_width :: "int option"
  takeover_frame_viewport_height :: "int option"
  allowed_device_id :: "ustring option"
  control_owner :: string
  structured_details :: "(ustring \<times> pyval) list"
  response_ciphertext :: "(ustring \<times> pyval) list option"
  approval_decision :: "string option"
  approval_mark :: "ustring option"
  completed_by_user :: bool
  bypassed :: bool
  rq_used :: bool
  rq_created_at :: real
  rq_updated_at :: real

text \<open>A call of \<open>AuditLog.append\<close>: the time, the event type and the fields.\<close>

type_synonym audit_call = "real \<times> ustring \<times> (ustring \<times> pyval) list"

record request_store =
  requests :: "(ustring \<times> control_request) list"
  audit_calls :: "audit_call list"

text \<open>The readings of the clock that one method makes: by \<open>is_expired\<close> in \<open>get\<close> or
  \<open>list\<close>, for \<open>updated_at\<close> of a request that expires there, by \<open>is_expired\<close> in
  \<open>_ensure_actionable\<close>, for \<open>updated_at\<close> in \<open>update\<close>, in the audit log, and by
  the method itself.\<close>

record instants =
  t_read :: real
  t_expire :: real
  t_check :: real
  t_write :: real
  t_audit :: real
  t_now :: real

section \<open>Operations\<close>

definition is_expired :: "control_request \<Rightarrow> real \<Rightarrow> bool" where
  "is_expired r now = (rq_expires_at r < now)"

definition audit_transition ::
  "instants \<Rightarrow> ustring \<Rightarrow> control_request \<Rightarrow> string option \<Rightarrow> request_store \<Rightarrow> request_store" where
  "audit_transition ts event_type r previous_status st =
     st\<lparr>audit_calls := audit_calls st @
       [(t_audit ts, event_type,
         [(lit ''request_id'', PStr (request_id r)),
          (lit ''request_type'', PStr (lit (request_type r))),
          (lit ''origin'', PStr (rq_origin r)),
          (lit ''previous_status'',
             case previous_status of None \<Rightarrow> PNone | Some s \<Rightarrow> PStr (lit s)),
          (lit ''status'', PStr (lit (rq_status r))),
          (lit ''completed_by_user'', PBool (completed_by_user r)),
          (lit ''has_ciphertext'', PBool (response_ciphertext r \<noteq> None))])]\<rparr>"

definition expire_if_needed :: "instants \<Rightarrow> control_request \<Rightarrow> control_request \<times> bool" where
  "expire_if_needed ts r =
     (if rq_status r \<in> set EXPIRABLE_STATUSES \<and> is_expired r (t_read ts)
      then (r\<lparr>rq_status := ''expired'', rq_updated_at := t_expire ts\<rparr>, True)
      else (r, False))"

definition list_requests ::
  "instants \<Rightarrow> bool \<Rightarrow> (request_store, control_request list) py_op" where
  "list_requests ts include_expired st =
     (let saved = map (\<lambda>(k, r). (k, fst (expire_if_needed ts r))) (requests st);
          vals = map snd saved in
      (st\<lparr>requests := saved\<rparr>,
       Inr (if include_expired then vals else filter (\<lambda>r. rq_status r \<noteq> ''expired'') vals)))"

text \<open>The arguments of \<open>create\<close> besides the request type, and the id that
  \<open>uuid.uuid4()\<close> provides.\<close>

record create_args =
  ca_id :: ustring
  ca_origin :: ustring
  ca_top_level_url :: ustring
  ca_action_summary :: ustring
  ca_risk_level :: ustring
  ca_ttl_seconds :: int
  ca_broker_fingerprint :: "ustring option"
  ca_requested_fields :: "ustring list"
  ca_challenge_type :: "ustring option"
  ca_takeover_reason :: "ustring option"
  ca_browser_context_id :: "ustring option"
  ca_allowed_device_id :: "ustring option"
  ca_save_to_vault :: bool
  ca_structured_details :: "(ustring \<times> pyval) list"
  ca_approval_fingerprint :: "ustring option"

definition new_request :: "instants \<Rightarrow> string \<Rightarrow> create_args \<Rightarrow> control_request" where
  "new_request ts ty a =
     (let takeover = ty \<in> set takeover_types in
      \<lparr>request_id = ca_id a, request_type = ty, rq_origin = ca_origin a,
       top_level_url = ca_top_level_url a, action_summary = ca_action_summary a,
       risk_level = ca_risk_level a, rq_expires_at = t_now ts + real_of_int (ca_ttl_seconds a),
       rq_status = (if takeover then ''user_control'' else ''pending''),
       broker_public_key_fingerprint = ca_broker_fingerprint a,
       one_time_use = True, save_to_vault = ca_save_to_vault a,
       requested_fields = ca_requested_fields a, challenge_type = ca_challenge_type a,
       takeover_reason = ca_takeover_reason a, browser_context_id = ca_browser_context_id a,
       takeover_frame_id = None, takeover_frame_captured_at = None,
       takeover_frame_viewport_width = None, takeover_frame_viewport_height = None,
       allowed_device_id = ca_allowed_device_id a,
       control_owner = (if takeover then ''user'' else ''agent''),
       structured_details = ca_structured_details a, response_ciphertext = None,
       approval_decision = None, approval_mark = ca_approval_fingerprint a,
       completed_by_user = False, bypassed = False, rq_used = False,
       rq_created_at = t_read ts, rq_updated_at = t_write ts\<rparr>)"

definition create ::
  "instants \<Rightarrow> string \<Rightarrow> create_args \<Rightarrow> (request_store, control_request) py_op" where
  "create ts ty a st =
     (if ty \<notin> set REQUEST_TYPES
      then (st, Inl (Value_Error (lit ''unsupported request type: '' @ lit ty)))
      else
        let r = new_request ts ty a in
        (audit_transition ts (lit ''control_request_created'') r None
          (st\<lparr>requests := dict_put (request_id r) r (requests st)\<rparr>), Inr r))"

definition get :: "instants \<Rightarrow> ustring \<Rightarrow> (request_store, control_request) py_op" where
  "get ts rid st =
     (case dict_get (requests st) rid of
        None \<Rightarrow> (st, Inl (Key_Error (lit ''request not found: '' @ rid)))
      | Some r \<Rightarrow>
          (case expire_if_needed ts r of
             (r', True) \<Rightarrow> (st\<lparr>requests := dict_put rid r' (requests st)\<rparr>, Inr r')
           | (r', False) \<Rightarrow> (st, Inr r')))"

definition update :: "instants \<Rightarrow> control_request \<Rightarrow> (request_store, control_request) py_op" where
  "update ts r st =
     (let previous = dict_get (requests st) (request_id r);
          previous_status = map_option rq_status previous;
          had_ciphertext = (case previous of None \<Rightarrow> False | Some p \<Rightarrow> response_ciphertext p \<noteq> None);
          r' = r\<lparr>rq_updated_at := t_write ts\<rparr>;
          st' = st\<lparr>requests := dict_put (request_id r') r' (requests st)\<rparr>;
          became_terminal =
            (previous_status \<noteq> Some (rq_status r') \<and>
             rq_status r' \<in> set (COMPLETED_REQUEST_STATUSES @ ABORTED_REQUEST_STATUSES));
          received_ciphertext = (\<not> had_ciphertext \<and> response_ciphertext r' \<noteq> None) in
      (if became_terminal \<or> received_ciphertext
       then audit_transition ts (lit ''control_request_completed'') r' previous_status st'
       else st',
       Inr r'))"

definition ensure_actionable ::
  "instants \<Rightarrow> bool \<Rightarrow> control_request \<Rightarrow> (request_store, unit) py_op" where
  "ensure_actionable ts allow_fulfilled r =
     (if is_expired r (t_check ts) then
        py_bind (update ts (r\<lparr>rq_status := ''expired''\<rparr>))
          (\<lambda>_. py_raise (Value_Error (lit ''request expired'')))
      else if rq_used r \<and> \<not> (allow_fulfilled \<and> rq_status r = ''fulfilled'') then
        py_raise (Value_Error (lit ''request already used''))
      else py_return ())"

definition submit_ciphertext ::
  "instants \<Rightarrow> ustring \<Rightarrow> (ustring \<times> pyval) list \<Rightarrow> (request_store, control_request) py_op" where
  "submit_ciphertext ts rid envelope =
     py_bind (get ts rid) (\<lambda>r.
     py_bind (ensure_actionable ts False r) (\<lambda>_.
       if response_ciphertext r \<noteq> None then py_raise (Value_Error (lit ''request already used''))
       else update ts (r\<lparr>response_ciphertext := Some envelope, rq_status := ''fulfilled'',
         rq_used := one_time_use r, completed_by_user := True\<rparr>)))"

definition approve :: "instants \<Rightarrow> ustring \<Rightarrow> (request_store, control_request) py_op" where
  "approve ts rid =
     py_bind (get ts rid) (\<lambda>r.
     py_bind (ensure_actionable ts False r) (\<lambda>_.
       update ts (r\<lparr>approval_decision := Some ''approved'', rq_status := ''approved'',
         rq_used := False, completed_by_user := True\<rparr>)))"

definition deny :: "instants \<Rightarrow> ustring \<Rightarrow> (request_store, control_request) py_op" where
  "deny ts rid =
     py_bind (get ts rid) (\<lambda>r.
     py_bind (ensure_actionable ts False r) (\<lambda>_.
       update ts (r\<lparr>approval_decision := Some ''denied'', rq_status := ''denied'',
         rq_used := one_time_use r, completed_by_user := True\<rparr>)))"

definition cancel ::
  "instants \<Rightarrow> ustring \<Rightarrow> ustring option \<Rightarrow> (request_store, control_request) py_op" where
  "cancel ts rid reason =
     py_bind (get ts rid) (\<lambda>r.
       if rq_status r \<in> set (COMPLETED_REQUEST_STATUSES @ ABORTED_REQUEST_STATUSES) then py_return r
       else
         let r' = r\<lparr>rq_status := ''cancelled'', rq_used := one_time_use r, completed_by_user := False\<rparr>;
             r'' = (case reason of
                 None \<Rightarrow> r'
               | Some why \<Rightarrow> if why = [] then r' else
                   r'\<lparr>structured_details :=
                     dict_put (lit ''cancel_reason'') (PStr why) (structured_details r')\<rparr>) in
         update ts r'')"

definition mark_challenge_completed ::
  "instants \<Rightarrow> ustring \<Rightarrow> (request_store, control_request) py_op" where
  "mark_challenge_completed ts rid =
     py_bind (get ts rid) (\<lambda>r.
     py_bind (ensure_actionable ts True r) (\<lambda>_.
       update ts (r\<lparr>rq_status := ''challenge_completed'', completed_by_user := True,
         bypassed := False, rq_used := one_time_use r\<rparr>)))"

definition ensure_takeover :: "control_request \<Rightarrow> (request_store, unit) py_op" where
  "ensure_takeover r =
     (if request_type r \<notin> set takeover_types
      then py_raise (Value_Error (lit ''request is not human takeover or registration handoff''))
      else py_return ())"

definition release_takeover :: "instants \<Rightarrow> ustring \<Rightarrow> (request_store, control_request) py_op" where
  "release_takeover ts rid =
     py_bind (get ts rid) (\<lambda>r.
     py_bind (ensure_takeover r) (\<lambda>_.
     py_bind (ensure_actionable ts False r) (\<lambda>_.
       update ts (r\<lparr>rq_status := ''released'', control_owner := ''agent'', completed_by_user := True,
         bypassed := False, rq_used := one_time_use r\<rparr>))))"

text \<open>A frame of the browser by the entries of its dictionary.\<close>

record takeover_frame =
  fr_frame_id :: "ustring option"
  fr_captured_at :: "real option"
  fr_width :: "int option"
  fr_height :: "int option"

definition nonzero :: "int option \<Rightarrow> int option" where
  "nonzero i = (case i of None \<Rightarrow> None | Some n \<Rightarrow> if n = 0 then None else Some n)"

definition record_takeover_frame ::
  "instants \<Rightarrow> ustring \<Rightarrow> takeover_frame \<Rightarrow> (request_store, control_request) py_op" where
  "record_takeover_frame ts rid frame =
     py_bind (get ts rid) (\<lambda>r.
     py_bind (ensure_takeover r) (\<lambda>_.
     py_bind (ensure_actionable ts False r) (\<lambda>_.
       update ts (r\<lparr>
         takeover_frame_id := Some (case fr_frame_id frame of None \<Rightarrow> [] | Some i \<Rightarrow> i),
         takeover_frame_captured_at := Some (case fr_captured_at frame of
             None \<Rightarrow> t_now ts | Some t \<Rightarrow> if t = 0 then t_now ts else t),
         takeover_frame_viewport_width := nonzero (fr_width frame),
         takeover_frame_viewport_height := nonzero (fr_height frame)\<rparr>))))"

definition validate_takeover_frame ::
  "instants \<Rightarrow> ustring \<Rightarrow> ustring option \<Rightarrow> (request_store, control_request) py_op" where
  "validate_takeover_frame ts rid frame_id =
     py_bind (get ts rid) (\<lambda>r.
     py_bind (ensure_takeover r) (\<lambda>_.
     py_bind (ensure_actionable ts False r) (\<lambda>_.
       if takeover_frame_id r = None \<or> takeover_frame_id r = Some [] then py_return r
       else if frame_id = None \<or> frame_id = Some [] \<or> frame_id \<noteq> takeover_frame_id r
       then py_raise (Value_Error (lit ''stale takeover frame''))
       else
         let captured_at = (case takeover_frame_captured_at r of None \<Rightarrow> 0 | Some t \<Rightarrow> t) in
         if TAKEOVER_FRAME_MAX_AGE_SECONDS < t_now ts - captured_at
         then py_raise (Value_Error (lit ''stale takeover frame''))
         else py_return r)))"

definition consume_approval :: "instants \<Rightarrow> ustring \<Rightarrow> (request_store, control_request) py_op" where
  "consume_approval ts rid =
     py_bind (get ts rid) (\<lambda>r.
     py_bind (ensure_actionable ts False r) (\<lambda>_.
       if rq_status r \<noteq> ''approved'' \<or> approval_decision r \<noteq> Some ''approved''
       then py_raise (Value_Error (lit ''approval request is not approved''))
       else update ts (r\<lparr>rq_status := ''consumed'', rq_used := True\<rparr>)))"

section \<open>Calls and runs\<close>

datatype request_call =
    Create string create_args
  | List_Requests bool
  | Get ustring
  | Submit_Ciphertext ustring "(ustring \<times> pyval) list"
  | Approve ustring
  | Deny ustring
  | Cancel ustring "ustring option"
  | Mark_Challenge_Completed ustring
  | Release_Takeover ustring
  | Record_Takeover_Frame ustring takeover_frame
  | Validate_Takeover_Frame ustring "ustring option"
  | Consume_Approval ustring

definition one :: "(request_store, control_request) py_op \<Rightarrow> (request_store, control_request list) py_op" where
  "one op = py_bind op (\<lambda>r. py_return [r])"

fun do_call :: "instants \<Rightarrow> request_call \<Rightarrow> (request_store, control_request list) py_op" where
  "do_call ts (Create ty a) = one (create ts ty a)"
| "do_call ts (List_Requests b) = list_requests ts b"
| "do_call ts (Get rid) = one (get ts rid)"
| "do_call ts (Submit_Ciphertext rid env) = one (submit_ciphertext ts rid env)"
| "do_call ts (Approve rid) = one (approve ts rid)"
| "do_call ts (Deny rid) = one (deny ts rid)"
| "do_call ts (Cancel rid why) = one (cancel ts rid why)"
| "do_call ts (Mark_Challenge_Completed rid) = one (mark_challenge_completed ts rid)"
| "do_call ts (Release_Takeover rid) = one (release_takeover ts rid)"
| "do_call ts (Record_Takeover_Frame rid f) = one (record_takeover_frame ts rid f)"
| "do_call ts (Validate_Takeover_Frame rid f) = one (validate_takeover_frame ts rid f)"
| "do_call ts (Consume_Approval rid) = one (consume_approval ts rid)"

fun run_requests :: "(instants \<times> request_call) list \<Rightarrow> request_store \<Rightarrow>
    request_store \<times> (request_call \<times> bool) list" where
  "run_requests [] st = (st, [])"
| "run_requests ((ts, c) # cs) st =
     (case do_call ts c st of (st', res) \<Rightarrow>
        (case run_requests cs st' of (st'', outs) \<Rightarrow> (st'', (c, is_ok res) # outs)))"

section \<open>The life cycle of a request\<close>

text \<open>What a method may do to a request, with the conditions under which it does.  A request may
  expire in every status.\<close>

datatype action =
    Expires | Fulfils | Approves | Denies | Cancels | Completes | Releases | Shows_Frame | Consumes

inductive transition :: "action \<Rightarrow> control_request \<Rightarrow> control_request \<Rightarrow> bool" where
  expires: "is_expired r t \<Longrightarrow>
    transition Expires r (r\<lparr>rq_status := ''expired'', rq_updated_at := u\<rparr>)"
| fulfils: "\<lbrakk>\<not> rq_used r; response_ciphertext r = None\<rbrakk> \<Longrightarrow>
    transition Fulfils r (r\<lparr>response_ciphertext := Some env, rq_status := ''fulfilled'',
      rq_used := one_time_use r, completed_by_user := True, rq_updated_at := u\<rparr>)"
| approves: "\<not> rq_used r \<Longrightarrow>
    transition Approves r (r\<lparr>approval_decision := Some ''approved'', rq_status := ''approved'',
      rq_used := False, completed_by_user := True, rq_updated_at := u\<rparr>)"
| denies: "\<not> rq_used r \<Longrightarrow>
    transition Denies r (r\<lparr>approval_decision := Some ''denied'', rq_status := ''denied'',
      rq_used := one_time_use r, completed_by_user := True, rq_updated_at := u\<rparr>)"
| cancels: "rq_status r \<notin> set (COMPLETED_REQUEST_STATUSES @ ABORTED_REQUEST_STATUSES) \<Longrightarrow>
    transition Cancels r (r\<lparr>rq_status := ''cancelled'', rq_used := one_time_use r,
      completed_by_user := False, structured_details := d, rq_updated_at := u\<rparr>)"
| completes: "\<not> rq_used r \<or> rq_status r = ''fulfilled'' \<Longrightarrow>
    transition Completes r (r\<lparr>rq_status := ''challenge_completed'', completed_by_user := True,
      bypassed := False, rq_used := one_time_use r, rq_updated_at := u\<rparr>)"
| releases: "\<lbrakk>\<not> rq_used r; request_type r \<in> set takeover_types\<rbrakk> \<Longrightarrow>
    transition Releases r (r\<lparr>rq_status := ''released'', control_owner := ''agent'',
      completed_by_user := True, bypassed := False, rq_used := one_time_use r, rq_updated_at := u\<rparr>)"
| shows_frame: "\<lbrakk>\<not> rq_used r; request_type r \<in> set takeover_types\<rbrakk> \<Longrightarrow>
    transition Shows_Frame r (r\<lparr>takeover_frame_id := i, takeover_frame_captured_at := c,
      takeover_frame_viewport_width := w, takeover_frame_viewport_height := h, rq_updated_at := u\<rparr>)"
| consumes: "\<lbrakk>\<not> rq_used r; rq_status r = ''approved''; approval_decision r = Some ''approved''\<rbrakk> \<Longrightarrow>
    transition Consumes r (r\<lparr>rq_status := ''consumed'', rq_used := True, rq_updated_at := u\<rparr>)"

definition moves :: "action set \<Rightarrow> control_request \<Rightarrow> control_request \<Rightarrow> bool" where
  "moves A = (\<lambda>r r'. \<exists>a \<in> A. transition a r r')\<^sup>*\<^sup>*"

definition audit_ok :: "audit_call list \<Rightarrow> bool" where
  "audit_ok calls = list_all (\<lambda>(t, event_type, flds). plain_fields flds) calls"

definition store_ok :: "request_store \<Rightarrow> bool" where
  "store_ok st =
     (dict_ok (requests st) \<and> audit_ok (audit_calls st) \<and>
      list_all (\<lambda>(k, r). request_id r = k \<and> one_time_use r) (requests st))"

text \<open>The request with the given id is still there and has moved by the given actions only.\<close>

definition evolves_at :: "action set \<Rightarrow> ustring \<Rightarrow> request_store \<Rightarrow> request_store \<Rightarrow> bool" where
  "evolves_at A k st st' =
     (case dict_get (requests st) k of
        None \<Rightarrow> dict_get (requests st') k = None
      | Some r \<Rightarrow>
          (case dict_get (requests st') k of None \<Rightarrow> False | Some r' \<Rightarrow> moves A r r'))"

lemma transition_fixed:
  "transition a r r' \<Longrightarrow> request_id r' = request_id r \<and> one_time_use r' = one_time_use r"
  by (induction rule: transition.induct) auto

lemma moves_induct [consumes 1, case_names refl step]:
  assumes "moves A r r'" "P r" "\<And>a s s'. a \<in> A \<Longrightarrow> transition a s s' \<Longrightarrow> P s \<Longrightarrow> P s'"
  shows "P r'"
  using assms(1) unfolding moves_def
  by (induction rule: rtranclp_induct) (use assms(2,3) in blast)+

lemma moves_refl [simp]: "moves A r r"
  by (simp add: moves_def)

lemma moves_one: "a \<in> A \<Longrightarrow> transition a r r' \<Longrightarrow> moves A r r'"
  unfolding moves_def by blast

lemma moves_trans: "moves A r r' \<Longrightarrow> moves A r' r'' \<Longrightarrow> moves A r r''"
  unfolding moves_def by (rule rtranclp_trans)

lemma moves_mono: "moves A r r' \<Longrightarrow> A \<subseteq> B \<Longrightarrow> moves B r r'"
  unfolding moves_def by (erule rtranclp_mono [THEN predicate2D, rotated]) blast

lemma moves_fixed: "moves A r r' \<Longrightarrow> request_id r' = request_id r \<and> one_time_use r' = one_time_use r"
  by (induction rule: moves_induct) (auto dest: transition_fixed)

lemma store_ok_get:
  "store_ok st \<Longrightarrow> dict_get (requests st) k = Some r \<Longrightarrow> request_id r = k \<and> one_time_use r"
  by (auto simp: store_ok_def dict_get_in list_all_iff)

lemma evolves_refl [simp]: "evolves_at A k st st"
  by (simp add: evolves_at_def split: option.split)

lemma evolves_same:
  "dict_get (requests st') k = dict_get (requests st) k \<Longrightarrow> evolves_at A k st st'"
  by (simp add: evolves_at_def split: option.split)

lemma evolves_trans: "evolves_at A k st st' \<Longrightarrow> evolves_at A k st' st'' \<Longrightarrow> evolves_at A k st st''"
  by (auto simp: evolves_at_def split: option.splits intro: moves_trans)

lemma store_ok_put:
  assumes "store_ok st" "request_id r = k" "one_time_use r" "audit_ok a"
  shows "store_ok (st\<lparr>requests := dict_put k r (requests st), audit_calls := a\<rparr>)"
  using assms unfolding store_ok_def by (auto intro!: pyd.all_entries_put dict_put_ok)

lemma audit_transition_ok:
  assumes "audit_ok (audit_calls st)"
  shows "audit_ok (audit_calls (audit_transition ts ty r prev st))"
proof -
  have "lit ''previous_hash'' \<notin> {lit ''request_id'', lit ''request_type'', lit ''origin'',
      lit ''previous_status'', lit ''status'', lit ''completed_by_user'', lit ''has_ciphertext''}"
    "lit ''event_hash'' \<notin> {lit ''request_id'', lit ''request_type'', lit ''origin'',
      lit ''previous_status'', lit ''status'', lit ''completed_by_user'', lit ''has_ciphertext''}"
    by code_simp+
  then show ?thesis
    using assms by (simp add: audit_transition_def audit_ok_def plain_fields_def)
qed

lemma update_shape:
  "\<exists>a. (audit_ok (audit_calls st) \<longrightarrow> audit_ok a) \<and> update ts r st =
     (st\<lparr>requests := dict_put (request_id r) (r\<lparr>rq_updated_at := t_write ts\<rparr>) (requests st),
         audit_calls := a\<rparr>, Inr (r\<lparr>rq_updated_at := t_write ts\<rparr>))"
proof -
  let ?r = "r\<lparr>rq_updated_at := t_write ts\<rparr>"
  let ?st = "st\<lparr>requests := dict_put (request_id r) ?r (requests st)\<rparr>"
  let ?ty = "lit ''control_request_completed''"
  let ?prev = "map_option rq_status (dict_get (requests st) (request_id r))"
  have "request_id ?r = request_id r" by simp
  then have "update ts r st = (audit_transition ts ?ty ?r ?prev ?st, Inr ?r) \<or>
      update ts r st = (?st, Inr ?r)"
    unfolding update_def Let_def by (simp only: split: if_split) simp
  moreover have "audit_transition ts ?ty ?r ?prev ?st =
      ?st\<lparr>audit_calls := audit_calls (audit_transition ts ?ty ?r ?prev st)\<rparr>"
    by (simp add: audit_transition_def)
  moreover have "?st = ?st\<lparr>audit_calls := audit_calls st\<rparr>" by simp
  ultimately show ?thesis
    using audit_transition_ok [of st ts ?ty ?r ?prev] by metis
qed

section \<open>Every method follows the life cycle\<close>

named_theorems safe_rules

text \<open>\<open>safe A rid op st\<close>: run in \<open>st\<close>, the operation keeps the store well formed, moves
  the request \<open>rid\<close> by actions of \<open>A\<close> only and leaves all others alone.\<close>

definition safe ::
  "action set \<Rightarrow> ustring \<Rightarrow> (request_store, 'a) py_op \<Rightarrow> request_store \<Rightarrow> bool" where
  "safe A rid op st =
     (store_ok (fst (op st)) \<and> evolves_at A rid st (fst (op st)) \<and>
      (\<forall>k. k \<noteq> rid \<longrightarrow> dict_get (requests (fst (op st))) k = dict_get (requests st) k))"

abbreviation stored :: "ustring \<Rightarrow> control_request \<Rightarrow> request_store \<Rightarrow> bool" where
  "stored rid r st \<equiv> dict_get (requests st) rid = Some r"

lemma safe_return [safe_rules]: "store_ok st \<Longrightarrow> safe A rid (py_return x) st"
  by (simp add: safe_def py_return_def)

lemma safe_raise [safe_rules]: "store_ok st \<Longrightarrow> safe A rid (py_raise e) st"
  by (simp add: safe_def py_raise_def)

lemma safe_bind:
  assumes "safe A rid op st" "\<And>x st'. op st = (st', Inr x) \<Longrightarrow> safe A rid (f x) st'"
  shows "safe A rid (py_bind op f) st"
proof (cases "op st")
  case (Pair st' res)
  then show ?thesis
  proof (cases res)
    case (Inr x)
    then show ?thesis
      using assms(1) assms(2) [of st' x] Pair
      by (auto simp: safe_def py_bind_def intro: evolves_trans)
  qed (use assms(1) Pair in \<open>simp add: safe_def py_bind_def\<close>)
qed

text \<open>A locked section that replaces a request by a successor.\<close>

lemma safe_put:
  assumes "store_ok st" "stored rid r st" "transition a r r'" "a \<in> A" "audit_ok (c st)"
  shows "safe A rid (\<lambda>st. (st\<lparr>requests := dict_put rid r' (requests st), audit_calls := c st\<rparr>, res)) st"
  using assms store_ok_put [OF assms(1) _ _ assms(5), of r' rid] store_ok_get [OF assms(1,2)]
    transition_fixed [OF assms(3)] moves_one [OF assms(4,3)]
  by (auto simp: safe_def evolves_at_def dict_put_get store_ok_def)

lemma safe_update:
  assumes "store_ok st" "stored rid r st" "transition a r (r2\<lparr>rq_updated_at := t_write ts\<rparr>)" "a \<in> A"
  shows "safe A rid (update ts r2) st"
proof -
  obtain c where ok: "audit_ok (audit_calls st) \<longrightarrow> audit_ok c" and c: "update ts r2 st =
     (st\<lparr>requests := dict_put (request_id r2) (r2\<lparr>rq_updated_at := t_write ts\<rparr>) (requests st),
         audit_calls := c\<rparr>, Inr (r2\<lparr>rq_updated_at := t_write ts\<rparr>))"
    using update_shape by blast
  have "request_id r2 = rid"
    using transition_fixed [OF assms(3)] store_ok_get [OF assms(1,2)] by simp
  then show ?thesis
    using safe_put [OF assms, of "\<lambda>_. c"] ok assms(1) by (simp add: safe_def c store_ok_def)
qed

lemma safe_update_own [safe_rules]:
  "store_ok st \<Longrightarrow> stored rid r st \<Longrightarrow> transition a r (r2\<lparr>rq_updated_at := t_write ts\<rparr>) \<Longrightarrow>
     safe {Expires, a} rid (update ts r2) st"
  by (rule safe_update) auto

lemma safe_get:
  assumes "store_ok st" "Expires \<in> A"
  shows "safe A rid (get ts rid) st" and "get ts rid st = (st', Inr r) \<Longrightarrow> stored rid r st'"
proof -
  have put: "safe A rid (\<lambda>st. (st\<lparr>requests := dict_put rid q' (requests st)\<rparr>, Inr q')) st"
    if "stored rid q st" "transition Expires q q'" for q q'
    using safe_put [OF assms(1) that assms(2), of audit_calls] assms(1) by (simp add: store_ok_def)
  show "safe A rid (get ts rid) st"
    using put transition.expires assms
    by (auto simp: safe_def get_def expire_if_needed_def split: option.split bool.split)
  show "stored rid r st'" if "get ts rid st = (st', Inr r)"
    using that assms
    by (auto simp: get_def expire_if_needed_def store_ok_def dict_put_get split: option.splits if_splits)
qed

lemma safe_bind_get [safe_rules]:
  assumes "store_ok st" "Expires \<in> A"
    "\<And>r st'. store_ok st' \<Longrightarrow> stored rid r st' \<Longrightarrow> safe A rid (f r) st'"
  shows "safe A rid (py_bind (get ts rid) f) st"
proof (rule safe_bind)
  fix r st' assume *: "get ts rid st = (st', Inr r)"
  then have "store_ok st'" using safe_get(1) [OF assms(1,2), of rid ts] by (simp add: safe_def)
  then show "safe A rid (f r) st'" using assms(3) safe_get(2) [OF assms(1,2) *] by blast
qed (rule safe_get(1) [OF assms(1,2)])

definition actionable :: "bool \<Rightarrow> control_request \<Rightarrow> bool" where
  "actionable allow_fulfilled r = (\<not> rq_used r \<or> allow_fulfilled \<and> rq_status r = ''fulfilled'')"

lemma ensure_actionable_ok:
  "ensure_actionable ts al r st = (st', Inr x) \<longleftrightarrow>
     st' = st \<and> \<not> is_expired r (t_check ts) \<and> actionable al r"
  by (auto simp: ensure_actionable_def actionable_def py_bind_ok py_raise_def py_return_def
      split: if_splits)

lemma safe_bind_ensure [safe_rules]:
  assumes "store_ok st" "Expires \<in> A" "stored rid r st" "actionable al r \<Longrightarrow> safe A rid (f ()) st"
  shows "safe A rid (py_bind (ensure_actionable ts al r) f) st"
proof (rule safe_bind)
  show "safe A rid (ensure_actionable ts al r) st"
  proof (cases "is_expired r (t_check ts)")
    case True
    then have "safe A rid (update ts (r\<lparr>rq_status := ''expired''\<rparr>)) st"
      using assms(1-3) transition.expires [of r "t_check ts" "t_write ts"]
      by (intro safe_update [of st rid r]) simp_all
    then show ?thesis
      using True by (auto simp: ensure_actionable_def safe_def py_bind_def py_raise_def
          split: prod.split sum.split)
  qed (use assms(1) in \<open>auto simp: ensure_actionable_def intro: safe_rules\<close>)
next
  fix u st' assume "ensure_actionable ts al r st = (st', Inr u)"
  then show "safe A rid (f u) st'" using assms(4) by (simp add: ensure_actionable_ok)
qed

lemma safe_bind_takeover [safe_rules]:
  assumes "store_ok st" "request_type r \<in> set takeover_types \<Longrightarrow> safe A rid (f ()) st"
  shows "safe A rid (py_bind (ensure_takeover r) f) st"
  using assms safe_raise [OF assms(1)]
  by (auto simp: ensure_takeover_def safe_def py_bind_def py_raise_def py_return_def)

lemma safe_if [safe_rules]:
  "(b \<Longrightarrow> safe A rid f st) \<Longrightarrow> (\<not> b \<Longrightarrow> safe A rid g st) \<Longrightarrow> safe A rid (if b then f else g) st"
  by simp

lemma methods_safe:
  assumes "store_ok st"
  shows "safe {Expires, Fulfils} rid (submit_ciphertext ts rid env) st"
    "safe {Expires, Approves} rid (approve ts rid) st"
    "safe {Expires, Denies} rid (deny ts rid) st"
    "safe {Expires, Completes} rid (mark_challenge_completed ts rid) st"
    "safe {Expires, Consumes} rid (consume_approval ts rid) st"
    "safe {Expires, Releases} rid (release_takeover ts rid) st"
    "safe {Expires, Shows_Frame} rid (record_takeover_frame ts rid fr) st"
    "safe {Expires} rid (validate_takeover_frame ts rid fid) st"
  unfolding submit_ciphertext_def approve_def deny_def mark_challenge_completed_def
    consume_approval_def release_takeover_def record_takeover_frame_def validate_takeover_frame_def
    Let_def
  using assms
  by ((intro safe_rules; (assumption | auto simp: actionable_def intro: transition.intros; fail)?)+)

lemma cancel_safe:
  assumes "store_ok st"
  shows "safe {Expires, Cancels} rid (cancel ts rid why) st"
  unfolding cancel_def Let_def
proof (rule safe_bind_get [OF assms], simp)
  fix r st' assume *: "store_ok st'" "stored rid r st'"
  let ?d = "case why of None \<Rightarrow> structured_details r
      | Some w \<Rightarrow> if w = [] then structured_details r
          else dict_put (lit ''cancel_reason'') (PStr w) (structured_details r)"
  let ?r = "r\<lparr>rq_status := ''cancelled'', rq_used := one_time_use r, completed_by_user := False\<rparr>"
  have eq: "(case why of None \<Rightarrow> ?r
      | Some w \<Rightarrow> if w = [] then ?r else ?r\<lparr>structured_details :=
          dict_put (lit ''cancel_reason'') (PStr w) (structured_details ?r)\<rparr>) =
      ?r\<lparr>structured_details := ?d\<rparr>"
    by (simp split: option.split)
  have "safe {Expires, Cancels} rid (update ts (?r\<lparr>structured_details := ?d\<rparr>)) st'"
    if "rq_status r \<notin> set (COMPLETED_REQUEST_STATUSES @ ABORTED_REQUEST_STATUSES)"
    using transition.cancels [OF that, where d = ?d and u = "t_write ts"] by (intro safe_update [OF *, of Cancels]) simp_all
  then show "safe {Expires, Cancels} rid (if rq_status r \<in> set (COMPLETED_REQUEST_STATUSES @ ABORTED_REQUEST_STATUSES)
      then py_return r
      else update ts (case why of None \<Rightarrow> ?r
        | Some w \<Rightarrow> if w = [] then ?r else ?r\<lparr>structured_details :=
            dict_put (lit ''cancel_reason'') (PStr w) (structured_details ?r)\<rparr>)) st'"
    using safe_return [OF *(1), of _ rid r] unfolding eq by simp
qed

lemma expire_moves: "moves {Expires} r (fst (expire_if_needed ts r))"
  by (auto simp: expire_if_needed_def intro: transition.expires moves_one)

lemma list_requests_evolves:
  assumes "store_ok st"
  shows "store_ok (fst (list_requests ts b st)) \<and> evolves_at {Expires} k st (fst (list_requests ts b st))"
proof -
  let ?f = "\<lambda>(k, r). (k, fst (expire_if_needed ts r))"
  have "dict_ok (map ?f (requests st))"
    using assms dict_map_ok [of "\<lambda>_ r. fst (expire_if_needed ts r)"] by (simp add: store_ok_def)
  moreover have "list_all (\<lambda>(k, r). request_id r = k \<and> one_time_use r) (map ?f (requests st))"
    using assms moves_fixed [OF expire_moves [of _ ts]]
    by (auto simp: store_ok_def list_all_iff)
  moreover have "evolves_at {Expires} k st (st\<lparr>requests := map ?f (requests st)\<rparr>)"
    using expire_moves [of _ ts]
    by (simp add: evolves_at_def dict_map_get [of "\<lambda>_ r. fst (expire_if_needed ts r)"]
        split: option.split)
  ultimately show ?thesis using assms by (simp add: list_requests_def Let_def store_ok_def)
qed

lemma create_store:
  assumes "store_ok st"
  shows "store_ok (fst (create ts ty a st))"
    and "k \<noteq> ca_id a \<Longrightarrow> dict_get (requests (fst (create ts ty a st))) k = dict_get (requests st) k"
proof -
  let ?r = "new_request ts ty a"
  let ?a = "audit_calls (audit_transition ts (lit ''control_request_created'') ?r None st)"
  have "fst (create ts ty a st) = (if ty \<notin> set REQUEST_TYPES then st
      else st\<lparr>requests := dict_put (ca_id a) ?r (requests st), audit_calls := ?a\<rparr>)"
    by (simp add: create_def Let_def new_request_def audit_transition_def)
  moreover have "audit_ok ?a"
    using assms by (intro audit_transition_ok) (simp add: store_ok_def)
  ultimately show "store_ok (fst (create ts ty a st))"
    "k \<noteq> ca_id a \<Longrightarrow> dict_get (requests (fst (create ts ty a st))) k = dict_get (requests st) k"
    using assms store_ok_put [OF assms, of ?r "ca_id a" ?a]
    by (simp_all add: new_request_def Let_def dict_put_get store_ok_def)
qed

lemma one_fst: "fst (one op st) = fst (op st)"
  by (simp add: one_def py_bind_def py_return_def split: prod.split sum.split)

lemma one_ok: "is_ok (snd (one op st)) = is_ok (snd (op st))"
  by (simp add: one_def py_bind_def py_return_def is_ok_def split: prod.split sum.split)

text \<open>The request a call is about, and what the call may do to it.\<close>

fun creates :: "request_call \<Rightarrow> ustring option" where
  "creates (Create ty a) = Some (ca_id a)"
| "creates _ = None"

fun call_actions :: "request_call \<Rightarrow> ustring \<Rightarrow> action set" where
  "call_actions (Create ty a) k = {}"
| "call_actions (List_Requests b) k = {Expires}"
| "call_actions (Get rid) k = (if k = rid then {Expires} else {})"
| "call_actions (Submit_Ciphertext rid env) k = (if k = rid then {Expires, Fulfils} else {})"
| "call_actions (Approve rid) k = (if k = rid then {Expires, Approves} else {})"
| "call_actions (Deny rid) k = (if k = rid then {Expires, Denies} else {})"
| "call_actions (Cancel rid why) k = (if k = rid then {Expires, Cancels} else {})"
| "call_actions (Mark_Challenge_Completed rid) k = (if k = rid then {Expires, Completes} else {})"
| "call_actions (Release_Takeover rid) k = (if k = rid then {Expires, Releases} else {})"
| "call_actions (Record_Takeover_Frame rid f) k = (if k = rid then {Expires, Shows_Frame} else {})"
| "call_actions (Validate_Takeover_Frame rid f) k = (if k = rid then {Expires} else {})"
| "call_actions (Consume_Approval rid) k = (if k = rid then {Expires, Consumes} else {})"

lemma safe_evolves:
  "safe A rid op st \<Longrightarrow> store_ok (fst (one op st)) \<and>
     evolves_at (if k = rid then A else {}) k st (fst (one op st))"
  by (auto simp: safe_def one_fst intro: evolves_same)

lemma do_call_evolves:
  assumes "store_ok st" "creates call \<noteq> Some k"
  shows "store_ok (fst (do_call ts call st)) \<and>
    evolves_at (call_actions call k) k st (fst (do_call ts call st))"
proof (cases call)
  case (Create ty a)
  then have "dict_get (requests (fst (create ts ty a st))) k = dict_get (requests st) k"
    using assms by (intro create_store) auto
  then show ?thesis
    using create_store(1) [OF assms(1)] by (simp add: Create one_fst evolves_same)
next
  case (List_Requests b)
  then show ?thesis using list_requests_evolves [OF assms(1)] by simp
next
  case (Get rid)
  then show ?thesis
    using safe_evolves [OF safe_get(1) [OF assms(1), of "{Expires}" rid ts], of k] by simp
qed (simp_all add: safe_evolves [OF methods_safe(1) [OF assms(1)]]
    safe_evolves [OF methods_safe(2) [OF assms(1)]] safe_evolves [OF methods_safe(3) [OF assms(1)]]
    safe_evolves [OF methods_safe(4) [OF assms(1)]] safe_evolves [OF methods_safe(5) [OF assms(1)]]
    safe_evolves [OF methods_safe(6) [OF assms(1)]] safe_evolves [OF methods_safe(7) [OF assms(1)]]
    safe_evolves [OF methods_safe(8) [OF assms(1)]] safe_evolves [OF cancel_safe [OF assms(1)]])

end
