(* ===== verification/Request_Runs.thy ===== *)
theory Request_Runs
  imports Control_Requests
begin

text \<open>
  What sequences of calls of the request store of \<open>omni_control/requests.py\<close> guarantee: an
  approval is consumed at most once and never without a decision, the audit log the store writes
  verifies, and waiting for a request ends.  Two behaviours the code does not rule out are shown
  as well: a settled request that a late decision turns into an expired one, and an approval that two
  overlapping calls consume twice.
\<close>

section \<open>An approval is consumed at most once\<close>

text \<open>A request whose approval has been spent: it stays spent whatever happens to it.\<close>

definition spent :: "control_request \<Rightarrow> bool" where
  "spent r = (rq_used r \<and> one_time_use r \<and> rq_status r \<noteq> ''fulfilled'')"

definition unapproved :: "control_request \<Rightarrow> bool" where
  "unapproved r = (approval_decision r \<noteq> Some ''approved'')"

lemma transition_spent: "transition a r r' \<Longrightarrow> spent r \<Longrightarrow> spent r'"
  by (induction rule: transition.induct) (auto simp: spent_def)

lemma moves_spent: "moves A r r' \<Longrightarrow> spent r \<Longrightarrow> spent r'"
  by (induction rule: moves_induct) (auto intro: transition_spent)

lemma transition_unapproved: "transition a r r' \<Longrightarrow> a \<noteq> Approves \<Longrightarrow> unapproved r \<Longrightarrow> unapproved r'"
  by (induction rule: transition.induct) (auto simp: unapproved_def)

lemma moves_unapproved: "moves A r r' \<Longrightarrow> Approves \<notin> A \<Longrightarrow> unapproved r \<Longrightarrow> unapproved r'"
  by (induction rule: moves_induct) (auto intro: transition_unapproved)

text \<open>What the successful consumption of an approval needs and leaves behind.\<close>

lemma consume_approval_ok:
  assumes "store_ok st" "consume_approval ts rid st = (st', Inr r')"
  obtains r where "stored rid r st" "rq_status r = ''approved''" "approval_decision r = Some ''approved''"
    "\<not> rq_used r" "t_read ts \<le> rq_expires_at r" "t_check ts \<le> rq_expires_at r"
    "stored rid (r\<lparr>rq_status := ''consumed'', rq_used := True, rq_updated_at := t_write ts\<rparr>) st'"
proof -
  obtain st1 r st2 u where g: "get ts rid st = (st1, Inr r)"
    and e: "ensure_actionable ts False r st1 = (st2, Inr u)"
    and k: "(if rq_status r \<noteq> ''approved'' \<or> approval_decision r \<noteq> Some ''approved''
       then py_raise (Value_Error (lit ''approval request is not approved''))
       else update ts (r\<lparr>rq_status := ''consumed'', rq_used := True\<rparr>)) st2 = (st', Inr r')"
    using assms(2) unfolding consume_approval_def py_bind_ok by blast
  have st2: "st2 = st1" "t_check ts \<le> rq_expires_at r" "\<not> rq_used r"
    using e by (auto simp: ensure_actionable_ok actionable_def is_expired_def)
  have s: "rq_status r = ''approved''" "approval_decision r = Some ''approved''"
    and u: "update ts (r\<lparr>rq_status := ''consumed'', rq_used := True\<rparr>) st1 = (st', Inr r')"
    using k by (auto simp: py_raise_def st2 split: if_splits)
  have st1: "st1 = st" "stored rid r st" "t_read ts \<le> rq_expires_at r"
    using g s(1)
    by (auto simp: get_def expire_if_needed_def is_expired_def EXPIRABLE_STATUSES_def
        split: option.splits if_splits)
  have "request_id r = rid" using store_ok_get [OF assms(1) st1(2)] by simp
  then have "stored rid (r\<lparr>rq_status := ''consumed'', rq_used := True, rq_updated_at := t_write ts\<rparr>) st'"
    using u update_shape [of st ts "r\<lparr>rq_status := ''consumed'', rq_used := True\<rparr>"] assms(1) st1(1)
    by (auto simp: dict_put_get store_ok_def)
  then show ?thesis using that s st1 st2 by blast
qed

definition consumptions :: "ustring \<Rightarrow> (request_call \<times> bool) list \<Rightarrow> nat" where
  "consumptions rid outs = length (filter (\<lambda>(call, ok). ok \<and> call = Consume_Approval rid) outs)"

lemma run_requests_Cons:
  "snd (run_requests ((ts, call) # cs) st) =
     (call, is_ok (snd (do_call ts call st))) # snd (run_requests cs (fst (do_call ts call st)))"
  by (simp split: prod.split)

lemma consumptions_Cons [simp]:
  "consumptions rid ((call, ok) # outs) =
     (if ok \<and> call = Consume_Approval rid then 1 else 0) + consumptions rid outs"
  by (simp add: consumptions_def)

lemma consumptions_Nil [simp]: "consumptions rid [] = 0"
  by (simp add: consumptions_def)

text \<open>A store in which the approval of a request cannot be consumed, now or after any call that
  \<open>Q\<close> admits.\<close>

lemma run_no_consumption:
  assumes keep: "\<And>st ts call. store_ok st \<Longrightarrow> P (dict_get (requests st) rid) \<Longrightarrow> Q call \<Longrightarrow>
      store_ok (fst (do_call ts call st)) \<and> P (dict_get (requests (fst (do_call ts call st))) rid)"
    and no: "\<And>st ts. store_ok st \<Longrightarrow> P (dict_get (requests st) rid) \<Longrightarrow>
      \<not> is_ok (snd (consume_approval ts rid st))"
  shows "store_ok st \<Longrightarrow> P (dict_get (requests st) rid) \<Longrightarrow> list_all (\<lambda>(ts, call). Q call) calls \<Longrightarrow>
    consumptions rid (snd (run_requests calls st)) = 0"
proof (induction calls arbitrary: st)
  case (Cons x calls)
  obtain ts call where x: "x = (ts, call)" by (cases x)
  have "\<not> (is_ok (snd (do_call ts call st)) \<and> call = Consume_Approval rid)"
    using no Cons.prems by (auto simp: one_ok)
  moreover have "consumptions rid (snd (run_requests calls (fst (do_call ts call st)))) = 0"
    using keep [OF Cons.prems(1,2), of call ts] Cons.prems(3) by (intro Cons.IH) (auto simp: x)
  ultimately show ?case by (simp only: x run_requests_Cons consumptions_Cons) simp
qed simp

lemma consume_approval_is_ok:
  assumes "is_ok (snd (consume_approval ts rid st))"
  obtains st' r where "consume_approval ts rid st = (st', Inr r)"
  using assms by (cases "consume_approval ts rid st"; cases "snd (consume_approval ts rid st)")
    (auto simp: is_ok_def)

lemma spent_no_consumption:
  assumes "store_ok st" "stored rid r st" "spent r" "list_all (\<lambda>(ts, call). creates call \<noteq> Some rid) calls"
  shows "consumptions rid (snd (run_requests calls st)) = 0"
proof (rule run_no_consumption [where P = "\<lambda>q. \<exists>r. q = Some r \<and> spent r"
      and Q = "\<lambda>call. creates call \<noteq> Some rid"])
  fix st ts call assume *: "store_ok st" "\<exists>r. stored rid r st \<and> spent r" "creates call \<noteq> Some rid"
  then show "store_ok (fst (do_call ts call st)) \<and>
      (\<exists>r. stored rid r (fst (do_call ts call st)) \<and> spent r)"
    using do_call_evolves [OF *(1,3), of ts]
    by (auto simp: evolves_at_def split: option.splits intro: moves_spent)
next
  fix st ts assume *: "store_ok st" "\<exists>r. stored rid r st \<and> spent r"
  show "\<not> is_ok (snd (consume_approval ts rid st))"
  proof
    assume "is_ok (snd (consume_approval ts rid st))"
    then show False
      using * by (elim consume_approval_is_ok consume_approval_ok) (auto simp: spent_def)
  qed
qed (use assms in auto)


text \<open>Nothing is consumed that nobody approved: as long as a request has not been approved and no
  call approves it, no consumption succeeds.\<close>

theorem consumption_needs_approval:
  assumes "store_ok st" "case dict_get (requests st) rid of None \<Rightarrow> True | Some r \<Rightarrow> unapproved r"
    "list_all (\<lambda>(ts, call). call \<noteq> Approve rid) calls"
  shows "consumptions rid (snd (run_requests calls st)) = 0"
proof (rule run_no_consumption [where P = "\<lambda>q. \<forall>r. q = Some r \<longrightarrow> unapproved r"
      and Q = "\<lambda>call. call \<noteq> Approve rid"])
  fix st ts call
  assume *: "store_ok st" "\<forall>r. stored rid r st \<longrightarrow> unapproved r" "call \<noteq> Approve rid"
  show "store_ok (fst (do_call ts call st)) \<and>
      (\<forall>r. stored rid r (fst (do_call ts call st)) \<longrightarrow> unapproved r)"
  proof (cases "creates call = Some rid")
    case True
    then obtain ty a where c: "call = Create ty a" "ca_id a = rid" by (cases call) auto
    then show ?thesis
      using * create_store(1) [OF *(1), of ts ty a]
      by (auto simp: one_fst create_def Let_def audit_transition_def new_request_def dict_put_get
          store_ok_def unapproved_def split: if_splits)
  next
    case False
    have "Approves \<notin> call_actions call rid" using *(3) by (cases call) auto
    then show ?thesis
      using do_call_evolves [OF *(1) False, of ts] *(2)
      by (auto simp: evolves_at_def split: option.splits intro: moves_unapproved)
  qed
next
  fix st ts assume *: "store_ok st" "\<forall>r. stored rid r st \<longrightarrow> unapproved r"
  show "\<not> is_ok (snd (consume_approval ts rid st))"
  proof
    assume "is_ok (snd (consume_approval ts rid st))"
    then show False
      using * by (elim consume_approval_is_ok consume_approval_ok) (auto simp: unapproved_def)
  qed
qed (use assms in \<open>auto split: option.splits\<close>)

text \<open>A store for concrete runs: one payment approval that expires at time 300.\<close>

definition demo_args :: create_args where
  "demo_args = \<lparr>ca_id = lit ''req_1'', ca_origin = lit ''https://shop.example'',
     ca_top_level_url = lit ''https://shop.example/pay'', ca_action_summary = lit ''Pay'',
     ca_risk_level = lit ''high'', ca_ttl_seconds = 300, ca_broker_fingerprint = None,
     ca_requested_fields = [], ca_challenge_type = None, ca_takeover_reason = None,
     ca_browser_context_id = None, ca_allowed_device_id = None, ca_save_to_vault = False,
     ca_structured_details = [], ca_approval_fingerprint = None\<rparr>"

definition at_time :: "real \<Rightarrow> instants" where
  "at_time t = \<lparr>t_read = t, t_expire = t, t_check = t, t_write = t, t_audit = t, t_now = t\<rparr>"

lemma at_time_simps [simp]:
  "t_read (at_time t) = t" "t_expire (at_time t) = t" "t_check (at_time t) = t"
  "t_write (at_time t) = t" "t_audit (at_time t) = t" "t_now (at_time t) = t"
  by (simp_all add: at_time_def)

definition empty_store :: request_store where
  "empty_store = \<lparr>requests = [], audit_calls = []\<rparr>"

definition demo_store :: request_store where
  "demo_store = fst (create (at_time 0) ''payment_approval'' demo_args empty_store)"

lemma empty_store_ok: "store_ok empty_store"
  by (simp add: store_ok_def empty_store_def audit_ok_def)

lemma demo_store_ok: "store_ok demo_store"
  unfolding demo_store_def by (rule create_store(1) [OF empty_store_ok])

lemma demo_store_get:
  "stored (lit ''req_1'') (new_request (at_time 0) ''payment_approval'' demo_args) demo_store"
  by (simp add: demo_store_def create_def REQUEST_TYPES_def audit_transition_def Let_def
      empty_store_def dict_get_def new_request_def demo_args_def)

lemma demo_request:
  defines "r \<equiv> new_request (at_time 0) ''payment_approval'' demo_args"
  shows "rq_status r = ''pending''" "rq_expires_at r = 300" "\<not> rq_used r" "one_time_use r"
    "request_id r = lit ''req_1''" "approval_decision r = None"
  by (simp_all add: r_def new_request_def Let_def takeover_types_def demo_args_def)


theorem consumption_needs_approval_witness:
  "consumptions (lit ''req_1'') (snd (run_requests
     [(at_time 1, Deny (lit ''req_1'')), (at_time 2, Consume_Approval (lit ''req_1''))]
     demo_store)) = 0"
  by (rule consumption_needs_approval [OF demo_store_ok])
    (simp_all add: demo_store_get unapproved_def demo_request)

section \<open>Expiry of settled requests\<close>

text \<open>\<open>get\<close> leaves a settled request alone when its time is over, but any later decision on it
  overwrites the recorded outcome: a denied or consumed request becomes an expired one.\<close>

theorem settled_request_expires:
  assumes "store_ok st" "dict_get (requests st) rid = Some r"
    "rq_status r \<notin> set EXPIRABLE_STATUSES" "rq_expires_at r < t_check ts"
  shows "snd (get ts rid st) = Inr r \<and>
    snd (approve ts rid st) = Inl (Value_Error (lit ''request expired'')) \<and>
    map_option rq_status (dict_get (requests (fst (approve ts rid st))) rid) = Some ''expired''"
proof -
  have g: "get ts rid st = (st, Inr r)"
    using assms(2,3) by (simp add: get_def expire_if_needed_def)
  have rid: "request_id r = rid" using store_ok_get [OF assms(1,2)] by simp
  have "approve ts rid st =
      py_bind (update ts (r\<lparr>rq_status := ''expired''\<rparr>))
        (\<lambda>_. py_raise (Value_Error (lit ''request expired''))) st"
    using assms(4)
    by (simp add: approve_def py_bind_def g ensure_actionable_def is_expired_def py_raise_def
        split: prod.split sum.split)
  then show ?thesis
    using g update_shape [of st ts "r\<lparr>rq_status := ''expired''\<rparr>"] assms(1)
    by (auto simp: py_bind_def py_raise_def rid dict_put_get store_ok_def)
qed

definition denied_store :: request_store where
  "denied_store = fst (deny (at_time 1) (lit ''req_1'') demo_store)"

lemma denied_store_get:
  "store_ok denied_store \<and> stored (lit ''req_1'')
     (new_request (at_time 0) ''payment_approval'' demo_args\<lparr>approval_decision := Some ''denied'',
        rq_status := ''denied'', rq_used := True, completed_by_user := True, rq_updated_at := 1\<rparr>)
     denied_store"
proof -
  let ?r = "new_request (at_time 0) ''payment_approval'' demo_args"
  let ?d = "?r\<lparr>approval_decision := Some ''denied'', rq_status := ''denied'', rq_used := True,
    completed_by_user := True\<rparr>"
  have "deny (at_time 1) (lit ''req_1'') demo_store = update (at_time 1) ?d demo_store"
    by (simp add: deny_def py_bind_def get_def demo_store_get expire_if_needed_def is_expired_def
        demo_request ensure_actionable_def py_return_def)
  then have "stored (lit ''req_1'') (?d\<lparr>rq_updated_at := 1\<rparr>) denied_store"
    using update_shape [of demo_store "at_time 1" ?d] demo_store_ok
    by (auto simp: denied_store_def demo_request dict_put_get store_ok_def)
  moreover have "store_ok denied_store"
    using methods_safe(3) [OF demo_store_ok] by (simp add: denied_store_def safe_def)
  ultimately show ?thesis by simp
qed

theorem settled_request_expires_witness:
  "map_option rq_status (dict_get (requests
     (fst (approve (at_time 301) (lit ''req_1'') denied_store))) (lit ''req_1'')) = Some ''expired''"
  using settled_request_expires [of denied_store "lit ''req_1''" _ "at_time 301"] denied_store_get
  by (auto simp: EXPIRABLE_STATUSES_def demo_request)

section \<open>Overlapping consumptions\<close>

text \<open>A thread that runs \<open>consume_approval\<close> takes the lock of the state file twice: to read the
  request, and to write it back after its checks.  Between the two, other threads may run.\<close>

datatype consumer = Idle | Holding control_request | Finished "py_error + control_request"

definition consume_write :: "instants \<Rightarrow> control_request \<Rightarrow> (request_store, control_request) py_op" where
  "consume_write ts r =
     py_bind (ensure_actionable ts False r) (\<lambda>_.
       if rq_status r \<noteq> ''approved'' \<or> approval_decision r \<noteq> Some ''approved''
       then py_raise (Value_Error (lit ''approval request is not approved''))
       else update ts (r\<lparr>rq_status := ''consumed'', rq_used := True\<rparr>))"

lemma consume_approval_split: "consume_approval ts rid = py_bind (get ts rid) (consume_write ts)"
  unfolding consume_approval_def consume_write_def ..

inductive consume_step ::
  "ustring \<Rightarrow> request_store \<times> (nat \<Rightarrow> consumer) \<Rightarrow> request_store \<times> (nat \<Rightarrow> consumer) \<Rightarrow> bool"
  for rid where
  reads: "th p = Idle \<Longrightarrow> get ts rid st = (st', Inr r) \<Longrightarrow>
    consume_step rid (st, th) (st', th(p := Holding r))"
| fails: "th p = Idle \<Longrightarrow> get ts rid st = (st', Inl e) \<Longrightarrow>
    consume_step rid (st, th) (st', th(p := Finished (Inl e)))"
| writes: "th p = Holding r \<Longrightarrow> consume_write ts r st = (st', res) \<Longrightarrow>
    consume_step rid (st, th) (st', th(p := Finished res))"

lemma consume_write_ok:
  assumes "rq_status r = ''approved''" "approval_decision r = Some ''approved''" "\<not> rq_used r"
    "t_check ts \<le> rq_expires_at r"
  shows "\<exists>st' r'. consume_write ts r st = (st', Inr r')"
proof -
  have "consume_write ts r st = update ts (r\<lparr>rq_status := ''consumed'', rq_used := True\<rparr>) st"
    using assms by (simp add: consume_write_def py_bind_def ensure_actionable_def is_expired_def
        py_return_def)
  then show ?thesis
    using update_shape [of st ts "r\<lparr>rq_status := ''consumed'', rq_used := True\<rparr>"] by auto
qed

text \<open>Two threads that consume the same approval at the same time can both succeed: the one-time
  approval is spent twice.\<close>

theorem consume_race:
  assumes "dict_get (requests st) rid = Some r" "rq_status r = ''approved''"
    "approval_decision r = Some ''approved''" "\<not> rq_used r"
  shows "\<exists>st' th r1 r2. (consume_step rid)\<^sup>*\<^sup>* (st, \<lambda>_. Idle) (st', th) \<and>
    th 0 = Finished (Inr r1) \<and> th 1 = Finished (Inr r2)"
proof -
  define ts where "ts = at_time (rq_expires_at r)"
  have g: "get ts rid st = (st, Inr r)"
    using assms by (simp add: get_def expire_if_needed_def is_expired_def ts_def)
  note w = consume_write_ok [OF assms(2-4), of ts]
  obtain st1 r1 where w1: "consume_write ts r st = (st1, Inr r1)"
    using w [of st] by (auto simp: ts_def)
  obtain st2 r2 where w2: "consume_write ts r st1 = (st2, Inr r2)"
    using w [of st1] by (auto simp: ts_def)
  let ?t0 = "\<lambda>_ :: nat. Idle"
  let ?t1 = "?t0(0 := Holding r)"
  let ?t2 = "?t1(1 := Holding r)"
  let ?t3 = "?t2(0 := Finished (Inr r1))"
  let ?t4 = "?t3(1 := Finished (Inr r2))"
  have "consume_step rid (st, ?t0) (st, ?t1)" "consume_step rid (st, ?t1) (st, ?t2)"
    using consume_step.reads [of ?t0 0 ts rid, OF _ g] consume_step.reads [of ?t1 1 ts rid, OF _ g]
    by simp_all
  moreover have "consume_step rid (st, ?t2) (st1, ?t3)" "consume_step rid (st1, ?t3) (st2, ?t4)"
    using consume_step.writes [of ?t2 0 r, OF _ w1] consume_step.writes [of ?t3 1 r, OF _ w2]
    by simp_all
  ultimately have "(consume_step rid)\<^sup>*\<^sup>* (st, ?t0) (st2, ?t4)"
    by (meson converse_rtranclp_into_rtranclp rtranclp.rtrancl_refl)
  moreover have "?t4 0 = Finished (Inr r1)" "?t4 1 = Finished (Inr r2)" by simp_all
  ultimately show ?thesis by blast
qed

definition approved_store :: request_store where
  "approved_store = fst (approve (at_time 1) (lit ''req_1'') demo_store)"

lemma approved_store_get:
  "store_ok approved_store \<and> stored (lit ''req_1'')
     (new_request (at_time 0) ''payment_approval'' demo_args\<lparr>approval_decision := Some ''approved'',
        rq_status := ''approved'', rq_used := False, completed_by_user := True, rq_updated_at := 1\<rparr>)
     approved_store"
proof -
  let ?r = "new_request (at_time 0) ''payment_approval'' demo_args"
  let ?d = "?r\<lparr>approval_decision := Some ''approved'', rq_status := ''approved'', rq_used := False,
    completed_by_user := True\<rparr>"
  have "approve (at_time 1) (lit ''req_1'') demo_store = update (at_time 1) ?d demo_store"
    by (simp add: approve_def py_bind_def get_def demo_store_get expire_if_needed_def is_expired_def
        demo_request ensure_actionable_def py_return_def)
  then have "stored (lit ''req_1'') (?d\<lparr>rq_updated_at := 1\<rparr>) approved_store"
    using update_shape [of demo_store "at_time 1" ?d] demo_store_ok
    by (auto simp: approved_store_def demo_request dict_put_get store_ok_def)
  moreover have "store_ok approved_store"
    using methods_safe(2) [OF demo_store_ok] by (simp add: approved_store_def safe_def)
  ultimately show ?thesis by simp
qed

theorem consume_race_witness:
  "\<exists>st' th r1 r2. (consume_step (lit ''req_1''))\<^sup>*\<^sup>* (approved_store, \<lambda>_. Idle) (st', th) \<and>
    th 0 = Finished (Inr r1) \<and> th 1 = Finished (Inr r2)"
  by (rule consume_race [OF conjunct2 [OF approved_store_get]]) simp_all

section \<open>The audit trail of the store\<close>

fun write_audit :: "py_runtime \<Rightarrow> digest_fun \<Rightarrow> audit_call list \<Rightarrow> event list \<Rightarrow> py_error + event list" where
  "write_audit U H [] evs = Inr evs"
| "write_audit U H ((t, event_type, flds) # calls) evs =
     and_then (audit_append U H evs t event_type flds) (write_audit U H calls)"

lemma do_call_ok:
  assumes "store_ok st"
  shows "store_ok (fst (do_call ts call st))"
proof -
  obtain k where "creates call \<noteq> Some k"
    by (cases "creates call") (auto intro: that [of "0 # the (creates call)"])
  then show ?thesis using do_call_evolves [OF assms] by blast
qed

lemma run_requests_ok: "store_ok st \<Longrightarrow> store_ok (fst (run_requests calls st))"
proof (induction calls arbitrary: st)
  case (Cons x calls)
  obtain ts call where x: "x = (ts, call)" by (cases x)
  have "store_ok (fst (run_requests calls (fst (do_call ts call st))))"
    using Cons.prems by (intro Cons.IH do_call_ok)
  then show ?case by (auto simp: x split: prod.splits)
qed simp

lemma write_audit_verifies:
  assumes "digest_law H"
  shows "audit_verify H evs \<Longrightarrow> audit_ok calls \<Longrightarrow>
    \<exists>evs'. write_audit U H calls evs = Inr evs' \<and> audit_verify H evs' \<and>
      length evs' = length evs + length calls"
proof (induction calls arbitrary: evs)
  case (Cons x calls)
  obtain t ty f where x: "x = (t, ty, f)" by (cases x)
  have "plain_fields f" using Cons.prems(2) by (simp add: audit_ok_def x)
  then obtain e where e: "audit_append U H evs t ty f = Inr (evs @ [e])" "audit_verify H (evs @ [e])"
    using audit_append_step [OF Cons.prems(1) assms, of f U t ty] by blast
  show ?case
    using Cons.IH [OF e(2)] Cons.prems(2) by (simp add: x e(1) and_then_def audit_ok_def)
qed simp



section \<open>Waiting for a request\<close>

text \<open>The loop of \<open>wait_for_request_completion\<close>.  Other threads and processes change the store
  while it sleeps, so what its \<open>k\<close>-th round sees is an argument: the time the loop condition
  reads, the instants of the call of \<open>get\<close> and the store it reads.\<close>

type_synonym round = "real \<times> instants \<times> request_store"

definition settled :: "string list \<Rightarrow> bool \<Rightarrow> control_request \<Rightarrow> bool" where
  "settled statuses require_ciphertext r =
     (response_ciphertext r \<noteq> None \<or>
      rq_status r \<in> set statuses \<and> \<not> require_ciphertext \<or>
      rq_status r \<in> set ABORTED_REQUEST_STATUSES)"

partial_function (option) wait_loop ::
  "(nat \<Rightarrow> round) \<Rightarrow> real \<Rightarrow> string list \<Rightarrow> bool \<Rightarrow> ustring \<Rightarrow> nat \<Rightarrow>
     (py_error + control_request) option" where
  "wait_loop rounds deadline statuses require_ciphertext rid k =
     (let (now, ts, st) = rounds k in
      if now < deadline then
        case snd (get ts rid st) of
          Inl e \<Rightarrow> Some (Inl e)
        | Inr r \<Rightarrow>
            if settled statuses require_ciphertext r then Some (Inr r)
            else wait_loop rounds deadline statuses require_ciphertext rid (Suc k)
      else Some (Inl (Timeout_Error (lit ''timed out waiting for Control Client request''))))"

definition wait_for_request_completion ::
  "(nat \<Rightarrow> round) \<Rightarrow> ustring \<Rightarrow> real \<Rightarrow> real \<Rightarrow> bool \<Rightarrow> string list option \<Rightarrow>
     (py_error + control_request) option" where
  "wait_for_request_completion rounds rid start timeout_seconds require_ciphertext terminal_statuses =
     wait_loop rounds (start + timeout_seconds)
       (case terminal_statuses of
          None \<Rightarrow> COMPLETED_REQUEST_STATUSES
        | Some l \<Rightarrow> if l = [] then COMPLETED_REQUEST_STATUSES else l)
       require_ciphertext rid 0"

text \<open>A round in which the loop goes to sleep.\<close>

definition keeps_waiting :: "real \<Rightarrow> string list \<Rightarrow> bool \<Rightarrow> ustring \<Rightarrow> round \<Rightarrow> bool" where
  "keeps_waiting deadline statuses rc rid x =
     (case x of (now, ts, st) \<Rightarrow> now < deadline \<and>
        (case snd (get ts rid st) of Inl e \<Rightarrow> False | Inr r \<Rightarrow> \<not> settled statuses rc r))"

definition round_result :: "real \<Rightarrow> ustring \<Rightarrow> round \<Rightarrow> py_error + control_request" where
  "round_result deadline rid x =
     (case x of (now, ts, st) \<Rightarrow>
        if now < deadline then snd (get ts rid st)
        else Inl (Timeout_Error (lit ''timed out waiting for Control Client request'')))"

lemma wait_loop_step:
  "wait_loop rounds deadline statuses rc rid k =
     (if keeps_waiting deadline statuses rc rid (rounds k)
      then wait_loop rounds deadline statuses rc rid (Suc k)
      else Some (round_result deadline rid (rounds k)))"
  by (subst wait_loop.simps)
    (auto simp: keeps_waiting_def round_result_def split: prod.split sum.split)

lemma wait_loop_first:
  assumes "\<And>k. m \<le> k \<Longrightarrow> k < n \<Longrightarrow> keeps_waiting deadline statuses rc rid (rounds k)"
    "\<not> keeps_waiting deadline statuses rc rid (rounds n)" "m \<le> n"
  shows "wait_loop rounds deadline statuses rc rid m = Some (round_result deadline rid (rounds n))"
  using assms
proof (induction "n - m" arbitrary: m)
  case 0
  then show ?case by (simp add: wait_loop_step [of _ _ _ _ _ m])
next
  case (Suc d)
  then have "wait_loop rounds deadline statuses rc rid (Suc m) =
      Some (round_result deadline rid (rounds n))"
    by (intro Suc(1)) auto
  then show ?case using Suc by (simp add: wait_loop_step [of _ _ _ _ _ m])
qed

text \<open>Rounds that are at least \<open>poll\<close> seconds apart reach every deadline.\<close>

lemma rounds_reach:
  assumes "\<And>k. fst (rounds k) + poll \<le> fst (rounds (Suc k))"
  shows "fst (rounds 0) + real n * poll \<le> fst (rounds n)"
proof (induction n)
  case (Suc n)
  have "fst (rounds 0) + real (Suc n) * poll = fst (rounds 0) + real n * poll + poll"
    by (simp add: algebra_simps)
  then show ?case using Suc assms [of n] by linarith
qed simp

lemma wait_ends:
  assumes "0 < poll" "\<And>k. fst (rounds k) + poll \<le> fst (rounds (Suc k))"
  obtains n where "n \<le> nat \<lceil>(deadline - fst (rounds 0)) / poll\<rceil>"
    "\<And>k. k < n \<Longrightarrow> keeps_waiting deadline statuses rc rid (rounds k)"
    "\<not> keeps_waiting deadline statuses rc rid (rounds n)"
proof -
  define b where "b = nat \<lceil>(deadline - fst (rounds 0)) / poll\<rceil>"
  have "(deadline - fst (rounds 0)) / poll \<le> real b" unfolding b_def by linarith
  then have "deadline \<le> fst (rounds 0) + real b * poll"
    using assms(1) by (simp add: field_simps)
  then have "deadline \<le> fst (rounds b)" using rounds_reach [of rounds poll b, OF assms(2)] by linarith
  then have stop: "\<not> keeps_waiting deadline statuses rc rid (rounds b)"
    by (auto simp: keeps_waiting_def split: prod.split)
  define n where "n = (LEAST k. \<not> keeps_waiting deadline statuses rc rid (rounds k))"
  have "n \<le> b" "\<not> keeps_waiting deadline statuses rc rid (rounds n)"
    unfolding n_def by (rule Least_le, rule stop) (rule LeastI, rule stop)
  moreover have "keeps_waiting deadline statuses rc rid (rounds k)" if "k < n" for k
    using not_less_Least [of k "\<lambda>k. \<not> keeps_waiting deadline statuses rc rid (rounds k)"] that
    by (simp add: n_def)
  ultimately show ?thesis using that unfolding b_def by blast
qed

text \<open>C19.  Waiting for a request ends.  When every round starts at least the poll interval after the one
  before it, the loop returns after at most as many rounds as poll intervals fit into the timeout;
  what it returns is the request (or the error) of the first round that sees it settled before the
  deadline, and the timeout error only if no round did.\<close>

theorem wait_returns:
  assumes "0 < poll" "\<And>k. fst (rounds k) + poll \<le> fst (rounds (Suc k))"
    "start \<le> fst (rounds 0)"
  shows "\<exists>n res. n \<le> nat \<lceil>timeout / poll\<rceil> \<and>
    wait_for_request_completion rounds rid start timeout rc None = Some res \<and>
    res = round_result (start + timeout) rid (rounds n) \<and>
    \<not> keeps_waiting (start + timeout) COMPLETED_REQUEST_STATUSES rc rid (rounds n) \<and>
    (\<forall>k. k < n \<longrightarrow> keeps_waiting (start + timeout) COMPLETED_REQUEST_STATUSES rc rid (rounds k))"
proof (rule wait_ends [of poll rounds "start + timeout" COMPLETED_REQUEST_STATUSES rc rid,
      OF assms(1,2)])
  fix n assume n: "n \<le> nat \<lceil>(start + timeout - fst (rounds 0)) / poll\<rceil>"
    "\<And>k. k < n \<Longrightarrow> keeps_waiting (start + timeout) COMPLETED_REQUEST_STATUSES rc rid (rounds k)"
    "\<not> keeps_waiting (start + timeout) COMPLETED_REQUEST_STATUSES rc rid (rounds n)"
  have "wait_loop rounds (start + timeout) COMPLETED_REQUEST_STATUSES rc rid 0 =
      Some (round_result (start + timeout) rid (rounds n))"
    by (rule wait_loop_first) (use n in auto)
  moreover have "(start + timeout - fst (rounds 0)) / poll \<le> timeout / poll"
    using assms(1,3) by (simp add: divide_right_mono)
  then have "n \<le> nat \<lceil>timeout / poll\<rceil>"
    using n(1) by (meson ceiling_mono le_trans nat_mono)
  ultimately show ?thesis
    using n by (intro exI [of _ n]) (simp add: wait_for_request_completion_def)
qed

theorem wait_returns_witness:
  "\<exists>n res. n \<le> nat \<lceil>(10 :: real) / 1\<rceil> \<and>
    wait_for_request_completion (\<lambda>k. (real k, at_time (real k), if k < 2 then demo_store else approved_store))
      (lit ''req_1'') 0 10 False None = Some res"
  using wait_returns [of 1 "\<lambda>k. (real k, at_time (real k), if k < 2 then demo_store else approved_store)"
      0 10 "lit ''req_1''" False] by auto

end
