(* ===== verification/Approval_Gate.thy ===== *)
theory Approval_Gate
  imports Request_Runs
begin

text \<open>
  \<open>omni_approval/approval.py\<close>: the human approval gate.  A sensitive action is reviewed under
  a scope (origin, page, summary and the reviewed details), whose fingerprint the request carries;
  before the action runs, the scope it runs with is compared with the reviewed one.  The fingerprint,
  \<open>sha256\<close> of the canonical JSON text of the scope, is the parameter \<open>H\<close>.
\<close>

section \<open>The scope of an approval\<close>

definition APPROVAL_SCOPE_FIELDS :: "ustring list" where
  "APPROVAL_SCOPE_FIELDS =
     [lit ''sensitive_action_type'', lit ''merchant'', lit ''payee'', lit ''recipient'',
      lit ''amount'', lit ''currency'', lit ''item_summary'', lit ''service_summary'',
      lit ''payment_method_summary'', lit ''billing_method_summary'', lit ''origin'',
      lit ''form_action'', lit ''form_action_origin'', lit ''final_button'', lit ''subscription'',
      lit ''renewal'', lit ''refund_terms'', lit ''cancellation_terms'', lit ''after_approval'']"

fun normalize_value :: "py_runtime \<Rightarrow> pyval \<Rightarrow> pyval" where
  "normalize_value U PNone = PStr []"
| "normalize_value U (PList vs) = PList (map (normalize_value U) vs)"
| "normalize_value U (PDict d) = PDict (map (\<lambda>(k, v). (k, normalize_value U v)) d)"
| "normalize_value U v = PStr (py_strip U (py_str U v))"

text \<open>The arguments that describe the reviewed action.\<close>

record scope_args =
  sa_origin :: ustring
  sa_top_level_url :: ustring
  sa_action_summary :: ustring
  sa_structured_details :: "(ustring \<times> pyval) list"

definition scope_step ::
  "py_runtime \<Rightarrow> (ustring \<times> pyval) list \<Rightarrow> (ustring \<times> pyval) list \<Rightarrow> ustring \<Rightarrow> (ustring \<times> pyval) list" where
  "scope_step U d scope key =
     (case dict_get d key of None \<Rightarrow> scope | Some v \<Rightarrow> dict_put key (normalize_value U v) scope)"

definition approval_scope :: "py_runtime \<Rightarrow> scope_args \<Rightarrow> (ustring \<times> pyval) list" where
  "approval_scope U a =
     foldl (scope_step U (sa_structured_details a))
       (dict_of
         [(lit ''origin'', normalize_value U (PStr (sa_origin a))),
          (lit ''top_level_url'', normalize_value U (PStr (sa_top_level_url a))),
          (lit ''action_summary'', normalize_value U (PStr (sa_action_summary a)))])
       APPROVAL_SCOPE_FIELDS"

definition approval_fingerprint :: "py_runtime \<Rightarrow> digest_fun \<Rightarrow> scope_args \<Rightarrow> ustring" where
  "approval_fingerprint U H a = H (approval_scope U a)"

section \<open>Requesting, deciding and verifying\<close>

definition approval_create_args ::
  "py_runtime \<Rightarrow> digest_fun \<Rightarrow> ustring \<Rightarrow> ustring \<Rightarrow> scope_args \<Rightarrow> create_args" where
  "approval_create_args U H rid risk a =
     \<lparr>ca_id = rid, ca_origin = sa_origin a, ca_top_level_url = sa_top_level_url a,
      ca_action_summary = sa_action_summary a, ca_risk_level = risk, ca_ttl_seconds = 300,
      ca_broker_fingerprint = None, ca_requested_fields = map fst (sa_structured_details a),
      ca_challenge_type = None, ca_takeover_reason = None, ca_browser_context_id = None,
      ca_allowed_device_id = None, ca_save_to_vault = False,
      ca_structured_details = sa_structured_details a,
      ca_approval_fingerprint = Some (approval_fingerprint U H a)\<rparr>"

definition request_approval ::
  "py_runtime \<Rightarrow> digest_fun \<Rightarrow> instants \<Rightarrow> ustring \<Rightarrow> ustring \<Rightarrow> scope_args \<Rightarrow>
     (request_store, control_request) py_op" where
  "request_approval U H ts rid risk a =
     create ts ''payment_approval'' (approval_create_args U H rid risk a)"

definition verify_approval_scope ::
  "py_runtime \<Rightarrow> digest_fun \<Rightarrow> instants \<Rightarrow> instants \<Rightarrow> ustring \<Rightarrow> scope_args \<Rightarrow> bool \<Rightarrow>
     (request_store, control_request) py_op" where
  "verify_approval_scope U H ts ts' rid a consume =
     py_bind (get ts rid) (\<lambda>r.
       if rq_status r \<noteq> ''approved''
       then py_raise (Permission_Error (lit ''approval request is not approved''))
       else if rq_used r
       then py_raise (Permission_Error (lit ''approval request already used''))
       else
         let expected = approval_mark r;
             present = (expected \<noteq> None \<and> expected \<noteq> Some []);
             current = approval_fingerprint U H a in
         if present \<and> Some current \<noteq> expected
         then py_raise (Permission_Error (lit ''approval scope changed after user review''))
         else if \<not> present
         then py_raise (Permission_Error
           (lit ''approval fingerprint is required for scoped sensitive actions''))
         else if rq_origin r \<noteq> sa_origin a
         then py_raise (Permission_Error (lit ''approval origin mismatch''))
         else if consume then consume_approval ts' rid
         else py_return r)"

text \<open>The mode is the environment variable \<open>OMNIDOER_APPROVAL_MODE\<close>; in every other mode than
  \<open>approve\<close> and \<open>deny\<close> the user is asked and \<open>answer\<close> is what they type.\<close>

definition decide ::
  "py_runtime \<Rightarrow> instants \<Rightarrow> string \<Rightarrow> ustring \<Rightarrow> ustring \<Rightarrow> (request_store, string) py_op" where
  "decide U ts mode answer rid =
     py_bind
       (if mode = ''approve'' then approve ts rid
        else if mode = ''deny'' then deny ts rid
        else if py_lower U (py_strip U answer) = lit ''y'' then approve ts rid
        else deny ts rid)
       (\<lambda>r st.
         (st\<lparr>audit_calls := audit_calls st @
            [(t_now ts, lit ''approval_decision'',
              [(lit ''request_id'', PStr (request_id r)), (lit ''origin'', PStr (rq_origin r)),
               (lit ''risk_level'', PStr (risk_level r)),
               (lit ''decision'',
                 case approval_decision r of None \<Rightarrow> PNone | Some d \<Rightarrow> PStr (lit d)),
               (lit ''status'', PStr (lit (rq_status r)))])]\<rparr>,
          Inr (case approval_decision r of None \<Rightarrow> ''unknown''
               | Some d \<Rightarrow> if d = [] then ''unknown'' else d)))"

section \<open>What is executed is what was reviewed\<close>

lemma scope_steps_get:
  "dict_ok scope \<Longrightarrow> dict_ok (foldl (scope_step U d) scope keys) \<and>
   dict_get (foldl (scope_step U d) scope keys) k =
     (if k \<in> set keys \<and> dict_get d k \<noteq> None then map_option (normalize_value U) (dict_get d k)
      else dict_get scope k)"
proof (induction keys arbitrary: scope)
  case (Cons key keys)
  have "dict_ok (scope_step U d scope key)"
    using Cons.prems by (simp add: scope_step_def dict_put_ok split: option.split)
  then show ?case
    using Cons.IH [of "scope_step U d scope key"] Cons.prems
    by (auto simp: scope_step_def dict_put_get split: option.splits if_splits)
qed simp

text \<open>A reviewed detail is in the scope exactly if it is among the details.\<close>

lemma approval_scope_field:
  assumes "k \<in> set APPROVAL_SCOPE_FIELDS" "k \<noteq> lit ''origin''"
  shows "dict_get (approval_scope U a) k =
    map_option (normalize_value U) (dict_get (sa_structured_details a) k)"
proof -
  have keys: "lit ''top_level_url'' \<notin> set APPROVAL_SCOPE_FIELDS"
    "lit ''action_summary'' \<notin> set APPROVAL_SCOPE_FIELDS"
    by code_simp+
  have "k \<noteq> lit ''top_level_url''" "k \<noteq> lit ''action_summary''"
    using assms(1) keys by blast+
  then have base: "map_of (rev
         [(lit ''origin'', normalize_value U (PStr (sa_origin a))),
          (lit ''top_level_url'', normalize_value U (PStr (sa_top_level_url a))),
          (lit ''action_summary'', normalize_value U (PStr (sa_action_summary a)))]) k = None"
    using assms(2) by simp
  show ?thesis
    using assms(1) scope_steps_get [OF dict_of_ok, of U "sa_structured_details a" _ APPROVAL_SCOPE_FIELDS k]
    unfolding approval_scope_def
    by (simp only: dict_of_get base) (simp split: option.split)
qed

lemma transition_mark:
  "transition a r r' \<Longrightarrow> approval_mark r' = approval_mark r \<and> rq_origin r' = rq_origin r"
  by (induction rule: transition.induct) auto

lemma moves_mark: "moves A r r' \<Longrightarrow> approval_mark r' = approval_mark r \<and> rq_origin r' = rq_origin r"
  by (induction rule: moves_induct) (auto dest: transition_mark)

lemma run_keeps_mark:
  assumes "store_ok st" "stored rid r st" "list_all (\<lambda>(ts, call). creates call \<noteq> Some rid) calls"
  shows "\<exists>r'. stored rid r' (fst (run_requests calls st)) \<and>
    approval_mark r' = approval_mark r \<and> rq_origin r' = rq_origin r"
  using assms
proof (induction calls arbitrary: st r)
  case (Cons x calls)
  obtain ts call where x: "x = (ts, call)" by (cases x)
  let ?st = "fst (do_call ts call st)"
  have "store_ok ?st \<and> evolves_at (call_actions call rid) rid st ?st"
    using Cons.prems by (intro do_call_evolves) (auto simp: x)
  then obtain r1 where r1: "store_ok ?st" "stored rid r1 ?st" "approval_mark r1 = approval_mark r"
    "rq_origin r1 = rq_origin r"
    using Cons.prems(2) by (auto simp: evolves_at_def split: option.splits dest: moves_mark)
  then show ?case
    using Cons.IH [OF r1(1,2)] Cons.prems(3) by (auto simp: x split: prod.splits)
qed simp

lemma verify_approval_scope_ok:
  assumes "store_ok st" "stored rid r0 st" "verify_approval_scope U H ts ts' rid a consume st = (st', Inr r')"
  shows "rq_status r0 = ''approved'' \<and> \<not> rq_used r0 \<and> t_read ts \<le> rq_expires_at r0 \<and>
    approval_mark r0 = Some (approval_fingerprint U H a) \<and> rq_origin r0 = sa_origin a"
proof -
  obtain st1 r where g: "get ts rid st = (st1, Inr r)" and v: "rq_status r = ''approved''"
    "\<not> rq_used r" "approval_mark r = Some (approval_fingerprint U H a)" "rq_origin r = sa_origin a"
    using assms(3)
    by (auto simp: verify_approval_scope_def py_bind_ok py_raise_def Let_def split: if_splits)
  have "r = r0 \<and> t_read ts \<le> rq_expires_at r0"
    using g v(1) assms(2)
    by (auto simp: get_def expire_if_needed_def is_expired_def EXPIRABLE_STATUSES_def split: if_splits)
  then show ?thesis using v by simp
qed

text \<open>C12.  The approval gate binds the action to what the user reviewed: when the scope check of a request
  succeeds after any sequence of calls, the origin and the normalised scope of the action are those the
  approval was requested for, provided the fingerprint separates the two scopes.\<close>

theorem executed_scope_was_reviewed:
  assumes "store_ok st"
    "request_approval U H ts0 rid risk reviewed st = (st0, Inr r0)"
    "list_all (\<lambda>(ts, call). creates call \<noteq> Some rid) calls"
    "verify_approval_scope U H ts ts' rid executed consume (fst (run_requests calls st0)) = (st', Inr r)"
    "H (approval_scope U executed) = H (approval_scope U reviewed) \<longrightarrow>
       approval_scope U executed = approval_scope U reviewed"
  shows "approval_scope U executed = approval_scope U reviewed \<and>
    sa_origin executed = sa_origin reviewed \<and>
    list_all (\<lambda>k. k = lit ''origin'' \<or>
      map_option (normalize_value U) (dict_get (sa_structured_details executed) k) =
      map_option (normalize_value U) (dict_get (sa_structured_details reviewed) k)) APPROVAL_SCOPE_FIELDS"
proof -
  have ok: "store_ok st0"
    using create_store(1) [OF assms(1), of ts0 "''payment_approval''"] assms(2)
    by (metis request_approval_def fst_conv)
  have new: "stored rid r0 st0" "approval_mark r0 = Some (approval_fingerprint U H reviewed)"
    "rq_origin r0 = sa_origin reviewed"
    using assms(1,2)
    by (auto simp: request_approval_def create_def Let_def REQUEST_TYPES_def audit_transition_def
        new_request_def approval_create_args_def dict_put_get store_ok_def)
  obtain r1 where r1: "stored rid r1 (fst (run_requests calls st0))"
    "approval_mark r1 = Some (approval_fingerprint U H reviewed)" "rq_origin r1 = sa_origin reviewed"
    using run_keeps_mark [OF ok new(1) assms(3)] new by auto
  have "approval_mark r1 = Some (approval_fingerprint U H executed)" "rq_origin r1 = sa_origin executed"
    using verify_approval_scope_ok [OF run_requests_ok [OF ok] r1(1) assms(4)] by simp_all
  then have *: "approval_scope U executed = approval_scope U reviewed" "sa_origin executed = sa_origin reviewed"
    using r1 assms(5) by (simp_all add: approval_fingerprint_def)
  then show ?thesis
    using approval_scope_field [of _ U executed] approval_scope_field [of _ U reviewed]
    by (simp add: list_all_iff) metis
qed

text \<open>A concrete review: a payment that is approved and then executed as reviewed.\<close>

definition demo_scope :: scope_args where
  "demo_scope = \<lparr>sa_origin = lit ''https://shop.example'',
     sa_top_level_url = lit ''https://shop.example/pay'', sa_action_summary = lit ''Pay'',
     sa_structured_details = [(lit ''amount'', PInt 20), (lit ''merchant'', PStr (lit ''Shop''))]\<rparr>"

abbreviation demo_calls :: "(instants \<times> request_call) list" where
  "demo_calls \<equiv> [(at_time 1, Approve (lit ''req_1''))]"

lemma approve_pending:
  assumes "store_ok st" "stored rid r st" "\<not> rq_used r" "t_read ts \<le> rq_expires_at r"
    "t_check ts \<le> rq_expires_at r"
  shows "stored rid (r\<lparr>approval_decision := Some ''approved'', rq_status := ''approved'',
     rq_used := False, completed_by_user := True, rq_updated_at := t_write ts\<rparr>) (fst (approve ts rid st))"
proof -
  let ?d = "r\<lparr>approval_decision := Some ''approved'', rq_status := ''approved'', rq_used := False,
    completed_by_user := True\<rparr>"
  have "approve ts rid st = update ts ?d st"
    using assms by (simp add: approve_def py_bind_def get_def expire_if_needed_def is_expired_def
        ensure_actionable_def py_return_def)
  then show ?thesis
    using update_shape [of st ts ?d] assms(1) store_ok_get [OF assms(1,2)]
    by (auto simp: dict_put_get store_ok_def)
qed

lemma demo_verify:
  assumes "request_approval U H (at_time 0) (lit ''req_1'') [] demo_scope empty_store = (st0, Inr r0)"
    "H (approval_scope U demo_scope) \<noteq> []"
  shows "\<exists>r. verify_approval_scope U H (at_time 2) (at_time 2) (lit ''req_1'') demo_scope False
     (fst (run_requests demo_calls st0)) = (fst (run_requests demo_calls st0), Inr r)"
proof -
  have ok: "store_ok st0"
    using create_store(1) [OF empty_store_ok, of "at_time 0" "''payment_approval''"] assms(1)
    by (metis request_approval_def fst_conv)
  have r0: "stored (lit ''req_1'') r0 st0" "\<not> rq_used r0" "rq_expires_at r0 = 300"
    "approval_mark r0 = Some (approval_fingerprint U H demo_scope)" "rq_origin r0 = sa_origin demo_scope"
    using assms(1)
    by (auto simp: request_approval_def create_def Let_def REQUEST_TYPES_def audit_transition_def
        new_request_def approval_create_args_def empty_store_def dict_get_def)
  have run: "fst (run_requests demo_calls st0) = fst (approve (at_time 1) (lit ''req_1'') st0)"
    by (simp add: one_fst [symmetric] split: prod.split)
  show ?thesis
    unfolding run using approve_pending [OF ok r0(1,2), of "at_time 1"] r0 assms(2)
    by (simp add: verify_approval_scope_def py_bind_def get_def expire_if_needed_def is_expired_def
        py_return_def approval_fingerprint_def)
qed

theorem executed_scope_was_reviewed_witness:
  "\<exists>st0 r0 r. request_approval ascii_runtime (\<lambda>_. GENESIS) (at_time 0) (lit ''req_1'') [] demo_scope
       empty_store = (st0, Inr r0) \<and>
     snd (verify_approval_scope ascii_runtime (\<lambda>_. GENESIS) (at_time 2) (at_time 2) (lit ''req_1'')
       demo_scope False (fst (run_requests demo_calls st0))) = Inr r \<and>
     approval_scope ascii_runtime demo_scope = approval_scope ascii_runtime demo_scope"
proof -
  let ?H = "\<lambda>_. GENESIS"
  obtain st0 r0 where q: "request_approval ascii_runtime ?H (at_time 0) (lit ''req_1'') [] demo_scope
      empty_store = (st0, Inr r0)"
    by (simp add: request_approval_def create_def REQUEST_TYPES_def Let_def)
  obtain r where v: "verify_approval_scope ascii_runtime ?H (at_time 2) (at_time 2) (lit ''req_1'')
      demo_scope False (fst (run_requests demo_calls st0)) = (fst (run_requests demo_calls st0), Inr r)"
    using demo_verify [OF q] by (auto simp: GENESIS_def)
  have "list_all (\<lambda>(ts, call). creates call \<noteq> Some (lit ''req_1'')) demo_calls" by simp
  from executed_scope_was_reviewed [OF empty_store_ok q this v] show ?thesis using q v by simp
qed

end
