(* ===== verification/Fill_Policy.thy ===== *)
theory Fill_Policy
  imports Py_Regex
begin

text \<open>
  \<open>omni_policy/policy.py\<close>: whether a credential may be filled into a page, which actions need an
  approval or the user, and which clicks count as sensitive.  Origins are computed with
  \<open>urllib.parse\<close>, whose splitting of a URL is modelled here; whether the text between brackets is
  an IP address and whether a network location survives Unicode normalisation are the parameters
  \<open>ip_ok\<close> and \<open>nfkc_ok\<close>.
\<close>

section \<open>Splitting a URL\<close>

text \<open>\<open>str.partition\<close> and \<open>str.rpartition\<close> at a character, without the separator.\<close>

definition partition_at :: "uchar \<Rightarrow> ustring \<Rightarrow> ustring \<times> bool \<times> ustring" where
  "partition_at x s =
     (case dropWhile (\<lambda>y. y \<noteq> x) s of
        [] \<Rightarrow> (s, False, [])
      | _ # after \<Rightarrow> (takeWhile (\<lambda>y. y \<noteq> x) s, True, after))"

definition after_last :: "uchar \<Rightarrow> ustring \<Rightarrow> ustring" where
  "after_last x s = rev (takeWhile (\<lambda>y. y \<noteq> x) (rev s))"

record url_checks =
  ip_ok :: "ustring \<Rightarrow> bool"
  nfkc_ok :: "ustring \<Rightarrow> bool"

definition ascii_alpha :: "uchar \<Rightarrow> bool" where
  "ascii_alpha x = ((65 \<le> x \<and> x \<le> 90) \<or> (97 \<le> x \<and> x \<le> 122))"

definition scheme_char :: "uchar \<Rightarrow> bool" where
  "scheme_char x = (ascii_alpha x \<or> (48 \<le> x \<and> x \<le> 57) \<or> x = 43 \<or> x = 45 \<or> x = 46)"

text \<open>The scheme and the network location.\<close>

definition urlsplit :: "url_checks \<Rightarrow> ustring \<Rightarrow> py_error + ustring \<times> ustring" where
  "urlsplit K url0 =
     (let url1 = filter (\<lambda>x. x \<notin> {9, 10, 13}) (dropWhile (\<lambda>x. x \<le> 32) url0);
          (before, colon, after) = partition_at 58 url1;
          has_scheme = (colon \<and> before \<noteq> [] \<and> ascii_alpha (hd before) \<and> list_all scheme_char before);
          scheme = (if has_scheme then to_ascii_lowercase before else []);
          rest = (if has_scheme then after else url1);
          netloc = (if take 2 rest = [47, 47]
                    then takeWhile (\<lambda>x. x \<notin> {47, 63, 35}) (drop 2 rest) else []) in
      if (91 \<in> set netloc) \<noteq> (93 \<in> set netloc) then Inl (Value_Error (lit ''Invalid IPv6 URL''))
      else if 91 \<in> set netloc \<and>
        \<not> ip_ok K (fst (partition_at 93 (snd (snd (partition_at 91 netloc)))))
      then Inl (Value_Error (lit ''invalid bracketed host''))
      else if \<not> nfkc_ok K netloc then Inl (Value_Error (lit ''netloc contains invalid characters''))
      else Inr (scheme, netloc))"

text \<open>Host and port of a network location; an empty port counts as none.\<close>

definition hostinfo :: "ustring \<Rightarrow> ustring \<times> ustring option" where
  "hostinfo netloc =
     (let info = after_last 64 netloc;
          (_, open_bracket, bracketed) = partition_at 91 info;
          (host, port) =
            (if open_bracket
             then (let (h, _, r) = partition_at 93 bracketed in (h, snd (snd (partition_at 58 r))))
             else (let (h, _, r) = partition_at 58 info in (h, r))) in
      (host, if port = [] then None else Some port))"

definition url_hostname :: "py_runtime \<Rightarrow> ustring \<Rightarrow> ustring option" where
  "url_hostname U netloc =
     (let host = fst (hostinfo netloc); (name, percent, zone) = partition_at 37 host in
      if host = [] then None
      else Some (py_lower U name @ (if percent then 37 # zone else [])))"

definition url_port :: "ustring \<Rightarrow> py_error + nat option" where
  "url_port netloc =
     (case snd (hostinfo netloc) of
        None \<Rightarrow> Inr None
      | Some p \<Rightarrow>
          if \<not> list_all is_ascii_digit p then Inl (Value_Error (lit ''Port could not be cast to integer value''))
          else if 65535 < decimal_value p then Inl (Value_Error (lit ''Port out of range 0-65535''))
          else Inr (Some (decimal_value p)))"

section \<open>Origins\<close>

definition origin_from_url :: "py_runtime \<Rightarrow> url_checks \<Rightarrow> ustring \<Rightarrow> py_error + ustring option" where
  "origin_from_url U K url =
     and_then (urlsplit K url) (\<lambda>(scheme, netloc).
       case url_hostname U netloc of
         None \<Rightarrow> Inr None
       | Some host \<Rightarrow>
           if scheme = [] then Inr None
           else
             and_then (url_port netloc) (\<lambda>port.
               Inr (Some (scheme @ lit ''://'' @ py_lower U host @
                 (case port of None \<Rightarrow> [] | Some n \<Rightarrow> if n = 0 then [] else lit '':'' @ nat_decimal n)))))"

definition is_loopback :: "py_runtime \<Rightarrow> url_checks \<Rightarrow> ustring \<Rightarrow> py_error + bool" where
  "is_loopback U K origin =
     and_then (urlsplit K origin) (\<lambda>(scheme, netloc).
       Inr (url_hostname U netloc \<in> Some ` set [lit ''localhost'', lit ''127.0.0.1'', lit ''::1'']))"

datatype script = Latin | Greek | Cyrillic

definition script_bucket :: "uchar \<Rightarrow> script option" where
  "script_bucket x =
     (if ascii_alpha x then Some Latin
      else if 880 \<le> x \<and> x \<le> 1023 then Some Greek
      else if 1024 \<le> x \<and> x \<le> 1327 then Some Cyrillic
      else None)"

definition mixed_script :: "ustring \<Rightarrow> bool" where
  "mixed_script label =
     (list_ex (\<lambda>x. script_bucket x = Some Latin) label \<and>
      list_ex (\<lambda>x. script_bucket x = Some Cyrillic \<or> script_bucket x = Some Greek) label)"

definition suspicious_origin_reason ::
  "py_runtime \<Rightarrow> url_checks \<Rightarrow> ustring \<Rightarrow> py_error + ustring option" where
  "suspicious_origin_reason U K origin =
     and_then (urlsplit K origin) (\<lambda>(scheme, netloc).
       let hostname = py_lower U (py_rstrip_char 46 (case url_hostname U netloc of None \<Rightarrow> [] | Some h \<Rightarrow> h)) in
       if hostname = [] then Inr None
       else
         and_then (is_loopback U K origin) (\<lambda>loopback.
           if loopback then Inr None
           else
             let labels = filter (\<lambda>l. l \<noteq> []) (split_on 46 hostname) in
             if list_ex (\<lambda>l. starts_with l (lit ''xn--'')) labels
             then Inr (Some (lit ''punycode origin requires manual review before credential fill''))
             else if list_ex mixed_script labels
             then Inr (Some (lit ''mixed-script homograph origin requires manual review before credential fill''))
             else Inr None))"

section \<open>Decisions\<close>

datatype fill_decision = Allow_Fill | Block_Fill | Require_Approval | Require_User_Interaction | Require_Takeover

record policy_decision =
  pd_decision :: fill_decision
  pd_reason :: ustring
  pd_origin :: "ustring option"

definition blocked :: "string \<Rightarrow> ustring option \<Rightarrow> policy_decision" where
  "blocked reason origin = \<lparr>pd_decision = Block_Fill, pd_reason = lit reason, pd_origin = origin\<rparr>"

definition evaluate_credential_fill ::
  "py_runtime \<Rightarrow> url_checks \<Rightarrow> ustring \<Rightarrow> ustring list \<Rightarrow> bool \<Rightarrow> ustring option \<Rightarrow> bool \<Rightarrow>
     py_error + policy_decision" where
  "evaluate_credential_fill U K current_url allowed_origins top_level_frame form_action_url allow_loopback_http =
     and_then (origin_from_url U K current_url) (\<lambda>found.
     case found of
       None \<Rightarrow> Inr (blocked ''current URL has no origin'' None)
     | Some origin \<Rightarrow>
         and_then (suspicious_origin_reason U K origin) (\<lambda>suspicious.
         case suspicious of
           Some reason \<Rightarrow> Inr \<lparr>pd_decision = Block_Fill, pd_reason = reason, pd_origin = Some origin\<rparr>
         | None \<Rightarrow>
             if origin \<notin> set allowed_origins
             then Inr (blocked ''origin is not allowed for credential'' (Some origin))
             else
               and_then
                 (if starts_with origin (lit ''http://'') then
                    (if allow_loopback_http then is_loopback U K origin else Inr False)
                  else Inr True) (\<lambda>transport_ok.
               if \<not> transport_ok then Inr (blocked ''HTTP credential fill is blocked'' (Some origin))
               else if \<not> top_level_frame
               then Inr (blocked ''credential fill inside iframe is blocked'' (Some origin))
               else
                 and_then
                   (case form_action_url of
                      None \<Rightarrow> Inr None
                    | Some u \<Rightarrow> if u = [] then Inr None else origin_from_url U K u) (\<lambda>form_origin.
                 if form_origin \<noteq> None \<and> form_origin \<noteq> Some [] \<and> form_origin \<noteq> Some origin
                 then Inr (blocked ''form action origin mismatch'' (Some origin))
                 else Inr \<lparr>pd_decision = Allow_Fill, pd_reason = lit ''credential fill allowed'',
                   pd_origin = Some origin\<rparr>))))"

definition SENSITIVE_ACTIONS :: "string list" where
  "SENSITIVE_ACTIONS =
     [''payment_submit'', ''purchase'', ''transfer'', ''subscription'', ''oauth_grant'',
      ''account_deletion'', ''password_change'', ''totp_change'', ''send_sensitive_message'',
      ''upload_sensitive_file'']"

definition CHALLENGE_ACTIONS :: "string list" where
  "CHALLENGE_ACTIONS =
     [''captcha'', ''totp'', ''sms'', ''email'', ''mfa'', ''passkey'', ''webauthn'', ''payment_3ds'',
      ''device_confirmation'']"

definition requires_approval :: "string \<Rightarrow> policy_decision" where
  "requires_approval action_type =
     (if action_type \<in> set SENSITIVE_ACTIONS
      then \<lparr>pd_decision = Require_Approval, pd_reason = lit (action_type @ '' requires approval''),
        pd_origin = None\<rparr>
      else \<lparr>pd_decision = Allow_Fill, pd_reason = lit ''approval not required'', pd_origin = None\<rparr>)"

definition evaluate_challenge :: "string \<Rightarrow> policy_decision" where
  "evaluate_challenge action_type =
     (if action_type = ''high_intensity_antibot''
      then \<lparr>pd_decision = Require_Takeover,
        pd_reason = lit ''high-intensity anti-bot requires human takeover'', pd_origin = None\<rparr>
      else if action_type = ''account_registration''
      then \<lparr>pd_decision = Require_Takeover,
        pd_reason = lit ''account registration requires user handoff'', pd_origin = None\<rparr>
      else if action_type \<in> set CHALLENGE_ACTIONS
      then \<lparr>pd_decision = Require_User_Interaction,
        pd_reason = lit (action_type @ '' requires user interaction''), pd_origin = None\<rparr>
      else \<lparr>pd_decision = Allow_Fill, pd_reason = lit ''no challenge policy required'', pd_origin = None\<rparr>)"

section \<open>Sensitive clicks\<close>

definition bounded_words :: "string list \<Rightarrow> regex" where
  "bounded_words ws = seqs [Bnd, alts (map word_re ws), Bnd]"

definition SENSITIVE_CLICK_PATTERNS :: "(string \<times> regex) list" where
  "SENSITIVE_CLICK_PATTERNS =
     [(''payment_submit'', bounded_words [''pay'', ''purchase'', ''buy now'', ''place order'',
        ''complete order'', ''submit payment'', ''checkout'', ''subscribe'', ''confirm payment'']),
      (''transfer'', bounded_words [''send money'', ''transfer'', ''wire transfer'', ''withdraw'']),
      (''oauth_grant'', bounded_words [''authorize'', ''allow access'', ''grant access'', ''approve access'']),
      (''account_deletion'', bounded_words [''delete account'', ''close account'', ''remove account'',
        ''terminate account''])]"

definition text_of :: "py_runtime \<Rightarrow> (ustring \<times> pyval) list \<Rightarrow> string \<Rightarrow> ustring" where
  "text_of U d key = (case dict_get d (lit key) of None \<Rightarrow> [] | Some v \<Rightarrow> py_str U v)"

definition click_haystack :: "py_runtime \<Rightarrow> (ustring \<times> pyval) list \<Rightarrow> ustring" where
  "click_haystack U metadata =
     (let field_dicts = (case dict_get metadata (lit ''form_fields'') of
            Some (PList vs) \<Rightarrow> concat (map (\<lambda>v. case v of PDict d \<Rightarrow> [d] | _ \<Rightarrow> []) vs) | _ \<Rightarrow> []);
          field_text = join (lit '' '') (map (\<lambda>d.
            join (lit '' '') (map (text_of U d) [''name'', ''id'', ''type'', ''value''])) field_dicts);
          haystack = join (lit '' '') (map (text_of U metadata)
            [''text'', ''value'', ''name'', ''id'', ''aria_label'', ''form_action'', ''current_url'']) in
      haystack @ lit '' '' @ field_text)"

definition classify_sensitive_click :: "py_runtime \<Rightarrow> (ustring \<times> pyval) list \<Rightarrow> string option" where
  "classify_sensitive_click U metadata =
     (let haystack = click_haystack U metadata in
      case find (\<lambda>(action_type, r). re_search U True r haystack) SENSITIVE_CLICK_PATTERNS of
        Some (action_type, r) \<Rightarrow> Some action_type
      | None \<Rightarrow>
          if dict_get metadata (lit ''tag'') = Some (PStr (lit ''button'')) \<and>
             dict_get metadata (lit ''type'') = Some (PStr (lit ''submit'')) \<and>
             contains_str (py_lower U haystack) (lit ''amount'') \<and>
             contains_str (py_lower U haystack) (lit ''currency'')
          then Some ''payment_submit''
          else None)"

section \<open>When a credential may be filled\<close>

lemma and_then_Inr: "and_then m f = Inr y \<longleftrightarrow> (\<exists>x. m = Inr x \<and> f x = Inr y)"
  by (auto simp: and_then_def split: sum.splits)

lemma allowed_fill:
  assumes "evaluate_credential_fill U K url allowed top_frame form loopback_http = Inr d"
    "pd_decision d = Allow_Fill"
  shows "\<exists>origin. origin_from_url U K url = Inr (Some origin) \<and> pd_origin d = Some origin \<and>
    origin \<in> set allowed \<and> top_frame \<and> suspicious_origin_reason U K origin = Inr None \<and>
    (starts_with origin (lit ''http://'') \<longrightarrow> loopback_http \<and> is_loopback U K origin = Inr True) \<and>
    (case form of None \<Rightarrow> True | Some u \<Rightarrow> u = [] \<or>
      (\<exists>fo. origin_from_url U K u = Inr fo \<and> (fo = None \<or> fo = Some [] \<or> fo = Some origin)))"
proof -
  obtain origin where o: "origin_from_url U K url = Inr (Some origin)"
    using assms by (auto simp: evaluate_credential_fill_def and_then_Inr blocked_def split: option.splits)
  have sus: "suspicious_origin_reason U K origin = Inr None"
    using assms unfolding evaluate_credential_fill_def o
    by (auto simp: and_then_Inr and_then_def split: option.splits sum.splits)
  have allowed: "origin \<in> set allowed"
    using assms unfolding evaluate_credential_fill_def o
    by (auto simp: and_then_def blocked_def sus split: if_splits)
  define transport where "transport = (if starts_with origin (lit ''http://'') then
      (if loopback_http then is_loopback U K origin else Inr False) else Inr True)"
  define form_origin where "form_origin = (case form of None \<Rightarrow> Inr None
      | Some u \<Rightarrow> if u = [] then Inr None else origin_from_url U K u)"
  have e: "evaluate_credential_fill U K url allowed top_frame form loopback_http =
      and_then transport (\<lambda>transport_ok.
        if \<not> transport_ok then Inr (blocked ''HTTP credential fill is blocked'' (Some origin))
        else if \<not> top_frame then Inr (blocked ''credential fill inside iframe is blocked'' (Some origin))
        else and_then form_origin (\<lambda>fo.
          if fo \<noteq> None \<and> fo \<noteq> Some [] \<and> fo \<noteq> Some origin
          then Inr (blocked ''form action origin mismatch'' (Some origin))
          else Inr \<lparr>pd_decision = Allow_Fill, pd_reason = lit ''credential fill allowed'',
            pd_origin = Some origin\<rparr>))"
    unfolding evaluate_credential_fill_def o transport_def form_origin_def
    by (simp add: and_then_def allowed sus)
  obtain fo where t: "transport = Inr True" "top_frame" "form_origin = Inr fo"
    "fo = None \<or> fo = Some [] \<or> fo = Some origin" "pd_origin d = Some origin"
    using assms unfolding e by (auto simp: and_then_Inr blocked_def split: if_splits)
  have "starts_with origin (lit ''http://'') \<longrightarrow> loopback_http \<and> is_loopback U K origin = Inr True"
    using t(1) unfolding transport_def by (auto split: if_splits)
  moreover have "case form of None \<Rightarrow> True | Some u \<Rightarrow> u = [] \<or>
      (\<exists>fo. origin_from_url U K u = Inr fo \<and> (fo = None \<or> fo = Some [] \<or> fo = Some origin))"
    using t(3,4) unfolding form_origin_def by (simp split: option.splits if_splits)
  ultimately show ?thesis using o sus allowed t(2,5) by blast
qed

text \<open>A credential is only filled where it belongs: when the policy allows it, the page is the top
  level frame, has an origin the credential is allowed for, is not suspicious, is not served over plain
  HTTP except on the loopback interface, and a form that submits to an origin submits to this one.\<close>

theorem fill_allowed_sound:
  assumes "evaluate_credential_fill U K url allowed top_frame form loopback_http = Inr d"
    "pd_decision d = Allow_Fill"
  shows "\<exists>origin. origin_from_url U K url = Inr (Some origin) \<and> pd_origin d = Some origin \<and>
    origin \<in> set allowed \<and> top_frame \<and> suspicious_origin_reason U K origin = Inr None \<and>
    (starts_with origin (lit ''http://'') \<longrightarrow> loopback_http \<and> is_loopback U K origin = Inr True) \<and>
    (case form of None \<Rightarrow> True | Some u \<Rightarrow> u = [] \<or>
      (\<exists>fo. origin_from_url U K u = Inr fo \<and> (fo = None \<or> fo = Some [] \<or> fo = Some origin)))"
  using assms by (rule allowed_fill)

definition demo_checks :: url_checks where
  "demo_checks = \<lparr>ip_ok = \<lambda>_. True, nfkc_ok = \<lambda>_. True\<rparr>"

lemma demo_fill:
  "evaluate_credential_fill ascii_runtime demo_checks (lit ''https://shop.example/login'')
     [lit ''https://shop.example''] True (Some (lit ''/session'')) True =
   Inr \<lparr>pd_decision = Allow_Fill, pd_reason = lit ''credential fill allowed'',
     pd_origin = Some (lit ''https://shop.example'')\<rparr>"
  by code_simp

theorem fill_allowed_sound_witness:
  "\<exists>origin. origin_from_url ascii_runtime demo_checks (lit ''https://shop.example/login'') = Inr (Some origin) \<and>
    origin \<in> set [lit ''https://shop.example''] \<and>
    suspicious_origin_reason ascii_runtime demo_checks origin = Inr None"
  using fill_allowed_sound [OF demo_fill] by auto

text \<open>The origin of a URL with an IPv6 host is written without the brackets, so that the port cannot be
  told from the last group of the address: two hosts share an origin, and the loopback address is not
  recognised.\<close>

theorem ipv6_origins_collide:
  "origin_from_url ascii_runtime demo_checks (lit ''https://[2001:db8::1]:443/'') =
     Inr (Some (lit ''https://2001:db8::1:443'')) \<and>
   origin_from_url ascii_runtime demo_checks (lit ''https://[2001:db8::1:443]/'') =
     Inr (Some (lit ''https://2001:db8::1:443'')) \<and>
   origin_from_url ascii_runtime demo_checks (lit ''http://[::1]:8000/'') = Inr (Some (lit ''http://::1:8000'')) \<and>
   is_loopback ascii_runtime demo_checks (lit ''http://::1:8000'') = Inr False"
  by code_simp

text \<open>The assertions of \<open>policy_self_test\<close>.\<close>

theorem policy_self_test:
  "pd_decision (requires_approval ''payment_submit'') = Require_Approval \<and>
   pd_decision (evaluate_challenge ''captcha'') = Require_User_Interaction \<and>
   pd_decision (evaluate_challenge ''high_intensity_antibot'') = Require_Takeover \<and>
   pd_decision (evaluate_challenge ''account_registration'') = Require_Takeover \<and>
   suspicious_origin_reason ascii_runtime demo_checks (lit ''https://xn--example-9d0b.com'') \<noteq> Inr None \<and>
   classify_sensitive_click ascii_runtime [(lit ''text'', PStr (lit ''Pay 12.34 USD''))] = Some ''payment_submit''"
  by code_simp

end
