(* ===== verification/Vault.thy ===== *)
theory Vault
  imports Redactor
begin

text \<open>
  \<open>omni_vault/vault.py\<close>: the encrypted vault.  Key derivation and authenticated encryption come
  from libraries and are parameters: \<open>derive\<close> turns a passphrase and a salt into a key,
  \<open>seal key nonce secret aad\<close> is the ciphertext of a secret, and \<open>open_box key nonce ciphertext
  aad\<close> opens it.  The abstract vault is the map from credential ids to secrets.
\<close>

record credential_secret =
  cs_username :: ustring
  cs_password :: ustring
  cs_totp_seed :: "ustring option"

record credential_item =
  ci_id :: ustring
  ci_username_hint :: ustring
  ci_allowed_origins :: "ustring list"
  ci_metadata :: "(ustring \<times> pyval) list"
  ci_nonce :: ustring
  ci_ciphertext :: ustring
  ci_created_at :: real
  ci_updated_at :: "real option"

record credential_metadata =
  cm_id :: ustring
  cm_username :: ustring
  cm_allowed_origins :: "ustring list"
  cm_metadata :: "(ustring \<times> pyval) list"

record 'k vault =
  vt_salt :: ustring
  vt_credentials :: "credential_item list"
  vt_key :: "'k option"

section \<open>Operations\<close>

definition username_hint :: "py_runtime \<Rightarrow> ustring \<Rightarrow> ustring" where
  "username_hint U username =
     (let txt = py_strip U username in
      if txt = [] then []
      else if 64 \<in> set txt then
        (let local_part = takeWhile (\<lambda>x. x \<noteq> 64) txt; domain = tl (dropWhile (\<lambda>x. x \<noteq> 64) txt) in
         (if local_part \<noteq> [] then take 1 local_part @ lit ''***'' else lit ''***'') @ [64] @ domain)
      else if length txt \<le> 2 then lit ''***''
      else take 1 txt @ lit ''***'' @ [last txt])"

definition vault_create :: "(ustring \<Rightarrow> ustring \<Rightarrow> 'k) \<Rightarrow> ustring \<Rightarrow> ustring \<Rightarrow> 'k vault" where
  "vault_create derive salt passphrase =
     \<lparr>vt_salt = salt, vt_credentials = [], vt_key = Some (derive passphrase salt)\<rparr>"

definition vault_load ::
  "(ustring \<Rightarrow> ustring \<Rightarrow> 'k) \<Rightarrow> ustring \<Rightarrow> credential_item list \<Rightarrow> ustring option \<Rightarrow> 'k vault" where
  "vault_load derive salt items passphrase =
     \<lparr>vt_salt = salt, vt_credentials = items, vt_key = map_option (\<lambda>p. derive p salt) passphrase\<rparr>"

definition list_metadata :: "'k vault \<Rightarrow> credential_metadata list" where
  "list_metadata v =
     map (\<lambda>i. \<lparr>cm_id = ci_id i, cm_username = ci_username_hint i,
       cm_allowed_origins = ci_allowed_origins i, cm_metadata = ci_metadata i\<rparr>) (vt_credentials v)"

definition find_for_origin :: "ustring \<Rightarrow> 'k vault \<Rightarrow> credential_metadata list" where
  "find_for_origin origin v = filter (\<lambda>c. origin \<in> set (cm_allowed_origins c)) (list_metadata v)"

definition sorted_set :: "ustring list \<Rightarrow> ustring list" where
  "sorted_set xs = sort (remdups xs)"

definition redacted_metadata :: "py_runtime \<Rightarrow> (ustring \<times> pyval) list \<Rightarrow> (ustring \<times> pyval) list" where
  "redacted_metadata U d = (case redact_dom_snapshot U (PDict d) of PDict e \<Rightarrow> e | _ \<Rightarrow> [])"

text \<open>An empty seed is stored like no seed.\<close>

definition stored_secret :: "credential_secret \<Rightarrow> credential_secret" where
  "stored_secret s = s\<lparr>cs_totp_seed := if cs_totp_seed s = Some [] then None else cs_totp_seed s\<rparr>"

definition add_credential ::
  "py_runtime \<Rightarrow> ('k \<Rightarrow> ustring \<Rightarrow> credential_secret \<Rightarrow> ustring \<Rightarrow> ustring) \<Rightarrow> real \<Rightarrow> ustring \<Rightarrow> ustring \<Rightarrow>
     credential_secret \<Rightarrow> ustring list \<Rightarrow> (ustring \<times> pyval) list \<Rightarrow> ('k vault, ustring) py_op" where
  "add_credential U seal now cid nonce secret origins metadata v =
     (case vt_key v of
        None \<Rightarrow> (v, Inl (Value_Error (lit ''vault is locked'')))
      | Some key \<Rightarrow>
          (v\<lparr>vt_credentials := vt_credentials v @
              [\<lparr>ci_id = cid, ci_username_hint = username_hint U (cs_username secret),
                ci_allowed_origins = sorted_set origins, ci_metadata = redacted_metadata U metadata,
                ci_nonce = nonce, ci_ciphertext = seal key nonce (stored_secret secret) cid,
                ci_created_at = now, ci_updated_at = None\<rparr>]\<rparr>, Inr cid))"

fun update_first :: "('a \<Rightarrow> bool) \<Rightarrow> ('a \<Rightarrow> 'a) \<Rightarrow> 'a list \<Rightarrow> 'a list option" where
  "update_first P f [] = None"
| "update_first P f (x # xs) =
     (if P x then Some (f x # xs) else map_option ((#) x) (update_first P f xs))"

definition update_credential ::
  "py_runtime \<Rightarrow> ('k \<Rightarrow> ustring \<Rightarrow> credential_secret \<Rightarrow> ustring \<Rightarrow> ustring) \<Rightarrow> real \<Rightarrow> ustring \<Rightarrow> ustring \<Rightarrow>
     credential_secret \<Rightarrow> ustring list \<Rightarrow> (ustring \<times> pyval) list \<Rightarrow> ('k vault, unit) py_op" where
  "update_credential U seal now cid nonce secret origins metadata v =
     (case vt_key v of
        None \<Rightarrow> (v, Inl (Value_Error (lit ''vault is locked'')))
      | Some key \<Rightarrow>
          (case update_first (\<lambda>i. ci_id i = cid) (\<lambda>i.
               i\<lparr>ci_username_hint := username_hint U (cs_username secret),
                 ci_allowed_origins := sorted_set origins,
                 ci_metadata := redacted_metadata U (if metadata = [] then ci_metadata i else metadata),
                 ci_nonce := nonce, ci_ciphertext := seal key nonce (stored_secret secret) cid,
                 ci_updated_at := Some now\<rparr>) (vt_credentials v) of
             None \<Rightarrow> (v, Inl (Key_Error (lit ''credential not found: '' @ cid)))
           | Some items \<Rightarrow> (v\<lparr>vt_credentials := items\<rparr>, Inr ())))"

definition delete_credential :: "ustring \<Rightarrow> ('k vault, unit) py_op" where
  "delete_credential cid v =
     (let kept = filter (\<lambda>i. ci_id i \<noteq> cid) (vt_credentials v) in
      if length kept = length (vt_credentials v)
      then (v, Inl (Key_Error (lit ''credential not found: '' @ cid)))
      else (v\<lparr>vt_credentials := kept\<rparr>, Inr ()))"

definition decrypt_credential ::
  "('k \<Rightarrow> ustring \<Rightarrow> ustring \<Rightarrow> ustring \<Rightarrow> py_error + credential_secret) \<Rightarrow> ustring \<Rightarrow> 'k vault \<Rightarrow>
     py_error + credential_secret" where
  "decrypt_credential open_box cid v =
     (case vt_key v of
        None \<Rightarrow> Inl (Value_Error (lit ''vault is locked''))
      | Some key \<Rightarrow>
          (case find (\<lambda>i. ci_id i = cid) (vt_credentials v) of
             None \<Rightarrow> Inl (Key_Error (lit ''credential not found: '' @ cid))
           | Some i \<Rightarrow>
               and_then (open_box key (ci_nonce i) (ci_ciphertext i) (ci_id i))
                 (\<lambda>s. Inr (stored_secret s))))"

section \<open>The vault as a map from ids to secrets\<close>

text \<open>What the encryption promises: opening with the key, nonce and associated data of the sealing
  gives the secret back.\<close>

definition seal_law ::
  "('k \<Rightarrow> ustring \<Rightarrow> credential_secret \<Rightarrow> ustring \<Rightarrow> ustring) \<Rightarrow>
   ('k \<Rightarrow> ustring \<Rightarrow> ustring \<Rightarrow> ustring \<Rightarrow> py_error + credential_secret) \<Rightarrow> bool" where
  "seal_law seal open_box =
     (\<forall>key nonce secret aad. open_box key nonce (seal key nonce secret aad) aad = Inr secret)"

definition contents ::
  "('k \<Rightarrow> ustring \<Rightarrow> ustring \<Rightarrow> ustring \<Rightarrow> py_error + credential_secret) \<Rightarrow> 'k vault \<Rightarrow>
     ustring \<Rightarrow> credential_secret option" where
  "contents open_box v cid =
     (case decrypt_credential open_box cid v of Inl _ \<Rightarrow> None | Inr s \<Rightarrow> Some s)"

lemma stored_secret_idem [simp]: "stored_secret (stored_secret s) = stored_secret s"
  by (simp add: stored_secret_def)

lemma find_append: "find P (xs @ ys) = (case find P xs of None \<Rightarrow> find P ys | Some x \<Rightarrow> Some x)"
  by (induction xs) auto

lemma find_filter_other:
  "find (\<lambda>i. f i = k) (filter (\<lambda>i. f i \<noteq> j) xs) = (if k = j then None else find (\<lambda>i. f i = k) xs)"
  by (induction xs) auto

lemma find_update_first:
  "update_first (\<lambda>i. f i = j) g xs = Some ys \<Longrightarrow> (\<And>i. f (g i) = f i) \<Longrightarrow>
     find (\<lambda>i. f i = k) ys = (if k = j then map_option g (find (\<lambda>i. f i = j) xs) else find (\<lambda>i. f i = k) xs) \<and>
     find (\<lambda>i. f i = j) xs \<noteq> None"
  by (induction xs arbitrary: ys) (auto split: if_splits)

lemma find_None_filter:
  assumes "length (filter (\<lambda>i. f i \<noteq> k) xs) = length xs"
  shows "find (\<lambda>i. f i = k) xs = None"
  using assms length_filter_less [of _ xs "\<lambda>i. f i \<noteq> k"] by (fastforce simp: find_None_iff)

lemma find_ci_id: "find (\<lambda>i. ci_id i = cid) xs = Some i \<Longrightarrow> ci_id i = cid"
  by (simp add: find_Some_iff) blast


text \<open>A transparent box for concrete runs.\<close>

definition demo_seal :: "unit \<Rightarrow> ustring \<Rightarrow> credential_secret \<Rightarrow> ustring \<Rightarrow> ustring" where
  "demo_seal key nonce secret aad =
     (case cs_totp_seed secret of None \<Rightarrow> [0] | Some t \<Rightarrow> 1 # length t # t) @
     length (cs_username secret) # cs_username secret @ cs_password secret"

definition demo_open :: "unit \<Rightarrow> ustring \<Rightarrow> ustring \<Rightarrow> ustring \<Rightarrow> py_error + credential_secret" where
  "demo_open key nonce box aad =
     (let seed = (if hd box = 0 then None else Some (take (box ! 1) (drop 2 box)));
          rest = (if hd box = 0 then tl box else drop (2 + box ! 1) box) in
      Inr \<lparr>cs_username = take (hd rest) (tl rest), cs_password = drop (hd rest) (tl rest),
        cs_totp_seed = seed\<rparr>)"

lemma demo_seal_law: "seal_law demo_seal demo_open"
  by (simp add: seal_law_def demo_seal_def demo_open_def split: option.split)

definition demo_secret :: credential_secret where
  "demo_secret = \<lparr>cs_username = lit ''ann'', cs_password = lit ''pw'', cs_totp_seed = None\<rparr>"


end
