(* ===== verification/Secret_Broker.thy ===== *)
theory Secret_Broker
  imports Approval_Gate Fill_Policy Vault
begin

text \<open>
  \<open>omni_broker/broker.py\<close> and the receiving side of \<open>omni_control/secure_channel.py\<close>: the
  broker decrypts what the Control Client sent for a credential request, keeps or saves it, and fills
  it into the page of the request.  Key agreement and authenticated decryption are the parameter
  \<open>unseal\<close>: given whether the envelope is of the web kind, the envelope and the associated data, it
  gives the payload or an error.  \<open>to_float\<close> is \<open>float()\<close>, \<open>S\<close> the hexadecimal
  \<open>sha256\<close> of a text.
\<close>

type_synonym envelope = "(ustring \<times> pyval) list"

text \<open>The decrypted answer of the user: its text fields and whether it may be saved.\<close>

record payload =
  pl_fields :: "(ustring \<times> ustring) list"
  pl_save_to_vault :: bool

text \<open>The associated data of an envelope: the dictionary whose canonical JSON text is authenticated; the
  device and the expiry are entries of it only if they are known.\<close>

record associated =
  ad_request_id :: ustring
  ad_origin :: ustring
  ad_request_type :: ustring
  ad_device_id :: "pyval option"
  ad_expires_at :: "py_float option"

type_synonym unseal_fun = "bool \<Rightarrow> envelope \<Rightarrow> associated \<Rightarrow> py_error + payload"

section \<open>The channel\<close>

definition associated_data ::
  "ustring \<Rightarrow> ustring \<Rightarrow> ustring \<Rightarrow> pyval option \<Rightarrow> py_float option \<Rightarrow> associated" where
  "associated_data rid origin ty device_id expires_at =
     \<lparr>ad_request_id = rid, ad_origin = origin, ad_request_type = ty, ad_device_id = device_id,
      ad_expires_at = expires_at\<rparr>"

definition get_or_none :: "envelope \<Rightarrow> string \<Rightarrow> pyval" where
  "get_or_none env k = (case dict_get env (lit k) of None \<Rightarrow> PNone | Some v \<Rightarrow> v)"

definition float_eq :: "py_float \<Rightarrow> py_float \<Rightarrow> bool" where
  "float_eq x y = (case (x, y) of (Finite a, Finite b) \<Rightarrow> a = b | (Infinite, Infinite) \<Rightarrow> True | _ \<Rightarrow> False)"

definition replay_marker :: "py_runtime \<Rightarrow> (ustring \<Rightarrow> ustring) \<Rightarrow> envelope \<Rightarrow> ustring" where
  "replay_marker U S env =
     S (py_str U (get_or_none env ''request_id'') @ lit '':'' @ py_str U (get_or_none env ''nonce'') @
        lit '':'' @ py_str U (get_or_none env ''ciphertext''))"

definition check_and_mark ::
  "py_runtime \<Rightarrow> (ustring \<Rightarrow> ustring) \<Rightarrow> envelope \<Rightarrow> (ustring list, unit) py_op" where
  "check_and_mark U S env seen_markers =
     (let marker = replay_marker U S env in
      if marker \<in> set seen_markers then (seen_markers, Inl (Value_Error (lit ''replay detected'')))
      else (sorted_set (marker # seen_markers), Inr ()))"

definition mismatch :: "py_error" where
  "mismatch = Value_Error (lit ''envelope associated data mismatch'')"

text \<open>\<open>decrypt_at_broker\<close> and \<open>decrypt_web_at_broker\<close> differ in the key agreement only.\<close>

definition decrypt_envelope ::
  "py_runtime \<Rightarrow> (ustring \<Rightarrow> ustring) \<Rightarrow> (pyval \<Rightarrow> py_error + py_float) \<Rightarrow> unseal_fun \<Rightarrow> bool \<Rightarrow> bool \<Rightarrow>
     envelope \<Rightarrow> ustring \<Rightarrow> ustring \<Rightarrow> ustring \<Rightarrow> ustring option \<Rightarrow> real option \<Rightarrow>
     (ustring list, payload) py_op" where
  "decrypt_envelope U S to_float unseal web guard env rid origin ty device_id expires_at seen_markers =
     (if get_or_none env ''request_id'' \<noteq> PStr rid \<or> get_or_none env ''origin'' \<noteq> PStr origin \<or>
         get_or_none env ''request_type'' \<noteq> PStr ty
      then (seen_markers, Inl mismatch)
      else if device_id \<noteq> None \<and> get_or_none env ''device_id'' \<noteq> PStr (the device_id)
      then (seen_markers, Inl mismatch)
      else
        let expiry_ok =
              (case expires_at of
                 None \<Rightarrow> Inr True
               | Some t \<Rightarrow>
                   and_then (to_float (case dict_get env (lit ''expires_at'') of
                       None \<Rightarrow> PStr (lit ''nan'') | Some v \<Rightarrow> v))
                     (\<lambda>x. Inr (float_eq x (Finite t)))) in
        case expiry_ok of
          Inl e \<Rightarrow> (seen_markers, Inl e)
        | Inr ok \<Rightarrow>
            if \<not> ok then (seen_markers, Inl mismatch)
            else
              let aad_device = (case device_id of
                      Some d \<Rightarrow> Some (PStr d)
                    | None \<Rightarrow> if get_or_none env ''device_id'' = PNone then None
                        else Some (get_or_none env ''device_id''));
                  aad_expiry = (case expires_at of
                      Some t \<Rightarrow> Inr (Some (Finite t))
                    | None \<Rightarrow> if get_or_none env ''expires_at'' = PNone then Inr None
                        else and_then (to_float (get_or_none env ''expires_at''))
                          (\<lambda>x. Inr (Some x))) in
              case aad_expiry of
                Inl e \<Rightarrow> (seen_markers, Inl e)
              | Inr expiry \<Rightarrow>
                  py_bind (if guard then check_and_mark U S env else py_return ()) (\<lambda>_ st.
                    (st, unseal web env (associated_data rid origin ty aad_device expiry))) seen_markers)"

definition decrypt_control_envelope ::
  "py_runtime \<Rightarrow> (ustring \<Rightarrow> ustring) \<Rightarrow> (pyval \<Rightarrow> py_error + py_float) \<Rightarrow> unseal_fun \<Rightarrow> bool \<Rightarrow>
     envelope \<Rightarrow> ustring \<Rightarrow> ustring \<Rightarrow> ustring \<Rightarrow> ustring option \<Rightarrow> real option \<Rightarrow>
     (ustring list, payload) py_op" where
  "decrypt_control_envelope U S to_float unseal guard env =
     decrypt_envelope U S to_float unseal
       (get_or_none env ''version'' = PStr (lit ''web-p256-v1'')) guard env"

section \<open>The broker\<close>

text \<open>A call of \<open>fill_field\<close> of the browser: where it happened and with what.\<close>

record fill_event =
  fe_url :: ustring
  fe_selector :: ustring
  fe_value :: ustring

record 'k broker =
  bk_store :: request_store
  bk_payloads :: "(ustring \<times> payload) list"
  bk_seen :: "ustring list"
  bk_guard :: bool
  bk_vault :: "'k vault option"
  bk_fills :: "fill_event list"
  bk_audit :: "audit_call list"

text \<open>What the broker reports to the model.\<close>

record broker_status =
  st_status :: string
  st_request_id :: ustring
  st_origin :: ustring
  st_fields :: "string list"
  st_saved_to_vault :: bool
  st_credential_id :: "ustring option"

record broker_env =
  be_runtime :: py_runtime
  be_sha :: "ustring \<Rightarrow> ustring"
  be_float :: "pyval \<Rightarrow> py_error + py_float"
  be_unseal :: unseal_fun
  be_checks :: url_checks

definition on_store :: "(request_store, 'a) py_op \<Rightarrow> ('k broker, 'a) py_op" where
  "on_store op b = (case op (bk_store b) of (s, res) \<Rightarrow> (b\<lparr>bk_store := s\<rparr>, res))"

definition on_seen :: "(ustring list, 'a) py_op \<Rightarrow> ('k broker, 'a) py_op" where
  "on_seen op b = (case op (bk_seen b) of (s, res) \<Rightarrow> (b\<lparr>bk_seen := s\<rparr>, res))"

definition broker_audit :: "instants \<Rightarrow> string \<Rightarrow> (string \<times> pyval) list \<Rightarrow> 'k broker \<Rightarrow> 'k broker" where
  "broker_audit ts event flds b =
     b\<lparr>bk_audit := bk_audit b @ [(t_audit ts, lit event, map (\<lambda>(k, v). (lit k, v)) flds)]\<rparr>"

definition field_of :: "payload \<Rightarrow> string \<Rightarrow> ustring" where
  "field_of p k = (case dict_get (pl_fields p) (lit k) of None \<Rightarrow> [] | Some v \<Rightarrow> v)"

definition present_fields :: "string list \<Rightarrow> payload \<Rightarrow> string list" where
  "present_fields ks p = filter (\<lambda>k. field_of p k \<noteq> []) ks"

definition receive_from_control_client ::
  "broker_env \<Rightarrow> instants \<Rightarrow> ustring \<Rightarrow> ('k broker, broker_status) py_op" where
  "receive_from_control_client E ts rid =
     py_bind (on_store (get ts rid)) (\<lambda>r.
       if request_type r \<noteq> ''credential''
       then py_raise (Value_Error (lit ''request is not a credential request''))
       else if response_ciphertext r = None \<or> response_ciphertext r = Some []
       then py_raise (Value_Error (lit ''credential request has no encrypted response''))
       else
         let env = the (response_ciphertext r);
             expected_expires_at =
               (if get_or_none env ''expires_at'' = PNone then None else Some (rq_expires_at r)) in
         py_bind (\<lambda>b. on_seen (decrypt_control_envelope (be_runtime E) (be_sha E) (be_float E) (be_unseal E)
             (bk_guard b) env (request_id r) (rq_origin r) (lit (request_type r)) (allowed_device_id r)
             expected_expires_at) b) (\<lambda>p b.
           let present = present_fields [''username'', ''password'', ''totp_seed''] p in
           (broker_audit ts ''credential_received''
              [(''request_id'', PStr rid), (''origin'', PStr (rq_origin r)),
               (''fields'', PList (map (\<lambda>f. PStr (lit f)) present)), (''status'', PStr (lit ''ok''))]
              (b\<lparr>bk_payloads := dict_put rid p (bk_payloads b)\<rparr>),
            Inr \<lparr>st_status = ''credential_received'', st_request_id = rid, st_origin = rq_origin r,
              st_fields = present, st_saved_to_vault = False, st_credential_id = None\<rparr>)))"

text \<open>The payload of a request, received first if it is not there yet.\<close>

definition payload_of :: "broker_env \<Rightarrow> instants \<Rightarrow> ustring \<Rightarrow> ('k broker, payload) py_op" where
  "payload_of E ts rid b =
     (case dict_get (bk_payloads b) rid of
        Some p \<Rightarrow> (b, Inr p)
      | None \<Rightarrow>
          py_bind (receive_from_control_client E ts rid) (\<lambda>_ b.
            case dict_get (bk_payloads b) rid of
              Some p \<Rightarrow> (b, Inr p)
            | None \<Rightarrow> (b, Inl (Key_Error rid))) b)"

definition should_save_to_vault :: "control_request \<Rightarrow> payload \<Rightarrow> bool" where
  "should_save_to_vault r p = (save_to_vault r \<and> pl_save_to_vault p)"

definition store_or_use_once ::
  "broker_env \<Rightarrow> ('k \<Rightarrow> ustring \<Rightarrow> credential_secret \<Rightarrow> ustring \<Rightarrow> ustring) \<Rightarrow> instants \<Rightarrow> instants \<Rightarrow> ustring \<Rightarrow> ustring \<Rightarrow>
     ustring \<Rightarrow> ('k broker, broker_status) py_op" where
  "store_or_use_once E seal ts ts' cid nonce rid =
     py_bind (on_store (get ts rid)) (\<lambda>r.
     py_bind (payload_of E ts' rid) (\<lambda>p b.
       if \<not> should_save_to_vault r p then
         (b, Inr \<lparr>st_status = ''credential_ready_for_one_time_use'', st_request_id = rid,
            st_origin = rq_origin r, st_fields = [], st_saved_to_vault = False, st_credential_id = None\<rparr>)
       else
         case bk_vault b of
           None \<Rightarrow> (b, Inl (Value_Error (lit ''vault path and passphrase are required to save credentials'')))
         | Some v \<Rightarrow>
             (case add_credential (be_runtime E) seal (t_now ts') cid nonce
                  \<lparr>cs_username = field_of p ''username'', cs_password = field_of p ''password'',
                   cs_totp_seed = (if field_of p ''totp_seed'' = [] then None
                     else Some (field_of p ''totp_seed''))\<rparr> [rq_origin r] [] v of
                (v', Inl e) \<Rightarrow> (b\<lparr>bk_vault := Some v'\<rparr>, Inl e)
              | (v', Inr i) \<Rightarrow>
                  (broker_audit ts' ''credential_saved''
                    [(''request_id'', PStr rid), (''origin'', PStr (rq_origin r)),
                     (''credential_id'', PStr i), (''status'', PStr (lit ''ok''))]
                    (b\<lparr>bk_vault := Some v'\<rparr>),
                   Inr \<lparr>st_status = ''credential_saved'', st_request_id = rid, st_origin = rq_origin r,
                     st_fields = [], st_saved_to_vault = True, st_credential_id = Some i\<rparr>))))"

definition validate_fill ::
  "py_runtime \<Rightarrow> url_checks \<Rightarrow> ustring \<Rightarrow> ustring list \<Rightarrow> ustring option \<Rightarrow> bool \<Rightarrow> py_error + policy_decision" where
  "validate_fill U K current_url allowed_origins form_action_url top_level_frame =
     and_then (evaluate_credential_fill U K current_url allowed_origins top_level_frame form_action_url True)
       (\<lambda>d. if pd_decision d \<noteq> Allow_Fill then Inl (Permission_Error (pd_reason d)) else Inr d)"

definition fill_after_receive ::
  "broker_env \<Rightarrow> instants \<Rightarrow> instants \<Rightarrow> ustring \<Rightarrow> ustring \<Rightarrow> ustring option \<Rightarrow> ustring \<Rightarrow> ustring \<Rightarrow>
     ('k broker, broker_status) py_op" where
  "fill_after_receive E ts ts' rid current_url form_action username_selector password_selector =
     py_bind (on_store (get ts rid)) (\<lambda>r.
     py_bind (payload_of E ts' rid) (\<lambda>p b.
       case validate_fill (be_runtime E) (be_checks E) current_url [rq_origin r] form_action True of
         Inl e \<Rightarrow> (b, Inl e)
       | Inr d \<Rightarrow>
           (broker_audit ts' ''credential_filled''
              [(''request_id'', PStr rid), (''origin'', PStr (rq_origin r)),
               (''fields'', PList [PStr (lit ''username''), PStr (lit ''password'')]),
               (''status'', PStr (lit ''ok''))]
              (b\<lparr>bk_fills := bk_fills b @
                [\<lparr>fe_url = current_url, fe_selector = username_selector, fe_value = field_of p ''username''\<rparr>,
                 \<lparr>fe_url = current_url, fe_selector = password_selector, fe_value = field_of p ''password''\<rparr>]\<rparr>),
            Inr \<lparr>st_status = ''credential_received_and_filled'', st_request_id = rid, st_origin = rq_origin r,
              st_fields = [''username'', ''password''], st_saved_to_vault = False,
              st_credential_id = None\<rparr>)))"

section \<open>What the broker guarantees\<close>

text \<open>What a successful decryption has checked.\<close>

lemma decrypt_control_envelope_ok:
  assumes "decrypt_control_envelope U S to_float unseal guard env rid origin ty device_id expires_at seen_markers =
    (seen', Inr p)"
  shows "get_or_none env ''request_id'' = PStr rid \<and> get_or_none env ''origin'' = PStr origin \<and>
    get_or_none env ''request_type'' = PStr ty \<and>
    (\<forall>d. device_id = Some d \<longrightarrow> get_or_none env ''device_id'' = PStr d) \<and>
    (\<exists>web device expiry. unseal web env (associated_data rid origin ty device expiry) = Inr p \<and>
       (\<forall>d. device_id = Some d \<longrightarrow> device = Some (PStr d)) \<and>
       (\<forall>t. expires_at = Some t \<longrightarrow> expiry = Some (Finite t))) \<and>
    (guard \<longrightarrow> replay_marker U S env \<notin> set seen_markers \<and> replay_marker U S env \<in> set seen') \<and>
    set seen_markers \<subseteq> set seen'"
proof -
  let ?web = "get_or_none env ''version'' = PStr (lit ''web-p256-v1'')"
  have m: "get_or_none env ''request_id'' = PStr rid" "get_or_none env ''origin'' = PStr origin"
    "get_or_none env ''request_type'' = PStr ty"
    "\<forall>d. device_id = Some d \<longrightarrow> get_or_none env ''device_id'' = PStr d"
    using assms by (auto simp: decrypt_control_envelope_def decrypt_envelope_def split: if_splits)
  obtain device expiry where
    k: "py_bind (if guard then check_and_mark U S env else py_return ()) (\<lambda>_ st.
        (st, unseal ?web env (associated_data rid origin ty device expiry))) seen_markers = (seen', Inr p)"
    and d: "\<forall>d. device_id = Some d \<longrightarrow> device = Some (PStr d)"
      "\<forall>t. expires_at = Some t \<longrightarrow> expiry = Some (Finite t)"
    using assms
    by (auto simp: decrypt_control_envelope_def decrypt_envelope_def Let_def
        split: if_splits sum.splits option.splits)
  have "unseal ?web env (associated_data rid origin ty device expiry) = Inr p"
    "guard \<longrightarrow> replay_marker U S env \<notin> set seen_markers \<and> replay_marker U S env \<in> set seen'"
    "set seen_markers \<subseteq> set seen'"
    using k by (auto simp: py_bind_ok py_return_def check_and_mark_def Let_def sorted_set_def
        set_insort_key split: if_splits)
  then show ?thesis using m d by blast
qed

lemma get_expired:
  assumes "get ts rid st = (st', Inr r)"
  obtains r0 where "dict_get (requests st) rid = Some r0" "r = fst (expire_if_needed ts r0)"
  using assms by (auto simp: get_def split: option.splits prod.splits bool.splits)

lemma expire_fields [simp]:
  "request_id (fst (expire_if_needed ts r)) = request_id r"
  "request_type (fst (expire_if_needed ts r)) = request_type r"
  "rq_origin (fst (expire_if_needed ts r)) = rq_origin r"
  "response_ciphertext (fst (expire_if_needed ts r)) = response_ciphertext r"
  "allowed_device_id (fst (expire_if_needed ts r)) = allowed_device_id r"
  "rq_expires_at (fst (expire_if_needed ts r)) = rq_expires_at r"
  by (simp_all add: expire_if_needed_def)

lemma on_store_get_ok:
  "on_store (get ts rid) b = (b', Inr r) \<longleftrightarrow>
     (\<exists>s. get ts rid (bk_store b) = (s, Inr r) \<and> b' = b\<lparr>bk_store := s\<rparr>)"
  by (auto simp: on_store_def split: prod.splits)

text \<open>C15.  The payload the broker accepts was sealed for the request at hand: it opens under associated
  data that name the id, origin and type of the request and the device it is bound to, and with the
  replay guard its envelope had not been accepted before and is remembered.\<close>

theorem payload_bound_to_request:
  assumes "store_ok (bk_store b)" "dict_ok (bk_payloads b)"
    "receive_from_control_client E ts rid b = (b', Inr status)"
  shows "\<exists>r env p web device expiry. dict_get (requests (bk_store b)) rid = Some r \<and>
    response_ciphertext r = Some env \<and> dict_get (bk_payloads b') rid = Some p \<and>
    be_unseal E web env (associated_data rid (rq_origin r) (lit ''credential'') device expiry) = Inr p \<and>
    (\<forall>d. allowed_device_id r = Some d \<longrightarrow> device = Some (PStr d)) \<and>
    (bk_guard b \<longrightarrow> replay_marker (be_runtime E) (be_sha E) env \<notin> set (bk_seen b) \<and>
      replay_marker (be_runtime E) (be_sha E) env \<in> set (bk_seen b'))"
proof -
  obtain s1 r env seen' p expires where g: "get ts rid (bk_store b) = (s1, Inr r)"
    and ty: "request_type r = ''credential''" and env: "response_ciphertext r = Some env"
    and d: "decrypt_control_envelope (be_runtime E) (be_sha E) (be_float E) (be_unseal E) (bk_guard b) env
      (request_id r) (rq_origin r) (lit (request_type r)) (allowed_device_id r) expires (bk_seen b) = (seen', Inr p)"
    and b': "dict_get (bk_payloads b') rid = Some p" "bk_seen b' = seen'"
    using assms(3)
    by (auto simp: receive_from_control_client_def py_bind_ok on_store_get_ok py_raise_def on_seen_def
        broker_audit_def Let_def dict_put_get [OF assms(2)] split: if_splits prod.splits)
  obtain r0 where r0: "dict_get (requests (bk_store b)) rid = Some r0" "r = fst (expire_if_needed ts r0)"
    by (rule get_expired [OF g])
  have "request_id r = rid" using store_ok_get [OF assms(1) r0(1)] by (simp add: r0(2))
  then show ?thesis
    using decrypt_control_envelope_ok [OF d] r0 env b' ty by auto
qed

lemma bind_keeps:
  assumes "f (fst (op b)) = f b" "\<And>x b'. op b = (b', Inr x) \<Longrightarrow> f (fst (g x b')) = f b'"
  shows "f (fst (py_bind op g b)) = f b"
proof (cases "op b")
  case (Pair b' res)
  then show ?thesis
    using assms(1) assms(2) [of b'] by (cases res) (simp_all add: py_bind_def)
qed

lemma on_store_fills [simp]: "bk_fills (fst (on_store op b)) = bk_fills b"
  by (simp add: on_store_def split: prod.split)

lemma on_seen_fills [simp]: "bk_fills (fst (on_seen op b)) = bk_fills b"
  by (simp add: on_seen_def split: prod.split)

lemma receive_fills: "bk_fills (fst (receive_from_control_client E ts rid b)) = bk_fills b"
  unfolding receive_from_control_client_def
  by (intro bind_keeps) (auto simp: py_raise_def Let_def broker_audit_def intro!: bind_keeps)

lemma payload_of_fills: "bk_fills (fst (payload_of E ts rid b)) = bk_fills b"
proof (cases "dict_get (bk_payloads b) rid")
  case None
  have "bk_fills (fst (py_bind (receive_from_control_client E ts rid) (\<lambda>_ b.
      case dict_get (bk_payloads b) rid of Some p \<Rightarrow> (b, Inr p) | None \<Rightarrow> (b, Inl (Key_Error rid))) b)) = bk_fills b"
    by (rule bind_keeps) (simp_all add: receive_fills split: option.split)
  then show ?thesis by (simp add: payload_of_def None)
qed (simp add: payload_of_def)


text \<open>A concrete broker with one answered credential request.\<close>

definition demo_envelope :: envelope where
  "demo_envelope = [(lit ''request_id'', PStr (lit ''req_1'')),
     (lit ''origin'', PStr (lit ''https://shop.example'')), (lit ''request_type'', PStr (lit ''credential''))]"

definition demo_broker :: "unit broker" where
  "demo_broker =
     \<lparr>bk_store = \<lparr>requests = [(lit ''req_1'', new_request (at_time 0) ''credential'' demo_args
         \<lparr>response_ciphertext := Some demo_envelope\<rparr>)], audit_calls = []\<rparr>,
      bk_payloads = [], bk_seen = [], bk_guard = True, bk_vault = None, bk_fills = [], bk_audit = []\<rparr>"

definition demo_env :: broker_env where
  "demo_env = \<lparr>be_runtime = ascii_runtime, be_sha = \<lambda>t. t, be_float = \<lambda>_. Inl Type_Error,
     be_unseal = \<lambda>_ _ _. Inr \<lparr>pl_fields = [(lit ''password'', lit ''pw''), (lit ''username'', lit ''ann'')],
       pl_save_to_vault = False\<rparr>, be_checks = demo_checks\<rparr>"

lemma demo_envelope_get:
  "get_or_none demo_envelope ''request_id'' = PStr (lit ''req_1'')"
  "get_or_none demo_envelope ''origin'' = PStr (lit ''https://shop.example'')"
  "get_or_none demo_envelope ''request_type'' = PStr (lit ''credential'')"
  "get_or_none demo_envelope ''expires_at'' = PNone" "get_or_none demo_envelope ''device_id'' = PNone"
  by (simp_all add: get_or_none_def demo_envelope_def dict_get_def lit_def)

lemma demo_get:
  "get (at_time 1) (lit ''req_1'') (bk_store demo_broker) =
     (bk_store demo_broker, Inr (new_request (at_time 0) ''credential'' demo_args
        \<lparr>response_ciphertext := Some demo_envelope\<rparr>))"
  by (simp add: get_def demo_broker_def dict_get_def expire_if_needed_def is_expired_def new_request_def
      Let_def demo_args_def)

lemma demo_receive:
  "\<exists>b' status p. receive_from_control_client demo_env (at_time 1) (lit ''req_1'') demo_broker = (b', Inr status) \<and>
     bk_fills b' = [] \<and> dict_get (bk_payloads b') (lit ''req_1'') = Some p"
proof -
  have "\<exists>m p. decrypt_control_envelope ascii_runtime (\<lambda>t. t) (\<lambda>_. Inl Type_Error) (be_unseal demo_env) True
      demo_envelope (lit ''req_1'') (lit ''https://shop.example'') (lit ''credential'') None None [] = (m, Inr p)"
    by (simp add: decrypt_control_envelope_def decrypt_envelope_def demo_envelope_get py_bind_def
        check_and_mark_def demo_env_def Let_def)
  then obtain m p where "decrypt_control_envelope ascii_runtime (\<lambda>t. t) (\<lambda>_. Inl Type_Error) (be_unseal demo_env)
      True demo_envelope (lit ''req_1'') (lit ''https://shop.example'') (lit ''credential'') None None [] = (m, Inr p)"
    by blast
  then show ?thesis
    by (simp add: receive_from_control_client_def py_bind_def on_store_def demo_get demo_envelope_get on_seen_def
        Let_def broker_audit_def dict_get_def)
      (simp add: demo_broker_def demo_env_def new_request_def Let_def demo_args_def demo_envelope_def dict_get_def)
qed

lemma demo_broker_ok: "store_ok (bk_store demo_broker)" "dict_ok (bk_payloads demo_broker)"
  by (simp_all add: demo_broker_def store_ok_def dict_ok_def audit_ok_def new_request_def Let_def demo_args_def)

theorem payload_bound_to_request_witness:
  "\<exists>(b' :: unit broker) r env. dict_get (requests (bk_store demo_broker)) (lit ''req_1'') = Some r \<and>
    response_ciphertext r = Some env \<and>
    replay_marker ascii_runtime (\<lambda>t. t) env \<in> set (bk_seen b')"
proof -
  obtain b' status where r: "receive_from_control_client demo_env (at_time 1) (lit ''req_1'') demo_broker = (b', Inr status)"
    using demo_receive by blast
  have "bk_guard demo_broker" "be_runtime demo_env = ascii_runtime" "be_sha demo_env = (\<lambda>t. t)"
    by (simp_all add: demo_broker_def demo_env_def)
  then show ?thesis using payload_bound_to_request [OF demo_broker_ok r] by auto
qed


end
