(* ===== verification/Challenge_Relay.thy ===== *)
theory Challenge_Relay
  imports Secret_Broker
begin

text \<open>
  \<open>omni_challenge/relay.py\<close>: codes that the user sends to answer a challenge of a page, and
  their injection into the page.  The relay has the request store, the payloads it has decrypted and
  the replay markers; the browser is the list of the fields that were filled.
\<close>

record relay =
  cr_store :: request_store
  cr_payloads :: "(ustring \<times> payload) list"
  cr_seen :: "ustring list"
  cr_guard :: bool
  cr_fills :: "(ustring \<times> ustring) list"
  cr_audit :: "audit_call list"

text \<open>What the relay reports to the model; the entries that are the same in every report are left out.\<close>

record relay_status =
  rs_status :: string
  rs_origin :: ustring
  rs_challenge_type :: "ustring option"
  rs_fields :: "string list"

definition interaction_type :: "string \<Rightarrow> string" where
  "interaction_type challenge =
     (if challenge = ''sms'' then ''sms_code'' else if challenge = ''email'' then ''email_code''
      else if challenge = ''3ds'' then ''payment_3ds'' else challenge)"

definition relay_audit :: "instants \<Rightarrow> string \<Rightarrow> (string \<times> pyval) list \<Rightarrow> relay \<Rightarrow> relay" where
  "relay_audit ts event flds b =
     b\<lparr>cr_audit := cr_audit b @ [(t_audit ts, lit event, map (\<lambda>(k, v). (lit k, v)) flds)]\<rparr>"

definition opt_str :: "ustring option \<Rightarrow> pyval" where
  "opt_str x = (case x of None \<Rightarrow> PNone | Some s \<Rightarrow> PStr s)"

definition on_requests :: "(request_store, 'a) py_op \<Rightarrow> (relay, 'a) py_op" where
  "on_requests op b = (case op (cr_store b) of (s, res) \<Rightarrow> (b\<lparr>cr_store := s\<rparr>, res))"

definition on_markers :: "(ustring list, 'a) py_op \<Rightarrow> (relay, 'a) py_op" where
  "on_markers op b = (case op (cr_seen b) of (s, res) \<Rightarrow> (b\<lparr>cr_seen := s\<rparr>, res))"

text \<open>The arguments without a value here have the defaults of \<open>RequestStore.create\<close>.\<close>

definition request_user_interaction ::
  "instants \<Rightarrow> ustring \<Rightarrow> ustring \<Rightarrow> ustring \<Rightarrow> string \<Rightarrow> ustring \<Rightarrow> ustring list \<Rightarrow> ustring \<Rightarrow>
     (relay, control_request) py_op" where
  "request_user_interaction ts rid origin url challenge reason flds risk =
     py_bind (on_requests (create ts (interaction_type challenge)
        \<lparr>ca_id = rid, ca_origin = origin, ca_top_level_url = url, ca_action_summary = reason,
         ca_risk_level = risk, ca_ttl_seconds = 300, ca_broker_fingerprint = None,
         ca_requested_fields = flds, ca_challenge_type = Some (lit challenge), ca_takeover_reason = None,
         ca_browser_context_id = None, ca_allowed_device_id = None, ca_save_to_vault = False,
         ca_structured_details = [], ca_approval_fingerprint = None\<rparr>)) (\<lambda>r b.
       (relay_audit ts ''challenge_requested''
          [(''request_id'', PStr (request_id r)), (''origin'', PStr origin),
           (''challenge_type'', PStr (lit challenge)), (''risk_level'', PStr risk),
           (''status'', PStr (lit (rq_status r)))] b, Inr r))"

definition response_types :: "string list" where
  "response_types = [''totp'', ''sms_code'', ''email_code'', ''one_time_code'', ''payment_3ds'']"

definition receive_user_response :: "broker_env \<Rightarrow> instants \<Rightarrow> ustring \<Rightarrow> (relay, relay_status) py_op" where
  "receive_user_response E ts rid =
     py_bind (on_requests (get ts rid)) (\<lambda>r.
       if request_type r \<notin> set response_types
       then py_raise (Value_Error (lit ''request is not a user challenge response''))
       else if response_ciphertext r = None \<or> response_ciphertext r = Some []
       then py_raise (Value_Error (lit ''challenge request has no encrypted response''))
       else
         let env = the (response_ciphertext r);
             expected_expires_at =
               (if get_or_none env ''expires_at'' = PNone then None else Some (rq_expires_at r)) in
         py_bind (\<lambda>b. on_markers (decrypt_control_envelope (be_runtime E) (be_sha E) (be_float E) (be_unseal E)
             (cr_guard b) env (request_id r) (rq_origin r) (lit (request_type r)) (allowed_device_id r)
             expected_expires_at) b) (\<lambda>p b.
           let present = present_fields [''code'', ''otp'', ''ack''] p in
           (relay_audit ts ''challenge_response_received''
              [(''request_id'', PStr rid), (''origin'', PStr (rq_origin r)),
               (''challenge_type'', opt_str (challenge_type r)),
               (''fields'', PList (map (\<lambda>f. PStr (lit f)) present)), (''status'', PStr (lit ''ok''))]
              (b\<lparr>cr_payloads := dict_put rid p (cr_payloads b)\<rparr>),
            Inr \<lparr>rs_status = ''challenge_response_received'', rs_origin = rq_origin r,
              rs_challenge_type = challenge_type r, rs_fields = present\<rparr>)))"

definition answer_of :: "broker_env \<Rightarrow> instants \<Rightarrow> ustring \<Rightarrow> (relay, payload) py_op" where
  "answer_of E ts rid b =
     (case dict_get (cr_payloads b) rid of
        Some p \<Rightarrow> (b, Inr p)
      | None \<Rightarrow>
          py_bind (receive_user_response E ts rid) (\<lambda>_ b.
            case dict_get (cr_payloads b) rid of
              Some p \<Rightarrow> (b, Inr p)
            | None \<Rightarrow> (b, Inl (Key_Error rid))) b)"

definition injectable :: "payload \<Rightarrow> ustring" where
  "injectable p =
     (if field_of p ''code'' \<noteq> [] then field_of p ''code''
      else if field_of p ''otp'' \<noteq> [] then field_of p ''otp'' else field_of p ''ack'')"

definition default_selector :: "control_request \<Rightarrow> ustring" where
  "default_selector r =
     join (lit '', '')
       (concat (map (\<lambda>f. [lit ''#'' @ f, lit ''input[name='' @ squote @ f @ squote @ lit '']'']) (requested_fields r)) @
        [lit ''input[autocomplete='' @ squote @ lit ''one-time-code'' @ squote @ lit '']'', lit ''#otp'',
         lit ''input[name='' @ squote @ lit ''otp'' @ squote @ lit '']'', lit ''#code'',
         lit ''input[name='' @ squote @ lit ''code'' @ squote @ lit '']'', lit ''#ack''])"

definition target_selector :: "ustring option \<Rightarrow> control_request \<Rightarrow> ustring" where
  "target_selector selector r =
     (case selector of None \<Rightarrow> default_selector r | Some s \<Rightarrow> if s = [] then default_selector r else s)"

definition completion_fields :: "ustring \<Rightarrow> control_request \<Rightarrow> control_request \<Rightarrow> (string \<times> pyval) list" where
  "completion_fields rid r completed =
     [(''request_id'', PStr rid), (''origin'', PStr (rq_origin r)),
      (''challenge_type'', opt_str (challenge_type r)), (''completed_by_user'', PBool True),
      (''bypassed'', PBool False), (''status'', PStr (lit (rq_status completed)))]"

definition inject_response_if_applicable ::
  "broker_env \<Rightarrow> instants \<Rightarrow> instants \<Rightarrow> instants \<Rightarrow> ustring \<Rightarrow> ustring option \<Rightarrow> (relay, relay_status) py_op" where
  "inject_response_if_applicable E ts tr ts' rid selector =
     py_bind (on_requests (get ts rid)) (\<lambda>r.
     py_bind (answer_of E tr rid) (\<lambda>p.
       let value = injectable p in
       if value = [] then py_raise (Value_Error (lit ''challenge payload has no injectable value''))
       else
         let target = target_selector selector r in
         py_bind (\<lambda>b. (b\<lparr>cr_fills := cr_fills b @ [(target, value)]\<rparr>, Inr ())) (\<lambda>_.
         py_bind (on_requests (mark_challenge_completed ts' rid)) (\<lambda>completed b.
           (relay_audit ts' ''challenge_response_injected'' (completion_fields rid r completed) b,
            Inr \<lparr>rs_status = ''challenge_response_injected'', rs_origin = rq_origin r,
              rs_challenge_type = challenge_type r, rs_fields = []\<rparr>)))))"

definition mark_completed_by_user :: "instants \<Rightarrow> ustring \<Rightarrow> (relay, relay_status) py_op" where
  "mark_completed_by_user ts rid =
     py_bind (on_requests (mark_challenge_completed ts rid)) (\<lambda>r b.
       (relay_audit ts ''challenge_completed'' (completion_fields rid r r) b,
        Inr \<lparr>rs_status = ''challenge_completed'', rs_origin = rq_origin r,
          rs_challenge_type = challenge_type r, rs_fields = []\<rparr>))"

section \<open>What the relay does with an answer\<close>

definition relay_ok :: "relay \<Rightarrow> bool" where
  "relay_ok b = (store_ok (cr_store b) \<and> dict_ok (cr_payloads b))"

lemma on_requests_ok:
  "on_requests op b = (b', Inr x) \<longleftrightarrow> (\<exists>s. op (cr_store b) = (s, Inr x) \<and> b' = b\<lparr>cr_store := s\<rparr>)"
  by (auto simp: on_requests_def split: prod.splits)

lemma get_store_ok: "store_ok st \<Longrightarrow> get ts rid st = (st', res) \<Longrightarrow> store_ok st'"
  using safe_get(1) [of st UNIV rid ts] by (simp add: safe_def)

text \<open>A completed challenge is settled for good.\<close>

lemma mark_completed_ok:
  assumes "store_ok st" "mark_challenge_completed ts rid st = (st', Inr r')"
  shows "store_ok st' \<and> stored rid r' st' \<and> rq_status r' = ''challenge_completed'' \<and> rq_used r' \<and>
    completed_by_user r' \<and> \<not> bypassed r'"
proof -
  obtain s r where g: "get ts rid st = (s, Inr r)"
    and u: "update ts (r\<lparr>rq_status := ''challenge_completed'', completed_by_user := True,
         bypassed := False, rq_used := one_time_use r\<rparr>) s = (st', Inr r')"
    using assms(2) by (auto simp: mark_challenge_completed_def py_bind_ok ensure_actionable_ok)
  have s: "store_ok s" "stored rid r s"
    using get_store_ok [OF assms(1) g] safe_get(2) [OF assms(1) _ g, of UNIV] by auto
  then have r: "request_id r = rid" "one_time_use r" using store_ok_get by auto
  have "store_ok st'"
    using methods_safe(4) [OF assms(1), of rid ts] assms(2) by (simp add: safe_def)
  then show ?thesis
    using update_shape [of s ts "r\<lparr>rq_status := ''challenge_completed'', completed_by_user := True,
         bypassed := False, rq_used := one_time_use r\<rparr>"] u s r
    by (auto simp: dict_put_get store_ok_def)
qed

lemma completed_not_marked:
  assumes "stored rid r st" "rq_used r" "rq_status r = ''challenge_completed''"
  shows "\<exists>st' e. mark_challenge_completed ts rid st = (st', Inl e)"
proof -
  have g: "get ts rid st = (st, Inr r)"
    using assms(1,3) by (simp add: get_def expire_if_needed_def EXPIRABLE_STATUSES_def)
  obtain st' e where "ensure_actionable ts True r st = (st', Inl e)"
    using ensure_actionable_ok [of ts True r st "fst (ensure_actionable ts True r st)"] assms
    by (cases "snd (ensure_actionable ts True r st)") (auto simp: actionable_def prod_eq_iff)
  then show ?thesis by (simp add: mark_challenge_completed_def py_bind_def g)
qed

lemma receive_user_response_ok:
  assumes "relay_ok b" "receive_user_response E ts rid b = (b', Inr x)"
  shows "relay_ok b' \<and> cr_fills b' = cr_fills b \<and> (\<exists>r env p web device expiry.
    dict_get (requests (cr_store b)) rid = Some r \<and> request_type r \<in> set response_types \<and>
    response_ciphertext r = Some env \<and> dict_get (cr_payloads b') rid = Some p \<and>
    be_unseal E web env (associated_data rid (rq_origin r) (lit (request_type r)) device expiry) = Inr p)"
proof -
  obtain s1 r env seen' p expires where g: "get ts rid (cr_store b) = (s1, Inr r)"
    and ty: "request_type r \<in> set response_types" and env: "response_ciphertext r = Some env"
    and d: "decrypt_control_envelope (be_runtime E) (be_sha E) (be_float E) (be_unseal E) (cr_guard b) env
      (request_id r) (rq_origin r) (lit (request_type r)) (allowed_device_id r) expires (cr_seen b) = (seen', Inr p)"
    and b': "b' = b\<lparr>cr_store := s1, cr_seen := seen', cr_payloads := dict_put rid p (cr_payloads b),
      cr_audit := cr_audit b'\<rparr>"
    using assms(2)
    by (auto simp: receive_user_response_def py_bind_ok on_requests_ok py_raise_def on_markers_def
        relay_audit_def Let_def split: if_splits prod.splits)
  have "cr_store b' = s1" "cr_payloads b' = dict_put rid p (cr_payloads b)" "cr_fills b' = cr_fills b"
    by (subst b', simp)+
  moreover obtain r0 where r0: "dict_get (requests (cr_store b)) rid = Some r0" "r = fst (expire_if_needed ts r0)"
    by (rule get_expired [OF g])
  moreover have "request_id r = rid"
    using store_ok_get [of "cr_store b" rid r0] assms(1) r0 by (simp add: relay_ok_def)
  ultimately show ?thesis
    using decrypt_control_envelope_ok [OF d] env ty get_store_ok [OF _ g] assms(1)
    by (auto simp: relay_ok_def dict_put_ok dict_put_get)
qed

lemma answer_of_ok:
  assumes "relay_ok b" "answer_of E ts rid b = (b', Inr p)"
  shows "relay_ok b' \<and> cr_fills b' = cr_fills b \<and> dict_get (cr_payloads b') rid = Some p"
  using assms receive_user_response_ok [OF assms(1)]
  by (fastforce simp: answer_of_def py_bind_ok split: option.splits)

text \<open>What a successful injection does, step by step.\<close>

lemma inject_ok:
  assumes "relay_ok b" "inject_response_if_applicable E ts tr ts' rid selector b = (b', Inr x)"
  obtains r p r' where "dict_get (cr_payloads b') rid = Some p" "injectable p \<noteq> []" "relay_ok b'"
    "cr_fills b' = cr_fills b @
      [(target_selector selector r, injectable p)]"
    "stored rid r' (cr_store b')" "rq_status r' = ''challenge_completed''" "rq_used r'"
    "completed_by_user r'" "\<not> bypassed r'"
proof -
  obtain s1 r b1 p s2 r' where g: "get ts rid (cr_store b) = (s1, Inr r)"
    and a: "answer_of E tr rid (b\<lparr>cr_store := s1\<rparr>) = (b1, Inr p)" and v: "injectable p \<noteq> []"
    and mk: "mark_challenge_completed ts' rid (cr_store b1) = (s2, Inr r')"
    and b': "b' = relay_audit ts' ''challenge_response_injected'' (completion_fields rid r r')
      (b1\<lparr>cr_fills := cr_fills b1 @
        [(target_selector selector r, injectable p)],
        cr_store := s2\<rparr>)"
    using assms(2)
    by (auto simp: inject_response_if_applicable_def py_bind_ok on_requests_ok py_raise_def Let_def
        split: if_splits)
  have "relay_ok (b\<lparr>cr_store := s1\<rparr>)"
    using assms(1) get_store_ok [OF _ g] by (simp add: relay_ok_def)
  note ans = answer_of_ok [OF this a]
  then have "store_ok (cr_store b1)" by (simp add: relay_ok_def)
  note m = mark_completed_ok [OF this mk]
  show thesis
    by (rule that [of p r r']) (use ans m v in \<open>simp_all add: b' relay_audit_def relay_ok_def\<close>)
qed


text \<open>The field is filled before the request is checked: once an answer has been injected, every
  further call types the code into the page again and only then reports that the request is used.\<close>

theorem reinjection_fills_again:
  assumes "relay_ok b" "inject_response_if_applicable E ts tr ts' rid selector b = (b', Inr x)"
  shows "\<exists>b'' e target p. inject_response_if_applicable E us ur us' rid selector' b' = (b'', Inl e) \<and>
    cr_fills b'' = cr_fills b' @ [(target, injectable p)] \<and> dict_get (cr_payloads b') rid = Some p"
proof (rule inject_ok [OF assms])
  fix r p r'
  assume p: "dict_get (cr_payloads b') rid = Some p" "injectable p \<noteq> []"
    and r': "stored rid r' (cr_store b')" "rq_status r' = ''challenge_completed''" "rq_used r'"
  have g: "get us rid (cr_store b') = (cr_store b', Inr r')"
    using r' by (simp add: get_def expire_if_needed_def EXPIRABLE_STATUSES_def)
  obtain st e where "mark_challenge_completed us' rid (cr_store b') = (st, Inl e)"
    using completed_not_marked [OF r'(1,3,2)] by blast
  then show ?thesis
    using p by (simp add: inject_response_if_applicable_def py_bind_def on_requests_def g answer_of_def Let_def)
qed

section \<open>A concrete relay\<close>

text \<open>A relay that has decrypted the code for an answered request.\<close>

definition demo_answer :: payload where
  "demo_answer = \<lparr>pl_fields = [(lit ''code'', lit ''123456'')], pl_save_to_vault = False\<rparr>"

definition demo_relay :: relay where
  "demo_relay =
     \<lparr>cr_store = \<lparr>requests = [(lit ''req_1'', new_request (at_time 0) ''sms_code'' demo_args)], audit_calls = []\<rparr>,
      cr_payloads = [(lit ''req_1'', demo_answer)], cr_seen = [], cr_guard = True, cr_fills = [], cr_audit = []\<rparr>"

lemma demo_relay_ok: "relay_ok demo_relay"
  by (simp add: relay_ok_def demo_relay_def store_ok_def dict_ok_def audit_ok_def new_request_def Let_def
      demo_args_def)

lemma demo_injects:
  "\<exists>b' x. inject_response_if_applicable demo_env (at_time 1) (at_time 1) (at_time 2) (lit ''req_1'') None demo_relay = (b', Inr x)"
proof -
  let ?r = "new_request (at_time 0) ''sms_code'' demo_args"
  have g: "get (at_time t) (lit ''req_1'') (cr_store demo_relay) = (cr_store demo_relay, Inr ?r)" if "t \<le> 300" for t
    using that by (simp add: get_def demo_relay_def dict_get_def expire_if_needed_def is_expired_def new_request_def
        Let_def demo_args_def)
  have e: "ensure_actionable (at_time 2) True ?r st = (st, Inr ())" for st
    by (simp add: ensure_actionable_def is_expired_def new_request_def Let_def demo_args_def py_return_def)
  let ?q = "?r\<lparr>rq_status := ''challenge_completed'', completed_by_user := True, bypassed := False,
      rq_used := one_time_use ?r\<rparr>"
  have "mark_challenge_completed (at_time 2) (lit ''req_1'') (cr_store demo_relay) =
      update (at_time 2) ?q (cr_store demo_relay)"
    by (simp add: mark_challenge_completed_def py_bind_def g e)
  then obtain s q where m: "mark_challenge_completed (at_time 2) (lit ''req_1'') (cr_store demo_relay) = (s, Inr q)"
    using update_shape [of "cr_store demo_relay" "at_time 2" ?q] by metis
  have "answer_of demo_env (at_time 1) (lit ''req_1'') demo_relay = (demo_relay, Inr demo_answer)"
    by (simp add: answer_of_def demo_relay_def dict_get_def)
  moreover have "injectable demo_answer \<noteq> []"
    by (simp add: injectable_def demo_answer_def field_of_def dict_get_def lit_def)
  ultimately show ?thesis
    by (simp add: inject_response_if_applicable_def py_bind_def on_requests_def g m Let_def)
qed


end
