(* ===== verification/Pairing.thy ===== *)
theory Pairing
  imports Py_Prelude
begin

text \<open>
  \<open>omni_control/pairing.py\<close>: pairing codes with a lifetime and a bounded number of uses.  The
  state is the content of the state file by pairing id; entries written by an older version may lack
  the hash, the counter or the limit, which \<open>_load\<close> supplies.  The hash of a text,
  \<open>sha256\<close> in hexadecimal, is the parameter \<open>S\<close>; the random numbers \<open>secrets\<close>
  provides and the id of a new pairing are arguments.
\<close>

section \<open>Codes\<close>

definition DEFAULT_PAIRING_MAX_USES :: int where
  "DEFAULT_PAIRING_MAX_USES = 10"

definition pad_left :: "nat \<Rightarrow> uchar \<Rightarrow> ustring \<Rightarrow> ustring" where
  "pad_left n x s = replicate (n - length s) x @ s"

definition generate_pairing_code :: "nat \<Rightarrow> ustring" where
  "generate_pairing_code random = pad_left 6 48 (nat_decimal random)"

definition normalize_pairing_code :: "py_runtime \<Rightarrow> ustring \<Rightarrow> ustring" where
  "normalize_pairing_code U code =
     (let txt = py_strip U code;
          digits = filter (py_isdigit U) txt in
      if txt = [] then []
      else if length digits = 6 \<and> list_all (\<lambda>x. py_isdigit U x \<or> py_is_space U x \<or> x = 45) txt
      then digits
      else txt)"

definition pairing_code_hash :: "py_runtime \<Rightarrow> (ustring \<Rightarrow> ustring) \<Rightarrow> ustring \<Rightarrow> ustring" where
  "pairing_code_hash U S code = S (lit ''omnidoer-pairing-v1:'' @ normalize_pairing_code U code)"

section \<open>Pairings\<close>

record pairing_code =
  pairing_id :: ustring
  code_hash :: ustring
  pc_public_url :: ustring
  broker_fingerprint :: ustring
  web_broker_fingerprint :: ustring
  pc_expires_at :: real
  pc_code :: ustring
  pc_used :: bool
  use_count :: int
  max_uses :: int
  pc_created_at :: real

text \<open>An entry of the state file.\<close>

record raw_pairing =
  raw_id :: ustring
  raw_code_hash :: "ustring option"
  raw_public_url :: ustring
  raw_broker_fingerprint :: ustring
  raw_web_broker_fingerprint :: ustring
  raw_expires_at :: real
  raw_code :: ustring
  raw_used :: bool
  raw_use_count :: "int option"
  raw_max_uses :: "int option"
  raw_created_at :: real

type_synonym pairing_file = "(ustring \<times> raw_pairing) list"
type_synonym pairings = "(ustring \<times> pairing_code) list"

definition pairing_expired :: "pairing_code \<Rightarrow> real \<Rightarrow> bool" where
  "pairing_expired p now = (pc_expires_at p < now)"

text \<open>An entry that has neither a hash nor a code cannot be read.\<close>

definition load_pairing ::
  "py_runtime \<Rightarrow> (ustring \<Rightarrow> ustring) \<Rightarrow> raw_pairing \<Rightarrow> py_error + pairing_code" where
  "load_pairing U S v =
     (let hash = (if raw_code_hash v = None \<and> raw_code v \<noteq> []
                  then Some (pairing_code_hash U S (raw_code v)) else raw_code_hash v);
          limit = (case raw_max_uses v of None \<Rightarrow> DEFAULT_PAIRING_MAX_USES | Some n \<Rightarrow> n);
          uses = (case raw_use_count v of None \<Rightarrow> if raw_used v then 1 else 0 | Some n \<Rightarrow> n) in
      case hash of
        None \<Rightarrow> Inl Type_Error
      | Some h \<Rightarrow> Inr
          \<lparr>pairing_id = raw_id v, code_hash = h, pc_public_url = raw_public_url v,
           broker_fingerprint = raw_broker_fingerprint v,
           web_broker_fingerprint = raw_web_broker_fingerprint v,
           pc_expires_at = raw_expires_at v, pc_code = [],
           pc_used = (if limit = 0 then 1 \<le> uses else limit \<le> uses),
           use_count = uses, max_uses = limit, pc_created_at = raw_created_at v\<rparr>)"

definition save_pairing :: "pairing_code \<Rightarrow> raw_pairing" where
  "save_pairing p =
     \<lparr>raw_id = pairing_id p, raw_code_hash = Some (code_hash p), raw_public_url = pc_public_url p,
      raw_broker_fingerprint = broker_fingerprint p,
      raw_web_broker_fingerprint = web_broker_fingerprint p, raw_expires_at = pc_expires_at p,
      raw_code = [], raw_used = pc_used p, raw_use_count = Some (use_count p),
      raw_max_uses = Some (max_uses p), raw_created_at = pc_created_at p\<rparr>"

definition load_pairings ::
  "py_runtime \<Rightarrow> (ustring \<Rightarrow> ustring) \<Rightarrow> (pairing_file, pairings) py_op" where
  "load_pairings U S st =
     (st, collect_results (\<lambda>(k, v). and_then (load_pairing U S v) (\<lambda>p. Inr (k, p))) st)"

definition save_pairings :: "pairings \<Rightarrow> (pairing_file, unit) py_op" where
  "save_pairings ps st = (map (\<lambda>(k, p). (k, save_pairing p)) ps, Inr ())"

section \<open>Operations\<close>

text \<open>The first of the drawn codes whose hash no active pairing has.\<close>

fun pick_code ::
  "py_runtime \<Rightarrow> (ustring \<Rightarrow> ustring) \<Rightarrow> ustring list \<Rightarrow> nat list \<Rightarrow> ustring option" where
  "pick_code U S active [] = None"
| "pick_code U S active (n # draws) =
     (let code = generate_pairing_code n in
      if pairing_code_hash U S code \<notin> set active then Some code
      else pick_code U S active draws)"

definition pairing_create ::
  "py_runtime \<Rightarrow> (ustring \<Rightarrow> ustring) \<Rightarrow> real \<Rightarrow> nat list \<Rightarrow> ustring \<Rightarrow> ustring \<Rightarrow> ustring \<Rightarrow> ustring \<Rightarrow>
     int \<Rightarrow> int \<Rightarrow> (pairing_file, pairing_code) py_op" where
  "pairing_create U S now draws pid fp web_fp public_url ttl_seconds uses =
     py_bind (load_pairings U S) (\<lambda>ps.
       let active = map code_hash (filter (\<lambda>p. \<not> pc_used p \<and> \<not> pairing_expired p now) (map snd ps)) in
       case pick_code U S active (take 20 draws) of
         None \<Rightarrow> py_raise (Runtime_Error (lit ''could not generate a unique pairing code''))
       | Some code \<Rightarrow>
           let p = \<lparr>pairing_id = pid, code_hash = pairing_code_hash U S code,
                 pc_public_url = py_rstrip_char 47 public_url, broker_fingerprint = fp,
                 web_broker_fingerprint = web_fp, pc_expires_at = now + real_of_int ttl_seconds,
                 pc_code = code, pc_used = False, use_count = 0, max_uses = max 1 uses,
                 pc_created_at = now\<rparr> in
           py_bind (save_pairings (dict_put pid p ps)) (\<lambda>_. py_return p))"

definition pairing_consume ::
  "py_runtime \<Rightarrow> (ustring \<Rightarrow> ustring) \<Rightarrow> real \<Rightarrow> ustring \<Rightarrow> (pairing_file, pairing_code) py_op" where
  "pairing_consume U S now code =
     py_bind (load_pairings U S) (\<lambda>ps.
       case find (\<lambda>p. code_hash p = pairing_code_hash U S code) (map snd ps) of
         None \<Rightarrow> py_raise (Value_Error (lit ''invalid pairing code''))
       | Some p \<Rightarrow>
           if max_uses p \<le> use_count p
           then py_raise (Value_Error (lit ''pairing code already used''))
           else if pairing_expired p now
           then py_raise (Value_Error (lit ''pairing code expired''))
           else
             let p' = p\<lparr>use_count := use_count p + 1, pc_used := max_uses p \<le> use_count p + 1\<rparr> in
             py_bind (save_pairings (dict_put (pairing_id p') p' ps)) (\<lambda>_. py_return p'))"

definition pairing_get ::
  "py_runtime \<Rightarrow> (ustring \<Rightarrow> ustring) \<Rightarrow> real \<Rightarrow> ustring \<Rightarrow> (pairing_file, pairing_code) py_op" where
  "pairing_get U S now pid =
     py_bind (load_pairings U S) (\<lambda>ps.
       case dict_get ps pid of
         None \<Rightarrow> py_raise (Key_Error (lit ''pairing not found: '' @ pid))
       | Some p \<Rightarrow>
           if pairing_expired p now \<and> \<not> pc_used p
           then let p' = p\<lparr>pc_used := True\<rparr> in
             py_bind (save_pairings (dict_put (pairing_id p') p' ps)) (\<lambda>_. py_return p')
           else py_return p)"

definition pairing_list ::
  "py_runtime \<Rightarrow> (ustring \<Rightarrow> ustring) \<Rightarrow> (pairing_file, pairing_code list) py_op" where
  "pairing_list U S =
     py_bind (load_pairings U S) (\<lambda>ps. py_return (sort_key pc_created_at (map snd ps)))"

definition pairing_url :: "pairing_code \<Rightarrow> ustring" where
  "pairing_url p = pc_public_url p @ lit ''/pair?code='' @ pc_code p @ lit ''&pairing_id='' @ pairing_id p"

section \<open>The state file\<close>

text \<open>A file this version has written: complete entries under their id, with a counter within its
  limit.\<close>

definition entry_ok :: "ustring \<Rightarrow> raw_pairing \<Rightarrow> bool" where
  "entry_ok k v =
     (raw_id v = k \<and> raw_code_hash v \<noteq> None \<and>
      (case (raw_use_count v, raw_max_uses v) of
         (Some c, Some m) \<Rightarrow> 0 \<le> c \<and> c \<le> m \<and> 1 \<le> m | _ \<Rightarrow> False))"

definition file_ok :: "pairing_file \<Rightarrow> bool" where
  "file_ok st = (dict_ok st \<and> list_all (\<lambda>(k, v). entry_ok k v) st)"

definition unraw :: "raw_pairing \<Rightarrow> pairing_code" where
  "unraw v =
     \<lparr>pairing_id = raw_id v, code_hash = the (raw_code_hash v), pc_public_url = raw_public_url v,
      broker_fingerprint = raw_broker_fingerprint v,
      web_broker_fingerprint = raw_web_broker_fingerprint v, pc_expires_at = raw_expires_at v,
      pc_code = [], pc_used = (the (raw_max_uses v) \<le> the (raw_use_count v)),
      use_count = the (raw_use_count v), max_uses = the (raw_max_uses v),
      pc_created_at = raw_created_at v\<rparr>"

abbreviation loaded :: "pairing_file \<Rightarrow> pairings" where
  "loaded st \<equiv> map (\<lambda>(k, v). (k, unraw v)) st"

abbreviation saved :: "pairings \<Rightarrow> pairing_file" where
  "saved ps \<equiv> map (\<lambda>(k, p). (k, save_pairing p)) ps"

definition pairing_ok :: "ustring \<Rightarrow> pairing_code \<Rightarrow> bool" where
  "pairing_ok k p = (pairing_id p = k \<and> 0 \<le> use_count p \<and> use_count p \<le> max_uses p \<and> 1 \<le> max_uses p)"

lemma unraw_simps [simp]:
  "use_count (unraw v) = the (raw_use_count v)" "max_uses (unraw v) = the (raw_max_uses v)"
  "pairing_id (unraw v) = raw_id v"
  by (simp_all add: unraw_def)

lemma unraw_ok: "entry_ok k v \<Longrightarrow> pairing_ok k (unraw v)"
  by (auto simp: entry_ok_def pairing_ok_def split: option.splits)

lemma load_pairing_ok: "entry_ok k v \<Longrightarrow> load_pairing U S v = Inr (unraw v)"
  by (auto simp: entry_ok_def load_pairing_def unraw_def Let_def split: option.splits)

lemma load_pairings_ok:
  assumes "file_ok st"
  shows "load_pairings U S st = (st, Inr (loaded st))"
proof -
  have "list_all (\<lambda>(k, v). entry_ok k v) st" using assms by (simp add: file_ok_def)
  then have "collect_results (\<lambda>(k, v). and_then (load_pairing U S v) (\<lambda>p. Inr (k, p))) st = Inr (loaded st)"
    by (induction st) (auto simp: load_pairing_ok and_then_def)
  then show ?thesis by (simp add: load_pairings_def)
qed

lemma loaded_get: "dict_get (loaded st) k = map_option unraw (dict_get st k)"
  using dict_map_get [of "\<lambda>_. unraw" st k] by simp

lemma saved_get: "dict_get (saved ps) k = map_option save_pairing (dict_get ps k)"
  using dict_map_get [of "\<lambda>_. save_pairing" ps k] by simp

lemma file_ok_get: "file_ok st \<Longrightarrow> dict_get st k = Some v \<Longrightarrow> entry_ok k v"
  by (auto simp: file_ok_def dict_get_in list_all_iff)

lemma loaded_dict_ok: "file_ok st \<Longrightarrow> dict_ok (loaded st)"
  using dict_map_ok [of "\<lambda>_. unraw" st] by (simp add: file_ok_def)

lemma loaded_pairing_ok: "file_ok st \<Longrightarrow> dict_get (loaded st) k = Some p \<Longrightarrow> pairing_ok k p"
  by (auto simp: loaded_get intro: unraw_ok file_ok_get)

lemma saved_ok:
  assumes "dict_ok ps" "list_all (\<lambda>(k, p). pairing_ok k p) ps"
  shows "file_ok (saved ps)"
  using assms dict_map_ok [of "\<lambda>_. save_pairing" ps]
  by (auto simp: file_ok_def list_all_iff entry_ok_def pairing_ok_def save_pairing_def)

lemma put_pairing_ok:
  assumes "file_ok st" "pairing_ok k p"
  shows "file_ok (saved (dict_put k p (loaded st)))"
  using loaded_dict_ok [OF assms(1)] loaded_pairing_ok [OF assms(1)] assms(2)
  by (intro saved_ok pyd.all_entries_put dict_put_ok) (simp_all add: pyd.all_entries)

text \<open>What the file says about the uses of a pairing.\<close>

definition uses_of :: "ustring \<Rightarrow> pairing_file \<Rightarrow> (int \<times> int) option" where
  "uses_of k st = map_option (\<lambda>v. (the (raw_use_count v), the (raw_max_uses v))) (dict_get st k)"

lemma uses_of_saved:
  assumes "file_ok st"
  shows "uses_of k (saved (dict_put j p (loaded st))) =
    (if k = j then Some (use_count p, max_uses p) else uses_of k st)"
  unfolding uses_of_def saved_get dict_put_get [OF loaded_dict_ok [OF assms]] loaded_get
  by (simp add: option.map_comp comp_def save_pairing_def)

lemma uses_of_loaded:
  "dict_get (loaded st) k = Some p \<Longrightarrow> uses_of k st = Some (use_count p, max_uses p)"
  by (auto simp: loaded_get uses_of_def)

lemma uses_of_bound: "file_ok st \<Longrightarrow> uses_of k st = Some (c, m) \<Longrightarrow> 0 \<le> c \<and> c \<le> m"
  using file_ok_get [of st k] by (auto simp: uses_of_def entry_ok_def split: option.splits)

section \<open>Every operation keeps the counters\<close>

lemma pairing_get_keeps:
  assumes "file_ok st"
  shows "file_ok (fst (pairing_get U S now pid st)) \<and>
    uses_of k (fst (pairing_get U S now pid st)) = uses_of k st"
proof (cases "dict_get (loaded st) pid")
  case (Some p)
  then have p: "pairing_ok pid p" "uses_of pid st = Some (use_count p, max_uses p)"
    using loaded_pairing_ok [OF assms] uses_of_loaded by blast+
  have "file_ok (saved (dict_put pid (p\<lparr>pc_used := True\<rparr>) (loaded st)))"
    using p(1) by (intro put_pairing_ok [OF assms]) (simp add: pairing_ok_def)
  then show ?thesis
    using assms p Some
    by (auto simp: pairing_get_def py_bind_def load_pairings_ok save_pairings_def py_return_def
        uses_of_saved pairing_ok_def Let_def)
qed (simp add: assms pairing_get_def py_bind_def load_pairings_ok py_raise_def)

lemma pairing_create_keeps:
  assumes "file_ok st" "k \<noteq> pid"
  shows "file_ok (fst (pairing_create U S now draws pid fp web_fp url ttl n st)) \<and>
    uses_of k (fst (pairing_create U S now draws pid fp web_fp url ttl n st)) = uses_of k st"
  using assms
  by (auto simp: pairing_create_def py_bind_def load_pairings_ok save_pairings_def py_return_def
      py_raise_def Let_def uses_of_saved intro!: put_pairing_ok split: option.split)
    (simp add: pairing_ok_def)

text \<open>A consumption either fails and changes nothing, or uses up one use of the pairing it returns,
  which has not expired.\<close>

lemma pairing_consume_cases:
  assumes "file_ok st"
  obtains (fails) e where "pairing_consume U S now code st = (st, Inl e)"
  | (uses) st' p c where "pairing_consume U S now code st = (st', Inr p)" "file_ok st'"
      "code_hash p = pairing_code_hash U S code" "now \<le> pc_expires_at p"
      "uses_of (pairing_id p) st = Some (c, max_uses p)" "c < max_uses p"
      "\<And>k. uses_of k st' = (if k = pairing_id p then Some (c + 1, max_uses p) else uses_of k st)"
proof (cases "find (\<lambda>p. code_hash p = pairing_code_hash U S code) (map snd (loaded st))")
  case None
  then show ?thesis
    using fails assms
    by (simp add: pairing_consume_def py_bind_def load_pairings_ok py_raise_def)
next
  case (Some p)
  then have "p \<in> snd ` set (loaded st)" and h: "code_hash p = pairing_code_hash U S code"
    unfolding find_Some_iff set_map [symmetric] by (auto simp only: nth_mem)
  then obtain x where "x \<in> set (loaded st)" "p = snd x" by (elim imageE)
  then have k: "dict_get (loaded st) (fst x) = Some p"
    by (simp only: dict_get_in [OF loaded_dict_ok [OF assms]] prod.collapse)
  define k where "k = fst x"
  note k = k [folded k_def]
  have p: "pairing_ok k p" "uses_of k st = Some (use_count p, max_uses p)"
    using loaded_pairing_ok [OF assms k] uses_of_loaded [OF k] by simp_all
  let ?p = "p\<lparr>use_count := use_count p + 1, pc_used := max_uses p \<le> use_count p + 1\<rparr>"
  show ?thesis
  proof (cases "max_uses p \<le> use_count p \<or> pairing_expired p now")
    case True
    then have "\<exists>e. pairing_consume U S now code st = (st, Inl e)"
      using Some assms
      by (cases "max_uses p \<le> use_count p")
        (simp_all add: pairing_consume_def py_bind_def load_pairings_ok py_raise_def)
    then show ?thesis using fails by blast
  next
    case False
    then have "pairing_consume U S now code st = (saved (dict_put k ?p (loaded st)), Inr ?p)"
      using Some assms p(1)
      by (simp add: pairing_consume_def py_bind_def load_pairings_ok save_pairings_def py_return_def
          Let_def pairing_ok_def)
    moreover have "file_ok (saved (dict_put k ?p (loaded st)))"
      using False p(1) by (intro put_pairing_ok [OF assms]) (auto simp: pairing_ok_def)
    ultimately show ?thesis
      using False p h uses_of_saved [OF assms, of _ k ?p]
      by (intro uses [of _ ?p "use_count p"]) (auto simp: pairing_ok_def pairing_expired_def)
  qed
qed

section \<open>A pairing is used no more often than allowed\<close>

datatype pairing_call =
    Pairing_Create real "nat list" ustring ustring ustring ustring int int
  | Pairing_Consume real ustring
  | Pairing_Get real ustring

fun do_pairing ::
  "py_runtime \<Rightarrow> (ustring \<Rightarrow> ustring) \<Rightarrow> pairing_call \<Rightarrow> (pairing_file, pairing_code) py_op" where
  "do_pairing U S (Pairing_Create now draws pid fp web_fp url ttl n) =
     pairing_create U S now draws pid fp web_fp url ttl n"
| "do_pairing U S (Pairing_Consume now code) = pairing_consume U S now code"
| "do_pairing U S (Pairing_Get now pid) = pairing_get U S now pid"

fun creates_pairing :: "pairing_call \<Rightarrow> ustring option" where
  "creates_pairing (Pairing_Create now draws pid fp web_fp url ttl n) = Some pid"
| "creates_pairing _ = None"

text \<open>Whether the call has used up one use of the given pairing.\<close>

fun uses_pairing :: "ustring \<Rightarrow> pairing_call \<Rightarrow> py_error + pairing_code \<Rightarrow> bool" where
  "uses_pairing pid (Pairing_Consume now code) (Inr p) = (pairing_id p = pid)"
| "uses_pairing pid _ _ = False"

fun count_uses ::
  "py_runtime \<Rightarrow> (ustring \<Rightarrow> ustring) \<Rightarrow> ustring \<Rightarrow> pairing_call list \<Rightarrow> pairing_file \<Rightarrow> nat" where
  "count_uses U S pid [] st = 0"
| "count_uses U S pid (call # calls) st =
     (case do_pairing U S call st of (st', res) \<Rightarrow>
        (if uses_pairing pid call res then 1 else 0) + count_uses U S pid calls st')"

lemma do_pairing_step:
  assumes "file_ok st" "uses_of pid st = Some (c, m)" "creates_pairing call \<noteq> Some pid"
    "do_pairing U S call st = (st', res)"
  shows "file_ok st' \<and> uses_of pid st' = Some (c + (if uses_pairing pid call res then 1 else 0), m)"
proof (cases call)
  case (Pairing_Create now draws k fp web_fp url ttl n)
  then show ?thesis
    using assms pairing_create_keeps [OF assms(1), of pid k U S now draws fp web_fp url ttl n] by simp
next
  case (Pairing_Get now k)
  then show ?thesis using assms pairing_get_keeps [OF assms(1), of U S now k pid] by simp
next
  case (Pairing_Consume now code)
  then show ?thesis
    using assms by (cases rule: pairing_consume_cases [OF assms(1), of U S now code]) auto
qed

lemma count_uses_bound:
  "file_ok st \<Longrightarrow> uses_of pid st = Some (c, m) \<Longrightarrow>
   list_all (\<lambda>call. creates_pairing call \<noteq> Some pid) calls \<Longrightarrow>
     int (count_uses U S pid calls st) \<le> m - c"
proof (induction calls arbitrary: st c)
  case Nil
  then show ?case using uses_of_bound by fastforce
next
  case (Cons call calls)
  obtain st' res where d: "do_pairing U S call st = (st', res)" by (cases "do_pairing U S call st")
  have "file_ok st' \<and> uses_of pid st' = Some (c + (if uses_pairing pid call res then 1 else 0), m)"
    using Cons.prems by (intro do_pairing_step [OF _ _ _ d]) auto
  then have "int (count_uses U S pid calls st') \<le> m - (c + (if uses_pairing pid call res then 1 else 0))"
    using Cons.prems(3) by (intro Cons.IH) auto
  then show ?case by (simp add: d split: if_splits)
qed

text \<open>C34.  A pairing code is used no more often than its limit allows: in every sequence of calls, the
  number of successful consumptions of a pairing is at most what is left of its limit.\<close>

theorem pairing_uses_bounded:
  assumes "file_ok st" "uses_of pid st = Some (c, m)"
    "list_all (\<lambda>call. creates_pairing call \<noteq> Some pid) calls"
  shows "int (count_uses U S pid calls st) \<le> m - c"
  using assms by (rule count_uses_bound)

definition demo_pairing :: "ustring \<Rightarrow> real \<Rightarrow> raw_pairing" where
  "demo_pairing pid expires =
     \<lparr>raw_id = pid, raw_code_hash = Some (lit ''omnidoer-pairing-v1:000042''), raw_public_url = [],
      raw_broker_fingerprint = [], raw_web_broker_fingerprint = [], raw_expires_at = expires,
      raw_code = [], raw_used = False, raw_use_count = Some 0, raw_max_uses = Some 1,
      raw_created_at = 0\<rparr>"

lemma demo_code_hash:
  "pairing_code_hash U id (generate_pairing_code 42) = lit ''omnidoer-pairing-v1:000042''"
  by code_simp

theorem pairing_uses_bounded_witness:
  "int (count_uses ascii_runtime id (lit ''pair_a'')
     [Pairing_Consume 1 (lit ''000042''), Pairing_Consume 2 (lit ''000042'')]
     [(lit ''pair_a'', demo_pairing (lit ''pair_a'') 300)]) \<le> 1 - 0"
  by (rule pairing_uses_bounded)
    (simp_all add: file_ok_def entry_ok_def demo_pairing_def uses_of_def dict_get_def dict_ok_def)

section \<open>Stale pairings\<close>

text \<open>A pairing that has expired is never removed and is found before a newer one with the same code,
  because the code of a new pairing is only compared with active ones: the new pairing cannot be used.\<close>

theorem stale_pairing_shadows:
  assumes "file_ok [(old_id, old)]" "old_id < new_id" "raw_expires_at old < now"
    "raw_code_hash old = Some (pairing_code_hash U S (generate_pairing_code n))"
    "the (raw_use_count old) < the (raw_max_uses old)"
  shows "\<exists>st' p. pairing_create U S now (n # draws) new_id fp web_fp url ttl uses [(old_id, old)] = (st', Inr p) \<and>
    pc_code p = generate_pairing_code n \<and>
    pairing_consume U S now (pc_code p) st' = (st', Inl (Value_Error (lit ''pairing code expired'')))"
proof -
  let ?code = "generate_pairing_code n"
  let ?h = "pairing_code_hash U S ?code"
  have l: "loaded [(old_id, old)] = [(old_id, unraw old)]" by simp
  have old: "code_hash (unraw old) = ?h" "pc_expires_at (unraw old) = raw_expires_at old"
    using assms(4) by (simp_all add: unraw_def)
  define p where "p = \<lparr>pairing_id = new_id, code_hash = ?h, pc_public_url = py_rstrip_char 47 url,
    broker_fingerprint = fp, web_broker_fingerprint = web_fp, pc_expires_at = now + real_of_int ttl,
    pc_code = ?code, pc_used = False, use_count = 0, max_uses = max 1 uses, pc_created_at = now\<rparr>"
  let ?st = "saved (dict_put new_id p [(old_id, unraw old)])"
  have ids: "\<not> new_id < old_id" "new_id \<noteq> old_id" using assms(2) by auto
  have "map code_hash (filter (\<lambda>p. \<not> pc_used p \<and> \<not> pairing_expired p now) (map snd [(old_id, unraw old)])) = []"
    using assms(3) by (simp add: pairing_expired_def old)
  then have create: "pairing_create U S now (n # draws) new_id fp web_fp url ttl uses [(old_id, old)] = (?st, Inr p)"
    unfolding pairing_create_def py_bind_def load_pairings_ok [OF assms(1)] l
    by (simp only: prod.case sum.case Let_def)
      (simp add: Let_def save_pairings_def py_return_def p_def ids)
  have ok: "file_ok ?st"
    using put_pairing_ok [OF assms(1), of new_id p] by (simp add: pairing_ok_def p_def)
  have st: "?st = [(old_id, save_pairing (unraw old)), (new_id, save_pairing p)]"
    using ids by simp
  have "pairing_consume U S now ?code ?st = (?st, Inl (Value_Error (lit ''pairing code expired'')))"
  proof -
    have "unraw (save_pairing (unraw old)) = unraw old"
      by (simp add: unraw_def save_pairing_def)
    then have "find (\<lambda>p. code_hash p = ?h) (map snd (loaded ?st)) = Some (unraw old)"
      by (simp add: st old ids)
    then show ?thesis
      using assms(3,5) unfolding pairing_consume_def py_bind_def load_pairings_ok [OF ok]
      by (simp only: prod.case sum.case option.case) (simp add: py_raise_def pairing_expired_def old)
  qed
  then show ?thesis using create by (simp add: p_def)
qed

theorem stale_pairing_shadows_witness:
  "\<exists>st' p. pairing_create ascii_runtime id 1000 (42 # []) (lit ''pair_b'') [] [] [] 600 10
      [(lit ''pair_a'', demo_pairing (lit ''pair_a'') 300)] = (st', Inr p) \<and>
    pc_code p = generate_pairing_code 42 \<and>
    pairing_consume ascii_runtime id 1000 (pc_code p) st' =
      (st', Inl (Value_Error (lit ''pairing code expired'')))"
proof (rule stale_pairing_shadows)
  show "lit ''pair_a'' < lit ''pair_b''" by code_simp
qed (simp_all add: file_ok_def entry_ok_def demo_pairing_def dict_ok_def demo_code_hash)

end
