(* ===== verification/Control_Sessions.thy ===== *)
theory Control_Sessions
  imports Pairing
begin

text \<open>
  \<open>omni_control/devices.py\<close>, \<open>sessions.py\<close>, \<open>device_signing.py\<close> and \<open>auth.py\<close>: the
  paired devices, their sessions, the nonces of signed requests, and the authentication of a
  request.  Each store is the content of its state file by id.

  Parameters are what the code takes from outside: \<open>S\<close>, the hexadecimal \<open>sha256\<close> of a
  text; \<open>load_key\<close>, the parser of public keys; \<open>verify\<close>, the ECDSA check of a signature
  against a public key and a message; \<open>upper\<close>, the upper case form of a method name; and
  \<open>float_of\<close>, the reading of a number, which may be the float that is not a number.
\<close>

section \<open>Devices\<close>

record device =
  dv_id :: ustring
  dv_name :: ustring
  public_key :: ustring
  dv_fingerprint :: ustring
  dv_revoked :: bool
  dv_created_at :: real
  dv_last_seen_at :: "real option"

type_synonym devices = "(ustring \<times> device) list"

text \<open>Pairs of hexadecimal digits, separated by colons.\<close>

fun byte_pairs :: "ustring \<Rightarrow> ustring list" where
  "byte_pairs [] = []"
| "byte_pairs [x] = [[x]]"
| "byte_pairs (x # y # xs) = [x, y] # byte_pairs xs"

definition device_register ::
  "py_runtime \<Rightarrow> (ustring \<Rightarrow> ustring) \<Rightarrow> real \<Rightarrow> ustring \<Rightarrow> ustring \<Rightarrow> ustring \<Rightarrow> (devices, device) py_op" where
  "device_register U S now did name key st =
     (let stripped = py_strip U name;
          d = \<lparr>dv_id = did, dv_name = (if stripped = [] then lit ''Control Client'' else stripped),
               public_key = key, dv_fingerprint = join (lit '':'') (byte_pairs (take 32 (S key))),
               dv_revoked = False, dv_created_at = now, dv_last_seen_at = None\<rparr> in
      (dict_put did d st, Inr d))"

definition device_get :: "ustring \<Rightarrow> (devices, device) py_op" where
  "device_get did st =
     (case dict_get st did of
        None \<Rightarrow> (st, Inl (Key_Error (lit ''device not found: '' @ did)))
      | Some d \<Rightarrow> (st, Inr d))"

definition device_list :: "(devices, device list) py_op" where
  "device_list st = (st, Inr (sort_key dv_created_at (map snd st)))"

definition device_revoke :: "ustring \<Rightarrow> (devices, device) py_op" where
  "device_revoke did st =
     (case dict_get st did of
        None \<Rightarrow> (st, Inl (Key_Error did))
      | Some d \<Rightarrow> (dict_put did (d\<lparr>dv_revoked := True\<rparr>) st, Inr (d\<lparr>dv_revoked := True\<rparr>)))"

definition device_touch :: "real \<Rightarrow> ustring \<Rightarrow> (devices, device) py_op" where
  "device_touch now did st =
     (case dict_get st did of
        None \<Rightarrow> (st, Inl (Key_Error did))
      | Some d \<Rightarrow>
          if dv_revoked d then (st, Inl (Permission_Error (lit ''device revoked'')))
          else (dict_put did (d\<lparr>dv_last_seen_at := Some now\<rparr>) st, Inr (d\<lparr>dv_last_seen_at := Some now\<rparr>)))"

section \<open>Sessions\<close>

definition CONTROL_SESSION_TTL_SECONDS :: real where
  "CONTROL_SESSION_TTL_SECONDS = 10 * 365 * 24 * 60 * 60"

definition CONTROL_SESSION_REFRESH_WINDOW_SECONDS :: real where
  "CONTROL_SESSION_REFRESH_WINDOW_SECONDS = 365 * 24 * 60 * 60"

record control_session =
  ss_id :: ustring
  ss_device_id :: ustring
  token_hash :: ustring
  csrf_token :: ustring
  ss_expires_at :: real
  ss_revoked :: bool
  ss_created_at :: real
  ss_last_seen_at :: "real option"

type_synonym sessions = "(ustring \<times> control_session) list"

definition session_expired :: "control_session \<Rightarrow> real \<Rightarrow> bool" where
  "session_expired s now = (ss_expires_at s < now)"

definition hash_session_token :: "(ustring \<Rightarrow> ustring) \<Rightarrow> ustring \<Rightarrow> ustring" where
  "hash_session_token S token = S token"

definition session_create ::
  "(ustring \<Rightarrow> ustring) \<Rightarrow> real \<Rightarrow> ustring \<Rightarrow> ustring \<Rightarrow> ustring \<Rightarrow> ustring \<Rightarrow> real \<Rightarrow>
     (sessions, control_session \<times> ustring) py_op" where
  "session_create S now sid token csrf did ttl_seconds st =
     (let s = \<lparr>ss_id = sid, ss_device_id = did, token_hash = hash_session_token S token,
               csrf_token = csrf, ss_expires_at = now + ttl_seconds, ss_revoked = False,
               ss_created_at = now, ss_last_seen_at = None\<rparr> in
      (dict_put sid s st, Inr (s, token)))"

definition session_get :: "ustring \<Rightarrow> (sessions, control_session) py_op" where
  "session_get sid st =
     (case dict_get st sid of
        None \<Rightarrow> (st, Inl (Permission_Error (lit ''session not found'')))
      | Some s \<Rightarrow> (st, Inr s))"

definition session_list :: "(sessions, control_session list) py_op" where
  "session_list st = (st, Inr (sort_key ss_created_at (map snd st)))"

text \<open>What \<open>touch\<close> and \<open>authenticate\<close> write: a session that is used in the last year of its
  life gets a new one.\<close>

definition seen :: "real \<Rightarrow> control_session \<Rightarrow> control_session" where
  "seen now s =
     (let s' = s\<lparr>ss_last_seen_at := Some now\<rparr> in
      if ss_expires_at s' < now + CONTROL_SESSION_REFRESH_WINDOW_SECONDS
      then s'\<lparr>ss_expires_at := now + CONTROL_SESSION_TTL_SECONDS\<rparr> else s')"

definition session_touch :: "real \<Rightarrow> real \<Rightarrow> ustring \<Rightarrow> (sessions, control_session) py_op" where
  "session_touch check now sid st =
     (case dict_get st sid of
        None \<Rightarrow> (st, Inl (Permission_Error (lit ''session not found'')))
      | Some s \<Rightarrow>
          if ss_revoked s \<or> session_expired s check
          then (st, Inl (Permission_Error (lit ''session expired or revoked'')))
          else (dict_put (ss_id s) (seen now s) st, Inr (seen now s)))"

definition session_revoke :: "ustring \<Rightarrow> (sessions, control_session) py_op" where
  "session_revoke sid st =
     (case dict_get st sid of
        None \<Rightarrow> (st, Inl (Key_Error sid))
      | Some s \<Rightarrow> (dict_put sid (s\<lparr>ss_revoked := True\<rparr>) st, Inr (s\<lparr>ss_revoked := True\<rparr>)))"

definition revoke_for_device :: "ustring \<Rightarrow> (sessions, control_session list) py_op" where
  "revoke_for_device did st =
     (let hit = (\<lambda>s. ss_device_id s = did \<and> \<not> ss_revoked s) in
      (map (\<lambda>(k, s). (k, if hit s then s\<lparr>ss_revoked := True\<rparr> else s)) st,
       Inr (map (\<lambda>s. s\<lparr>ss_revoked := True\<rparr>) (filter hit (map snd st)))))"

definition session_authenticate ::
  "(ustring \<Rightarrow> ustring) \<Rightarrow> real \<Rightarrow> real \<Rightarrow> ustring \<Rightarrow> ustring \<Rightarrow> (sessions, control_session) py_op" where
  "session_authenticate S check now sid token st =
     (case dict_get st sid of
        None \<Rightarrow> (st, Inl (Permission_Error (lit ''session not found'')))
      | Some s \<Rightarrow>
          if ss_revoked s \<or> session_expired s check
          then (st, Inl (Permission_Error (lit ''session expired or revoked'')))
          else if token_hash s \<noteq> hash_session_token S token
          then (st, Inl (Permission_Error (lit ''session token mismatch'')))
          else (dict_put (ss_id s) (seen now s) st, Inr (seen now s)))"

section \<open>Nonces of signed requests\<close>

text \<open>No comparison with the float that is not a number holds, and an infinite timestamp is too far
  from every time.\<close>

type_synonym nonces = "(ustring \<times> real) list"

definition too_far :: "real \<Rightarrow> py_float \<Rightarrow> real \<Rightarrow> bool" where
  "too_far now ts skew =
     (case ts of Finite x \<Rightarrow> skew < \<bar>now - x\<bar> | Infinite \<Rightarrow> True | Not_A_Number \<Rightarrow> False)"

definition nonce_consume ::
  "(ustring \<Rightarrow> py_float option) \<Rightarrow> real \<Rightarrow> real \<Rightarrow> ustring \<Rightarrow> ustring \<Rightarrow> ustring \<Rightarrow> (nonces, unit) py_op" where
  "nonce_consume float_of now skew did nonce timestamp st =
     (case float_of timestamp of
        None \<Rightarrow> (st, Inl (Permission_Error (lit ''invalid device timestamp'')))
      | Some ts \<Rightarrow>
          if too_far now ts skew
          then (st, Inl (Permission_Error (lit ''device signature timestamp outside allowed window'')))
          else
            let key = did @ lit '':'' @ nonce;
                live = filter (\<lambda>(k, expires). now < expires) st in
            if dict_get live key \<noteq> None
            then (st, Inl (Permission_Error (lit ''device signature nonce replayed'')))
            else (dict_put key (now + skew) live, Inr ()))"

definition device_signature_message ::
  "(ustring \<Rightarrow> ustring) \<Rightarrow> ustring \<Rightarrow> ustring \<Rightarrow> ustring \<Rightarrow> ustring \<Rightarrow> ustring \<Rightarrow> ustring \<Rightarrow> ustring" where
  "device_signature_message upper did sid method path timestamp nonce =
     join [newline]
       [lit ''omnidoer-device-v1'', did, sid, upper method, path, timestamp, nonce]"

section \<open>Authentication\<close>

record auth_state =
  au_pairings :: pairing_file
  au_devices :: devices
  au_sessions :: sessions
  au_nonces :: nonces

definition on_pairings :: "(pairing_file, 'a) py_op \<Rightarrow> (auth_state, 'a) py_op" where
  "on_pairings op st = (case op (au_pairings st) of (s, res) \<Rightarrow> (st\<lparr>au_pairings := s\<rparr>, res))"

definition on_devices :: "(devices, 'a) py_op \<Rightarrow> (auth_state, 'a) py_op" where
  "on_devices op st = (case op (au_devices st) of (s, res) \<Rightarrow> (st\<lparr>au_devices := s\<rparr>, res))"

definition on_sessions :: "(sessions, 'a) py_op \<Rightarrow> (auth_state, 'a) py_op" where
  "on_sessions op st = (case op (au_sessions st) of (s, res) \<Rightarrow> (st\<lparr>au_sessions := s\<rparr>, res))"

definition on_nonces :: "(nonces, 'a) py_op \<Rightarrow> (auth_state, 'a) py_op" where
  "on_nonces op st = (case op (au_nonces st) of (s, res) \<Rightarrow> (st\<lparr>au_nonces := s\<rparr>, res))"

text \<open>What a new device and its session take from the random generators.\<close>

record fresh_ids =
  fresh_device :: ustring
  fresh_session :: ustring
  fresh_token :: ustring
  fresh_csrf :: ustring

definition pair_device ::
  "py_runtime \<Rightarrow> (ustring \<Rightarrow> ustring) \<Rightarrow> (ustring \<Rightarrow> py_error option) \<Rightarrow> real \<Rightarrow> fresh_ids \<Rightarrow>
     ustring \<Rightarrow> ustring \<Rightarrow> ustring \<Rightarrow> (auth_state, device \<times> control_session \<times> ustring) py_op" where
  "pair_device U S load_key now ids code device_name device_public_key =
     (case load_key device_public_key of
        Some e \<Rightarrow> py_raise e
      | None \<Rightarrow>
          py_bind (on_pairings (pairing_consume U S now code)) (\<lambda>_.
          py_bind (on_devices (device_register U S now (fresh_device ids) device_name device_public_key)) (\<lambda>d.
          py_bind (on_sessions (session_create S now (fresh_session ids) (fresh_token ids)
            (fresh_csrf ids) (dv_id d) CONTROL_SESSION_TTL_SECONDS)) (\<lambda>(s, token).
          py_return (d, s, token)))))"

definition authenticate_session ::
  "(ustring \<Rightarrow> ustring) \<Rightarrow> real \<Rightarrow> real \<Rightarrow> ustring \<Rightarrow> ustring \<Rightarrow> (auth_state, control_session) py_op" where
  "authenticate_session S check now sid token =
     py_bind (on_sessions (session_authenticate S check now sid token)) (\<lambda>s.
     py_bind (on_devices (device_touch now (ss_device_id s))) (\<lambda>_.
     py_return s))"

record signed_request =
  sr_session_id :: ustring
  sr_session_token :: ustring
  sr_device_id :: ustring
  sr_method :: ustring
  sr_path :: ustring
  sr_timestamp :: ustring
  sr_nonce :: ustring
  sr_signature :: ustring

text \<open>\<open>verify key signature message\<close> is the exception of \<open>verify_ecdsa_signature\<close>, or
  \<open>None\<close> if the signature is accepted.\<close>

definition authenticate_signed_session_request ::
  "(ustring \<Rightarrow> ustring) \<Rightarrow> (ustring \<Rightarrow> ustring) \<Rightarrow> (ustring \<Rightarrow> ustring \<Rightarrow> ustring \<Rightarrow> py_error option) \<Rightarrow>
     (ustring \<Rightarrow> py_float option) \<Rightarrow> real \<Rightarrow> real \<Rightarrow> bool \<Rightarrow> signed_request \<Rightarrow>
     (auth_state, control_session) py_op" where
  "authenticate_signed_session_request S upper verify float_of check now allow_missing q =
     py_bind
       (if sr_session_token q \<noteq> [] then
          authenticate_session S check now (sr_session_id q) (sr_session_token q)
        else if allow_missing then
          py_bind (on_sessions (session_get (sr_session_id q))) (\<lambda>s.
            if ss_revoked s \<or> session_expired s check
            then py_raise (Permission_Error (lit ''session expired or revoked''))
            else py_return s)
        else py_raise (Permission_Error (lit ''session required'')))
       (\<lambda>s.
       if ss_device_id s \<noteq> sr_device_id q
       then py_raise (Permission_Error (lit ''device does not own session''))
       else
         py_bind (on_devices (device_get (sr_device_id q))) (\<lambda>d.
         let message = device_signature_message upper (sr_device_id q) (sr_session_id q)
               (sr_method q) (sr_path q) (sr_timestamp q) (sr_nonce q) in
         case verify (public_key d) (sr_signature q) message of
           Some e \<Rightarrow> py_raise e
         | None \<Rightarrow>
             py_bind (on_nonces (nonce_consume float_of now 300 (sr_device_id q) (sr_nonce q)
               (sr_timestamp q))) (\<lambda>_.
             if sr_session_token q = [] then
               py_bind (on_sessions (session_touch check now (sr_session_id q))) (\<lambda>s.
               py_bind (on_devices (device_touch now (ss_device_id s))) (\<lambda>_.
               py_return s))
             else py_return s)))"

section \<open>Replay of signed requests\<close>

lemma live_ok: "dict_ok st \<Longrightarrow> dict_ok (filter f st)"
  by (simp add: dict_ok_def sorted_filter distinct_map_filter)

lemma live_get:
  "dict_ok st \<Longrightarrow> dict_get (filter (\<lambda>(k, e). now < e) st) k =
     (case dict_get st k of None \<Rightarrow> None | Some e \<Rightarrow> if now < e then Some e else None)"
  unfolding dict_ok_def dict_get_def
  by (induction st) (force simp: map_of_eq_None_iff split: option.splits dest: map_of_SomeD)+

lemma nonce_consume_ok:
  assumes "dict_ok st" "nonce_consume f now skew did nonce ts st = (st', Inr u)"
  shows "dict_ok st' \<and> dict_get st' (did @ lit '':'' @ nonce) = Some (now + skew) \<and>
    (\<exists>x. f ts = Some x \<and> \<not> too_far now x skew)"
  using assms live_ok [OF assms(1)]
  by (auto simp: nonce_consume_def Let_def dict_put_ok dict_put_get split: option.splits if_splits)

text \<open>A nonce that is remembered beyond the present stays remembered.\<close>

lemma nonce_consume_keeps:
  assumes "dict_ok st" "dict_get st k = Some e" "now < e"
  shows "dict_ok (fst (nonce_consume f now skew did nonce ts st)) \<and>
    dict_get (fst (nonce_consume f now skew did nonce ts st)) k = Some e"
proof (cases "nonce_consume f now skew did nonce ts st")
  case (Pair st' res)
  have live: "dict_get (filter (\<lambda>(k, e). now < e) st) k = Some e"
    using assms by (simp add: live_get)
  show ?thesis
    using assms(1,2) live live_ok [OF assms(1), of "\<lambda>(k, e). now < e"]
    by (auto simp: nonce_consume_def Let_def dict_put_ok dict_put_get split: option.split)
qed

fun run_nonces ::
  "(ustring \<Rightarrow> py_float option) \<Rightarrow> real \<Rightarrow> (real \<times> ustring \<times> ustring \<times> ustring) list \<Rightarrow> nonces \<Rightarrow> nonces" where
  "run_nonces f skew [] st = st"
| "run_nonces f skew ((now, did, nonce, ts) # calls) st =
     run_nonces f skew calls (fst (nonce_consume f now skew did nonce ts st))"

lemma run_nonces_keeps:
  "dict_ok st \<Longrightarrow> dict_get st k = Some e \<Longrightarrow> list_all (\<lambda>(now, _). now < e) calls \<Longrightarrow>
     dict_ok (run_nonces f skew calls st) \<and> dict_get (run_nonces f skew calls st) k = Some e"
proof (induction calls arbitrary: st)
  case (Cons x calls)
  obtain now did nonce ts where x: "x = (now, did, nonce, ts)" by (cases x)
  show ?case
    using Cons.prems nonce_consume_keeps [OF Cons.prems(1,2), of now f skew did nonce ts]
    by (simp add: x Cons.IH)
qed simp


definition demo_float :: "ustring \<Rightarrow> py_float option" where
  "demo_float ts =
     (if ts = lit ''nan'' then Some Not_A_Number
      else if list_all is_ascii_digit ts then Some (Finite (real (decimal_value ts))) else None)"

lemma demo_nonce:
  "nonce_consume demo_float 1000 300 (lit ''dev'') (lit ''n'') (lit ''1060'') [] =
     ([(lit ''dev:n'', 1300)], Inr ())"
proof -
  have "demo_float (lit ''1060'') = Some (Finite 1060)"
    by (simp add: demo_float_def decimal_value_def lit_def is_ascii_digit_def)
  moreover have "lit ''dev'' @ lit '':'' @ lit ''n'' = lit ''dev:n''" by (simp add: lit_def)
  ultimately show ?thesis
    by (simp add: nonce_consume_def too_far_def dict_get_def)
qed


text \<open>A nonce is forgotten before its signature is too old: when the clock of the device is ahead of
  the clock of the service, a request accepted at time \<open>t1\<close> with timestamp \<open>x\<close> is accepted
  again at every time from \<open>t1\<close> plus the skew to \<open>x\<close> plus the skew.\<close>

theorem nonce_replay_window:
  assumes "dict_ok st" "f ts = Some (Finite x)" "0 \<le> skew"
    "nonce_consume f t1 skew did nonce ts st = (st1, Inr ())" "t1 + skew \<le> t2" "t2 \<le> x + skew"
  shows "snd (nonce_consume f t2 skew did nonce ts st1) = Inr ()"
proof -
  have *: "dict_ok st1" "dict_get st1 (did @ lit '':'' @ nonce) = Some (t1 + skew)" "\<not> too_far t1 (Finite x) skew"
    using nonce_consume_ok [OF assms(1,4)] assms(2) by auto
  then have "\<not> too_far t2 (Finite x) skew"
    using assms(3,5,6) by (auto simp: too_far_def abs_if split: if_splits)
  then show ?thesis
    using * assms(2,5) by (simp add: nonce_consume_def Let_def live_get)
qed

theorem nonce_replay_window_witness:
  "snd (nonce_consume demo_float 1330 300 (lit ''dev'') (lit ''n'') (lit ''1060'') [(lit ''dev:n'', 1300)]) = Inr ()"
proof (rule nonce_replay_window [OF dict_nil_ok _ _ demo_nonce, of 1060])
  show "demo_float (lit ''1060'') = Some (Finite 1060)"
    by (simp add: demo_float_def decimal_value_def lit_def is_ascii_digit_def)
qed simp_all

text \<open>The timestamp that is not a number is inside every window.\<close>

lemma nan_timestamp_in_window: "\<not> too_far now Not_A_Number skew"
  by (simp add: too_far_def)

section \<open>Who is authenticated\<close>

definition auth_ok :: "auth_state \<Rightarrow> bool" where
  "auth_ok st =
     (dict_ok (au_devices st) \<and> dict_ok (au_sessions st) \<and> dict_ok (au_nonces st) \<and>
      list_all (\<lambda>(k, s). ss_id s = k) (au_sessions st))"

text \<open>The rules by which an operation on one of the stores succeeds.\<close>

lemma on_store_ok:
  "on_devices dop st = (st', Inr x) \<longleftrightarrow> (\<exists>s. dop (au_devices st) = (s, Inr x) \<and> st' = st\<lparr>au_devices := s\<rparr>)"
  "on_sessions sop st = (st', Inr y) \<longleftrightarrow> (\<exists>s. sop (au_sessions st) = (s, Inr y) \<and> st' = st\<lparr>au_sessions := s\<rparr>)"
  "on_nonces nop st = (st', Inr z) \<longleftrightarrow> (\<exists>s. nop (au_nonces st) = (s, Inr z) \<and> st' = st\<lparr>au_nonces := s\<rparr>)"
  by (auto simp: on_devices_def on_sessions_def on_nonces_def split: prod.splits)

lemma device_touch_ok:
  "device_touch now did st = (st', Inr d') \<longleftrightarrow>
     (\<exists>d. dict_get st did = Some d \<and> \<not> dv_revoked d \<and> d' = d\<lparr>dv_last_seen_at := Some now\<rparr> \<and>
        st' = dict_put did d' st)"
  by (auto simp: device_touch_def split: option.splits if_splits)

lemma session_touch_ok:
  "session_touch check now sid st = (st', Inr s') \<longleftrightarrow>
     (\<exists>s. dict_get st sid = Some s \<and> \<not> ss_revoked s \<and> \<not> session_expired s check \<and>
        s' = seen now s \<and> st' = dict_put (ss_id s) s' st)"
  by (auto simp: session_touch_def split: option.splits if_splits)

lemma session_authenticate_ok:
  "session_authenticate S check now sid token st = (st', Inr s') \<longleftrightarrow>
     (\<exists>s. dict_get st sid = Some s \<and> \<not> ss_revoked s \<and> \<not> session_expired s check \<and>
        token_hash s = hash_session_token S token \<and> s' = seen now s \<and> st' = dict_put (ss_id s) s' st)"
  by (auto simp: session_authenticate_def split: option.splits if_splits)

lemma session_get_ok: "session_get sid st = (st', Inr s) \<longleftrightarrow> dict_get st sid = Some s \<and> st' = st"
  by (auto simp: session_get_def split: option.splits)

lemma device_get_ok: "device_get did st = (st', Inr d) \<longleftrightarrow> dict_get st did = Some d \<and> st' = st"
  by (auto simp: device_get_def split: option.splits)

lemmas store_ok_rules = py_bind_ok on_store_ok device_touch_ok session_touch_ok
  session_authenticate_ok session_get_ok device_get_ok

lemma seen_simps [simp]:
  "ss_device_id (seen now s) = ss_device_id s" "ss_revoked (seen now s) = ss_revoked s"
  "token_hash (seen now s) = token_hash s" "ss_id (seen now s) = ss_id s"
  by (simp_all add: seen_def Let_def)

text \<open>What is known of the session and the device of a request once its session is accepted.\<close>

definition session_valid :: "real \<Rightarrow> control_session \<Rightarrow> bool" where
  "session_valid check s = (\<not> ss_revoked s \<and> \<not> session_expired s check)"

lemma authenticate_session_ok:
  assumes "auth_ok st" "authenticate_session S check now sid token st = (st', Inr s')"
  obtains s d where "dict_get (au_sessions st) sid = Some s" "session_valid check s"
    "token_hash s = S token" "s' = seen now s"
    "dict_get (au_devices st) (ss_device_id s) = Some d" "\<not> dv_revoked d"
    "dict_get (au_devices st') (ss_device_id s) = Some (d\<lparr>dv_last_seen_at := Some now\<rparr>)"
    "au_nonces st' = au_nonces st"
  using assms
  by (auto simp: authenticate_session_def store_ok_rules py_return_def session_valid_def
      hash_session_token_def auth_ok_def dict_put_get)

text \<open>C14.  A signed request is only accepted from a device in good standing: its session exists, is neither
  revoked nor expired, belongs to the device and, unless the token may be missing, was proved by its
  token; the device is not revoked, its key verifies the signature over the request, and the nonce was
  not used within the time it is remembered.\<close>

theorem signed_request_authentic:
  assumes "auth_ok st"
    "authenticate_signed_session_request S upper verify float_of check now allow_missing q st = (st', Inr s')"
  shows "\<exists>s d. dict_get (au_sessions st) (sr_session_id q) = Some s \<and> session_valid check s \<and>
    ss_device_id s = sr_device_id q \<and>
    (if sr_session_token q = [] then allow_missing else token_hash s = S (sr_session_token q)) \<and>
    dict_get (au_devices st) (sr_device_id q) = Some d \<and> \<not> dv_revoked d \<and>
    verify (public_key d) (sr_signature q)
      (device_signature_message upper (sr_device_id q) (sr_session_id q) (sr_method q) (sr_path q)
        (sr_timestamp q) (sr_nonce q)) = None \<and>
    is_ok (snd (nonce_consume float_of now 300 (sr_device_id q) (sr_nonce q) (sr_timestamp q) (au_nonces st)))"
proof (cases "sr_session_token q = []")
  case True
  then show ?thesis
    using assms
    by (auto simp: authenticate_signed_session_request_def store_ok_rules py_raise_def py_return_def
        session_valid_def is_ok_def Let_def split: if_splits option.splits)
next
  case False
  then obtain st1 s1 where a: "authenticate_session S check now (sr_session_id q) (sr_session_token q) st = (st1, Inr s1)"
    and rest: "ss_device_id s1 = sr_device_id q" "\<exists>d. dict_get (au_devices st1) (sr_device_id q) = Some d \<and>
      verify (public_key d) (sr_signature q)
        (device_signature_message upper (sr_device_id q) (sr_session_id q) (sr_method q) (sr_path q)
          (sr_timestamp q) (sr_nonce q)) = None"
      "is_ok (snd (nonce_consume float_of now 300 (sr_device_id q) (sr_nonce q) (sr_timestamp q) (au_nonces st1)))"
    using assms(2)
    by (auto simp: authenticate_signed_session_request_def py_bind_ok on_store_ok device_get_ok
        py_raise_def py_return_def is_ok_def Let_def split: if_splits option.splits)
  show ?thesis
    by (rule authenticate_session_ok [OF assms(1) a]) (use rest False in auto)
qed

text \<open>A concrete state: one device with one session, and a request it signed.\<close>

definition demo_auth :: auth_state where
  "demo_auth =
     \<lparr>au_pairings = [],
      au_devices = [(lit ''dev'', \<lparr>dv_id = lit ''dev'', dv_name = lit ''Phone'', public_key = lit ''key'',
        dv_fingerprint = [], dv_revoked = False, dv_created_at = 0, dv_last_seen_at = None\<rparr>)],
      au_sessions = [(lit ''sess'', \<lparr>ss_id = lit ''sess'', ss_device_id = lit ''dev'',
        token_hash = lit ''token'', csrf_token = [], ss_expires_at = 5000, ss_revoked = False,
        ss_created_at = 0, ss_last_seen_at = None\<rparr>)],
      au_nonces = []\<rparr>"

definition demo_signed :: signed_request where
  "demo_signed =
     \<lparr>sr_session_id = lit ''sess'', sr_session_token = lit ''token'', sr_device_id = lit ''dev'',
      sr_method = lit ''POST'', sr_path = lit ''/approve'', sr_timestamp = lit ''1060'',
      sr_nonce = lit ''n'', sr_signature = lit ''sig''\<rparr>"

definition demo_verify_sig :: "ustring \<Rightarrow> ustring \<Rightarrow> ustring \<Rightarrow> py_error option" where
  "demo_verify_sig key sig message =
     (if key = lit ''key'' \<and> sig = lit ''sig'' then None
      else Some (Permission_Error (lit ''device signature rejected'')))"

lemma demo_signed_accepted:
  "is_ok (snd (authenticate_signed_session_request id id demo_verify_sig demo_float 1000 1000 False
     demo_signed demo_auth))"
  by (simp add: authenticate_signed_session_request_def demo_signed_def lit_def [of "''token''"]
      authenticate_session_def py_bind_def on_sessions_def on_devices_def on_nonces_def
      session_authenticate_def device_touch_def device_get_def demo_auth_def dict_get_def
      session_expired_def hash_session_token_def py_return_def demo_verify_sig_def seen_def
      CONTROL_SESSION_REFRESH_WINDOW_SECONDS_def demo_nonce is_ok_def Let_def)

theorem signed_request_authentic_witness:
  "\<exists>s d. dict_get (au_sessions demo_auth) (lit ''sess'') = Some s \<and> session_valid 1000 s \<and>
    dict_get (au_devices demo_auth) (lit ''dev'') = Some d \<and> \<not> dv_revoked d"
proof -
  obtain st' s' where *: "authenticate_signed_session_request id id demo_verify_sig demo_float 1000 1000
      False demo_signed demo_auth = (st', Inr s')"
    using demo_signed_accepted
    by (cases "authenticate_signed_session_request id id demo_verify_sig demo_float 1000 1000
      False demo_signed demo_auth"; cases "snd (authenticate_signed_session_request id id demo_verify_sig
      demo_float 1000 1000 False demo_signed demo_auth)") (auto simp: is_ok_def)
  have "auth_ok demo_auth"
    by (simp add: auth_ok_def demo_auth_def dict_ok_def)
  from signed_request_authentic [OF this *] show ?thesis
    by (auto simp: demo_signed_def)
qed


lemma demo_consume:
  "\<exists>st' p. pairing_consume ascii_runtime id 1 (generate_pairing_code 42)
     [(lit ''pair_a'', demo_pairing (lit ''pair_a'') 300)] = (st', Inr p)"
proof -
  have ok: "file_ok [(lit ''pair_a'', demo_pairing (lit ''pair_a'') 300)]"
    by (simp add: file_ok_def entry_ok_def demo_pairing_def dict_ok_def)
  show ?thesis
    unfolding pairing_consume_def py_bind_def load_pairings_ok [OF ok] demo_code_hash
    by (simp add: demo_pairing_def unraw_def pairing_expired_def save_pairings_def py_return_def Let_def)
qed

definition demo_unpaired :: auth_state where
  "demo_unpaired = \<lparr>au_pairings = [(lit ''pair_a'', demo_pairing (lit ''pair_a'') 300)],
     au_devices = [], au_sessions = [], au_nonces = []\<rparr>"

definition demo_ids :: fresh_ids where
  "demo_ids = \<lparr>fresh_device = lit ''dev'', fresh_session = lit ''sess'', fresh_token = lit ''token'',
     fresh_csrf = lit ''csrf''\<rparr>"


end
