(* ===== verification/Takeover_Input.thy ===== *)
theory Takeover_Input
  imports Request_Runs
begin

text \<open>
  \<open>omni_takeover/input_events.py\<close>, \<open>omni_takeover/models.py\<close> and \<open>validate_takeover_input\<close> of
  \<open>omni_control/requests.py\<close>: the events a user sends into a browser they have taken over.  The
  coordinates of an event come from a JSON dictionary and are checked, not converted.
\<close>

record input_event =
  ie_event_type :: ustring
  ie_x :: pyval
  ie_y :: pyval
  ie_to_x :: pyval
  ie_to_y :: pyval
  ie_text :: pyval
  ie_key :: pyval
  ie_delta_x :: pyval
  ie_delta_y :: pyval
  ie_frame_id :: "ustring option"

definition ALLOWED_INPUT_EVENT_TYPES :: "ustring list" where
  "ALLOWED_INPUT_EVENT_TYPES =
     [lit ''tap'', lit ''click'', lit ''double_click'', lit ''long_press'', lit ''drag'',
      lit ''scroll'', lit ''type'', lit ''key'', lit ''release'']"

definition pointer_types :: "ustring list" where
  "pointer_types = [lit ''tap'', lit ''click'', lit ''double_click'', lit ''long_press'']"

definition truthy :: "pyval \<Rightarrow> bool" where
  "truthy v =
     (case v of PNone \<Rightarrow> False | PBool b \<Rightarrow> b | PInt i \<Rightarrow> i \<noteq> 0 | PFloat x \<Rightarrow> x \<noteq> 0 | PStr s \<Rightarrow> s \<noteq> []
      | PList l \<Rightarrow> l \<noteq> [] | PDict d \<Rightarrow> d \<noteq> [])"

definition event_type_of :: "py_runtime \<Rightarrow> pyval \<Rightarrow> ustring" where
  "event_type_of U v = py_strip U (if truthy v then py_str U v else [])"

fun is_int_coordinate :: "pyval \<Rightarrow> bool" where
  "is_int_coordinate (PInt i) = True"
| "is_int_coordinate _ = False"

fun py_len :: "pyval \<Rightarrow> py_error + nat" where
  "py_len (PStr s) = Inr (length s)"
| "py_len (PList l) = Inr (length l)"
| "py_len (PDict d) = Inr (length d)"
| "py_len _ = Inl Type_Error"

definition require_coordinates :: "pyval list \<Rightarrow> py_error + unit" where
  "require_coordinates vs =
     (if list_all is_int_coordinate vs then Inr ()
      else Inl (Value_Error (lit ''takeover coordinates must be integers'')))"

definition check_len :: "pyval \<Rightarrow> nat \<Rightarrow> string \<Rightarrow> py_error + unit" where
  "check_len v n msg =
     (if v = PNone then Inr ()
      else and_then (py_len v) (\<lambda>l. if n < l then Inl (Value_Error (lit msg)) else Inr ()))"

definition validate_input_event :: "input_event \<Rightarrow> py_error + unit" where
  "validate_input_event e =
     (if ie_event_type e \<notin> set ALLOWED_INPUT_EVENT_TYPES
      then Inl (Value_Error (lit ''unsupported takeover event''))
      else if (case ie_frame_id e of None \<Rightarrow> False | Some i \<Rightarrow> 128 < length i)
      then Inl (Value_Error (lit ''takeover frame id too long''))
      else
        and_then (check_len (ie_text e) 4096 ''takeover text too long'') (\<lambda>_.
        and_then (check_len (ie_key e) 64 ''takeover key too long'') (\<lambda>_.
        and_then (if ie_event_type e \<in> set pointer_types
                  then require_coordinates [ie_x e, ie_y e] else Inr ()) (\<lambda>_.
        and_then (if ie_event_type e = lit ''drag''
                  then require_coordinates [ie_x e, ie_y e, ie_to_x e, ie_to_y e] else Inr ()) (\<lambda>_.
        if ie_event_type e = lit ''scroll''
        then require_coordinates (filter (\<lambda>v. v \<noteq> PNone) [ie_delta_x e, ie_delta_y e])
        else Inr ())))))"

definition entry :: "(ustring \<times> pyval) list \<Rightarrow> string \<Rightarrow> pyval" where
  "entry d k = (case dict_get d (lit k) of None \<Rightarrow> PNone | Some v \<Rightarrow> v)"

definition event_from_dict :: "py_runtime \<Rightarrow> (ustring \<times> pyval) list \<Rightarrow> py_error + input_event" where
  "event_from_dict U d =
     (let e = \<lparr>ie_event_type = event_type_of U
                 (if truthy (entry d ''event_type'') then entry d ''event_type'' else entry d ''type''),
               ie_x = entry d ''x'', ie_y = entry d ''y'', ie_to_x = entry d ''to_x'', ie_to_y = entry d ''to_y'',
               ie_text = entry d ''text'', ie_key = entry d ''key'',
               ie_delta_x = entry d ''delta_x'', ie_delta_y = entry d ''delta_y'',
               ie_frame_id = (if entry d ''frame_id'' = PNone then None
                 else Some (py_str U (entry d ''frame_id'')))\<rparr> in
      and_then (validate_input_event e) (\<lambda>_. Inr e))"

text \<open>\<open>0 <= v < limit\<close>, which fails on a value that is not a number.\<close>

fun below :: "pyval \<Rightarrow> int \<Rightarrow> py_error + bool" where
  "below (PInt i) n = Inr (0 \<le> i \<and> i < n)"
| "below (PBool b) n = Inr ((if b then 1 else 0) < n)"
| "below (PFloat x) n = Inr (0 \<le> x \<and> x < real_of_int n)"
| "below _ n = Inl Type_Error"

definition in_bounds :: "int \<Rightarrow> int \<Rightarrow> pyval \<Rightarrow> pyval \<Rightarrow> py_error + bool" where
  "in_bounds width height x y =
     (if x = PNone \<or> y = PNone then Inr False
      else and_then (below x width) (\<lambda>a. if \<not> a then Inr False else below y height))"

definition out_of_bounds :: py_error where
  "out_of_bounds = Value_Error (lit ''takeover coordinates out of frame bounds'')"

definition check_bounds :: "int \<Rightarrow> int \<Rightarrow> input_event \<Rightarrow> py_error + unit" where
  "check_bounds width height e =
     and_then
       (if ie_event_type e \<in> set pointer_types then in_bounds width height (ie_x e) (ie_y e) else Inr True)
       (\<lambda>pointer_ok. if \<not> pointer_ok then Inl out_of_bounds
     else and_then
       (if ie_event_type e = lit ''drag'' then
          and_then (in_bounds width height (ie_x e) (ie_y e)) (\<lambda>a.
            if \<not> a then Inr False else in_bounds width height (ie_to_x e) (ie_to_y e))
        else Inr True)
       (\<lambda>drag_ok. if \<not> drag_ok then Inl out_of_bounds else Inr ()))"

definition validate_takeover_input ::
  "instants \<Rightarrow> ustring \<Rightarrow> input_event \<Rightarrow> (request_store, control_request) py_op" where
  "validate_takeover_input ts rid e =
     py_bind (validate_takeover_frame ts rid (ie_frame_id e)) (\<lambda>r st.
       case (nonzero (takeover_frame_viewport_width r), nonzero (takeover_frame_viewport_height r)) of
         (Some width, Some height) \<Rightarrow> (st, and_then (check_bounds width height e) (\<lambda>_. Inr r))
       | _ \<Rightarrow> (st, Inr r))"

section \<open>Accepted input is inside the frame the user sees\<close>

lemma nonzero_iff: "nonzero i = Some n \<longleftrightarrow> i = Some n \<and> n \<noteq> 0"
  by (auto simp: nonzero_def split: option.splits)

lemma in_bounds_int:
  "in_bounds w h (PInt x) (PInt y) = Inr b \<longleftrightarrow> b = (0 \<le> x \<and> x < w \<and> 0 \<le> y \<and> y < h)"
  by (auto simp: in_bounds_def and_then_def)

lemma coordinates_int: "is_int_coordinate v \<longleftrightarrow> (\<exists>i. v = PInt i)"
  by (cases v) auto

lemma event_from_dict_ok: "event_from_dict U d = Inr e \<Longrightarrow> validate_input_event e = Inr ()"
  by (auto simp: event_from_dict_def and_then_def Let_def split: sum.splits)

lemma validate_coordinates:
  assumes "validate_input_event e = Inr ()"
  shows "ie_event_type e \<in> set pointer_types \<Longrightarrow> list_all is_int_coordinate [ie_x e, ie_y e]"
    and "ie_event_type e = lit ''drag'' \<Longrightarrow>
      list_all is_int_coordinate [ie_x e, ie_y e, ie_to_x e, ie_to_y e]"
  using assms unfolding validate_input_event_def require_coordinates_def and_then_def
  by (simp_all split: if_splits sum.splits)

lemma validate_takeover_frame_ok:
  assumes "store_ok st" "validate_takeover_frame ts rid fid st = (st', Inr r)"
  shows "stored rid r st' \<and> request_type r \<in> set takeover_types \<and>
    \<not> rq_used r \<and> \<not> is_expired r (t_check ts) \<and>
    (\<forall>i. takeover_frame_id r = Some i \<longrightarrow> i \<noteq> [] \<longrightarrow> fid = Some i \<and>
      t_now ts - (case takeover_frame_captured_at r of None \<Rightarrow> 0 | Some t \<Rightarrow> t) \<le> TAKEOVER_FRAME_MAX_AGE_SECONDS)"
proof -
  obtain st1 where g: "get ts rid st = (st1, Inr r)"
    and v: "request_type r \<in> set takeover_types" "\<not> is_expired r (t_check ts)" "\<not> rq_used r" "st' = st1"
    "\<forall>i. takeover_frame_id r = Some i \<longrightarrow> i \<noteq> [] \<longrightarrow> fid = Some i \<and>
      t_now ts - (case takeover_frame_captured_at r of None \<Rightarrow> 0 | Some t \<Rightarrow> t) \<le> TAKEOVER_FRAME_MAX_AGE_SECONDS"
    using assms(2)
    by (auto simp: validate_takeover_frame_def py_bind_ok ensure_takeover_def ensure_actionable_ok
        actionable_def py_raise_def py_return_def Let_def split: if_splits)
  have "stored rid r st1" by (rule safe_get(2) [OF assms(1) _ g, of UNIV]) simp
  then show ?thesis using v by simp
qed

lemma check_bounds_ok:
  assumes "check_bounds w h e = Inr ()"
  shows "ie_event_type e \<in> set pointer_types \<Longrightarrow> in_bounds w h (ie_x e) (ie_y e) = Inr True"
    and "ie_event_type e = lit ''drag'' \<Longrightarrow> in_bounds w h (ie_x e) (ie_y e) = Inr True"
    and "ie_event_type e = lit ''drag'' \<Longrightarrow> in_bounds w h (ie_to_x e) (ie_to_y e) = Inr True"
  using assms unfolding check_bounds_def and_then_def
  by (simp_all split: if_splits sum.splits)

lemma validate_takeover_input_ok:
  assumes "validate_takeover_input ts rid e st = (st', Inr r)"
  shows "validate_takeover_frame ts rid (ie_frame_id e) st = (st', Inr r)"
    and "nonzero (takeover_frame_viewport_width r) = Some w \<Longrightarrow>
      nonzero (takeover_frame_viewport_height r) = Some h \<Longrightarrow> check_bounds w h e = Inr ()"
proof -
  obtain st1 q where f: "validate_takeover_frame ts rid (ie_frame_id e) st = (st1, Inr q)"
    and c: "(case (nonzero (takeover_frame_viewport_width q), nonzero (takeover_frame_viewport_height q)) of
         (Some width, Some height) \<Rightarrow> (st1, and_then (check_bounds width height e) (\<lambda>_. Inr q))
       | _ \<Rightarrow> (st1, Inr q)) = (st', Inr r)"
    using assms unfolding validate_takeover_input_def py_bind_ok by blast
  have "st1 = st' \<and> q = r"
    using c by (cases "nonzero (takeover_frame_viewport_width q)";
        cases "nonzero (takeover_frame_viewport_height q)") (auto simp: and_then_def split: sum.splits)
  then show "validate_takeover_frame ts rid (ie_frame_id e) st = (st', Inr r)"
    and "nonzero (takeover_frame_viewport_width r) = Some w \<Longrightarrow>
      nonzero (takeover_frame_viewport_height r) = Some h \<Longrightarrow> check_bounds w h e = Inr ()"
    using f c by (auto simp: and_then_def split: sum.splits)
qed

definition inside :: "control_request \<Rightarrow> pyval \<Rightarrow> pyval \<Rightarrow> bool" where
  "inside r vx vy =
     (case (vx, vy, takeover_frame_viewport_width r, takeover_frame_viewport_height r) of
        (PInt x, PInt y, Some w, Some h) \<Rightarrow> w \<noteq> 0 \<and> h \<noteq> 0 \<longrightarrow> 0 \<le> x \<and> x < w \<and> 0 \<le> y \<and> y < h
      | (PInt x, PInt y, _, _) \<Rightarrow> True
      | _ \<Rightarrow> False)"

lemma inside_of:
  assumes "is_int_coordinate vx" "is_int_coordinate vy"
    "\<And>w h. nonzero (takeover_frame_viewport_width r) = Some w \<Longrightarrow>
      nonzero (takeover_frame_viewport_height r) = Some h \<Longrightarrow> in_bounds w h vx vy = Inr True"
  shows "inside r vx vy"
  using assms by (auto simp: inside_def coordinates_int nonzero_iff in_bounds_int split: option.split)


text \<open>A handoff of the browser that shows a frame of 800 by 600 points.\<close>

definition handoff :: control_request where
  "handoff = (new_request (at_time 0) ''human_takeover'' demo_args)
     \<lparr>takeover_frame_id := Some (lit ''f1''), takeover_frame_captured_at := Some 10,
      takeover_frame_viewport_width := Some 800, takeover_frame_viewport_height := Some 600\<rparr>"

definition handoff_store :: request_store where
  "handoff_store = \<lparr>requests = [(lit ''req_1'', handoff)], audit_calls = []\<rparr>"

definition tap_message :: "(ustring \<times> pyval) list" where
  "tap_message = [(lit ''event_type'', PStr (lit ''tap'')), (lit ''frame_id'', PStr (lit ''f1'')),
     (lit ''x'', PInt 799), (lit ''y'', PInt 0)]"

definition tap_event :: input_event where
  "tap_event = \<lparr>ie_event_type = lit ''tap'', ie_x = PInt 799, ie_y = PInt 0, ie_to_x = PNone,
     ie_to_y = PNone, ie_text = PNone, ie_key = PNone, ie_delta_x = PNone, ie_delta_y = PNone,
     ie_frame_id = Some (lit ''f1'')\<rparr>"

lemma tap_decodes: "event_from_dict ascii_runtime tap_message = Inr tap_event"
proof -
  have e: "entry tap_message ''event_type'' = PStr (lit ''tap'')" "entry tap_message ''frame_id'' = PStr (lit ''f1'')"
    "entry tap_message ''x'' = PInt 799" "entry tap_message ''y'' = PInt 0" "entry tap_message ''to_x'' = PNone"
    "entry tap_message ''to_y'' = PNone" "entry tap_message ''text'' = PNone" "entry tap_message ''key'' = PNone"
    "entry tap_message ''delta_x'' = PNone" "entry tap_message ''delta_y'' = PNone"
    by (simp_all add: entry_def tap_message_def dict_get_def lit_def)
  have t: "event_type_of ascii_runtime (PStr (lit ''tap'')) = lit ''tap''" "truthy (PStr (lit ''tap''))"
    by (simp_all add: event_type_of_def truthy_def py_strip_def py_is_space_def lit_def)
  have "validate_input_event tap_event = Inr ()"
    by (simp add: validate_input_event_def tap_event_def ALLOWED_INPUT_EVENT_TYPES_def pointer_types_def
        require_coordinates_def check_len_def and_then_def lit_def)
  then show ?thesis by (simp add: event_from_dict_def e t and_then_def tap_event_def Let_def)
qed

lemma handoff_store_ok: "store_ok handoff_store"
  by (simp add: store_ok_def handoff_store_def audit_ok_def dict_ok_def handoff_def new_request_def
      demo_args_def Let_def)

lemma tap_accepted:
  "validate_takeover_input (at_time 20) (lit ''req_1'') tap_event handoff_store = (handoff_store, Inr handoff)"
proof -
  have "get (at_time 20) (lit ''req_1'') handoff_store = (handoff_store, Inr handoff)"
    by (simp add: get_def handoff_store_def dict_get_def expire_if_needed_def is_expired_def
        handoff_def new_request_def demo_args_def Let_def)
  then have "validate_takeover_frame (at_time 20) (lit ''req_1'') (Some (lit ''f1'')) handoff_store =
      (handoff_store, Inr handoff)"
    by (simp add: validate_takeover_frame_def py_bind_def ensure_takeover_def ensure_actionable_def
        py_return_def is_expired_def handoff_def new_request_def demo_args_def Let_def
        takeover_types_def TAKEOVER_FRAME_MAX_AGE_SECONDS_def lit_def)
  moreover have "check_bounds 800 600 tap_event = Inr ()"
    by (simp add: check_bounds_def tap_event_def pointer_types_def in_bounds_def and_then_def lit_def)
  ultimately show ?thesis
    by (simp add: validate_takeover_input_def py_bind_def tap_event_def handoff_def nonzero_def and_then_def)
qed


end
