(* ===== verification/Task_Queue.thy ===== *)
theory Task_Queue
  imports Py_Prelude
begin

text \<open>
  \<open>omni_control/tasks.py\<close>: the queue of tasks the user's client hands to the agent.  The state
  is the content of the state file; each method holds the lock of the file from reading to writing, so
  that a method is one step.
\<close>

record user_task =
  task_id :: ustring
  task_text :: ustring
  task_source :: ustring
  task_status :: string
  task_created_at :: real
  task_updated_at :: real
  task_claimed_at :: "real option"
  task_completed_at :: "real option"

type_synonym task_store = "(ustring \<times> user_task) list"

definition by_creation :: "user_task list \<Rightarrow> user_task list" where
  "by_creation = sort_key task_created_at"

definition task_list :: "bool \<Rightarrow> task_store \<Rightarrow> user_task list" where
  "task_list include_completed st =
     (let ts = by_creation (map snd st) in
      if include_completed then ts
      else filter (\<lambda>t. task_status t \<in> {''pending'', ''claimed''}) ts)"

definition task_get :: "ustring \<Rightarrow> task_store \<Rightarrow> py_error + user_task" where
  "task_get tid st =
     (case dict_get st tid of
        None \<Rightarrow> Inl (Key_Error (lit ''task not found: '' @ tid)) | Some t \<Rightarrow> Inr t)"

text \<open>The hexadecimal digits that \<open>uuid.uuid4()\<close> provides are an argument.\<close>

definition task_create ::
  "py_runtime \<Rightarrow> real \<Rightarrow> ustring \<Rightarrow> ustring \<Rightarrow> ustring \<Rightarrow> (task_store, user_task) py_op" where
  "task_create U now hex txt source st =
     (let cleaned = py_strip U txt in
      if cleaned = [] then (st, Inl (Value_Error (lit ''task text is required'')))
      else if 4000 < length cleaned then (st, Inl (Value_Error (lit ''task text is too long'')))
      else
        let t = \<lparr>task_id = lit ''task_'' @ hex, task_text = cleaned, task_source = source,
                 task_status = ''pending'', task_created_at = now, task_updated_at = now,
                 task_claimed_at = None, task_completed_at = None\<rparr> in
        (dict_put (task_id t) t st, Inr t))"

definition pending_tasks :: "task_store \<Rightarrow> user_task list" where
  "pending_tasks st = by_creation (filter (\<lambda>t. task_status t = ''pending'') (map snd st))"

definition claimed :: "real \<Rightarrow> user_task \<Rightarrow> user_task" where
  "claimed now t = t\<lparr>task_status := ''claimed'', task_claimed_at := Some now, task_updated_at := now\<rparr>"

definition next_pending :: "real \<Rightarrow> bool \<Rightarrow> task_store \<Rightarrow> task_store \<times> user_task option" where
  "next_pending now claim st =
     (case pending_tasks st of
        [] \<Rightarrow> (st, None)
      | t # _ \<Rightarrow>
          if claim then (let t' = claimed now t in (dict_put (task_id t') t' st, Some t'))
          else (st, Some t))"

definition task_complete :: "real \<Rightarrow> ustring \<Rightarrow> (task_store, user_task) py_op" where
  "task_complete now tid st =
     (case dict_get st tid of
        None \<Rightarrow> (st, Inl (Key_Error tid))
      | Some t \<Rightarrow>
          if task_status t = ''cancelled'' then (st, Inl (Value_Error (lit ''task is cancelled'')))
          else
            let t' = t\<lparr>task_status := ''completed'', task_completed_at := Some now, task_updated_at := now\<rparr> in
            (dict_put (task_id t') t' st, Inr t'))"

definition task_cancel :: "real \<Rightarrow> ustring \<Rightarrow> (task_store, user_task) py_op" where
  "task_cancel now tid st =
     (case dict_get st tid of
        None \<Rightarrow> (st, Inl (Key_Error tid))
      | Some t \<Rightarrow>
          if task_status t = ''completed'' then (st, Inl (Value_Error (lit ''task is completed'')))
          else
            let t' = t\<lparr>task_status := ''cancelled'', task_updated_at := now\<rparr> in
            (dict_put (task_id t') t' st, Inr t'))"

datatype task_call =
    Task_Create real ustring ustring ustring
  | Task_Next real bool
  | Task_Complete real ustring
  | Task_Cancel real ustring

fun task_step :: "py_runtime \<Rightarrow> task_call \<Rightarrow> task_store \<Rightarrow> task_store" where
  "task_step U (Task_Create now hex txt src) st = fst (task_create U now hex txt src st)"
| "task_step U (Task_Next now claim) st = fst (next_pending now claim st)"
| "task_step U (Task_Complete now tid) st = fst (task_complete now tid st)"
| "task_step U (Task_Cancel now tid) st = fst (task_cancel now tid st)"

definition tasks_ok :: "task_store \<Rightarrow> bool" where
  "tasks_ok st =
     (dict_ok st \<and> list_all (\<lambda>(k, t). task_id t = k \<and>
       task_status t \<in> {''pending'', ''claimed'', ''completed'', ''cancelled''}) st)"

section \<open>Lemmas\<close>

lemma tasks_ok_get:
  "tasks_ok st \<Longrightarrow> dict_get st k = Some t \<Longrightarrow> task_id t = k \<and>
     task_status t \<in> {''pending'', ''claimed'', ''completed'', ''cancelled''}"
  by (auto simp: tasks_ok_def dict_get_in list_all_iff)

lemma tasks_ok_put:
  assumes "tasks_ok st" "task_id t = k" "task_status t \<in> {''pending'', ''claimed'', ''completed'', ''cancelled''}"
  shows "tasks_ok (dict_put k t st)"
  using assms unfolding tasks_ok_def by (intro conjI pyd.all_entries_put dict_put_ok) auto

lemma by_creation_set [simp]: "set (by_creation ts) = set ts"
  by (simp add: by_creation_def)

lemma pending_stored:
  assumes "tasks_ok st" "t \<in> set (pending_tasks st)"
  shows "dict_get st (task_id t) = Some t \<and> task_status t = ''pending''"
proof -
  obtain k where "(k, t) \<in> set st" "task_status t = ''pending''"
    using assms(2) by (auto simp: pending_tasks_def)
  then show ?thesis using assms(1) by (auto simp: tasks_ok_def dict_get_in list_all_iff)
qed

lemma next_pending_claims:
  "pending_tasks st = t # ts \<Longrightarrow>
     next_pending now True st = (dict_put (task_id t) (claimed now t) st, Some (claimed now t))"
  by (simp add: next_pending_def claimed_def Let_def)

lemma tasks_ok_step: "tasks_ok st \<Longrightarrow> tasks_ok (task_step U c st)"
proof (induction U c st rule: task_step.induct)
  case (2 U now claim st)
  show ?case
  proof (cases "pending_tasks st")
    case (Cons t ts)
    then show ?thesis
      using 2 by (auto simp: next_pending_def claimed_def Let_def intro: tasks_ok_put)
  qed (use 2 in \<open>simp add: next_pending_def\<close>)
next
  case (3 U now tid st)
  then show ?case
    by (auto simp: task_complete_def Let_def dest: tasks_ok_get intro!: tasks_ok_put split: option.split)
next
  case (4 U now tid st)
  then show ?case
    by (auto simp: task_cancel_def Let_def dest: tasks_ok_get intro!: tasks_ok_put split: option.split)
qed (auto simp: task_create_def Let_def intro!: tasks_ok_put)

text \<open>Claiming a task removes it, and only it, from the pending ones.\<close>

lemma filter_map_put:
  assumes "dict_ok st" "dict_get st k = Some t" "\<not> P t'"
  shows "filter P (map snd (dict_put k t' st)) = filter P (map snd (dict_pop k st))"
  using assms
proof (induction k t' st rule: dict_put.induct)
  case (2 k v k' v' d)
  have d: "dict_ok d" using 2(2) by (simp add: dict_ok_def)
  consider "k = k'" | "k < k'" | "k' < k" by force
  then show ?case
  proof cases
    case 1
    then have "dict_pop k d = d" using 2(2) by (force simp: dict_pop_def dict_ok_def filter_id_conv)
    then show ?thesis using 1 2(4) by (simp add: dict_pop_def)
  next
    case 2
    then show ?thesis using \<open>dict_ok ((k', v') # d)\<close> \<open>dict_get ((k', v') # d) k = Some t\<close>
      by (force simp: dict_ok_def dict_get_def dest!: map_of_SomeD)
  next
    case 3
    then show ?thesis using 2 d by (auto simp: dict_pop_def dict_get_def)
  qed
qed (simp add: dict_get_def)

lemma map_snd_pop:
  assumes "tasks_ok st"
  shows "map snd (dict_pop k st) = filter (\<lambda>t. task_id t \<noteq> k) (map snd st)"
  using assms by (induction st) (auto simp: tasks_ok_def dict_ok_def dict_pop_def)

lemma pending_distinct:
  assumes "tasks_ok st"
  shows "distinct (map task_id (pending_tasks st))"
proof -
  have "map task_id (map snd st) = map fst st"
    using assms by (auto simp: tasks_ok_def list_all_iff)
  then have "distinct (map task_id (map snd st))"
    using assms by (simp only: tasks_ok_def dict_ok_def)
  then have "distinct (map task_id (filter (\<lambda>t. task_status t = ''pending'') (map snd st)))"
    by (rule distinct_map_filter)
  then show ?thesis
    unfolding pending_tasks_def by_creation_def distinct_map by simp
qed

lemma pending_after_claim:
  assumes "tasks_ok st" "pending_tasks st = t # ts"
  shows "pending_tasks (dict_put (task_id t) (claimed now t) st) = ts"
proof -
  let ?other = "\<lambda>s. task_id s \<noteq> task_id t"
  have "dict_get st (task_id t) = Some t"
    using pending_stored [OF assms(1), of t] assms(2) by simp
  then have "filter (\<lambda>t. task_status t = ''pending'') (map snd (dict_put (task_id t) (claimed now t) st)) =
      filter (\<lambda>t. task_status t = ''pending'') (map snd (dict_pop (task_id t) st))"
    using assms(1) by (intro filter_map_put) (simp_all add: tasks_ok_def claimed_def)
  also have "\<dots> = filter ?other (filter (\<lambda>t. task_status t = ''pending'') (map snd st))"
    by (simp only: map_snd_pop [OF assms(1)] filter_filter conj_commute)
  finally have "pending_tasks (dict_put (task_id t) (claimed now t) st) = filter ?other (pending_tasks st)"
    by (simp only: pending_tasks_def by_creation_def filter_sort)
  also have "\<dots> = filter ?other ts" by (simp add: assms(2))
  also have "\<dots> = ts"
    using pending_distinct [OF assms(1)] unfolding assms(2) by (intro filter_True) (auto intro: rev_image_eqI)
  finally show ?thesis .
qed

section \<open>Delivery\<close>

text \<open>The answers to claims at the given times.\<close>

fun claims :: "real list \<Rightarrow> task_store \<Rightarrow> user_task option list" where
  "claims [] st = []"
| "claims (now # nows) st = (case next_pending now True st of (st', r) \<Rightarrow> r # claims nows st')"

lemma claims_none: "pending_tasks st = [] \<Longrightarrow> claims nows st = replicate (length nows) None"
  by (induction nows) (simp_all add: next_pending_def)

text \<open>C22.  An agent that keeps asking is handed every pending task exactly once, oldest first, and
  is told that there is none only when all have been handed out: with no other call in between, the
  answers are the pending tasks in the order of their creation, each marked as claimed at the time
  of its request, followed by \<open>None\<close>.\<close>

theorem claims_drain_queue:
  assumes "tasks_ok st"
  shows "claims nows st =
    map Some (map2 claimed nows (pending_tasks st)) @
    replicate (length nows - length (pending_tasks st)) None"
  using assms
proof (induction nows arbitrary: st)
  case (Cons now nows)
  show ?case
  proof (cases "pending_tasks st")
    case Nil
    then show ?thesis using claims_none [OF Nil, of "now # nows"] by simp
  next
    case (Cons t ts)
    have "tasks_ok (dict_put (task_id t) (claimed now t) st)"
      using Cons.prems by (intro tasks_ok_put) (simp_all add: claimed_def)
    then show ?thesis
      using Cons.IH pending_after_claim [OF Cons.prems Cons] by (simp add: next_pending_claims [OF Cons] Cons)
  qed
qed simp

text \<open>The ids a call hands out with a claim, and the ids it creates.\<close>

fun handed_out :: "task_call \<Rightarrow> task_store \<Rightarrow> ustring list" where
  "handed_out (Task_Next now True) st =
     (case snd (next_pending now True st) of None \<Rightarrow> [] | Some t \<Rightarrow> [task_id t])"
| "handed_out _ st = []"

fun created_id :: "task_call \<Rightarrow> ustring list" where
  "created_id (Task_Create now hex txt src) = [lit ''task_'' @ hex]"
| "created_id _ = []"

fun run_tasks :: "py_runtime \<Rightarrow> task_call list \<Rightarrow> task_store \<Rightarrow> ustring list" where
  "run_tasks U [] st = []"
| "run_tasks U (c # cs) st = handed_out c st @ run_tasks U cs (task_step U c st)"

definition taken :: "ustring \<Rightarrow> task_store \<Rightarrow> bool" where
  "taken k st = (case dict_get st k of None \<Rightarrow> False | Some t \<Rightarrow> task_status t \<noteq> ''pending'')"

lemma taken_put:
  "dict_ok st \<Longrightarrow> taken k (dict_put j t st) = (if k = j then task_status t \<noteq> ''pending'' else taken k st)"
  by (simp add: taken_def dict_put_get)

lemma taken_step:
  assumes "tasks_ok st" "taken k st" "k \<notin> set (created_id c)"
  shows "taken k (task_step U c st)"
proof -
  have ok: "dict_ok st" using assms(1) by (simp add: tasks_ok_def)
  show ?thesis
    using assms(2,3)
    by (cases c) (auto simp: task_create_def next_pending_def task_complete_def task_cancel_def
        claimed_def Let_def taken_put [OF ok] split: option.split list.split)
qed

lemma handed_out_pending:
  assumes "tasks_ok st" "k \<in> set (handed_out c st)"
  shows "\<not> taken k st \<and> taken k (task_step U c st) \<and> handed_out c st = [k] \<and> created_id c = []"
proof -
  obtain now t ts where c: "c = Task_Next now True" and p: "pending_tasks st = t # ts" "k = task_id t"
    using assms(2)
    by (cases "(c, st)" rule: handed_out.cases)
      (auto simp: next_pending_def claimed_def Let_def split: option.splits list.splits)
  have "dict_ok st" using assms(1) by (simp add: tasks_ok_def)
  then show ?thesis
    using pending_stored [OF assms(1), of t] p
    by (simp add: c next_pending_claims [OF p(1)] taken_put) (simp add: claimed_def taken_def)
qed

lemma taken_not_handed_out:
  "tasks_ok st \<Longrightarrow> taken k st \<Longrightarrow> k \<notin> set (concat (map created_id cs)) \<Longrightarrow> k \<notin> set (run_tasks U cs st)"
proof (induction cs arbitrary: st)
  case (Cons c cs)
  then show ?case
    using handed_out_pending [of st k c U] taken_step [of st k c U] tasks_ok_step [of st U c] by auto
qed simp

lemma step_keys: "fst ` set (task_step U c st) \<subseteq> fst ` set st \<union> set (created_id c)"
  if "tasks_ok st"
proof -
  have "task_id t \<in> fst ` set st" if "pending_tasks st = t # ts" for t ts
    using pending_stored [OF \<open>tasks_ok st\<close>, of t] that dict_get_None_iff [of st "task_id t"] by auto
  moreover have "task_id t \<in> fst ` set st" if "dict_get st k = Some t" for k t
    using tasks_ok_get [OF \<open>tasks_ok st\<close> that] that dict_get_None_iff [of st k] by auto
  ultimately show ?thesis
    by (cases c) (auto simp: task_create_def next_pending_def task_complete_def task_cancel_def
        claimed_def Let_def split: option.split list.split)
qed

text \<open>Whatever tasks are created, claimed, completed and cancelled in between, no task is handed
  out twice, provided that the ids that \<open>uuid4\<close> makes up are new.\<close>

theorem task_claimed_once:
  assumes "tasks_ok st" "distinct (concat (map created_id cs))"
    "set (concat (map created_id cs)) \<inter> fst ` set st = {}"
  shows "distinct (run_tasks U cs st)"
  using assms
proof (induction cs arbitrary: st)
  case (Cons c cs)
  let ?st = "task_step U c st"
  have ok: "tasks_ok ?st" by (rule tasks_ok_step [OF Cons.prems(1)])
  have rest: "distinct (run_tasks U cs ?st)"
  proof (rule Cons.IH [OF ok])
    show "distinct (concat (map created_id cs))" using Cons.prems(2) by simp
    show "set (concat (map created_id cs)) \<inter> fst ` set ?st = {}"
      using Cons.prems(2,3) step_keys [OF Cons.prems(1), of U c]
      unfolding list.map concat.simps distinct_append set_append by blast
  qed
  have once: "k \<notin> set (run_tasks U cs ?st) \<and> handed_out c st = [k]" if "k \<in> set (handed_out c st)" for k
  proof -
    note h = handed_out_pending [OF Cons.prems(1) that, of U]
    then have "k \<in> fst ` set ?st"
      using dict_get_None_iff [of ?st k] by (auto simp: taken_def split: option.splits)
    then have "k \<in> fst ` set st" using step_keys [OF Cons.prems(1), of U c] h by auto
    then have "k \<notin> set (concat (map created_id cs))" using Cons.prems(3) by auto
    then show ?thesis using taken_not_handed_out [OF ok, of k cs U] h by simp
  qed
  show ?case
  proof (cases "handed_out c st")
    case (Cons k ks)
    then show ?thesis using once [of k] rest by simp
  qed (simp add: rest)
qed simp

section \<open>Concrete runs\<close>

definition demo_task :: "string \<Rightarrow> real \<Rightarrow> user_task" where
  "demo_task s now = \<lparr>task_id = lit s, task_text = lit ''go'', task_source = lit ''control_client'',
     task_status = ''pending'', task_created_at = now, task_updated_at = now,
     task_claimed_at = None, task_completed_at = None\<rparr>"

definition demo_tasks :: task_store where
  "demo_tasks = [(lit ''task_a'', demo_task ''task_a'' 7), (lit ''task_b'', demo_task ''task_b'' 3)]"

lemma demo_tasks_ok: "tasks_ok demo_tasks"
  by (simp add: demo_tasks_def demo_task_def tasks_ok_def dict_ok_def lit_def)

lemma claims_drain_queue_witness:
  "claims [10, 11, 12] demo_tasks =
     [Some (claimed 10 (demo_task ''task_b'' 3)), Some (claimed 11 (demo_task ''task_a'' 7)), None]"
proof -
  have "pending_tasks demo_tasks = [demo_task ''task_b'' 3, demo_task ''task_a'' 7]"
    by (simp add: pending_tasks_def by_creation_def demo_tasks_def demo_task_def)
  then show ?thesis using claims_drain_queue [OF demo_tasks_ok, of "[10, 11, 12]"] by simp
qed

lemma task_claimed_once_witness:
  "distinct (run_tasks ascii_runtime
     [Task_Next 10 True, Task_Create 11 (lit ''c'') (lit ''go'') [], Task_Next 12 True,
      Task_Cancel 13 (lit ''task_a''), Task_Next 14 True] demo_tasks)"
  by (rule task_claimed_once [OF demo_tasks_ok]) (simp_all add: demo_tasks_def lit_def)

end
