(* ===== verification/Rate_Limit.thy ===== *)
theory Rate_Limit
  imports Py_Prelude
begin

text \<open>
  \<open>omni_control/rate_limit.py\<close>: the limiter in front of pairing and of the requests that change
  state.  Every operation takes the time it uses.
\<close>

record rate_limit_bucket =
  attempts :: "real list"
  locked_until :: real

record rate_limiter =
  max_attempts :: nat
  window_seconds :: real
  lockout_seconds :: real
  buckets :: "(ustring \<times> rate_limit_bucket) list"

definition bucket_of :: "rate_limiter \<Rightarrow> ustring \<Rightarrow> rate_limit_bucket" where
  "bucket_of l key =
     (case dict_get (buckets l) key of None \<Rightarrow> \<lparr>attempts = [], locked_until = 0\<rparr> | Some b \<Rightarrow> b)"

definition put_bucket :: "ustring \<Rightarrow> rate_limit_bucket \<Rightarrow> rate_limiter \<Rightarrow> rate_limiter" where
  "put_bucket key b l = l\<lparr>buckets := dict_put key b (buckets l)\<rparr>"

definition recent :: "rate_limiter \<Rightarrow> real \<Rightarrow> real list \<Rightarrow> real list" where
  "recent l now items = filter (\<lambda>item. now - window_seconds l \<le> item) items"

definition rate_check :: "ustring \<Rightarrow> real \<Rightarrow> (rate_limiter, unit) py_op" where
  "rate_check key now l =
     (let b = bucket_of l key in
      if now < locked_until b
      then (put_bucket key b l, Inl (Permission_Error (lit ''rate limit locked'')))
      else
        let b' = b\<lparr>attempts := recent l now (attempts b)\<rparr> in
        if max_attempts l \<le> length (attempts b')
        then (put_bucket key (b'\<lparr>locked_until := now + lockout_seconds l\<rparr>) l,
              Inl (Permission_Error (lit ''rate limit exceeded'')))
        else (put_bucket key b' l, Inr ()))"

definition record_failure :: "ustring \<Rightarrow> real \<Rightarrow> rate_limiter \<Rightarrow> rate_limiter" where
  "record_failure key now l =
     (let b = bucket_of l key in
      put_bucket key (b\<lparr>attempts := recent l now (attempts b) @ [now]\<rparr>) l)"

definition check_and_record :: "ustring \<Rightarrow> real \<Rightarrow> (rate_limiter, unit) py_op" where
  "check_and_record key now = py_bind (rate_check key now) (\<lambda>_ l. (record_failure key now l, Inr ()))"

definition rate_clear :: "ustring \<Rightarrow> rate_limiter \<Rightarrow> rate_limiter" where
  "rate_clear key l = l\<lparr>buckets := dict_pop key (buckets l)\<rparr>"

definition rate_clear_all :: "rate_limiter \<Rightarrow> rate_limiter" where
  "rate_clear_all l = l\<lparr>buckets := []\<rparr>"

section \<open>How many attempts a client gets\<close>

text \<open>The attempts that are let through, in a run of attempts by clients at given times.\<close>

fun admitted :: "(ustring \<times> real) list \<Rightarrow> rate_limiter \<Rightarrow> (ustring \<times> real) list" where
  "admitted [] l = []"
| "admitted ((key, now) # calls) l =
     (case check_and_record key now l of
        (l', Inl e) \<Rightarrow> admitted calls l' | (l', Inr _) \<Rightarrow> (key, now) # admitted calls l')"

definition times_of :: "ustring \<Rightarrow> (ustring \<times> real) list \<Rightarrow> real list" where
  "times_of key calls = map snd (filter (\<lambda>c. fst c = key) calls)"

definition same_limits :: "rate_limiter \<Rightarrow> rate_limiter \<Rightarrow> bool" where
  "same_limits l l' =
     (max_attempts l' = max_attempts l \<and> window_seconds l' = window_seconds l \<and>
      lockout_seconds l' = lockout_seconds l)"

lemma put_bucket_of:
  "dict_ok (buckets l) \<Longrightarrow> bucket_of (put_bucket key b l) j = (if j = key then b else bucket_of l j)"
  by (simp add: bucket_of_def put_bucket_def dict_put_get)

lemma put_bucket_ok: "dict_ok (buckets l) \<Longrightarrow> dict_ok (buckets (put_bucket key b l))"
  by (simp add: put_bucket_def dict_put_ok)

lemma put_bucket_limits [simp]:
  "max_attempts (put_bucket key b l) = max_attempts l" "window_seconds (put_bucket key b l) = window_seconds l"
  "lockout_seconds (put_bucket key b l) = lockout_seconds l"
  by (simp_all add: put_bucket_def)

lemma recent_recent [simp]: "recent l now (recent l now xs) = recent l now xs"
  by (simp add: recent_def)

lemma check_and_record_ok:
  assumes "dict_ok (buckets l)" "check_and_record key now l = (l', r)"
  shows "dict_ok (buckets l') \<and> same_limits l l' \<and> (\<forall>j. j \<noteq> key \<longrightarrow> bucket_of l' j = bucket_of l j)"
  using assms
  by (auto simp: check_and_record_def py_bind_def rate_check_def record_failure_def Let_def
      put_bucket_of put_bucket_ok same_limits_def split: if_splits)

lemma admitted_bucket:
  assumes "dict_ok (buckets l)" "check_and_record key now l = (l', Inr u)"
  shows "length (recent l now (attempts (bucket_of l key))) < max_attempts l \<and>
    attempts (bucket_of l' key) = recent l now (attempts (bucket_of l key)) @ [now]"
  using assms
  by (auto simp: check_and_record_def py_bind_def rate_check_def record_failure_def Let_def
      put_bucket_of put_bucket_ok recent_def split: if_splits)

lemma length_filter_mono:
  "(\<And>x. x \<in> set xs \<Longrightarrow> P x \<Longrightarrow> Q x) \<Longrightarrow> length (filter P xs) \<le> length (filter Q xs)"
  by (induction xs) auto

lemma refused_bucket:
  assumes "dict_ok (buckets l)" "check_and_record key now l = (l', Inl e)"
  shows "attempts (bucket_of l' key) \<in> {attempts (bucket_of l key), recent l now (attempts (bucket_of l key))}"
  using assms
  by (auto simp: check_and_record_def py_bind_def rate_check_def Let_def put_bucket_of split: if_splits)

text \<open>The bucket of a client remembers every admitted attempt that may still count.\<close>

definition remembers :: "rate_limiter \<Rightarrow> ustring \<Rightarrow> real \<Rightarrow> real list \<Rightarrow> bool" where
  "remembers l key now past =
     (\<exists>cut \<le> now - window_seconds l. attempts (bucket_of l key) = filter (\<lambda>a. cut \<le> a) past)"

lemma remembers_recent:
  assumes "remembers l key now past" "now \<le> t"
  shows "recent l t (attempts (bucket_of l key)) = filter (\<lambda>a. t - window_seconds l \<le> a) past"
proof -
  obtain cut where cut: "cut \<le> now - window_seconds l" "attempts (bucket_of l key) = filter (\<lambda>a. cut \<le> a) past"
    using assms(1) unfolding remembers_def by blast
  have "(cut \<le> a \<and> t - window_seconds l \<le> a) = (t - window_seconds l \<le> a)" for a
    using cut(1) assms(2) by linarith
  then show ?thesis by (simp only: recent_def cut(2) filter_filter)
qed

definition in_window :: "real \<Rightarrow> real \<Rightarrow> real list \<Rightarrow> nat" where
  "in_window t w ts = length (filter (\<lambda>a. t \<le> a \<and> a \<le> t + w) ts)"

text \<open>The attempts of one client: the next one is refused or fits into every window it is in.\<close>

lemma admitted_window:
  assumes "dict_ok (buckets l)" "sorted (start # map snd calls)" "0 \<le> window_seconds l"
    "remembers l key start past" "\<forall>a \<in> set past. a \<le> start" "\<forall>t. in_window t (window_seconds l) past \<le> max_attempts l"
  shows "in_window t (window_seconds l) (past @ times_of key (admitted calls l)) \<le> max_attempts l"
  using assms
proof (induction calls arbitrary: l start past)
  case Nil
  then show ?case by (simp add: times_of_def)
next
  case (Cons c calls)
  obtain k now where c: "c = (k, now)" by (cases c)
  obtain l' r where step: "check_and_record k now l = (l', r)" by (cases "check_and_record k now l")
  note ok = check_and_record_ok [OF Cons.prems(1) step]
  have now: "start \<le> now" "sorted (now # map snd calls)" using Cons.prems(2) by (auto simp: c)
  have w: "window_seconds l' = window_seconds l" "max_attempts l' = max_attempts l"
    using ok by (auto simp: same_limits_def)
  have old: "\<forall>a \<in> set past. a \<le> now" using Cons.prems(5) now by force
  have cut: "\<exists>cut \<le> now - window_seconds l. attempts (bucket_of l key) = filter (\<lambda>a. cut \<le> a) past"
    using Cons.prems(4) now(1) unfolding remembers_def by (meson diff_right_mono order_trans)
  note rec = remembers_recent [OF Cons.prems(4) now(1)]
  show ?case
  proof (cases "k = key \<and> is_ok r")
    case True
    then have step': "check_and_record key now l = (l', Inr ())" using step by (cases r) (auto simp: is_ok_def)
    note b = admitted_bucket [OF Cons.prems(1) step']
    have "remembers l' key now (past @ [now])"
      unfolding remembers_def using b rec Cons.prems(3)
      by (intro exI [of _ "now - window_seconds l"]) (simp add: w)
    moreover have "in_window t (window_seconds l) (past @ [now]) \<le> max_attempts l" for t
    proof (cases "t \<le> now \<and> now \<le> t + window_seconds l")
      case True
      have "in_window t (window_seconds l) past \<le> length (filter (\<lambda>a. now - window_seconds l \<le> a) past)"
        unfolding in_window_def using True by (intro length_filter_mono) auto
      then show ?thesis using b rec True by (simp add: in_window_def)
    qed (use Cons.prems(6) in \<open>auto simp: in_window_def\<close>)
    ultimately have "in_window t (window_seconds l') ((past @ [now]) @ times_of key (admitted calls l')) \<le> max_attempts l'"
      using ok now Cons.prems(3) old w by (intro Cons.IH [of l' now]) auto
    then show ?thesis using True step' by (simp add: c w times_of_def)
  next
    case False
    have "remembers l' key now past"
    proof (cases "k = key")
      case True
      then obtain e where "check_and_record key now l = (l', Inl e)"
        using False step by (cases r) (auto simp: is_ok_def)
      note b = refused_bucket [OF Cons.prems(1) this]
      show ?thesis
      proof (cases "attempts (bucket_of l' key) = attempts (bucket_of l key)")
        case False
        then show ?thesis using b rec by (auto simp: remembers_def w intro!: exI [of _ "now - window_seconds l"])
      qed (use cut in \<open>simp add: remembers_def w\<close>)
    qed (use ok cut in \<open>simp add: remembers_def w\<close>)
    then have "in_window t (window_seconds l') (past @ times_of key (admitted calls l')) \<le> max_attempts l'"
      using ok now Cons.prems(3,6) old w by (intro Cons.IH [of l' now]) auto
    then show ?thesis using False step by (auto simp: c w times_of_def is_ok_def split: sum.split)
  qed
qed

text \<open>C24.  However many clients call and however often, no client gets more than
  \<open>max_attempts\<close> calls through in any interval of \<open>window_seconds\<close>, provided the clock does
  not run backwards.  The interval may start anywhere, it need not be aligned with a call.\<close>

theorem rate_limit_window:
  assumes "buckets l = []" "0 \<le> window_seconds l" "sorted (map snd calls)"
  shows "length (filter (\<lambda>(j, a). j = key \<and> t \<le> a \<and> a \<le> t + window_seconds l) (admitted calls l)) \<le>
    max_attempts l"
proof (cases calls)
  case (Cons c cs)
  have "in_window t (window_seconds l) ([] @ times_of key (admitted calls l)) \<le> max_attempts l"
    using assms by (intro admitted_window [of _ "snd c"])
      (simp_all add: Cons remembers_def bucket_of_def dict_get_def in_window_def exI [of _ "snd c - window_seconds l"])
  moreover have "in_window t w (times_of key cs) =
      length (filter (\<lambda>(j, a). j = key \<and> t \<le> a \<and> a \<le> t + w) cs)" for w cs
    by (induction cs) (auto simp: in_window_def times_of_def)
  ultimately show ?thesis by simp
qed simp

lemma rate_limit_window_witness:
  "length (filter (\<lambda>(j, a). j = lit ''a'' \<and> 0 \<le> a \<and> a \<le> 0 + 60)
     (admitted [(lit ''a'', 1), (lit ''b'', 2), (lit ''a'', 3), (lit ''a'', 4)]
       \<lparr>max_attempts = 2, window_seconds = 60, lockout_seconds = 300, buckets = []\<rparr>)) \<le> 2"
  using rate_limit_window [of "\<lparr>max_attempts = 2, window_seconds = 60, lockout_seconds = 300, buckets = []\<rparr>"
      "[(lit ''a'', 1), (lit ''b'', 2), (lit ''a'', 3), (lit ''a'', 4)]" "lit ''a''" 0] by simp

end
