(* ===== verification/Web_Socket.thy ===== *)
theory Web_Socket
  imports Py_Prelude "HOL-Library.Word"
begin

text \<open>
  \<open>omni_control/websocket.py\<close>: the frames in which the control service pushes events to a
  client.  The payload is the UTF-8 text that \<open>json.dumps\<close> produces, as bytes.  The reader is the
  one that RFC 6455, section 5.2, prescribes for unmasked final text frames.
\<close>

definition websocket_text_frame :: "8 word list \<Rightarrow> 8 word list" where
  "websocket_text_frame data =
     (let n = length data;
          byte = (\<lambda>s. of_nat (take_bit 8 (drop_bit s n))) in
      (if n < 126 then [0x81, of_nat n]
       else if n < 65536 then [0x81, 126, byte 8, byte 0]
       else [0x81, 127, byte 56, byte 48, byte 40, byte 32, byte 24, byte 16, byte 8, byte 0]) @ data)"

definition websocket_origin_allowed :: "ustring option \<Rightarrow> ustring \<Rightarrow> bool" where
  "websocket_origin_allowed origin allowed_origin =
     (case origin of None \<Rightarrow> False | Some s \<Rightarrow> s \<noteq> [] \<and> s = allowed_origin)"

section \<open>Reading frames\<close>

definition big_endian :: "8 word list \<Rightarrow> nat" where
  "big_endian bs = foldl (\<lambda>acc b. acc * 256 + unat b) 0 bs"

definition read_body :: "nat \<Rightarrow> 8 word list \<Rightarrow> (8 word list \<times> 8 word list) option" where
  "read_body n bs = (if length bs < n then None else Some (take n bs, drop n bs))"

fun read_frame :: "8 word list \<Rightarrow> (8 word list \<times> 8 word list) option" where
  "read_frame (h # l # bs) =
     (if h \<noteq> 0x81 \<or> 128 \<le> unat l then None
      else if unat l < 126 then read_body (unat l) bs
      else
        let k = (if unat l = 126 then 2 else 8) in
        if length bs < k then None
        else if 2 ^ 63 \<le> big_endian (take k bs) then None
        else read_body (big_endian (take k bs)) (drop k bs))"
| "read_frame _ = None"

fun read_frames :: "nat \<Rightarrow> 8 word list \<Rightarrow> 8 word list list option" where
  "read_frames fuel [] = Some []"
| "read_frames 0 bs = None"
| "read_frames (Suc fuel) bs =
     (case read_frame bs of
        None \<Rightarrow> None
      | Some (d, rest) \<Rightarrow> map_option ((#) d) (read_frames fuel rest))"

lemma unat_byte: "unat (of_nat (take_bit 8 m) :: 8 word) = m mod 256"
  by (simp add: unat_of_nat take_bit_eq_mod)

lemma bytes_fold:
  "foldl (\<lambda>acc b. acc * 256 + unat b) acc
     (map (\<lambda>i. of_nat (take_bit 8 (drop_bit (8 * i) n)) :: 8 word) (rev [0..<k])) = acc * 256 ^ k + n mod 256 ^ k"
proof (induction k arbitrary: acc)
  case (Suc k)
  have "drop_bit (8 * k) n = n div 256 ^ k"
    by (simp add: drop_bit_eq_div power_mult)
  moreover have "n mod 256 ^ Suc k = 256 ^ k * (n div 256 ^ k mod 256) + n mod 256 ^ k"
    using mod_mult2_eq [of n "256 ^ k" 256] by (simp add: mult.commute)
  ultimately show ?case
    using Suc [of "acc * 256 + n div 256 ^ k mod 256"] by (simp add: unat_byte algebra_simps del: power_Suc) simp
qed simp

lemma big_endian_bytes:
  "n < 256 ^ k \<Longrightarrow> big_endian (map (\<lambda>i. of_nat (take_bit 8 (drop_bit (8 * i) n))) (rev [0..<k])) = n"
  unfolding big_endian_def bytes_fold by simp

lemma two_bytes:
  "n < 65536 \<Longrightarrow> big_endian [of_nat (take_bit 8 (drop_bit 8 n)), of_nat (take_bit 8 (drop_bit 0 n))] = n"
  using big_endian_bytes [of n 2] by (simp add: upt_rec)

lemma eight_bytes:
  assumes "n < 2 ^ 64"
  shows "big_endian (map (\<lambda>s. of_nat (take_bit 8 (drop_bit s n))) [56, 48, 40, 32, 24, 16, 8, 0]) = n"
proof -
  have "rev [0..<8] = [7, 6, 5, 4, 3, 2, 1, 0 :: nat]" by (simp add: upt_rec)
  then show ?thesis using big_endian_bytes [of n 8] assms by simp
qed

lemma read_body_append: "n = length d \<Longrightarrow> read_body n (d @ rest) = Some (d, rest)"
  by (simp add: read_body_def)

lemma read_frame_long:
  assumes "length ls = k" "m = 126 \<and> k = 2 \<or> m = 127 \<and> k = 8"
    "big_endian ls = length d" "length d < 2 ^ 63"
  shows "read_frame (0x81 # m # ls @ d @ rest) = Some (d, rest)"
proof -
  have m: "unat m = (if k = 2 then 126 else 127)" "k = (if unat m = 126 then 2 else 8)"
    using assms(2) by auto
  have "read_frame (0x81 # m # ls @ d @ rest) = read_body (big_endian (take k (ls @ d @ rest))) (drop k (ls @ d @ rest))"
    unfolding read_frame.simps m(2) [symmetric] Let_def using assms m(1) by simp
  then show ?thesis using assms(1,3) by (simp add: read_body_append)
qed

lemma read_frame_written:
  assumes "length d < 2 ^ 63"
  shows "read_frame (websocket_text_frame d @ rest) = Some (d, rest)"
proof -
  let ?byte = "\<lambda>s. of_nat (take_bit 8 (drop_bit s (length d))) :: 8 word"
  consider "length d < 126" | "\<not> length d < 126" "length d < 65536"
    | "\<not> length d < 126" "\<not> length d < 65536" by linarith
  then show ?thesis
  proof cases
    case 1
    then show ?thesis
      by (simp add: websocket_text_frame_def Let_def unat_of_nat read_body_append)
  next
    case 2
    have "read_frame (0x81 # 126 # [?byte 8, ?byte 0] @ d @ rest) = Some (d, rest)"
      by (rule read_frame_long [OF _ _ two_bytes [OF 2(2)] assms, of 2]) simp_all
    then show ?thesis
      unfolding websocket_text_frame_def Let_def if_not_P [OF 2(1)] if_P [OF 2(2)]
      by (simp only: append.simps append_assoc)
  next
    case 3
    have "big_endian (map ?byte [56, 48, 40, 32, 24, 16, 8, 0]) = length d"
      using assms by (intro eight_bytes) simp
    then have "read_frame (0x81 # 127 # map ?byte [56, 48, 40, 32, 24, 16, 8, 0] @ d @ rest) = Some (d, rest)"
      by (rule read_frame_long [OF _ _ _ assms, of _ 8, rotated 2]) simp_all
    then show ?thesis
      unfolding websocket_text_frame_def Let_def if_not_P [OF 3(1)] if_not_P [OF 3(2)]
      by (simp only: append.simps append_assoc list.map)
  qed
qed

lemma read_frames_step:
  "bs \<noteq> [] \<Longrightarrow> read_frames (Suc fuel) bs =
     (case read_frame bs of None \<Rightarrow> None | Some (d, rest) \<Rightarrow> map_option ((#) d) (read_frames fuel rest))"
  by (cases bs) simp_all

lemma websocket_text_frame_nonempty [simp]: "websocket_text_frame d \<noteq> []"
  by (simp add: websocket_text_frame_def Let_def)

text \<open>C37.  Whatever sequence of events the service pushes, a reader that follows RFC 6455 takes the
  stream of bytes apart into exactly the payloads that were sent: the three forms of the length field
  never confuse the boundaries.  The bound is the largest length the protocol admits.\<close>

theorem websocket_stream_roundtrip:
  assumes "list_all (\<lambda>d. length d < 2 ^ 63) ds"
  shows "read_frames (length ds) (concat (map websocket_text_frame ds)) = Some ds"
  using assms
proof (induction ds)
  case (Cons d ds)
  then show ?case
    using read_frame_written [of d "concat (map websocket_text_frame ds)"]
    by (simp add: read_frames_step)
qed simp

lemma websocket_stream_roundtrip_witness:
  "read_frames 3 (concat (map websocket_text_frame [replicate 125 7, replicate 126 8, replicate 65536 9])) =
     Some [replicate 125 7, replicate 126 8, replicate 65536 9]"
proof -
  have n: "length [a, b, c] = 3" for a b c :: "8 word list" by simp
  have "list_all (\<lambda>d. length d < 2 ^ 63) [replicate 125 7, replicate 126 8, replicate 65536 (9 :: 8 word)]"
    unfolding list.pred_inject length_replicate by simp
  from websocket_stream_roundtrip [OF this, unfolded n] show ?thesis by assumption
qed

end
