(* ===== verification/Output_Truncation.thy ===== *)
theory Output_Truncation
  imports Rust_Str
begin

text \<open>
  \<open>utils/string/src/truncate.rs\<close> and \<open>utils/output-truncation/src/lib.rs\<close>: cutting the
  middle out of long output.  Offsets are bytes of the UTF-8 encoding, as in the source; a slice at a
  byte offset is the characters before or after it.  The policy is \<open>TruncationPolicy\<close> of
  \<open>protocol/src/protocol.rs\<close>.
\<close>

section \<open>Tokens and bytes\<close>

definition APPROX_BYTES_PER_TOKEN :: nat where
  "APPROX_BYTES_PER_TOKEN = 4"

definition approx_token_count :: "ustring \<Rightarrow> nat" where
  "approx_token_count txt =
     sat_add (str_len txt) (APPROX_BYTES_PER_TOKEN - 1) div APPROX_BYTES_PER_TOKEN"

definition approx_bytes_for_tokens :: "nat \<Rightarrow> nat" where
  "approx_bytes_for_tokens tokens = sat_mul tokens APPROX_BYTES_PER_TOKEN"

definition approx_tokens_from_byte_count :: "nat \<Rightarrow> nat" where
  "approx_tokens_from_byte_count bytes =
     sat_add bytes (APPROX_BYTES_PER_TOKEN - 1) div APPROX_BYTES_PER_TOKEN"

definition approx_tokens_from_byte_count_i64 :: "int \<Rightarrow> int" where
  "approx_tokens_from_byte_count_i64 bytes =
     (if bytes \<le> 0 then 0
      else min (int (approx_tokens_from_byte_count (min (nat bytes) usize_max))) (2 ^ 63 - 1))"

datatype truncation_policy = Bytes nat | Tokens nat

fun token_budget :: "truncation_policy \<Rightarrow> nat" where
  "token_budget (Bytes bytes) = approx_tokens_from_byte_count bytes"
| "token_budget (Tokens tokens) = tokens"

fun byte_budget :: "truncation_policy \<Rightarrow> nat" where
  "byte_budget (Bytes bytes) = bytes"
| "byte_budget (Tokens tokens) = approx_bytes_for_tokens tokens"

section \<open>Cutting a string\<close>

fun str_take :: "nat \<Rightarrow> ustring \<Rightarrow> ustring" where
  "str_take n [] = []"
| "str_take n (c # s) = (if len_utf8 c \<le> n then c # str_take (n - len_utf8 c) s else [])"

fun str_drop :: "nat \<Rightarrow> ustring \<Rightarrow> ustring" where
  "str_drop n [] = []"
| "str_drop n (c # s) = (if len_utf8 c \<le> n then str_drop (n - len_utf8 c) s else c # s)"

text \<open>The loop of \<open>split_string\<close>: the end of the prefix, the start of the suffix, the number of
  removed characters and whether the suffix has started.\<close>

record split_state =
  prefix_end :: nat
  suffix_start :: nat
  removed_chars :: nat
  suffix_started :: bool

fun split_loop :: "nat \<Rightarrow> nat \<Rightarrow> nat \<Rightarrow> ustring \<Rightarrow> split_state \<Rightarrow> split_state" where
  "split_loop beginning_bytes tail_start_target idx [] st = st"
| "split_loop beginning_bytes tail_start_target idx (ch # s) st =
     (let char_end = idx + len_utf8 ch in
      split_loop beginning_bytes tail_start_target char_end s
        (if char_end \<le> beginning_bytes then st\<lparr>prefix_end := char_end\<rparr>
         else if tail_start_target \<le> idx then
           (if suffix_started st then st else st\<lparr>suffix_start := idx, suffix_started := True\<rparr>)
         else st\<lparr>removed_chars := sat_add (removed_chars st) 1\<rparr>))"

definition split_string :: "ustring \<Rightarrow> nat \<Rightarrow> nat \<Rightarrow> nat \<times> ustring \<times> ustring" where
  "split_string s beginning_bytes end_bytes =
     (if s = [] then (0, [], [])
      else
        let len = str_len s;
            tail_start_target = len - end_bytes;
            st = split_loop beginning_bytes tail_start_target 0 s
              \<lparr>prefix_end = 0, suffix_start = len, removed_chars = 0, suffix_started = False\<rparr>;
            start = (if suffix_start st < prefix_end st then prefix_end st else suffix_start st) in
        (removed_chars st, str_take (prefix_end st) s, str_drop start s))"

definition split_budget :: "nat \<Rightarrow> nat \<times> nat" where
  "split_budget budget = (let left = budget div 2 in (left, budget - left))"

abbreviation ellipsis :: uchar where
  "ellipsis \<equiv> 0x2026"

definition format_truncation_marker :: "bool \<Rightarrow> nat \<Rightarrow> ustring" where
  "format_truncation_marker use_tokens removed_count =
     [ellipsis] @ nat_decimal removed_count @
     (if use_tokens then lit '' tokens truncated'' else lit '' chars truncated'') @ [ellipsis]"

definition removed_units :: "bool \<Rightarrow> nat \<Rightarrow> nat \<Rightarrow> nat" where
  "removed_units use_tokens removed_bytes removed =
     (if use_tokens then approx_tokens_from_byte_count removed_bytes else removed)"

definition assemble_truncated_output :: "ustring \<Rightarrow> ustring \<Rightarrow> ustring \<Rightarrow> ustring" where
  "assemble_truncated_output before after marker = before @ marker @ after"

definition truncate_with_byte_estimate :: "ustring \<Rightarrow> nat \<Rightarrow> bool \<Rightarrow> ustring" where
  "truncate_with_byte_estimate s max_bytes use_tokens =
     (if s = [] then []
      else if max_bytes = 0
      then format_truncation_marker use_tokens (removed_units use_tokens (str_len s) (length s))
      else if str_len s \<le> max_bytes then s
      else
        let (left_budget, right_budget) = split_budget max_bytes;
            (removed, left, right) = split_string s left_budget right_budget;
            marker = format_truncation_marker use_tokens
              (removed_units use_tokens (str_len s - max_bytes) removed) in
        assemble_truncated_output left right marker)"

definition truncate_middle_chars :: "ustring \<Rightarrow> nat \<Rightarrow> ustring" where
  "truncate_middle_chars s max_bytes = truncate_with_byte_estimate s max_bytes False"

definition truncate_middle_with_token_budget :: "ustring \<Rightarrow> nat \<Rightarrow> ustring \<times> nat option" where
  "truncate_middle_with_token_budget s max_tokens =
     (if s = [] then ([], None)
      else if 0 < max_tokens \<and> str_len s \<le> approx_bytes_for_tokens max_tokens then (s, None)
      else
        let truncated = truncate_with_byte_estimate s (approx_bytes_for_tokens max_tokens) True;
            total_tokens = approx_token_count s in
        if truncated = s then (truncated, None) else (truncated, Some total_tokens))"

fun truncate_text :: "ustring \<Rightarrow> truncation_policy \<Rightarrow> ustring" where
  "truncate_text content (Bytes bytes) = truncate_middle_chars content bytes"
| "truncate_text content (Tokens tokens) = fst (truncate_middle_with_token_budget content tokens)"

definition formatted_truncate_text :: "ustring \<Rightarrow> truncation_policy \<Rightarrow> ustring" where
  "formatted_truncate_text content policy =
     (if str_len content \<le> byte_budget policy then content
      else lit ''Warning: truncated output (original token count: '' @ nat_decimal (approx_token_count content) @
        lit '')'' @ [newline] @ lit ''Total output lines: '' @ nat_decimal (length (str_lines content)) @
        [newline, newline] @ truncate_text content policy)"

section \<open>Output items\<close>

datatype image_detail = Auto | Low | High | Original

datatype output_item =
    InputText ustring
  | InputImage ustring "image_detail option"
  | InputAudio ustring
  | EncryptedContent ustring

fun item_text :: "output_item \<Rightarrow> ustring option" where
  "item_text (InputText txt) = Some txt"
| "item_text _ = None"

definition text_segments :: "output_item list \<Rightarrow> ustring list" where
  "text_segments items = List.map_filter item_text items"

fun push_text_segment :: "ustring \<Rightarrow> ustring \<Rightarrow> ustring" where
  "push_text_segment txt combined = (if combined = [] then combined else combined @ [newline]) @ txt"

definition formatted_truncate_text_content_items_with_policy ::
    "output_item list \<Rightarrow> truncation_policy \<Rightarrow> output_item list \<times> nat option" where
  "formatted_truncate_text_content_items_with_policy items policy =
     (if text_segments items = [] then (items, None)
      else
        let combined = fold push_text_segment (text_segments items) [] in
        if str_len combined \<le> byte_budget policy then (items, None)
        else (InputText (formatted_truncate_text combined policy) #
                filter (\<lambda>item. item_text item = None) items,
              Some (approx_token_count combined)))"

record truncation_state =
  truncated_out :: "output_item list"
  remaining_budget :: nat
  omitted_text_items :: nat
  omitted_audio_items :: nat

fun text_cost :: "truncation_policy \<Rightarrow> ustring \<Rightarrow> nat" where
  "text_cost (Bytes _) txt = str_len txt"
| "text_cost (Tokens _) txt = approx_token_count txt"

fun audio_cost :: "truncation_policy \<Rightarrow> nat \<Rightarrow> nat" where
  "audio_cost (Bytes _) token_cost = approx_bytes_for_tokens token_cost"
| "audio_cost (Tokens _) token_cost = token_cost"

fun snippet_policy :: "truncation_policy \<Rightarrow> nat \<Rightarrow> truncation_policy" where
  "snippet_policy (Bytes _) remaining = Bytes remaining"
| "snippet_policy (Tokens _) remaining = Tokens remaining"

fun initial_budget :: "truncation_policy \<Rightarrow> nat" where
  "initial_budget (Bytes b) = byte_budget (Bytes b)"
| "initial_budget (Tokens n) = token_budget (Tokens n)"

fun truncate_item ::
    "(ustring \<Rightarrow> nat) \<Rightarrow> truncation_policy \<Rightarrow> output_item \<Rightarrow> truncation_state \<Rightarrow> truncation_state" where
  "truncate_item estimate policy (InputText txt) st =
     (if remaining_budget st = 0 then st\<lparr>omitted_text_items := omitted_text_items st + 1\<rparr>
      else
        let cost = text_cost policy txt in
        if cost \<le> remaining_budget st
        then st\<lparr>truncated_out := truncated_out st @ [InputText txt],
                remaining_budget := remaining_budget st - cost\<rparr>
        else
          let snippet = truncate_text txt (snippet_policy policy (remaining_budget st)) in
          (if snippet = [] then st\<lparr>omitted_text_items := omitted_text_items st + 1\<rparr>
           else st\<lparr>truncated_out := truncated_out st @ [InputText snippet]\<rparr>)\<lparr>remaining_budget := 0\<rparr>)"
| "truncate_item estimate policy (InputImage url detail) st =
     st\<lparr>truncated_out := truncated_out st @ [InputImage url detail]\<rparr>"
| "truncate_item estimate policy (InputAudio url) st =
     (let cost = audio_cost policy (estimate url) in
      if cost \<le> remaining_budget st
      then st\<lparr>truncated_out := truncated_out st @ [InputAudio url],
              remaining_budget := remaining_budget st - cost\<rparr>
      else st\<lparr>omitted_audio_items := omitted_audio_items st + 1\<rparr>)"
| "truncate_item estimate policy (EncryptedContent content) st =
     st\<lparr>truncated_out := truncated_out st @ [EncryptedContent content]\<rparr>"

definition omitted_note :: "nat \<Rightarrow> ustring \<Rightarrow> output_item list" where
  "omitted_note n what =
     (if 0 < n then [InputText (lit ''[omitted '' @ nat_decimal n @ what)] else [])"

definition truncate_function_output_items_with_policy ::
    "(ustring \<Rightarrow> nat) \<Rightarrow> output_item list \<Rightarrow> truncation_policy \<Rightarrow> output_item list" where
  "truncate_function_output_items_with_policy estimate items policy =
     (let st = fold (truncate_item estimate policy) items
        \<lparr>truncated_out = [], remaining_budget = initial_budget policy,
         omitted_text_items = 0, omitted_audio_items = 0\<rparr> in
      truncated_out st @ omitted_note (omitted_text_items st) (lit '' text items ...]'') @
      omitted_note (omitted_audio_items st) (lit '' audio items ...]''))"

section \<open>What is kept\<close>

lemma str_take_append: "str_len l = n \<Longrightarrow> str_take n (l @ s) = l"
proof (induction l arbitrary: n)
  case Nil
  then show ?case by (cases s) (simp_all add: len_utf8_def)
next
  case (Cons c l)
  then show ?case by auto
qed

lemma str_drop_append: "str_len l = n \<Longrightarrow> str_drop n (l @ s) = s"
proof (induction l arbitrary: n)
  case Nil
  then show ?case by (cases s) (simp_all add: len_utf8_def)
next
  case (Cons c l)
  then show ?case by auto
qed

lemma split_loop_suffix:
  "b < idx \<Longrightarrow> t \<le> idx \<Longrightarrow> suffix_started st \<Longrightarrow> split_loop b t idx s st = st"
  by (induction s arbitrary: idx) (simp_all add: Let_def)

text \<open>From the first character that does not fit the prefix on: characters are removed until the
  tail target, and the rest is the suffix.\<close>

lemma split_loop_middle:
  assumes "s = [] \<or> b < idx + len_utf8 (hd s)" and "\<not> suffix_started st"
    and "removed_chars st + length s \<le> usize_max"
  shows "\<exists>m r. s = m @ r \<and>
    split_loop b t idx s st = (if r = [] then st\<lparr>removed_chars := removed_chars st + length m\<rparr>
      else st\<lparr>removed_chars := removed_chars st + length m, suffix_start := idx + str_len m,
              suffix_started := True\<rparr>) \<and>
    (r \<noteq> [] \<longrightarrow> t \<le> idx + str_len m) \<and>
    (m \<noteq> [] \<longrightarrow> idx + str_len (butlast m) < t)"
  using assms
proof (induction s arbitrary: idx st)
  case Nil
  then show ?case by simp
next
  case (Cons c s)
  show ?case
  proof (cases "t \<le> idx")
    case True
    have "split_loop b t idx (c # s) st = st\<lparr>suffix_start := idx, suffix_started := True\<rparr>"
      using Cons.prems True by (simp add: Let_def split_loop_suffix)
    then show ?thesis using True by (intro exI [of _ "[]"] exI [of _ "c # s"]) simp
  next
    case False
    let ?st = "st\<lparr>removed_chars := removed_chars st + 1\<rparr>"
    have "sat_add (removed_chars st) 1 = removed_chars st + 1"
      using Cons.prems by (intro sat_add_exact) simp
    then have step: "split_loop b t idx (c # s) st = split_loop b t (idx + len_utf8 c) s ?st"
      using Cons.prems False by (simp add: Let_def)
    have "s = [] \<or> b < idx + len_utf8 c + len_utf8 (hd s)" using Cons.prems by simp
    from Cons.IH [OF this, of ?st] Cons.prems obtain m r where mr: "s = m @ r"
      "split_loop b t (idx + len_utf8 c) s ?st =
        (if r = [] then ?st\<lparr>removed_chars := removed_chars ?st + length m\<rparr>
         else ?st\<lparr>removed_chars := removed_chars ?st + length m,
                  suffix_start := idx + len_utf8 c + str_len m, suffix_started := True\<rparr>)"
      "r \<noteq> [] \<longrightarrow> t \<le> idx + len_utf8 c + str_len m"
      "m \<noteq> [] \<longrightarrow> idx + len_utf8 c + str_len (butlast m) < t"
      by auto
    show ?thesis using mr False step
      by (intro exI [of _ "c # m"] exI [of _ r]) (simp add: add.assoc)
  qed
qed

definition cut_at :: "nat \<Rightarrow> nat \<Rightarrow> nat \<Rightarrow> ustring \<Rightarrow> ustring \<Rightarrow> ustring \<Rightarrow> bool" where
  "cut_at b t idx l m r \<longleftrightarrow> idx + str_len l \<le> b \<and>
     (m @ r \<noteq> [] \<longrightarrow> b < idx + str_len l + len_utf8 (hd (m @ r))) \<and>
     (r \<noteq> [] \<longrightarrow> t \<le> idx + str_len l + str_len m) \<and>
     (m \<noteq> [] \<longrightarrow> idx + str_len l + str_len (butlast m) < t)"

definition split_result :: "nat \<Rightarrow> split_state \<Rightarrow> ustring \<Rightarrow> ustring \<Rightarrow> ustring \<Rightarrow> split_state \<Rightarrow> bool" where
  "split_result idx st l m r res \<longleftrightarrow> prefix_end res = idx + str_len l \<and> removed_chars res = length m \<and>
     suffix_start res = (if r = [] then suffix_start st else idx + str_len l + str_len m)"

lemma cut_at_Cons: "cut_at b t (idx + len_utf8 c) l m r \<Longrightarrow> cut_at b t idx (c # l) m r"
  by (simp add: cut_at_def add.assoc)

lemma split_result_Cons:
  "split_result (idx + len_utf8 c) (st\<lparr>prefix_end := x\<rparr>) l m r res \<Longrightarrow> split_result idx st (c # l) m r res"
  by (simp add: split_result_def add.assoc)

lemma split_loop_prefix:
  assumes "prefix_end st = idx" and "idx \<le> b" and "\<not> suffix_started st"
    and "removed_chars st = 0" and "length s \<le> usize_max"
  shows "\<exists>l m r. s = l @ m @ r \<and> split_result idx st l m r (split_loop b t idx s st) \<and> cut_at b t idx l m r"
  using assms
proof (induction s arbitrary: idx st)
  case Nil
  then show ?case by (simp add: split_result_def cut_at_def)
next
  case (Cons c s)
  show ?case
  proof (cases "idx + len_utf8 c \<le> b")
    case True
    let ?st = "st\<lparr>prefix_end := idx + len_utf8 c\<rparr>"
    have step: "split_loop b t idx (c # s) st = split_loop b t (idx + len_utf8 c) s ?st"
      using True by (simp add: Let_def)
    have "\<exists>l m r. s = l @ m @ r \<and>
        split_result (idx + len_utf8 c) ?st l m r (split_loop b t (idx + len_utf8 c) s ?st) \<and>
        cut_at b t (idx + len_utf8 c) l m r"
      by (rule Cons.IH) (use Cons.prems True in simp_all)
    then obtain l m r where "s = l @ m @ r"
      and "split_result (idx + len_utf8 c) ?st l m r (split_loop b t (idx + len_utf8 c) s ?st)"
      and "cut_at b t (idx + len_utf8 c) l m r" by blast
    then have "c # s = (c # l) @ m @ r"
      and "split_result idx st (c # l) m r (split_loop b t idx (c # s) st)"
      and "cut_at b t idx (c # l) m r"
      unfolding step by (simp, blast intro: split_result_Cons, blast intro: cut_at_Cons)
    then show ?thesis by blast
  next
    case False
    then have nofit: "c # s = [] \<or> b < idx + len_utf8 (hd (c # s))" by simp
    note middle = split_loop_middle [OF nofit, of st t, unfolded Cons.prems(4) add_0]
    obtain m r where mr: "c # s = m @ r"
      "split_loop b t idx (c # s) st = (if r = [] then st\<lparr>removed_chars := length m\<rparr>
         else st\<lparr>removed_chars := length m, suffix_start := idx + str_len m, suffix_started := True\<rparr>)"
      "r \<noteq> [] \<longrightarrow> t \<le> idx + str_len m" "m \<noteq> [] \<longrightarrow> idx + str_len (butlast m) < t"
      using middle [OF Cons.prems(3,5)] by blast
    have "split_result idx st [] m r (split_loop b t idx (c # s) st)"
      unfolding mr(2) using Cons.prems by (simp add: split_result_def)
    moreover have "hd (m @ r) = c" using mr(1) by (metis list.sel(1))
    then have "cut_at b t idx [] m r" using mr(3,4) Cons.prems(2) False by (simp add: cut_at_def)
    ultimately show ?thesis using mr(1) by (metis append_Nil)
  qed
qed

lemma split_string_spec:
  assumes "length s \<le> usize_max" and "split_string s b e = (n, l, r)"
  shows "\<exists>m. s = l @ m @ r \<and> n = length m \<and> str_len l \<le> b \<and> str_len r \<le> e \<and>
    (m @ r \<noteq> [] \<longrightarrow> b < str_len l + len_utf8 (hd (m @ r))) \<and>
    (m \<noteq> [] \<longrightarrow> e < str_len (last m # r))"
proof (cases "s = []")
  case True
  then show ?thesis using assms by (simp add: split_string_def)
next
  case False
  let ?st = "\<lparr>prefix_end = 0, suffix_start = str_len s, removed_chars = 0, suffix_started = False\<rparr>"
  let ?t = "str_len s - e"
  have "\<exists>l m r. s = l @ m @ r \<and> split_result 0 ?st l m r (split_loop b ?t 0 s ?st) \<and> cut_at b ?t 0 l m r"
    by (rule split_loop_prefix) (use assms(1) in simp_all)
  then obtain l' m r' where s: "s = l' @ m @ r'"
    and loop: "split_result 0 ?st l' m r' (split_loop b ?t 0 s ?st)" and cut: "cut_at b ?t 0 l' m r'"
    by blast
  have len: "str_len s = str_len l' + str_len m + str_len r'" by (simp add: s)
  have takes: "str_take (str_len l') s = l'" unfolding s by (rule str_take_append) simp
  have drops: "str_drop (str_len l' + str_len m) s = r'"
    using str_drop_append [of "l' @ m" "str_len l' + str_len m" r'] by (simp add: s)
  have split: "split_string s b e = (length m, l', r')"
    using False loop takes drops len by (cases "r' = []") (simp_all add: split_string_def split_result_def Let_def)
  have "m \<noteq> [] \<Longrightarrow> str_len m = str_len (butlast m) + len_utf8 (last m)"
    using str_len_simps(3) [of "butlast m" "[last m]"] by simp
  then have "str_len r' \<le> e" "m \<noteq> [] \<longrightarrow> e < str_len (last m # r')"
    using cut len by (cases "r' = []"; auto simp: cut_at_def)+
  then show ?thesis using s split cut assms(2) by (auto simp: cut_at_def)
qed

lemma truncate_with_byte_estimate_spec:
  assumes "str_len s \<le> usize_max" and "0 < mx" and "mx < str_len s"
  shows "\<exists>l m r. s = l @ m @ r \<and> m \<noteq> [] \<and>
    truncate_with_byte_estimate s mx tok =
      l @ format_truncation_marker tok (removed_units tok (str_len s - mx) (length m)) @ r \<and>
    str_len l \<le> mx div 2 \<and> mx div 2 < str_len (l @ [hd m]) \<and>
    str_len r \<le> mx - mx div 2 \<and> mx - mx div 2 < str_len (last m # r)"
proof -
  obtain n l r where split: "split_string s (mx div 2) (mx - mx div 2) = (n, l, r)"
    by (metis prod_cases3)
  have "length s \<le> usize_max" using assms(1) length_le_str_len [of s] by simp
  from split_string_spec [OF this split] obtain m where m: "s = l @ m @ r" "n = length m"
    "str_len l \<le> mx div 2" "str_len r \<le> mx - mx div 2"
    "m @ r \<noteq> [] \<longrightarrow> mx div 2 < str_len l + len_utf8 (hd (m @ r))"
    "m \<noteq> [] \<longrightarrow> mx - mx div 2 < str_len (last m # r)" by blast
  have "m \<noteq> []" using m(1,3,4) assms(3) by auto
  moreover have "truncate_with_byte_estimate s mx tok =
      l @ format_truncation_marker tok (removed_units tok (str_len s - mx) (length m)) @ r"
    using assms split m(2)
    by (auto simp: truncate_with_byte_estimate_def split_budget_def assemble_truncated_output_def Let_def)
  ultimately show ?thesis using m by (intro exI [of _ l] exI [of _ m] exI [of _ r]) simp
qed

fun counts_tokens :: "truncation_policy \<Rightarrow> bool" where
  "counts_tokens (Bytes _) = False"
| "counts_tokens (Tokens _) = True"

lemma truncate_text_estimate:
  assumes "0 < byte_budget p"
  shows "truncate_text s p = truncate_with_byte_estimate s (byte_budget p) (counts_tokens p)"
proof (cases p)
  case (Tokens n)
  then show ?thesis using assms
    by (auto simp: truncate_middle_with_token_budget_def truncate_with_byte_estimate_def Let_def)
qed (simp add: truncate_middle_chars_def)

lemma removed_units_exact:
  assumes "str_len s \<le> usize_max" and "0 < byte_budget p"
  shows "removed_units (counts_tokens p) (str_len s - byte_budget p) n =
    (if counts_tokens p then (str_len s - byte_budget p + 3) div 4 else n)"
proof (cases p)
  case (Tokens k)
  then have "4 \<le> byte_budget p"
    using assms(2) by (auto simp: approx_bytes_for_tokens_def APPROX_BYTES_PER_TOKEN_def sat_mul_def usize_max_def)
  moreover have "3 \<le> usize_max" by (simp add: usize_max_def)
  ultimately have "str_len s - byte_budget p + 3 \<le> usize_max" using assms(1) by linarith
  then show ?thesis using Tokens
    by (simp add: removed_units_def approx_tokens_from_byte_count_def APPROX_BYTES_PER_TOKEN_def)
qed (simp add: removed_units_def)

text \<open>C31.  Text over its budget is cut exactly once, in the middle: the result is a beginning and an
  end of the text around a marker.  The two parts are the longest that fit half the budget each, on
  character boundaries, and the marker states the number of characters removed, or the bytes over the
  budget in tokens, rounded up.\<close>

theorem truncate_text_keeps_ends:
  assumes "str_len s \<le> usize_max" and "0 < byte_budget p" and "byte_budget p < str_len s"
  shows "\<exists>l m r. s = l @ m @ r \<and> m \<noteq> [] \<and>
    truncate_text s p = l @ format_truncation_marker (counts_tokens p)
      (if counts_tokens p then (str_len s - byte_budget p + 3) div 4 else length m) @ r \<and>
    str_len l \<le> byte_budget p div 2 \<and> byte_budget p div 2 < str_len (l @ [hd m]) \<and>
    str_len r \<le> byte_budget p - byte_budget p div 2 \<and>
    byte_budget p - byte_budget p div 2 < str_len (last m # r)"
  using truncate_with_byte_estimate_spec [OF assms, of "counts_tokens p"]
  unfolding truncate_text_estimate [OF assms(2)] removed_units_exact [OF assms(1,2)] .

theorem truncate_text_keeps_ends_witness:
  "\<exists>l m r. lit ''abcdefgh'' = l @ m @ r \<and> m \<noteq> [] \<and>
    truncate_text (lit ''abcdefgh'') (Bytes 5) = l @ format_truncation_marker False (length m) @ r \<and>
    str_len l \<le> 2 \<and> 2 < str_len (l @ [hd m]) \<and> str_len r \<le> 3 \<and> 3 < str_len (last m # r)"
proof -
  have len: "str_len (lit ''abcdefgh'') = 8" by code_simp
  show ?thesis
    using truncate_text_keeps_ends [of "lit ''abcdefgh''" "Bytes 5"] unfolding len
    by (simp add: usize_max_def)
qed

lemma truncate_text_fits: "str_len s \<le> byte_budget p \<Longrightarrow> truncate_text s p = s"
  by (cases p) (auto simp: truncate_middle_chars_def truncate_with_byte_estimate_def
      truncate_middle_with_token_budget_def Let_def)

section \<open>Items within the budget\<close>

lemma str_len_decimal: "n \<le> usize_max \<Longrightarrow> str_len (nat_decimal n) \<le> 20"
proof -
  assume "n \<le> usize_max"
  then have "length (nat_decimal n) \<le> 20" by (intro nat_decimal_length) (simp_all add: usize_max_def)
  moreover have "str_len (nat_decimal n) = sum_list (map (\<lambda>_. 1) (nat_decimal n))"
    unfolding str_len_def
    by (rule arg_cong [where f = sum_list], rule map_cong) (auto simp: len_utf8_def dest: nat_decimal_digits)
  ultimately show ?thesis by (simp add: sum_list_triv)
qed

lemma str_len_marker: "n \<le> usize_max \<Longrightarrow> str_len (format_truncation_marker tok n) \<le> 43"
proof -
  assume "n \<le> usize_max"
  moreover have "str_len (lit '' tokens truncated'') = 17" "str_len (lit '' chars truncated'') = 16"
    by code_simp+
  moreover have "len_utf8 ellipsis = 3" by (simp add: len_utf8_def)
  ultimately show ?thesis using str_len_decimal [of n] by (simp add: format_truncation_marker_def)
qed

lemma truncate_text_length:
  assumes "str_len s \<le> usize_max" and "0 < byte_budget p"
  shows "str_len (truncate_text s p) \<le> byte_budget p + 43"
proof (cases "str_len s \<le> byte_budget p")
  case True
  then show ?thesis by (simp add: truncate_text_fits)
next
  case False
  from truncate_with_byte_estimate_spec [OF assms, of "counts_tokens p"] False
  obtain l m r where cut: "s = l @ m @ r" "truncate_text s p = l @ format_truncation_marker (counts_tokens p)
      (removed_units (counts_tokens p) (str_len s - byte_budget p) (length m)) @ r"
    "str_len l \<le> byte_budget p div 2" "str_len r \<le> byte_budget p - byte_budget p div 2"
    unfolding truncate_text_estimate [OF assms(2)] not_le by blast
  have "length m \<le> usize_max" using assms(1) cut(1) length_le_str_len [of m] by simp
  then have "removed_units (counts_tokens p) (str_len s - byte_budget p) (length m) \<le> usize_max"
    using sat_add_bound [of "str_len s - byte_budget p" 3]
    by (auto simp: removed_units_def approx_tokens_from_byte_count_def APPROX_BYTES_PER_TOKEN_def
        intro: order.trans [OF div_le_dividend])
  note marker = str_len_marker [OF this, of "counts_tokens p"]
  have "byte_budget p div 2 + (byte_budget p - byte_budget p div 2) = byte_budget p" by simp
  then show ?thesis using marker cut(3,4) unfolding cut(2) str_len_simps by linarith
qed

definition text_bytes :: "output_item list \<Rightarrow> nat" where
  "text_bytes items = sum_list (map str_len (text_segments items))"

definition media :: "output_item list \<Rightarrow> output_item list" where
  "media items = filter (\<lambda>item. case item of InputText _ \<Rightarrow> False | InputAudio _ \<Rightarrow> False | _ \<Rightarrow> True) items"

fun bytes_per_unit :: "truncation_policy \<Rightarrow> nat" where
  "bytes_per_unit (Bytes _) = 1"
| "bytes_per_unit (Tokens _) = 4"

lemma text_bytes_simps [simp]:
  "text_bytes [] = 0" "text_bytes (xs @ ys) = text_bytes xs + text_bytes ys"
  "text_bytes [InputText t] = str_len t" "text_bytes [InputImage u d] = 0"
  "text_bytes [InputAudio u] = 0" "text_bytes [EncryptedContent e] = 0"
  by (simp_all add: text_bytes_def text_segments_def List.map_filter_def)

lemma media_simps [simp]:
  "media [] = []" "media (xs @ ys) = media xs @ media ys"
  by (simp_all add: media_def)

lemma text_cost_bytes:
  "str_len t + 3 \<le> usize_max \<Longrightarrow> text_cost p t \<le> n \<Longrightarrow> str_len t \<le> bytes_per_unit p * n"
  by (cases p) (auto simp: approx_token_count_def APPROX_BYTES_PER_TOKEN_def)

lemma snippet_budget:
  "0 < n \<Longrightarrow> 0 < byte_budget (snippet_policy p n) \<and> byte_budget (snippet_policy p n) \<le> bytes_per_unit p * n"
  by (cases p) (auto simp: approx_bytes_for_tokens_def APPROX_BYTES_PER_TOKEN_def sat_mul_def usize_max_def)

definition within_budget :: "truncation_policy \<Rightarrow> nat \<Rightarrow> truncation_state \<Rightarrow> bool" where
  "within_budget p B st \<longleftrightarrow>
     text_bytes (truncated_out st) + bytes_per_unit p * remaining_budget st \<le> B \<or>
     remaining_budget st = 0 \<and> text_bytes (truncated_out st) \<le> B + 43"

lemma within_budget_spend:
  assumes "within_budget p B st" and "c \<le> remaining_budget st" and "x \<le> bytes_per_unit p * c"
    and "text_bytes out = text_bytes (truncated_out st) + x"
  shows "within_budget p B (st\<lparr>truncated_out := out, remaining_budget := remaining_budget st - c\<rparr>)"
proof -
  have "bytes_per_unit p * c + bytes_per_unit p * (remaining_budget st - c) =
      bytes_per_unit p * remaining_budget st"
    using assms(2) by (metis add_mult_distrib2 le_add_diff_inverse)
  then show ?thesis using assms by (auto simp: within_budget_def)
qed

lemma truncate_item_within_budget:
  assumes "within_budget p B st" and "\<And>t. item = InputText t \<Longrightarrow> str_len t + 3 \<le> usize_max"
  shows "within_budget p B (truncate_item est p item st)"
proof (cases item)
  case (InputText t)
  note short = assms(2) [OF InputText]
  show ?thesis
  proof (cases "remaining_budget st = 0 \<or> text_cost p t \<le> remaining_budget st")
    case True
    have "str_len t \<le> bytes_per_unit p * text_cost p t" by (rule text_cost_bytes [OF short order.refl])
    from within_budget_spend [OF assms(1) _ this, of "truncated_out st @ [InputText t]"] True assms(1)
    show ?thesis by (cases "remaining_budget st = 0") (simp_all add: InputText Let_def within_budget_def)
  next
    case False
    then have pos: "0 < remaining_budget st" by simp
    note budget = snippet_budget [OF pos, of p]
    have "str_len (truncate_text t (snippet_policy p (remaining_budget st))) \<le>
        bytes_per_unit p * remaining_budget st + 43"
      using truncate_text_length [of t "snippet_policy p (remaining_budget st)"] budget short by linarith
    then show ?thesis using assms(1) False pos by (auto simp: InputText Let_def within_budget_def)
  qed
next
  case (InputAudio u)
  then show ?thesis using assms(1) within_budget_spend [OF assms(1), of "audio_cost p (est u)" 0]
    by (auto simp: Let_def within_budget_def)
qed (use assms(1) in \<open>auto simp: within_budget_def\<close>)

lemma truncate_item_counts:
  "omitted_text_items (truncate_item est p item st) \<le> omitted_text_items st + 1"
  "omitted_audio_items (truncate_item est p item st) \<le> omitted_audio_items st + 1"
  by (cases item; simp add: Let_def)+

lemma truncate_item_media:
  "media (truncated_out (truncate_item est p item st)) = media (truncated_out st) @ media [item]"
  by (cases item) (auto simp: Let_def media_def)

lemma truncate_items_inv:
  assumes "\<forall>t. InputText t \<in> set items \<longrightarrow> str_len t + 3 \<le> usize_max" and "within_budget p B st"
  shows "within_budget p B (fold (truncate_item est p) items st)"
  using assms
proof (induction items arbitrary: st)
  case (Cons i items)
  have "within_budget p B (truncate_item est p i st)"
    by (rule truncate_item_within_budget) (use Cons.prems in auto)
  then show ?case using Cons by simp
qed simp

lemma truncate_items_counts:
  "omitted_text_items (fold (truncate_item est p) items st) \<le> omitted_text_items st + length items \<and>
   omitted_audio_items (fold (truncate_item est p) items st) \<le> omitted_audio_items st + length items"
proof (induction items arbitrary: st)
  case (Cons i items)
  show ?case using Cons [of "truncate_item est p i st"] truncate_item_counts [of est p i st] by simp
qed simp

lemma truncate_items_media:
  "media (truncated_out (fold (truncate_item est p) items st)) = media (truncated_out st) @ media items"
proof (induction items arbitrary: st)
  case (Cons i items)
  show ?case using media_simps(2) [of "[i]" items] by (simp add: Cons truncate_item_media)
qed simp

lemma text_bytes_note:
  "n \<le> usize_max \<Longrightarrow> text_bytes (omitted_note n what) \<le> 29 + str_len what"
proof -
  assume "n \<le> usize_max"
  moreover have "str_len (lit ''[omitted '') = 9" by code_simp
  ultimately show ?thesis using str_len_decimal [of n] by (simp add: omitted_note_def)
qed

text \<open>C32.  Whatever a tool returns, the text recorded of it exceeds the budget by at most 134 bytes
  (one truncation marker and two notes on omitted items), and every image and every encrypted item is
  kept, in order.\<close>

theorem output_items_within_budget:
  assumes "\<forall>t. InputText t \<in> set items \<longrightarrow> str_len t + 3 \<le> usize_max" and "length items \<le> usize_max"
  shows "text_bytes (truncate_function_output_items_with_policy est items p) \<le>
           bytes_per_unit p * initial_budget p + 134 \<and>
         media (truncate_function_output_items_with_policy est items p) = media items"
proof -
  let ?init = "\<lparr>truncated_out = [], remaining_budget = initial_budget p,
    omitted_text_items = 0, omitted_audio_items = 0\<rparr>"
  let ?st = "fold (truncate_item est p) items ?init"
  have "within_budget p (bytes_per_unit p * initial_budget p) ?st"
    by (rule truncate_items_inv [OF assms(1)]) (simp add: within_budget_def)
  then have "text_bytes (truncated_out ?st) \<le> bytes_per_unit p * initial_budget p + 43"
    by (auto simp: within_budget_def)
  moreover have "omitted_text_items ?st \<le> usize_max" "omitted_audio_items ?st \<le> usize_max"
    using truncate_items_counts [of est p items ?init] assms(2) by simp_all
  moreover have "str_len (lit '' text items ...]'') = 16" "str_len (lit '' audio items ...]'') = 17"
    by code_simp+
  moreover have "media (omitted_note n what) = []" for n what by (simp add: omitted_note_def media_def)
  ultimately show ?thesis
    using text_bytes_note [of "omitted_text_items ?st" "lit '' text items ...]''"]
      text_bytes_note [of "omitted_audio_items ?st" "lit '' audio items ...]''"]
      truncate_items_media [of est p items ?init]
    by (simp add: truncate_function_output_items_with_policy_def Let_def)
qed

theorem output_items_within_budget_witness:
  "text_bytes (truncate_function_output_items_with_policy (\<lambda>_. 7)
     [InputText (lit ''abcdefgh''), InputImage (lit ''u'') None, InputAudio (lit ''a'')] (Bytes 4)) \<le> 138 \<and>
   media (truncate_function_output_items_with_policy (\<lambda>_. 7)
     [InputText (lit ''abcdefgh''), InputImage (lit ''u'') None, InputAudio (lit ''a'')] (Bytes 4)) =
   [InputImage (lit ''u'') None]"
proof -
  have len: "str_len (lit ''abcdefgh'') = 8" by code_simp
  show ?thesis
    using output_items_within_budget [of "[InputText (lit ''abcdefgh''), InputImage (lit ''u'') None,
      InputAudio (lit ''a'')]" "\<lambda>_. 7" "Bytes 4"] len
    by (simp add: usize_max_def media_def)
qed

lemma truncate_items_unchanged:
  assumes "\<forall>item \<in> set items. item_text item \<noteq> Some []"
    and "sum_list (map (\<lambda>item. case item of InputText t \<Rightarrow> text_cost p t
           | InputAudio u \<Rightarrow> audio_cost p (est u) | _ \<Rightarrow> 0) items) \<le> remaining_budget st"
    and "\<And>t. t \<noteq> [] \<Longrightarrow> 0 < text_cost p t"
  shows "truncated_out (fold (truncate_item est p) items st) = truncated_out st @ items \<and>
    omitted_text_items (fold (truncate_item est p) items st) = omitted_text_items st \<and>
    omitted_audio_items (fold (truncate_item est p) items st) = omitted_audio_items st"
  using assms(1,2)
proof (induction items arbitrary: st)
  case (Cons i items)
  show ?case
  proof (cases i)
    case (InputText t)
    then have "0 < text_cost p t" using Cons.prems assms(3) by auto
    then show ?thesis using Cons InputText by (simp add: Let_def)
  qed (use Cons in \<open>simp_all add: Let_def\<close>)
qed simp

end
