(* ===== verification/Response_Items.thy ===== *)
theory Response_Items
  imports Output_Truncation
begin

text \<open>
  The items of the conversation (\<open>protocol/src/models.rs\<close>), with the source's variants and fields
  in the order of their declaration, and the recognition of contextual messages
  (\<open>core/src/event_mapping.rs\<close>, \<open>core/src/context\<close>, \<open>context-fragments/src\<close>).  JSON values
  and the passthrough metadata are only carried along, so they are the type parameters \<open>'j\<close> and
  \<open>'x\<close>.
\<close>

section \<open>Items\<close>

datatype content_item =
    CInputText ustring
  | CInputImage ustring "image_detail option"
  | CInputAudio ustring
  | COutputText ustring

datatype agent_message_content = AInputText ustring | AEncryptedContent ustring

datatype message_phase = Commentary | FinalAnswer

datatype reasoning_summary = SummaryText ustring

datatype reasoning_content = ReasoningText ustring | ReasoningPlainText ustring

datatype local_shell_status = ShellCompleted | ShellInProgress | ShellIncomplete

record local_shell_exec_action =
  exec_command :: "ustring list"
  exec_timeout_ms :: "nat option"
  exec_working_directory :: "ustring option"
  exec_env :: "(ustring \<times> ustring) list option"
  exec_user :: "ustring option"

datatype local_shell_action = ShellExec local_shell_exec_action

datatype web_search_action =
    WebSearch "ustring option" "ustring list option"
  | WebOpenPage "ustring option"
  | WebFindInPage "ustring option" "ustring option"
  | WebOther

datatype output_body = BodyText ustring | BodyItems "output_item list"

record output_payload =
  payload_body :: output_body
  payload_success :: "bool option"

definition payload_from_text :: "ustring \<Rightarrow> output_payload" where
  "payload_from_text content = \<lparr>payload_body = BodyText content, payload_success = None\<rparr>"

type_synonym item_id = "ustring option"

datatype ('j, 'x) response_item =
    AdditionalTools item_id ustring "'j list"
  | Message item_id ustring "content_item list" "message_phase option" "'x option"
  | AgentMessage item_id ustring ustring "agent_message_content list" "'x option"
  | Reasoning item_id "reasoning_summary list" "reasoning_content list option" "ustring option" "'x option"
  | LocalShellCall item_id "ustring option" local_shell_status local_shell_action "'x option"
  | FunctionCall item_id ustring "ustring option" ustring "ustring list option" ustring "'x option"
  | ToolSearchCall item_id "ustring option" "ustring option" ustring 'j "'x option"
  | FunctionCallOutput item_id ustring output_payload "'x option"
  | CustomToolCall item_id "ustring option" ustring ustring "ustring option" ustring "'x option"
  | CustomToolCallOutput item_id ustring "ustring option" output_payload "'x option"
  | ToolSearchOutput item_id "ustring option" ustring ustring "'j list" "'x option"
  | WebSearchCall item_id "ustring option" "web_search_action option" "'x option"
  | ImageGenerationCall item_id ustring "ustring option" ustring "'x option"
  | Compaction item_id ustring "'x option"
  | CompactionTrigger
  | ContextCompaction item_id "ustring option" "'x option"
  | OtherItem

section \<open>Contextual fragments\<close>

text \<open>\<open>str::get(..n)\<close> and \<open>str::get(n..)\<close>: nothing off a character boundary or out of range.\<close>

definition str_get_to :: "ustring \<Rightarrow> nat \<Rightarrow> ustring option" where
  "str_get_to s n = (if str_len (str_take n s) = n then Some (str_take n s) else None)"

definition str_get_from :: "ustring \<Rightarrow> nat \<Rightarrow> ustring option" where
  "str_get_from s n = (if str_len (str_take n s) = n then Some (str_drop n s) else None)"

definition is_some_and :: "'a option \<Rightarrow> ('a \<Rightarrow> bool) \<Rightarrow> bool" where
  "is_some_and o' p = (case o' of None \<Rightarrow> False | Some x \<Rightarrow> p x)"

definition matches_marked_text :: "ustring \<Rightarrow> ustring \<Rightarrow> ustring \<Rightarrow> bool" where
  "matches_marked_text start_marker end_marker txt =
     (if start_marker = [] \<or> end_marker = [] then False
      else
        let trimmed = trim_start txt;
            starts_with_marker = is_some_and (str_get_to trimmed (str_len start_marker))
              (\<lambda>candidate. eq_ignore_ascii_case candidate start_marker);
            trimmed = trim_end trimmed;
            ends_with_marker = is_some_and (str_get_from trimmed (str_len trimmed - str_len end_marker))
              (\<lambda>candidate. eq_ignore_ascii_case candidate end_marker) in
        starts_with_marker \<and> ends_with_marker)"

definition is_ascii_lowercase :: "uchar \<Rightarrow> bool" where
  "is_ascii_lowercase c \<longleftrightarrow> 97 \<le> c \<and> c \<le> 122"

fun is_valid_source :: "ustring \<Rightarrow> bool" where
  "is_valid_source [] = False"
| "is_valid_source (first # chars) =
     (is_ascii_lowercase first \<and>
      list_all (\<lambda>ch. is_ascii_lowercase ch \<or> is_ascii_digit ch \<or> ch = 95) chars)"

definition matches_legacy_goal_context :: "ustring \<Rightarrow> bool" where
  "matches_legacy_goal_context txt \<longleftrightarrow>
     starts_with txt (lit ''<goal_context>'') \<and> ends_with txt (lit ''</goal_context>'')"

text \<open>\<open>split_once\<close> with a string pattern.\<close>

definition split_once_str :: "ustring \<Rightarrow> ustring \<Rightarrow> (ustring \<times> ustring) option" where
  "split_once_str s pat =
     map_option (\<lambda>i. (take i s, drop (i + length pat) s)) (find_str s pat)"

definition internal_model_context_matches :: "ustring \<Rightarrow> bool" where
  "internal_model_context_matches txt =
     (let trimmed = trim txt in
      if matches_legacy_goal_context trimmed then True
      else case strip_prefix trimmed (lit ''<codex_internal_context'') of None \<Rightarrow> False
      | Some rest \<Rightarrow> (case strip_prefix rest (lit '' source='' @ [34]) of None \<Rightarrow> False
      | Some rest \<Rightarrow> (case split_once_str rest ([34] @ lit ''>'') of None \<Rightarrow> False
      | Some (source, body_and_close) \<Rightarrow>
          is_valid_source source \<and> ends_with body_and_close (lit ''</codex_internal_context>''))))"

definition additional_context_matches :: "ustring \<Rightarrow> bool" where
  "additional_context_matches txt =
     (case strip_prefix (trim txt) (lit ''<external_'') of None \<Rightarrow> False
      | Some rest \<Rightarrow> (case split_once_str rest (lit ''>'') of None \<Rightarrow> False
      | Some (key, value_and_close) \<Rightarrow>
          ends_with value_and_close (lit ''</external_'' @ key @ lit ''>'')))"

definition legacy_process_limit_matches :: "ustring \<Rightarrow> bool" where
  "legacy_process_limit_matches txt = starts_with (trim txt)
     (lit ''Warning: The maximum number of unified exec processes you can keep open is'')"

definition legacy_apply_patch_matches :: "ustring \<Rightarrow> bool" where
  "legacy_apply_patch_matches txt =
     (let trimmed = trim txt in
      starts_with trimmed (lit ''Warning: apply_patch was requested via '') \<and>
      ends_with trimmed (lit ''Use the apply_patch tool instead of exec_command.''))"

definition legacy_model_mismatch_matches :: "ustring \<Rightarrow> bool" where
  "legacy_model_mismatch_matches txt = starts_with (trim txt)
     (lit ''Warning: Your account was flagged for potentially high-risk cyber activity'')"

definition CONTEXTUAL_USER_FRAGMENTS :: "(ustring \<Rightarrow> bool) list" where
  "CONTEXTUAL_USER_FRAGMENTS =
     [matches_marked_text (lit ''# AGENTS.md instructions'') (lit ''</INSTRUCTIONS>''),
      matches_marked_text (lit ''<environment_context>'') (lit ''</environment_context>''),
      additional_context_matches,
      matches_marked_text (lit ''<skill>'') (lit ''</skill>''),
      matches_marked_text (lit ''<user_shell_command>'') (lit ''</user_shell_command>''),
      matches_marked_text (lit ''<turn_aborted>'') (lit ''</turn_aborted>''),
      matches_marked_text (lit ''<subagent_notification>'') (lit ''</subagent_notification>''),
      internal_model_context_matches,
      matches_marked_text (lit ''<recommended_plugins>'') (lit ''</recommended_plugins>''),
      legacy_process_limit_matches,
      legacy_apply_patch_matches,
      legacy_model_mismatch_matches]"

definition is_standard_contextual_user_text :: "ustring \<Rightarrow> bool" where
  "is_standard_contextual_user_text txt = list_ex (\<lambda>matches. matches txt) CONTEXTUAL_USER_FRAGMENTS"

text \<open>The XML of a hook prompt is read by a library: \<open>xml\<close> maps a text to the text and the run id
  of its \<open>hook_prompt\<close> element.\<close>

definition parse_hook_prompt_fragment ::
    "(ustring \<Rightarrow> (ustring \<times> ustring) option) \<Rightarrow> ustring \<Rightarrow> (ustring \<times> ustring) option" where
  "parse_hook_prompt_fragment xml txt =
     (case xml (trim txt) of None \<Rightarrow> None
      | Some (inner, hook_run_id) \<Rightarrow>
          if trim hook_run_id = [] then None else Some (inner, hook_run_id))"

fun is_contextual_user_fragment ::
    "(ustring \<Rightarrow> (ustring \<times> ustring) option) \<Rightarrow> content_item \<Rightarrow> bool" where
  "is_contextual_user_fragment xml (CInputText txt) =
     (parse_hook_prompt_fragment xml txt \<noteq> None \<or> is_standard_contextual_user_text txt)"
| "is_contextual_user_fragment xml _ = False"

definition is_contextual_user_message_content ::
    "(ustring \<Rightarrow> (ustring \<times> ustring) option) \<Rightarrow> content_item list \<Rightarrow> bool" where
  "is_contextual_user_message_content xml message = list_ex (is_contextual_user_fragment xml) message"

definition CONTEXTUAL_DEVELOPER_PREFIXES :: "ustring list" where
  "CONTEXTUAL_DEVELOPER_PREFIXES = map lit
     [''<permissions instructions>'', ''<model_switch>'', ''<apps_instructions>'',
      ''<collaboration_mode>'', ''<multi_agent_mode>'', ''<environments_instructions>'',
      ''<git_attribution>'', ''<plugins_instructions>'', ''<realtime_conversation>'',
      ''<skills_instructions>'', ''<tools>'', ''<personality_spec>'', ''<token_budget>'',
      ''<context_window>'', ''<context_window_guidance>'', ''<rollout_budget>'']"

fun is_contextual_dev_fragment :: "content_item \<Rightarrow> bool" where
  "is_contextual_dev_fragment (CInputText txt) =
     list_ex (\<lambda>pfx. is_some_and (str_get_to (trim_start txt) (str_len pfx))
       (\<lambda>candidate. eq_ignore_ascii_case candidate pfx)) CONTEXTUAL_DEVELOPER_PREFIXES"
| "is_contextual_dev_fragment _ = False"

definition is_contextual_dev_message_content :: "content_item list \<Rightarrow> bool" where
  "is_contextual_dev_message_content message = list_ex is_contextual_dev_fragment message"

definition has_non_contextual_dev_message_content :: "content_item list \<Rightarrow> bool" where
  "has_non_contextual_dev_message_content message =
     list_ex (\<lambda>item. \<not> is_contextual_dev_fragment item) message"

end
