(* ===== verification/Context_History.thy ===== *)
theory Context_History
  imports Response_Items
begin

text \<open>
  \<open>core/src/context_manager\<close>: the transcript of a thread and its normalisation before it is sent to
  the model.  \<open>error_or_panic\<close> panics in builds with debug assertions and logs otherwise: the flag is
  a field of the environment and a panic is the value \<open>Inl\<close>.
\<close>

section \<open>Environment\<close>

text \<open>Code the history calls in libraries: name-based UUIDs, XML and JSON readers, the length of a
  serialised item, and the decoders behind the estimates for audio and images.\<close>

record ('j, 'x) history_env =
  debug_assertions :: bool
  uuid_v5 :: "ustring \<Rightarrow> ustring"
  hook_xml :: "ustring \<Rightarrow> (ustring \<times> ustring) option"
  is_inter_agent_json :: "ustring \<Rightarrow> bool"
  serialized_len :: "('j, 'x) response_item \<Rightarrow> nat option"
  audio_token_count :: "ustring \<Rightarrow> nat"
  image_dimensions :: "ustring \<Rightarrow> (nat \<times> nat) option"

definition error_or_panic :: "('j, 'x) history_env \<Rightarrow> ustring \<Rightarrow> ustring + unit" where
  "error_or_panic E message = (if debug_assertions E then Inl message else Inr ())"

section \<open>Call identifiers\<close>

fun function_output_id :: "('j, 'x) response_item \<Rightarrow> ustring option" where
  "function_output_id (FunctionCallOutput i call_id out m) = Some call_id"
| "function_output_id _ = None"

fun tool_search_output_id :: "('j, 'x) response_item \<Rightarrow> ustring option" where
  "tool_search_output_id (ToolSearchOutput i call_id st ex tools m) = call_id"
| "tool_search_output_id _ = None"

fun custom_tool_output_id :: "('j, 'x) response_item \<Rightarrow> ustring option" where
  "custom_tool_output_id (CustomToolCallOutput i call_id n out m) = Some call_id"
| "custom_tool_output_id _ = None"

fun function_call_id :: "('j, 'x) response_item \<Rightarrow> ustring option" where
  "function_call_id (FunctionCall i n ns args enc call_id m) = Some call_id"
| "function_call_id _ = None"

fun tool_search_call_id :: "('j, 'x) response_item \<Rightarrow> ustring option" where
  "tool_search_call_id (ToolSearchCall i call_id st ex args m) = call_id"
| "tool_search_call_id _ = None"

fun local_shell_call_id :: "('j, 'x) response_item \<Rightarrow> ustring option" where
  "local_shell_call_id (LocalShellCall i call_id st act m) = call_id"
| "local_shell_call_id _ = None"

fun custom_tool_call_id :: "('j, 'x) response_item \<Rightarrow> ustring option" where
  "custom_tool_call_id (CustomToolCall i st call_id n ns inp m) = Some call_id"
| "custom_tool_call_id _ = None"

definition ids :: "(('j, 'x) response_item \<Rightarrow> ustring option) \<Rightarrow> ('j, 'x) response_item list \<Rightarrow> ustring list" where
  "ids f items = List.map_filter f items"

section \<open>Missing outputs\<close>

definition synthetic_output_id :: "('j, 'x) history_env \<Rightarrow> ustring \<Rightarrow> ustring option \<Rightarrow> ustring option" where
  "synthetic_output_id E pfx item_id =
     (case item_id of None \<Rightarrow> None
      | Some source_id \<Rightarrow>
          if source_id = [] then None
          else Some (pfx @ lit ''_'' @ uuid_v5 E (pfx @ lit '':'' @ source_id)))"

abbreviation aborted :: output_payload where
  "aborted \<equiv> payload_from_text (lit ''aborted'')"

fun missing_output :: "('j, 'x) history_env \<Rightarrow> ustring list \<Rightarrow> ustring list \<Rightarrow> ustring list \<Rightarrow>
    ('j, 'x) response_item \<Rightarrow> ustring + ('j, 'x) response_item option" where
  "missing_output E fids sids cids (FunctionCall i n ns args enc call_id m) =
     Inr (if call_id \<in> set fids then None
          else Some (FunctionCallOutput (synthetic_output_id E (lit ''fco'') i) call_id aborted None))"
| "missing_output E fids sids cids (ToolSearchCall i (Some call_id) st ex args m) =
     Inr (if call_id \<in> set sids then None
          else Some (ToolSearchOutput (synthetic_output_id E (lit ''tso'') i) (Some call_id)
                 (lit ''completed'') (lit ''client'') [] None))"
| "missing_output E fids sids cids (CustomToolCall i st call_id n ns inp m) =
     (if call_id \<in> set cids then Inr None
      else and_then (error_or_panic E (lit ''Custom tool call output is missing for call id: '' @ call_id))
        (\<lambda>_. Inr (Some (CustomToolCallOutput (synthetic_output_id E (lit ''ctco'') i) call_id None aborted None))))"
| "missing_output E fids sids cids (LocalShellCall i (Some call_id) st act m) =
     (if call_id \<in> set fids then Inr None
      else and_then (error_or_panic E (lit ''Local shell call output is missing for call id: '' @ call_id))
        (\<lambda>_. Inr (Some (FunctionCallOutput (synthetic_output_id E (lit ''fco'') i) call_id aborted None))))"
| "missing_output E fids sids cids _ = Inr None"

fun collect_missing :: "('a \<Rightarrow> 'e + 'b option) \<Rightarrow> nat \<Rightarrow> 'a list \<Rightarrow> 'e + (nat \<times> 'b) list" where
  "collect_missing f idx [] = Inr []"
| "collect_missing f idx (item # items) =
     and_then (f item) (\<lambda>out.
     and_then (collect_missing f (Suc idx) items) (\<lambda>rest.
       Inr (case out of None \<Rightarrow> rest | Some output_item \<Rightarrow> (idx, output_item) # rest)))"

definition insert_at :: "nat \<Rightarrow> 'a \<Rightarrow> 'a list \<Rightarrow> 'a list" where
  "insert_at i x xs = take i xs @ x # drop i xs"

definition ensure_call_outputs_present ::
    "('j, 'x) history_env \<Rightarrow> ('j, 'x) response_item list \<Rightarrow> ustring + ('j, 'x) response_item list" where
  "ensure_call_outputs_present E items =
     (let function_output_ids = ids function_output_id items;
          tool_search_output_ids = ids tool_search_output_id items;
          custom_tool_output_ids = ids custom_tool_output_id items in
      and_then (collect_missing
          (missing_output E function_output_ids tool_search_output_ids custom_tool_output_ids) 0 items)
        (\<lambda>missing. Inr (fold (\<lambda>(idx, output_item). insert_at (idx + 1) output_item) (rev missing) items)))"

section \<open>Orphan outputs\<close>

fun has_call :: "('j, 'x) history_env \<Rightarrow> ustring list \<Rightarrow> ustring list \<Rightarrow> ustring list \<Rightarrow> ustring list \<Rightarrow>
    ('j, 'x) response_item \<Rightarrow> ustring + bool" where
  "has_call E fids sids lids cids (FunctionCallOutput i call_id out m) =
     (if call_id \<in> set fids \<or> call_id \<in> set lids then Inr True
      else and_then (error_or_panic E (lit ''Orphan function call output for call id: '' @ call_id))
        (\<lambda>_. Inr False))"
| "has_call E fids sids lids cids (CustomToolCallOutput i call_id n out m) =
     (if call_id \<in> set cids then Inr True
      else and_then (error_or_panic E (lit ''Orphan custom tool call output for call id: '' @ call_id))
        (\<lambda>_. Inr False))"
| "has_call E fids sids lids cids (ToolSearchOutput i call_id st execution tools m) =
     (if execution = lit ''server'' then Inr True
      else case call_id of None \<Rightarrow> Inr True
      | Some call_id \<Rightarrow>
          if call_id \<in> set sids then Inr True
          else and_then (error_or_panic E (lit ''Orphan tool search output for call id: '' @ call_id))
            (\<lambda>_. Inr False))"
| "has_call E fids sids lids cids _ = Inr True"

fun retain :: "('a \<Rightarrow> 'e + bool) \<Rightarrow> 'a list \<Rightarrow> 'e + 'a list" where
  "retain p [] = Inr []"
| "retain p (x # xs) =
     and_then (p x) (\<lambda>keep. and_then (retain p xs) (\<lambda>rest. Inr (if keep then x # rest else rest)))"

definition remove_orphan_outputs ::
    "('j, 'x) history_env \<Rightarrow> ('j, 'x) response_item list \<Rightarrow> ustring + ('j, 'x) response_item list" where
  "remove_orphan_outputs E items =
     retain (has_call E (ids function_call_id items) (ids tool_search_call_id items)
       (ids local_shell_call_id items) (ids custom_tool_call_id items)) items"

section \<open>Removing a pair\<close>

fun remove_first_matching :: "('a \<Rightarrow> bool) \<Rightarrow> 'a list \<Rightarrow> 'a list" where
  "remove_first_matching p [] = []"
| "remove_first_matching p (x # xs) = (if p x then xs else x # remove_first_matching p xs)"

fun remove_corresponding_for ::
    "('j, 'x) response_item \<Rightarrow> ('j, 'x) response_item list \<Rightarrow> ('j, 'x) response_item list" where
  "remove_corresponding_for (FunctionCall i n ns args enc call_id m) items =
     remove_first_matching (\<lambda>x. function_output_id x = Some call_id) items"
| "remove_corresponding_for (FunctionCallOutput i call_id out m) items =
     (if list_ex (\<lambda>x. function_call_id x = Some call_id) items
      then remove_first_matching (\<lambda>x. function_call_id x = Some call_id) items
      else if list_ex (\<lambda>x. local_shell_call_id x = Some call_id) items
      then remove_first_matching (\<lambda>x. local_shell_call_id x = Some call_id) items
      else items)"
| "remove_corresponding_for (ToolSearchCall i (Some call_id) st ex args m) items =
     remove_first_matching (\<lambda>x. tool_search_output_id x = Some call_id) items"
| "remove_corresponding_for (ToolSearchOutput i (Some call_id) st ex tools m) items =
     remove_first_matching (\<lambda>x. tool_search_call_id x = Some call_id) items"
| "remove_corresponding_for (CustomToolCall i st call_id n ns inp m) items =
     remove_first_matching (\<lambda>x. custom_tool_output_id x = Some call_id) items"
| "remove_corresponding_for (CustomToolCallOutput i call_id n out m) items =
     remove_first_matching (\<lambda>x. custom_tool_call_id x = Some call_id) items"
| "remove_corresponding_for (LocalShellCall i (Some call_id) st act m) items =
     remove_first_matching (\<lambda>x. function_output_id x = Some call_id) items"
| "remove_corresponding_for _ items = items"

section \<open>Unsupported content\<close>

datatype input_modality = TextModality | ImageModality | AudioModality

abbreviation IMAGE_CONTENT_OMITTED_PLACEHOLDER :: ustring where
  "IMAGE_CONTENT_OMITTED_PLACEHOLDER \<equiv> lit ''image content omitted because you do not support image input''"

abbreviation AUDIO_CONTENT_OMITTED_PLACEHOLDER :: ustring where
  "AUDIO_CONTENT_OMITTED_PLACEHOLDER \<equiv> lit ''audio content omitted because you do not support audio input''"

fun strip_content_image :: "content_item \<Rightarrow> content_item" where
  "strip_content_image (CInputImage url detail) = CInputText IMAGE_CONTENT_OMITTED_PLACEHOLDER"
| "strip_content_image c = c"

fun strip_output_image :: "output_item \<Rightarrow> output_item" where
  "strip_output_image (InputImage url detail) = InputText IMAGE_CONTENT_OMITTED_PLACEHOLDER"
| "strip_output_image c = c"

fun map_body_items :: "(output_item \<Rightarrow> output_item) \<Rightarrow> output_body \<Rightarrow> output_body" where
  "map_body_items f (BodyText t) = BodyText t"
| "map_body_items f (BodyItems items) = BodyItems (map f items)"

definition map_payload_items :: "(output_item \<Rightarrow> output_item) \<Rightarrow> output_payload \<Rightarrow> output_payload" where
  "map_payload_items f output = output\<lparr>payload_body := map_body_items f (payload_body output)\<rparr>"

fun strip_item_images :: "('j, 'x) response_item \<Rightarrow> ('j, 'x) response_item" where
  "strip_item_images (Message i role content phase m) = Message i role (map strip_content_image content) phase m"
| "strip_item_images (FunctionCallOutput i call_id output m) =
     FunctionCallOutput i call_id (map_payload_items strip_output_image output) m"
| "strip_item_images (CustomToolCallOutput i call_id n output m) =
     CustomToolCallOutput i call_id n (map_payload_items strip_output_image output) m"
| "strip_item_images (ImageGenerationCall i st rp res m) = ImageGenerationCall i st rp [] m"
| "strip_item_images item = item"

definition strip_images_when_unsupported ::
    "input_modality list \<Rightarrow> ('j, 'x) response_item list \<Rightarrow> ('j, 'x) response_item list" where
  "strip_images_when_unsupported mods items =
     (if ImageModality \<in> set mods then items else map strip_item_images items)"

fun strip_content_audio :: "content_item \<Rightarrow> content_item" where
  "strip_content_audio (CInputAudio url) = CInputText AUDIO_CONTENT_OMITTED_PLACEHOLDER"
| "strip_content_audio c = c"

fun strip_output_audio :: "output_item \<Rightarrow> output_item" where
  "strip_output_audio (InputAudio url) = InputText AUDIO_CONTENT_OMITTED_PLACEHOLDER"
| "strip_output_audio c = c"

fun strip_item_audio :: "('j, 'x) response_item \<Rightarrow> ('j, 'x) response_item" where
  "strip_item_audio (Message i role content phase m) = Message i role (map strip_content_audio content) phase m"
| "strip_item_audio (FunctionCallOutput i call_id output m) =
     FunctionCallOutput i call_id (map_payload_items strip_output_audio output) m"
| "strip_item_audio (CustomToolCallOutput i call_id n output m) =
     CustomToolCallOutput i call_id n (map_payload_items strip_output_audio output) m"
| "strip_item_audio item = item"

definition strip_audio_when_unsupported ::
    "input_modality list \<Rightarrow> ('j, 'x) response_item list \<Rightarrow> ('j, 'x) response_item list" where
  "strip_audio_when_unsupported mods items =
     (if AudioModality \<in> set mods then items else map strip_item_audio items)"

definition normalize_history :: "('j, 'x) history_env \<Rightarrow> input_modality list \<Rightarrow>
    ('j, 'x) response_item list \<Rightarrow> ustring + ('j, 'x) response_item list" where
  "normalize_history E mods items =
     and_then (ensure_call_outputs_present E items) (\<lambda>items.
     and_then (remove_orphan_outputs E items) (\<lambda>items.
       Inr (strip_audio_when_unsupported mods (strip_images_when_unsupported mods items))))"

section \<open>Recording\<close>

text \<open>\<open>TruncationPolicy * 1.2\<close>.  The float nearest to 1.2 is \<open>5404319552844595 / 2 ^ 52\<close>; a number
  and a product are rounded to 53 significant bits, ties to even, and the cast back saturates.\<close>

fun bit_length :: "nat \<Rightarrow> nat" where
  "bit_length n = (if n = 0 then 0 else Suc (bit_length (n div 2)))"

definition f64_round :: "nat \<Rightarrow> nat" where
  "f64_round n =
     (let k = bit_length n - 53; q = n div 2 ^ k; r = n mod 2 ^ k in
      if k = 0 then n
      else (if 2 ^ (k - 1) < r \<or> r = 2 ^ (k - 1) \<and> odd q then q + 1 else q) * 2 ^ k)"

definition times_1_2 :: "nat \<Rightarrow> nat" where
  "times_1_2 n =
     (let product = f64_round (f64_round n * 5404319552844595) in
      min ((product + 2 ^ 52 - 1) div 2 ^ 52) usize_max)"

fun policy_times_1_2 :: "truncation_policy \<Rightarrow> truncation_policy" where
  "policy_times_1_2 (Bytes b) = Bytes (times_1_2 b)"
| "policy_times_1_2 (Tokens t) = Tokens (times_1_2 t)"

fun truncate_output_body :: "('j, 'x) history_env \<Rightarrow> truncation_policy \<Rightarrow> output_body \<Rightarrow> output_body" where
  "truncate_output_body E policy (BodyText content) = BodyText (truncate_text content policy)"
| "truncate_output_body E policy (BodyItems items) =
     BodyItems (truncate_function_output_items_with_policy (audio_token_count E) items policy)"

definition truncate_function_output_payload ::
    "('j, 'x) history_env \<Rightarrow> output_payload \<Rightarrow> truncation_policy \<Rightarrow> output_payload" where
  "truncate_function_output_payload E output policy =
     \<lparr>payload_body = truncate_output_body E policy (payload_body output),
      payload_success = payload_success output\<rparr>"

fun process_item :: "('j, 'x) history_env \<Rightarrow> truncation_policy \<Rightarrow> ('j, 'x) response_item \<Rightarrow> ('j, 'x) response_item" where
  "process_item E policy (FunctionCallOutput i call_id output m) =
     FunctionCallOutput i call_id (truncate_function_output_payload E output (policy_times_1_2 policy)) m"
| "process_item E policy (CustomToolCallOutput i call_id n output m) =
     CustomToolCallOutput i call_id n (truncate_function_output_payload E output (policy_times_1_2 policy)) m"
| "process_item E policy item = item"

fun is_api_message :: "('j, 'x) response_item \<Rightarrow> bool" where
  "is_api_message (Message i role content phase m) = (role \<noteq> lit ''system'')"
| "is_api_message CompactionTrigger = False"
| "is_api_message OtherItem = False"
| "is_api_message _ = True"

section \<open>The history\<close>

record token_usage =
  input_tokens :: int
  cached_input_tokens :: int
  cache_write_input_tokens :: int
  output_tokens :: int
  reasoning_output_tokens :: int
  total_tokens :: int

record token_usage_info =
  total_token_usage :: token_usage
  last_token_usage :: token_usage
  model_context_window :: "int option"

text \<open>The reference context item and the world state are only stored and cleared here: they are the
  type parameters \<open>'r\<close> and \<open>'w\<close>.\<close>

record ('j, 'x, 'r, 'w) context_manager =
  cm_items :: "('j, 'x) response_item list"
  history_version :: nat
  token_info :: "token_usage_info option"
  reference_context_item :: "'r option"
  world_state_baseline :: "'w option"

definition new_context_manager :: "('j, 'x, 'r, 'w) context_manager" where
  "new_context_manager = \<lparr>cm_items = [], history_version = 0, token_info = None,
     reference_context_item = None, world_state_baseline = None\<rparr>"

definition record_items :: "('j, 'x) history_env \<Rightarrow> ('j, 'x) response_item list \<Rightarrow> truncation_policy \<Rightarrow>
    ('j, 'x, 'r, 'w) context_manager \<Rightarrow> ('j, 'x, 'r, 'w) context_manager" where
  "record_items E items policy h =
     fold (\<lambda>item h. if \<not> is_api_message item then h
        else h\<lparr>cm_items := cm_items h @ [process_item E policy item]\<rparr>) items h"

definition for_prompt :: "('j, 'x) history_env \<Rightarrow> input_modality list \<Rightarrow>
    ('j, 'x, 'r, 'w) context_manager \<Rightarrow> ustring + ('j, 'x) response_item list" where
  "for_prompt E mods h = normalize_history E mods (cm_items h)"

definition remove_first_item :: "('j, 'x, 'r, 'w) context_manager \<Rightarrow> ('j, 'x, 'r, 'w) context_manager" where
  "remove_first_item h =
     (case cm_items h of [] \<Rightarrow> h
      | removed # items \<Rightarrow>
          h\<lparr>cm_items := remove_corresponding_for removed items, world_state_baseline := None\<rparr>)"

definition replace_items :: "('j, 'x) response_item list \<Rightarrow> ('j, 'x, 'r, 'w) context_manager \<Rightarrow>
    ('j, 'x, 'r, 'w) context_manager" where
  "replace_items items h =
     h\<lparr>cm_items := items, history_version := sat_add (history_version h) 1, world_state_baseline := None\<rparr>"

fun is_inter_agent_instruction_content :: "('j, 'x) history_env \<Rightarrow> content_item list \<Rightarrow> bool" where
  "is_inter_agent_instruction_content E [CInputText txt] = is_inter_agent_json E txt"
| "is_inter_agent_instruction_content E [COutputText txt] = is_inter_agent_json E txt"
| "is_inter_agent_instruction_content E _ = False"

fun is_user_turn_boundary :: "('j, 'x) history_env \<Rightarrow> ('j, 'x) response_item \<Rightarrow> bool" where
  "is_user_turn_boundary E (AgentMessage i author rcpt content m) = True"
| "is_user_turn_boundary E (Message i role content phase m) =
     (role = lit ''user'' \<and> \<not> is_contextual_user_message_content (hook_xml E) content \<or>
      role = lit ''assistant'' \<and> is_inter_agent_instruction_content E content)"
| "is_user_turn_boundary E _ = False"

definition user_message_positions :: "('j, 'x) history_env \<Rightarrow> ('j, 'x) response_item list \<Rightarrow> nat list" where
  "user_message_positions E items =
     map fst (filter (\<lambda>(idx, item). is_user_turn_boundary E item) (enumerate 0 items))"

datatype trim_kind = Trim_Developer bool | Trim_User | Trim_Stop

fun trim_kind_of :: "('j, 'x) history_env \<Rightarrow> ('j, 'x) response_item \<Rightarrow> trim_kind" where
  "trim_kind_of E (Message i role content phase m) =
     (if role = lit ''developer'' \<and> is_contextual_dev_message_content content
      then Trim_Developer (has_non_contextual_dev_message_content content)
      else if role = lit ''user'' \<and> is_contextual_user_message_content (hook_xml E) content
      then Trim_User else Trim_Stop)"
| "trim_kind_of E _ = Trim_Stop"

fun trim_pre_turn_context_updates :: "('j, 'x) history_env \<Rightarrow> ('j, 'x) response_item list \<Rightarrow> nat \<Rightarrow> nat \<Rightarrow>
    ('j, 'x, 'r, 'w) context_manager \<Rightarrow> nat \<times> ('j, 'x, 'r, 'w) context_manager" where
  "trim_pre_turn_context_updates E snapshot first_idx cut_idx h =
     (if first_idx < cut_idx then
        (case trim_kind_of E (snapshot ! (cut_idx - 1)) of
           Trim_Developer mixed \<Rightarrow> trim_pre_turn_context_updates E snapshot first_idx (cut_idx - 1)
             (if mixed then h\<lparr>reference_context_item := None\<rparr> else h)
         | Trim_User \<Rightarrow> trim_pre_turn_context_updates E snapshot first_idx (cut_idx - 1) h
         | Trim_Stop \<Rightarrow> (cut_idx, h))
      else (cut_idx, h))"

declare trim_pre_turn_context_updates.simps [simp del]

definition drop_last_n_user_turns :: "('j, 'x) history_env \<Rightarrow> nat \<Rightarrow>
    ('j, 'x, 'r, 'w) context_manager \<Rightarrow> ('j, 'x, 'r, 'w) context_manager" where
  "drop_last_n_user_turns E num_turns h =
     (if num_turns = 0 then h
      else
        let snapshot = cm_items h; user_positions = user_message_positions E snapshot in
        case user_positions of [] \<Rightarrow> replace_items snapshot h
        | first_instruction_turn_idx # _ \<Rightarrow>
            let cut_idx = (if length user_positions \<le> num_turns then first_instruction_turn_idx
                           else user_positions ! (length user_positions - num_turns));
                (cut_idx, h) = trim_pre_turn_context_updates E snapshot first_instruction_turn_idx cut_idx h in
            replace_items (take cut_idx snapshot) h)"

section \<open>Calls and outputs are paired\<close>

definition paired :: "('j, 'x) response_item list \<Rightarrow> bool" where
  "paired items \<longleftrightarrow>
     set (ids function_call_id items) \<union> set (ids local_shell_call_id items) = set (ids function_output_id items) \<and>
     set (ids custom_tool_call_id items) = set (ids custom_tool_output_id items) \<and>
     set (ids tool_search_call_id items) \<subseteq> set (ids tool_search_output_id items) \<and>
     list_all (\<lambda>item. case item of
         ToolSearchOutput i (Some call_id) st execution tools m \<Rightarrow>
           execution = lit ''server'' \<or> call_id \<in> set (ids tool_search_call_id items)
       | _ \<Rightarrow> True) items"

fun is_output :: "('j, 'x) response_item \<Rightarrow> bool" where
  "is_output (FunctionCallOutput _ _ _ _) = True"
| "is_output (CustomToolCallOutput _ _ _ _ _) = True"
| "is_output (ToolSearchOutput _ _ _ _ _ _) = True"
| "is_output _ = False"

lemma set_ids: "c \<in> set (ids f items) \<longleftrightarrow> (\<exists>x \<in> set items. f x = Some c)"
  by (force simp: ids_def List.map_filter_def)

definition with_missing :: "('a \<Rightarrow> 'e + 'a option) \<Rightarrow> 'a list \<Rightarrow> 'a list" where
  "with_missing f xs = concat (map (\<lambda>x. x # (case f x of Inr (Some out) \<Rightarrow> [out] | _ \<Rightarrow> [])) xs)"

lemma with_missing_simps [simp]:
  "with_missing f [] = []"
  "with_missing f (x # xs) = x # (case f x of Inr (Some out) \<Rightarrow> [out] | _ \<Rightarrow> []) @ with_missing f xs"
  by (simp_all add: with_missing_def)

lemma insert_missing_outputs:
  "collect_missing f (length pre) xs = Inr ms \<Longrightarrow>
   fold (\<lambda>(idx, out). insert_at (idx + 1) out) (rev ms) (pre @ xs) = pre @ with_missing f xs"
proof (induction xs arbitrary: pre ms)
  case (Cons x xs)
  from Cons.prems obtain out rest where f: "f x = Inr out"
    and rest: "collect_missing f (length (pre @ [x])) xs = Inr rest"
    and ms: "ms = (case out of None \<Rightarrow> rest | Some o' \<Rightarrow> (length pre, o') # rest)"
    by (auto simp: and_then_Inr_iff)
  note IH = Cons.IH [OF rest]
  show ?case
  proof (cases out)
    case None
    then show ?thesis using IH f ms by simp
  next
    case (Some o')
    then show ?thesis using IH f ms by (simp add: insert_at_def)
  qed
qed simp

lemma ensure_call_outputs_present_eq:
  assumes "ensure_call_outputs_present E items = Inr out"
  shows "out = with_missing (missing_output E (ids function_output_id items)
    (ids tool_search_output_id items) (ids custom_tool_output_id items)) items"
  using assms insert_missing_outputs [of _ "[]" items]
  by (auto simp: ensure_call_outputs_present_def Let_def and_then_Inr_iff)

lemma retain_eq: "retain p xs = Inr ys \<Longrightarrow> ys = filter (\<lambda>x. p x = Inr True) xs \<and> (\<forall>x \<in> set xs. \<exists>b. p x = Inr b)"
  by (induction xs arbitrary: ys) (auto simp: and_then_Inr_iff split: if_splits)

lemma collect_missing_total: "(\<And>x. \<exists>out. f x = Inr out) \<Longrightarrow> \<exists>ms. collect_missing f i xs = Inr ms"
proof (induction xs arbitrary: i)
  case (Cons x xs)
  obtain out where "f x = Inr out" using Cons.prems by blast
  moreover obtain ms where "collect_missing f (Suc i) xs = Inr ms" using Cons by blast
  ultimately show ?case by simp
qed simp

lemma retain_total: "(\<And>x. \<exists>b. p x = Inr b) \<Longrightarrow> \<exists>ys. retain p xs = Inr ys"
proof (induction xs)
  case (Cons x xs)
  obtain b where "p x = Inr b" using Cons.prems by blast
  moreover obtain ys where "retain p xs = Inr ys" using Cons by blast
  ultimately show ?case by simp
qed simp

lemma missing_output_release:
  "\<not> debug_assertions E \<Longrightarrow> \<exists>out. missing_output E F S C x = Inr out"
  by (induction E F S C x rule: missing_output.induct) (auto simp: error_or_panic_def)

lemma has_call_release:
  "\<not> debug_assertions E \<Longrightarrow> \<exists>b. has_call E F S L C x = Inr b"
  by (induction E F S L C x rule: has_call.induct) (auto simp: error_or_panic_def split: option.splits)

text \<open>A synthetic output answers the call it follows.\<close>

lemma missing_output_Some:
  "missing_output E F S C x = Inr (Some out) \<Longrightarrow>
   is_output out \<and> function_call_id out = None \<and> local_shell_call_id out = None \<and>
   tool_search_call_id out = None \<and> custom_tool_call_id out = None \<and>
   (\<forall>c. function_output_id out = Some c \<longrightarrow> function_call_id x = Some c \<or> local_shell_call_id x = Some c) \<and>
   custom_tool_output_id out = custom_tool_call_id x \<and> tool_search_output_id out = tool_search_call_id x"
  by (induction E F S C x rule: missing_output.induct)
    (auto simp: error_or_panic_def and_then_Inr_iff split: if_splits)

lemma missing_output_answers:
  assumes "missing_output E F S C x = Inr out"
  shows "function_call_id x = Some c \<or> local_shell_call_id x = Some c \<Longrightarrow>
      c \<in> set F \<or> (\<exists>o'. out = Some o' \<and> function_output_id o' = Some c)"
    and "custom_tool_call_id x = Some c \<Longrightarrow> c \<in> set C \<or> (\<exists>o'. out = Some o' \<and> custom_tool_output_id o' = Some c)"
    and "tool_search_call_id x = Some c \<Longrightarrow> c \<in> set S \<or> (\<exists>o'. out = Some o' \<and> tool_search_output_id o' = Some c)"
  using assms by (induction E F S C x rule: missing_output.induct;
    auto simp: error_or_panic_def and_then_Inr_iff split: if_splits)+

lemma set_with_missing:
  "y \<in> set (with_missing f xs) \<longleftrightarrow> y \<in> set xs \<or> (\<exists>x \<in> set xs. f x = Inr (Some y))"
  by (induction xs) (auto split: sum.splits option.splits)

lemma collect_missing_values: "collect_missing f i xs = Inr ms \<Longrightarrow> x \<in> set xs \<Longrightarrow> \<exists>out. f x = Inr out"
  by (induction xs arbitrary: i ms) (auto simp: and_then_Inr_iff)

definition answered :: "('j, 'x) response_item list \<Rightarrow> bool" where
  "answered items \<longleftrightarrow>
     set (ids function_call_id items) \<union> set (ids local_shell_call_id items) \<subseteq> set (ids function_output_id items) \<and>
     set (ids custom_tool_call_id items) \<subseteq> set (ids custom_tool_output_id items) \<and>
     set (ids tool_search_call_id items) \<subseteq> set (ids tool_search_output_id items)"

lemma ensure_answers:
  assumes ok: "ensure_call_outputs_present E items = Inr out"
  shows "answered out"
proof -
  let ?f = "missing_output E (ids function_output_id items) (ids tool_search_output_id items)
    (ids custom_tool_output_id items)"
  note out = ensure_call_outputs_present_eq [OF ok]
  obtain ms where "collect_missing ?f 0 items = Inr ms"
    using ok by (auto simp: ensure_call_outputs_present_def Let_def and_then_Inr_iff)
  then have total: "x \<in> set items \<Longrightarrow> \<exists>o'. ?f x = Inr o'" for x by (rule collect_missing_values)
  have calls: "x \<in> set out \<Longrightarrow> g x = Some c \<Longrightarrow> x \<in> set items"
    if "g \<in> {function_call_id, local_shell_call_id, custom_tool_call_id, tool_search_call_id}" for g x c
    using that missing_output_Some by (fastforce simp: out set_with_missing)
  have keep: "x \<in> set items \<Longrightarrow> x \<in> set out" for x by (simp add: out set_with_missing)
  have new: "x \<in> set items \<Longrightarrow> ?f x = Inr (Some o') \<Longrightarrow> o' \<in> set out" for x o'
    by (auto simp: out set_with_missing)
  have "c \<in> set (ids function_output_id out)"
    if "x \<in> set items" "function_call_id x = Some c \<or> local_shell_call_id x = Some c" for x c
    using total [OF that(1)] missing_output_answers(1) [OF _ that(2)] keep new [OF that(1)]
    by (metis set_ids)
  moreover have "c \<in> set (ids custom_tool_output_id out)"
    if "x \<in> set items" "custom_tool_call_id x = Some c" for x c
    using total [OF that(1)] missing_output_answers(2) [OF _ that(2)] keep new [OF that(1)]
    by (metis set_ids)
  moreover have "c \<in> set (ids tool_search_output_id out)"
    if "x \<in> set items" "tool_search_call_id x = Some c" for x c
    using total [OF that(1)] missing_output_answers(3) [OF _ that(2)] keep new [OF that(1)]
    by (metis set_ids)
  ultimately show ?thesis
    unfolding answered_def using calls by (auto simp: set_ids [of _ _ out] subset_iff; metis)
qed

lemma has_call_True:
  "has_call E F S L C x = Inr True \<longleftrightarrow>
     (\<forall>c. function_output_id x = Some c \<longrightarrow> c \<in> set F \<union> set L) \<and>
     (\<forall>c. custom_tool_output_id x = Some c \<longrightarrow> c \<in> set C) \<and>
     (case x of ToolSearchOutput i (Some c) st execution tools m \<Rightarrow> execution = lit ''server'' \<or> c \<in> set S
      | _ \<Rightarrow> True)"
  by (induction E F S L C x rule: has_call.induct)
    (auto simp: error_or_panic_def and_then_Inr_iff split: option.splits)

lemma orphans_paired:
  assumes "answered items" and ok: "remove_orphan_outputs E items = Inr out"
  shows "paired out"
proof -
  let ?p = "has_call E (ids function_call_id items) (ids tool_search_call_id items)
    (ids local_shell_call_id items) (ids custom_tool_call_id items)"
  have out: "out = filter (\<lambda>x. ?p x = Inr True) items"
    using retain_eq ok unfolding remove_orphan_outputs_def by blast
  have call_kept: "?p x = Inr True"
    if "function_call_id x = Some c \<or> local_shell_call_id x = Some c \<or> custom_tool_call_id x = Some c \<or>
        tool_search_call_id x = Some c" for x c
    using that by (cases x) auto
  have same: "set (ids g out) = set (ids g items)"
    if "g \<in> {function_call_id, local_shell_call_id, custom_tool_call_id, tool_search_call_id}" for g
    using that call_kept by (auto simp: set_eq_iff set_ids out)
  have fo: "c \<in> set (ids function_output_id out) \<longleftrightarrow> c \<in> set (ids function_output_id items) \<and>
      c \<in> set (ids function_call_id items) \<union> set (ids local_shell_call_id items)" for c
  proof -
    have "?p x = Inr True \<longleftrightarrow> c \<in> set (ids function_call_id items) \<union> set (ids local_shell_call_id items)"
      if "function_output_id x = Some c" for x
      using that by (cases x) (auto simp: error_or_panic_def and_then_Inr_iff)
    then show ?thesis by (auto simp: set_ids [of c function_output_id] out)
  qed
  have co: "c \<in> set (ids custom_tool_output_id out) \<longleftrightarrow> c \<in> set (ids custom_tool_output_id items) \<and>
      c \<in> set (ids custom_tool_call_id items)" for c
  proof -
    have "?p x = Inr True \<longleftrightarrow> c \<in> set (ids custom_tool_call_id items)"
      if "custom_tool_output_id x = Some c" for x
      using that by (cases x) (auto simp: error_or_panic_def and_then_Inr_iff)
    then show ?thesis by (auto simp: set_ids [of c custom_tool_output_id] out)
  qed
  have so: "c \<in> set (ids tool_search_output_id out)"
    if "c \<in> set (ids tool_search_output_id items)" "c \<in> set (ids tool_search_call_id items)" for c
  proof -
    have "?p x = Inr True" if "tool_search_output_id x = Some c" for x
      using that \<open>c \<in> set (ids tool_search_call_id items)\<close> by (cases x) (auto split: option.splits)
    then show ?thesis using that(1) by (auto simp: set_ids [of c tool_search_output_id] out)
  qed
  have client: "list_all (\<lambda>item. case item of
         ToolSearchOutput i (Some call_id) st execution tools m \<Rightarrow>
           execution = lit ''server'' \<or> call_id \<in> set (ids tool_search_call_id items)
       | _ \<Rightarrow> True) out"
    using has_call_True [of E] unfolding list_all_iff out by fastforce
  have f: "set (ids function_output_id out) =
      set (ids function_call_id items) \<union> set (ids local_shell_call_id items)"
    using assms(1) fo unfolding answered_def by blast
  have c: "set (ids custom_tool_output_id out) = set (ids custom_tool_call_id items)"
    using assms(1) co unfolding answered_def by blast
  have t: "set (ids tool_search_call_id items) \<subseteq> set (ids tool_search_output_id out)"
    using assms(1) so unfolding answered_def by blast
  show ?thesis unfolding paired_def f c same [of function_call_id, simplified]
      same [of local_shell_call_id, simplified] same [of custom_tool_call_id, simplified]
      same [of tool_search_call_id, simplified]
    using t client by simp
qed

section \<open>The prompt\<close>

lemma strip_ids [simp]:
  "function_call_id (strip_item_images x) = function_call_id x"
  "local_shell_call_id (strip_item_images x) = local_shell_call_id x"
  "custom_tool_call_id (strip_item_images x) = custom_tool_call_id x"
  "tool_search_call_id (strip_item_images x) = tool_search_call_id x"
  "function_output_id (strip_item_images x) = function_output_id x"
  "custom_tool_output_id (strip_item_images x) = custom_tool_output_id x"
  "tool_search_output_id (strip_item_images x) = tool_search_output_id x"
  "is_output (strip_item_images x) = is_output x"
  "function_call_id (strip_item_audio x) = function_call_id x"
  "local_shell_call_id (strip_item_audio x) = local_shell_call_id x"
  "custom_tool_call_id (strip_item_audio x) = custom_tool_call_id x"
  "tool_search_call_id (strip_item_audio x) = tool_search_call_id x"
  "function_output_id (strip_item_audio x) = function_output_id x"
  "custom_tool_output_id (strip_item_audio x) = custom_tool_output_id x"
  "tool_search_output_id (strip_item_audio x) = tool_search_output_id x"
  "is_output (strip_item_audio x) = is_output x"
  by (cases x; simp)+

lemma ids_map: "(\<And>x. f (g x) = f x) \<Longrightarrow> ids f (map g items) = ids f items"
  by (simp add: ids_def List.map_filter_def filter_map comp_def)

lemma strip_client [simp]:
  "(case strip_item_images x of ToolSearchOutput i (Some c) st ex tools m \<Rightarrow> P c ex | _ \<Rightarrow> True) =
   (case x of ToolSearchOutput i (Some c) st ex tools m \<Rightarrow> P c ex | _ \<Rightarrow> True)"
  "(case strip_item_audio x of ToolSearchOutput i (Some c) st ex tools m \<Rightarrow> P c ex | _ \<Rightarrow> True) =
   (case x of ToolSearchOutput i (Some c) st ex tools m \<Rightarrow> P c ex | _ \<Rightarrow> True)"
  by (cases x; simp)+

lemma ids_strip:
  "ids function_call_id (map strip_item_images items) = ids function_call_id items"
  "ids local_shell_call_id (map strip_item_images items) = ids local_shell_call_id items"
  "ids custom_tool_call_id (map strip_item_images items) = ids custom_tool_call_id items"
  "ids tool_search_call_id (map strip_item_images items) = ids tool_search_call_id items"
  "ids function_output_id (map strip_item_images items) = ids function_output_id items"
  "ids custom_tool_output_id (map strip_item_images items) = ids custom_tool_output_id items"
  "ids tool_search_output_id (map strip_item_images items) = ids tool_search_output_id items"
  "ids function_call_id (map strip_item_audio items) = ids function_call_id items"
  "ids local_shell_call_id (map strip_item_audio items) = ids local_shell_call_id items"
  "ids custom_tool_call_id (map strip_item_audio items) = ids custom_tool_call_id items"
  "ids tool_search_call_id (map strip_item_audio items) = ids tool_search_call_id items"
  "ids function_output_id (map strip_item_audio items) = ids function_output_id items"
  "ids custom_tool_output_id (map strip_item_audio items) = ids custom_tool_output_id items"
  "ids tool_search_output_id (map strip_item_audio items) = ids tool_search_output_id items"
  by (rule ids_map, simp)+

lemma paired_strip:
  "paired (map strip_item_images items) = paired items" "paired (map strip_item_audio items) = paired items"
  unfolding paired_def ids_strip by (simp_all add: list.pred_map comp_def)

definition strip_unsupported :: "input_modality list \<Rightarrow> ('j, 'x) response_item list \<Rightarrow> ('j, 'x) response_item list" where
  "strip_unsupported mods items = strip_audio_when_unsupported mods (strip_images_when_unsupported mods items)"

lemma paired_strip_unsupported: "paired (strip_unsupported mods items) = paired items"
  by (simp add: strip_unsupported_def strip_audio_when_unsupported_def strip_images_when_unsupported_def paired_strip)

lemma strip_content_idem [simp]:
  "strip_content_image (strip_content_image c) = strip_content_image c"
  "strip_content_audio (strip_content_audio c) = strip_content_audio c"
  "strip_content_image (strip_content_audio (strip_content_image c)) = strip_content_audio (strip_content_image c)"
  by (cases c; simp)+

lemma strip_output_idem [simp]:
  "strip_output_image (strip_output_image c) = strip_output_image c"
  "strip_output_audio (strip_output_audio c) = strip_output_audio c"
  "strip_output_image (strip_output_audio (strip_output_image c)) = strip_output_audio (strip_output_image c)"
  by (cases c; simp)+

lemma map_payload_items_comp [simp]:
  "map_payload_items f (map_payload_items g out) = map_payload_items (f \<circ> g) out"
  by (cases "payload_body out") (simp_all add: map_payload_items_def)

lemma strip_item_idem [simp]:
  "strip_item_images (strip_item_images x) = strip_item_images x"
  "strip_item_audio (strip_item_audio x) = strip_item_audio x"
  "strip_item_images (strip_item_audio (strip_item_images x)) = strip_item_audio (strip_item_images x)"
  by (cases x; simp add: comp_def)+

lemma strip_unsupported_idem: "strip_unsupported mods (strip_unsupported mods items) = strip_unsupported mods items"
  by (simp add: strip_unsupported_def strip_audio_when_unsupported_def strip_images_when_unsupported_def)

lemma missing_output_None:
  "(\<And>c. function_call_id x = Some c \<Longrightarrow> c \<in> set F) \<Longrightarrow> (\<And>c. local_shell_call_id x = Some c \<Longrightarrow> c \<in> set F) \<Longrightarrow>
   (\<And>c. custom_tool_call_id x = Some c \<Longrightarrow> c \<in> set C) \<Longrightarrow> (\<And>c. tool_search_call_id x = Some c \<Longrightarrow> c \<in> set S) \<Longrightarrow>
   missing_output E F S C x = Inr None"
  by (induction E F S C x rule: missing_output.induct) simp_all

lemma paired_ensure:
  assumes "paired items"
  shows "ensure_call_outputs_present E items = Inr items"
proof -
  let ?f = "missing_output E (ids function_output_id items) (ids tool_search_output_id items)
    (ids custom_tool_output_id items)"
  have "?f x = Inr None" if "x \<in> set items" for x
    by (rule missing_output_None)
      (use assms that in \<open>auto simp: paired_def set_eq_iff subset_iff set_ids\<close>)
  then have "collect_missing ?f i xs = Inr []" if "set xs \<subseteq> set items" for i xs
    using that by (induction xs arbitrary: i) simp_all
  from this [of items 0] show ?thesis by (simp add: ensure_call_outputs_present_def Let_def)
qed

lemma paired_retain:
  assumes "paired items"
  shows "remove_orphan_outputs E items = Inr items"
proof -
  let ?p = "has_call E (ids function_call_id items) (ids tool_search_call_id items)
    (ids local_shell_call_id items) (ids custom_tool_call_id items)"
  have "?p x = Inr True" if "x \<in> set items" for x
  proof -
    have "function_output_id x = Some c \<Longrightarrow> c \<in> set (ids function_call_id items) \<union> set (ids local_shell_call_id items)"
      "custom_tool_output_id x = Some c \<Longrightarrow> c \<in> set (ids custom_tool_call_id items)" for c
      using assms that by (auto simp: paired_def set_eq_iff set_ids)
    moreover have "case x of ToolSearchOutput i (Some c) st execution tools m \<Rightarrow>
        execution = lit ''server'' \<or> c \<in> set (ids tool_search_call_id items) | _ \<Rightarrow> True"
      using assms that unfolding paired_def list_all_iff by blast
    ultimately show ?thesis unfolding has_call_True by blast
  qed
  then have "retain ?p xs = Inr xs" if "set xs \<subseteq> set items" for xs
    using that by (induction xs) simp_all
  from this [of items] show ?thesis by (simp add: remove_orphan_outputs_def)
qed

lemma normalize_paired:
  assumes "normalize_history E mods items = Inr out"
  shows "paired out \<and> normalize_history E mods out = Inr out"
proof -
  from assms obtain a b where a: "ensure_call_outputs_present E items = Inr a"
    and b: "remove_orphan_outputs E a = Inr b" and out: "out = strip_unsupported mods b"
    by (auto simp: normalize_history_def and_then_Inr_iff strip_unsupported_def)
  have "paired out" unfolding out paired_strip_unsupported by (rule orphans_paired [OF ensure_answers [OF a] b])
  then show ?thesis
    by (simp add: normalize_history_def paired_ensure paired_retain strip_unsupported_def [symmetric])
      (simp add: out strip_unsupported_idem)
qed

lemma with_missing_kept:
  "(\<And>x out. f x = Inr (Some out) \<Longrightarrow> \<not> P out) \<Longrightarrow> filter P (with_missing f xs) = filter P xs"
  by (induction xs) (auto split: sum.splits option.splits)

lemma normalize_keeps:
  assumes "normalize_history E mods items = Inr out"
  shows "filter (\<lambda>x. \<not> is_output x) out = strip_unsupported mods (filter (\<lambda>x. \<not> is_output x) items)"
proof -
  from assms obtain a b where a: "ensure_call_outputs_present E items = Inr a"
    and b: "remove_orphan_outputs E a = Inr b" and out: "out = strip_unsupported mods b"
    by (auto simp: normalize_history_def and_then_Inr_iff strip_unsupported_def)
  have "filter (\<lambda>x. \<not> is_output x) a = filter (\<lambda>x. \<not> is_output x) items"
    unfolding ensure_call_outputs_present_eq [OF a]
    by (rule with_missing_kept) (use missing_output_Some in blast)
  moreover have "has_call E F S L C x = Inr True" if "\<not> is_output x" for F S L C x
    using that by (cases x) simp_all
  then have "filter (\<lambda>x. \<not> is_output x) b = filter (\<lambda>x. \<not> is_output x) a"
    using retain_eq [OF b [unfolded remove_orphan_outputs_def]] by (auto intro: filter_cong)
  ultimately show ?thesis
    by (simp add: out strip_unsupported_def strip_audio_when_unsupported_def
        strip_images_when_unsupported_def filter_map comp_def)
qed

lemma normalize_total:
  assumes "\<not> debug_assertions E"
  shows "\<exists>out. normalize_history E mods items = Inr out"
proof -
  have "\<exists>ms. collect_missing (missing_output E (ids function_output_id items)
      (ids tool_search_output_id items) (ids custom_tool_output_id items)) 0 items = Inr ms"
    by (rule collect_missing_total) (rule missing_output_release [OF assms])
  then obtain a where a: "ensure_call_outputs_present E items = Inr a"
    by (auto simp: ensure_call_outputs_present_def Let_def)
  have "\<exists>b. remove_orphan_outputs E a = Inr b"
    unfolding remove_orphan_outputs_def by (rule retain_total) (rule has_call_release [OF assms])
  then obtain b where "remove_orphan_outputs E a = Inr b" ..
  then show ?thesis using a by (simp add: normalize_history_def)
qed

text \<open>C29.  In a release build the prompt is always produced, in it every tool call has an output and
  every output of the client has a call, the other items are those of the history in their order, up to
  content the model does not support, and normalising the prompt again changes nothing.\<close>

theorem prompt_pairs_calls:
  assumes "\<not> debug_assertions E"
  shows "\<exists>out. for_prompt E mods h = Inr out \<and> paired out \<and> normalize_history E mods out = Inr out \<and>
    filter (\<lambda>x. \<not> is_output x) out = strip_unsupported mods (filter (\<lambda>x. \<not> is_output x) (cm_items h))"
proof -
  obtain out where out: "normalize_history E mods (cm_items h) = Inr out"
    using normalize_total [OF assms] by blast
  then show ?thesis
    using normalize_paired [OF out] normalize_keeps [OF out] by (simp add: for_prompt_def)
qed

definition release_env :: "('j, 'x) history_env" where
  "release_env = \<lparr>debug_assertions = False, uuid_v5 = id, hook_xml = (\<lambda>_. None),
     is_inter_agent_json = (\<lambda>_. False), serialized_len = (\<lambda>_. Some 0), audio_token_count = str_len,
     image_dimensions = (\<lambda>_. None)\<rparr>"

theorem prompt_pairs_calls_witness:
  "\<exists>out. for_prompt release_env [] (new_context_manager\<lparr>cm_items :=
      [FunctionCall None [] None [] None (lit ''c'') None]\<rparr> :: (unit, unit, unit, unit) context_manager) = Inr out \<and>
    paired out \<and> normalize_history release_env [] out = Inr out \<and>
    filter (\<lambda>x. \<not> is_output x) out = [FunctionCall None [] None [] None (lit ''c'') None]"
  using prompt_pairs_calls [of release_env "[]" "new_context_manager\<lparr>cm_items :=
      [FunctionCall None [] None [] None (lit ''c'') None]\<rparr> :: (unit, unit, unit, unit) context_manager"]
  by (simp add: release_env_def strip_unsupported_def strip_audio_when_unsupported_def
      strip_images_when_unsupported_def)

section \<open>Rollback\<close>

lemma positions_nth:
  assumes "k < length (filter (\<lambda>(i, x). p x) (enumerate n xs))"
  shows "n \<le> fst (filter (\<lambda>(i, x). p x) (enumerate n xs) ! k) \<and>
    length (filter p (take (fst (filter (\<lambda>(i, x). p x) (enumerate n xs) ! k) - n) xs)) = k \<and>
    fst (filter (\<lambda>(i, x). p x) (enumerate n xs) ! k) < n + length xs"
  using assms
proof (induction xs arbitrary: n k)
  case (Cons x xs)
  show ?case
  proof (cases "p x \<and> k = 0")
    case False
    let ?k = "if p x then k - 1 else k"
    have *: "filter (\<lambda>(i, x). p x) (enumerate n (x # xs)) ! k = filter (\<lambda>(i, x). p x) (enumerate (Suc n) xs) ! ?k"
      using False by (auto simp: nth_Cons')
    have "?k < length (filter (\<lambda>(i, x). p x) (enumerate (Suc n) xs))"
      using Cons.prems False by (auto split: if_splits)
    note IH = Cons.IH [OF this]
    define j where "j = fst (filter (\<lambda>(i, x). p x) (enumerate (Suc n) xs) ! ?k)"
    have "j - n = Suc (j - Suc n)" using IH unfolding j_def by linarith
    then show ?thesis unfolding * j_def [symmetric] using IH [folded j_def] False by auto
  qed simp
qed simp

lemma length_positions: "length (filter (\<lambda>(i, x). p x) (enumerate n xs)) = length (filter p xs)"
  by (induction xs arbitrary: n) simp_all

lemma trimmed_not_boundary: "trim_kind_of E x \<noteq> Trim_Stop \<Longrightarrow> \<not> is_user_turn_boundary E x"
proof (cases x)
  case (Message i role content phase m)
  have "lit ''developer'' \<noteq> lit ''user''" "lit ''developer'' \<noteq> lit ''assistant''" "lit ''user'' \<noteq> lit ''assistant''"
    by code_simp+
  then show "trim_kind_of E x \<noteq> Trim_Stop \<Longrightarrow> ?thesis"
    by (auto simp: Message split: if_splits)
qed simp_all

lemma trim_bounds:
  assumes "trim_pre_turn_context_updates E snapshot first c h = (c', h')" and "first \<le> c"
    and "c \<le> length snapshot"
  shows "first \<le> c' \<and> c' \<le> c \<and>
    filter (is_user_turn_boundary E) (take c' snapshot) = filter (is_user_turn_boundary E) (take c snapshot)"
  using assms
proof (induction c arbitrary: h)
  case 0
  then show ?case by (simp add: trim_pre_turn_context_updates.simps)
next
  case (Suc c)
  show ?case
  proof (cases "first < Suc c \<and> trim_kind_of E (snapshot ! c) \<noteq> Trim_Stop")
    case True
    then obtain g where g: "trim_pre_turn_context_updates E snapshot first c g = (c', h')"
      using Suc.prems(1)
      by (subst (asm) trim_pre_turn_context_updates.simps) (auto split: trim_kind.splits)
    have "filter (is_user_turn_boundary E) (take (Suc c) snapshot) = filter (is_user_turn_boundary E) (take c snapshot)"
      using True trimmed_not_boundary [of E "snapshot ! c"] Suc.prems(3) by (simp add: take_Suc_conv_app_nth)
    with Suc.IH [OF g] True Suc.prems show ?thesis by simp
  next
    case False
    then have "c' = Suc c" using Suc.prems(1)
      by (subst (asm) trim_pre_turn_context_updates.simps) (auto split: trim_kind.splits if_splits)
    then show ?thesis using Suc.prems by simp
  qed
qed

lemma takeWhile_take_filter:
  "filter p (take i xs) = [] \<Longrightarrow> i \<le> j \<Longrightarrow> (i = length xs \<or> p (xs ! i)) \<Longrightarrow> i \<le> length xs \<Longrightarrow>
   takeWhile (\<lambda>x. \<not> p x) (take j xs) = take i xs"
proof (induction xs arbitrary: i j)
  case (Cons x xs)
  show ?case
  proof (cases i)
    case 0
    then show ?thesis using Cons.prems by (cases j) simp_all
  next
    case (Suc i')
    then obtain j' where "j = Suc j'" "i' \<le> j'" using Cons.prems(2) by (cases j) auto
    then show ?thesis using Cons Suc by (auto split: if_splits)
  qed
qed simp

lemma positions_hold:
  assumes "k < length (filter (\<lambda>(i, x). p x) (enumerate 0 xs))"
  shows "p (xs ! fst (filter (\<lambda>(i, x). p x) (enumerate 0 xs) ! k))"
proof -
  have "filter (\<lambda>(i, x). p x) (enumerate 0 xs) ! k \<in> set (filter (\<lambda>(i, x). p x) (enumerate 0 xs))"
    using assms by (rule nth_mem)
  then show ?thesis by (auto simp: in_set_enumerate_eq)
qed

text \<open>Where a rollback cuts: after the prefix of the session, and before the first dropped turn.\<close>

lemma rollback_cut:
  assumes "num_turns \<noteq> 0" and turns: "filter (is_user_turn_boundary E) (cm_items h) \<noteq> []"
  shows "\<exists>first cut. cm_items (drop_last_n_user_turns E num_turns h) = take cut (cm_items h) \<and>
    first \<le> cut \<and> first < length (cm_items h) \<and> is_user_turn_boundary E (cm_items h ! first) \<and>
    filter (is_user_turn_boundary E) (take first (cm_items h)) = [] \<and>
    length (filter (is_user_turn_boundary E) (take cut (cm_items h))) =
      length (filter (is_user_turn_boundary E) (cm_items h)) - num_turns"
proof -
  let ?xs = "cm_items h" and ?p = "is_user_turn_boundary E"
  let ?ps = "filter (\<lambda>(i, x). ?p x) (enumerate 0 ?xs)"
  have pos: "user_message_positions E ?xs = map fst ?ps" by (simp add: user_message_positions_def)
  have len: "length ?ps = length (filter ?p ?xs)" by (rule length_positions)
  then have nonempty: "0 < length ?ps" using turns by simp
  define first where "first = fst (?ps ! 0)"
  define k where "k = length ?ps - num_turns"
  define cut where "cut = fst (?ps ! k)"
  have "k < length ?ps" using nonempty assms(1) by (simp add: k_def)
  from positions_nth [OF this] have cut: "length (filter ?p (take cut ?xs)) = k" "cut < length ?xs"
    by (simp_all add: cut_def)
  from positions_nth [OF nonempty] have first: "filter ?p (take first ?xs) = []" "first < length ?xs"
    by (simp_all add: first_def)
  have hold: "?p (?xs ! first)" unfolding first_def by (rule positions_hold [OF nonempty])
  have "first \<le> cut"
  proof (rule ccontr)
    assume "\<not> first \<le> cut"
    moreover have "?p (?xs ! cut)" unfolding cut_def by (rule positions_hold [OF \<open>k < length ?ps\<close>])
    ultimately have "?xs ! cut \<in> set (filter ?p (take first ?xs))"
      using cut(2) by (auto simp: in_set_conv_nth intro!: exI [of _ cut])
    then show False using first(1) by simp
  qed
  obtain c' h' where trim: "trim_pre_turn_context_updates E ?xs first cut h = (c', h')" by fastforce
  have hd: "user_message_positions E ?xs = first # tl (map fst ?ps)"
    unfolding pos first_def using nonempty by (cases ?ps) simp_all
  have "(if length (user_message_positions E ?xs) \<le> num_turns then first
      else user_message_positions E ?xs ! (length (user_message_positions E ?xs) - num_turns)) = cut"
    using \<open>k < length ?ps\<close> by (auto simp: pos cut_def k_def first_def)
  then have "cm_items (drop_last_n_user_turns E num_turns h) = take c' ?xs"
    using assms(1) trim hd by (simp add: drop_last_n_user_turns_def Let_def replace_items_def)
  moreover note trim_bounds [OF trim \<open>first \<le> cut\<close>]
  ultimately show ?thesis using cut first hold len by (intro exI [of _ first] exI [of _ c']) (simp add: k_def)
qed

text \<open>C30.  Rolling back \<open>n\<close> turns leaves a beginning of the history that has \<open>n\<close> turns fewer (none
  if it has no more than \<open>n\<close>), and everything before the first turn survives.\<close>

theorem rollback_drops_turns:
  "(\<exists>rest. cm_items h = cm_items (drop_last_n_user_turns E n h) @ rest) \<and>
   length (filter (is_user_turn_boundary E) (cm_items (drop_last_n_user_turns E n h))) =
     length (filter (is_user_turn_boundary E) (cm_items h)) - n \<and>
   takeWhile (\<lambda>x. \<not> is_user_turn_boundary E x) (cm_items (drop_last_n_user_turns E n h)) =
     takeWhile (\<lambda>x. \<not> is_user_turn_boundary E x) (cm_items h)"
proof (cases "n = 0 \<or> filter (is_user_turn_boundary E) (cm_items h) = []")
  case True
  have "user_message_positions E (cm_items h) = []" if "filter (is_user_turn_boundary E) (cm_items h) = []"
    using that length_positions [of "is_user_turn_boundary E" 0 "cm_items h"]
    by (simp add: user_message_positions_def)
  with True have "cm_items (drop_last_n_user_turns E n h) = cm_items h"
    by (auto simp: drop_last_n_user_turns_def replace_items_def)
  then show ?thesis using True by auto
next
  case False
  then have "n \<noteq> 0" "filter (is_user_turn_boundary E) (cm_items h) \<noteq> []" by simp_all
  from rollback_cut [OF this] obtain first cut where
    r: "cm_items (drop_last_n_user_turns E n h) = take cut (cm_items h)"
    "first \<le> cut" "first < length (cm_items h)" "is_user_turn_boundary E (cm_items h ! first)"
    "filter (is_user_turn_boundary E) (take first (cm_items h)) = []"
    "length (filter (is_user_turn_boundary E) (take cut (cm_items h))) =
      length (filter (is_user_turn_boundary E) (cm_items h)) - n" by blast
  have "takeWhile (\<lambda>x. \<not> is_user_turn_boundary E x) (take j (cm_items h)) = take first (cm_items h)"
    if "first \<le> j" for j
    using takeWhile_take_filter [OF r(5) that] r(3,4) by simp
  from this [of cut] this [of "length (cm_items h)"] r(2,3)
  have "takeWhile (\<lambda>x. \<not> is_user_turn_boundary E x) (take cut (cm_items h)) =
      takeWhile (\<lambda>x. \<not> is_user_turn_boundary E x) (cm_items h)" by simp
  moreover have "\<exists>rest. cm_items h = take cut (cm_items h) @ rest" by (metis append_take_drop_id)
  ultimately show ?thesis unfolding r(1) using r(6) by simp
qed

text \<open>A rollback of a history without turns still counts as a rewrite of the history.\<close>

lemma rollback_without_turns_rewrites:
  "history_version (drop_last_n_user_turns E 1 (new_context_manager\<lparr>world_state_baseline := Some w\<rparr>)) = 1 \<and>
   world_state_baseline (drop_last_n_user_turns E 1 (new_context_manager\<lparr>world_state_baseline := Some w\<rparr>)) = None"
  by (simp add: drop_last_n_user_turns_def new_context_manager_def user_message_positions_def
      replace_items_def usize_max_def)

section \<open>Removing the oldest item\<close>

fun client_search_output_id :: "('j, 'x) response_item \<Rightarrow> ustring option" where
  "client_search_output_id (ToolSearchOutput i call_id st execution tools m) =
     (if execution = lit ''server'' then None else call_id)"
| "client_search_output_id _ = None"

lemma client_case: "(case x of ToolSearchOutput i (Some c) st execution tools m \<Rightarrow>
    execution = lit ''server'' \<or> c \<in> S | _ \<Rightarrow> True) \<longleftrightarrow> (\<forall>c. client_search_output_id x = Some c \<longrightarrow> c \<in> S)"
  by (cases x) (auto split: option.splits)

lemma paired_alt: "paired items \<longleftrightarrow>
    set (ids function_call_id items) \<union> set (ids local_shell_call_id items) = set (ids function_output_id items) \<and>
    set (ids custom_tool_call_id items) = set (ids custom_tool_output_id items) \<and>
    set (ids tool_search_call_id items) \<subseteq> set (ids tool_search_output_id items) \<and>
    set (ids client_search_output_id items) \<subseteq> set (ids tool_search_call_id items)"
proof -
  have "(\<forall>x \<in> set items. \<forall>c. client_search_output_id x = Some c \<longrightarrow> c \<in> S) \<longleftrightarrow>
      set (ids client_search_output_id items) \<subseteq> S" for S
    by (auto simp: subset_iff set_ids)
  then show ?thesis unfolding paired_def client_case list_all_iff by simp
qed

definition unique_ids :: "('j, 'x) response_item list \<Rightarrow> bool" where
  "unique_ids items \<longleftrightarrow>
     distinct (ids function_call_id items @ ids local_shell_call_id items) \<and>
     distinct (ids function_output_id items) \<and>
     distinct (ids custom_tool_call_id items) \<and> distinct (ids custom_tool_output_id items) \<and>
     distinct (ids tool_search_call_id items) \<and> distinct (ids tool_search_output_id items)"

lemma ids_simps [simp]:
  "ids f [] = []" "ids f (x # xs) = (case f x of None \<Rightarrow> ids f xs | Some c \<Rightarrow> c # ids f xs)"
  by (simp_all add: ids_def List.map_filter_simps split: option.split)

lemma ids_remove_first: "ids f (remove_first_matching (\<lambda>x. f x = Some c) xs) = remove1 c (ids f xs)"
  by (induction xs) (auto split: option.splits)

lemma ids_remove_other:
  "(\<And>x. g x = Some c \<Longrightarrow> f x = None) \<Longrightarrow> ids f (remove_first_matching (\<lambda>x. g x = Some c) xs) = ids f xs"
  by (induction xs) (auto split: option.splits)

lemma remove_first_subset: "x \<in> set (remove_first_matching p xs) \<Longrightarrow> x \<in> set xs"
  by (induction xs) (auto split: if_splits)

lemma ids_exclusive:
  "function_output_id x = Some c \<Longrightarrow> function_call_id x = None \<and> local_shell_call_id x = None \<and>
     custom_tool_call_id x = None \<and> custom_tool_output_id x = None \<and> tool_search_call_id x = None \<and>
     tool_search_output_id x = None \<and> client_search_output_id x = None"
  "custom_tool_output_id x = Some c \<Longrightarrow> function_call_id x = None \<and> local_shell_call_id x = None \<and>
     custom_tool_call_id x = None \<and> function_output_id x = None \<and> tool_search_call_id x = None \<and>
     tool_search_output_id x = None \<and> client_search_output_id x = None"
  "tool_search_output_id x = Some c \<Longrightarrow> function_call_id x = None \<and> local_shell_call_id x = None \<and>
     custom_tool_call_id x = None \<and> function_output_id x = None \<and> tool_search_call_id x = None \<and>
     custom_tool_output_id x = None"
  "function_call_id x = Some c \<Longrightarrow> function_output_id x = None \<and> local_shell_call_id x = None \<and>
     custom_tool_call_id x = None \<and> custom_tool_output_id x = None \<and> tool_search_call_id x = None \<and>
     tool_search_output_id x = None \<and> client_search_output_id x = None"
  "local_shell_call_id x = Some c \<Longrightarrow> function_output_id x = None \<and> function_call_id x = None \<and>
     custom_tool_call_id x = None \<and> custom_tool_output_id x = None \<and> tool_search_call_id x = None \<and>
     tool_search_output_id x = None \<and> client_search_output_id x = None"
  "custom_tool_call_id x = Some c \<Longrightarrow> function_output_id x = None \<and> function_call_id x = None \<and>
     local_shell_call_id x = None \<and> custom_tool_output_id x = None \<and> tool_search_call_id x = None \<and>
     tool_search_output_id x = None \<and> client_search_output_id x = None"
  "tool_search_call_id x = Some c \<Longrightarrow> function_output_id x = None \<and> function_call_id x = None \<and>
     local_shell_call_id x = None \<and> custom_tool_output_id x = None \<and> custom_tool_call_id x = None \<and>
     tool_search_output_id x = None \<and> client_search_output_id x = None"
  by (cases x; simp)+

lemma client_ids_subset: "set (ids client_search_output_id xs) \<subseteq> set (ids tool_search_output_id xs)"
proof -
  have "client_search_output_id x = Some c \<Longrightarrow> tool_search_output_id x = Some c" for x :: "('a, 'b) response_item" and c
    by (cases x) (auto split: if_splits)
  then show ?thesis by (auto simp: subset_iff set_ids)
qed

lemma client_ids_remove:
  "set (ids client_search_output_id (remove_first_matching p xs)) \<subseteq> set (ids client_search_output_id xs)"
  using remove_first_subset by (fastforce simp: set_ids)

text \<open>What is left of the identifiers when the first item with one is removed.\<close>

lemma ids_removed_output:
  "ids function_call_id (remove_first_matching (\<lambda>x. function_output_id x = Some c) xs) = ids function_call_id xs"
  "ids local_shell_call_id (remove_first_matching (\<lambda>x. function_output_id x = Some c) xs) = ids local_shell_call_id xs"
  "ids custom_tool_call_id (remove_first_matching (\<lambda>x. function_output_id x = Some c) xs) = ids custom_tool_call_id xs"
  "ids custom_tool_output_id (remove_first_matching (\<lambda>x. function_output_id x = Some c) xs) = ids custom_tool_output_id xs"
  "ids tool_search_call_id (remove_first_matching (\<lambda>x. function_output_id x = Some c) xs) = ids tool_search_call_id xs"
  "ids tool_search_output_id (remove_first_matching (\<lambda>x. function_output_id x = Some c) xs) = ids tool_search_output_id xs"
  "ids client_search_output_id (remove_first_matching (\<lambda>x. function_output_id x = Some c) xs) = ids client_search_output_id xs"
  by (rule ids_remove_other, blast dest: ids_exclusive)+

lemma ids_removed_custom_output:
  "ids function_call_id (remove_first_matching (\<lambda>x. custom_tool_output_id x = Some c) xs) = ids function_call_id xs"
  "ids local_shell_call_id (remove_first_matching (\<lambda>x. custom_tool_output_id x = Some c) xs) = ids local_shell_call_id xs"
  "ids custom_tool_call_id (remove_first_matching (\<lambda>x. custom_tool_output_id x = Some c) xs) = ids custom_tool_call_id xs"
  "ids function_output_id (remove_first_matching (\<lambda>x. custom_tool_output_id x = Some c) xs) = ids function_output_id xs"
  "ids tool_search_call_id (remove_first_matching (\<lambda>x. custom_tool_output_id x = Some c) xs) = ids tool_search_call_id xs"
  "ids tool_search_output_id (remove_first_matching (\<lambda>x. custom_tool_output_id x = Some c) xs) = ids tool_search_output_id xs"
  "ids client_search_output_id (remove_first_matching (\<lambda>x. custom_tool_output_id x = Some c) xs) = ids client_search_output_id xs"
  by (rule ids_remove_other, blast dest: ids_exclusive)+

lemma ids_removed_search_output:
  "ids function_call_id (remove_first_matching (\<lambda>x. tool_search_output_id x = Some c) xs) = ids function_call_id xs"
  "ids local_shell_call_id (remove_first_matching (\<lambda>x. tool_search_output_id x = Some c) xs) = ids local_shell_call_id xs"
  "ids custom_tool_call_id (remove_first_matching (\<lambda>x. tool_search_output_id x = Some c) xs) = ids custom_tool_call_id xs"
  "ids function_output_id (remove_first_matching (\<lambda>x. tool_search_output_id x = Some c) xs) = ids function_output_id xs"
  "ids tool_search_call_id (remove_first_matching (\<lambda>x. tool_search_output_id x = Some c) xs) = ids tool_search_call_id xs"
  "ids custom_tool_output_id (remove_first_matching (\<lambda>x. tool_search_output_id x = Some c) xs) = ids custom_tool_output_id xs"
  by (rule ids_remove_other, blast dest: ids_exclusive)+

lemma ids_removed_function_call:
  "ids local_shell_call_id (remove_first_matching (\<lambda>x. function_call_id x = Some c) xs) = ids local_shell_call_id xs"
  "ids custom_tool_call_id (remove_first_matching (\<lambda>x. function_call_id x = Some c) xs) = ids custom_tool_call_id xs"
  "ids tool_search_call_id (remove_first_matching (\<lambda>x. function_call_id x = Some c) xs) = ids tool_search_call_id xs"
  "ids function_output_id (remove_first_matching (\<lambda>x. function_call_id x = Some c) xs) = ids function_output_id xs"
  "ids custom_tool_output_id (remove_first_matching (\<lambda>x. function_call_id x = Some c) xs) = ids custom_tool_output_id xs"
  "ids tool_search_output_id (remove_first_matching (\<lambda>x. function_call_id x = Some c) xs) = ids tool_search_output_id xs"
  "ids client_search_output_id (remove_first_matching (\<lambda>x. function_call_id x = Some c) xs) = ids client_search_output_id xs"
  by (rule ids_remove_other, blast dest: ids_exclusive)+

lemma ids_removed_shell_call:
  "ids function_call_id (remove_first_matching (\<lambda>x. local_shell_call_id x = Some c) xs) = ids function_call_id xs"
  "ids custom_tool_call_id (remove_first_matching (\<lambda>x. local_shell_call_id x = Some c) xs) = ids custom_tool_call_id xs"
  "ids tool_search_call_id (remove_first_matching (\<lambda>x. local_shell_call_id x = Some c) xs) = ids tool_search_call_id xs"
  "ids function_output_id (remove_first_matching (\<lambda>x. local_shell_call_id x = Some c) xs) = ids function_output_id xs"
  "ids custom_tool_output_id (remove_first_matching (\<lambda>x. local_shell_call_id x = Some c) xs) = ids custom_tool_output_id xs"
  "ids tool_search_output_id (remove_first_matching (\<lambda>x. local_shell_call_id x = Some c) xs) = ids tool_search_output_id xs"
  "ids client_search_output_id (remove_first_matching (\<lambda>x. local_shell_call_id x = Some c) xs) = ids client_search_output_id xs"
  by (rule ids_remove_other, blast dest: ids_exclusive)+

lemma ids_removed_custom_call:
  "ids function_call_id (remove_first_matching (\<lambda>x. custom_tool_call_id x = Some c) xs) = ids function_call_id xs"
  "ids local_shell_call_id (remove_first_matching (\<lambda>x. custom_tool_call_id x = Some c) xs) = ids local_shell_call_id xs"
  "ids tool_search_call_id (remove_first_matching (\<lambda>x. custom_tool_call_id x = Some c) xs) = ids tool_search_call_id xs"
  "ids function_output_id (remove_first_matching (\<lambda>x. custom_tool_call_id x = Some c) xs) = ids function_output_id xs"
  "ids custom_tool_output_id (remove_first_matching (\<lambda>x. custom_tool_call_id x = Some c) xs) = ids custom_tool_output_id xs"
  "ids tool_search_output_id (remove_first_matching (\<lambda>x. custom_tool_call_id x = Some c) xs) = ids tool_search_output_id xs"
  "ids client_search_output_id (remove_first_matching (\<lambda>x. custom_tool_call_id x = Some c) xs) = ids client_search_output_id xs"
  by (rule ids_remove_other, blast dest: ids_exclusive)+

lemma ids_removed_search_call:
  "ids function_call_id (remove_first_matching (\<lambda>x. tool_search_call_id x = Some c) xs) = ids function_call_id xs"
  "ids local_shell_call_id (remove_first_matching (\<lambda>x. tool_search_call_id x = Some c) xs) = ids local_shell_call_id xs"
  "ids custom_tool_call_id (remove_first_matching (\<lambda>x. tool_search_call_id x = Some c) xs) = ids custom_tool_call_id xs"
  "ids function_output_id (remove_first_matching (\<lambda>x. tool_search_call_id x = Some c) xs) = ids function_output_id xs"
  "ids custom_tool_output_id (remove_first_matching (\<lambda>x. tool_search_call_id x = Some c) xs) = ids custom_tool_output_id xs"
  "ids tool_search_output_id (remove_first_matching (\<lambda>x. tool_search_call_id x = Some c) xs) = ids tool_search_output_id xs"
  "ids client_search_output_id (remove_first_matching (\<lambda>x. tool_search_call_id x = Some c) xs) = ids client_search_output_id xs"
  by (rule ids_remove_other, blast dest: ids_exclusive)+

lemma list_ex_ids: "list_ex (\<lambda>x. f x = Some c) xs \<longleftrightarrow> c \<in> set (ids f xs)"
  by (auto simp: set_ids list_ex_iff)

lemmas ids_removed = ids_remove_first ids_removed_output ids_removed_custom_output
  ids_removed_search_output ids_removed_function_call ids_removed_shell_call ids_removed_custom_call
  ids_removed_search_call

lemma client_without_output:
  assumes "set (ids client_search_output_id (x # xs)) \<subseteq> insert c S" and "distinct (ids tool_search_output_id xs)"
  shows "set (ids client_search_output_id (remove_first_matching (\<lambda>x. tool_search_output_id x = Some c) xs)) \<subseteq> S"
proof -
  let ?ys = "remove_first_matching (\<lambda>x. tool_search_output_id x = Some c) xs"
  have "c \<notin> set (ids tool_search_output_id ?ys)" using assms(2) by (simp add: ids_remove_first)
  then have "c \<notin> set (ids client_search_output_id ?ys)" using client_ids_subset [of ?ys] by blast
  then show ?thesis
    using assms(1) client_ids_remove [of "\<lambda>x. tool_search_output_id x = Some c" xs]
    by (auto split: option.splits)
qed

text \<open>C33.  Dropping the oldest item keeps calls and outputs paired, without a new normalisation, as
  long as no identifier is used twice.\<close>

theorem remove_first_keeps_pairs:
  assumes "paired (cm_items h)" and "unique_ids (cm_items h)"
  shows "paired (cm_items (remove_first_item h))"
proof (cases "cm_items h")
  case Nil
  then show ?thesis using assms by (simp add: remove_first_item_def)
next
  case (Cons x xs)
  then have p: "paired (x # xs)" and u: "unique_ids (x # xs)" using assms by simp_all
  have "paired (remove_corresponding_for x xs)"
  proof (cases x)
    case (ToolSearchCall i cid st ex args m)
    then show ?thesis using p u client_without_output [of x xs _ "set (ids tool_search_call_id xs)"]
      by (cases cid) (auto simp: paired_alt unique_ids_def ids_removed)
  next
    case (ToolSearchOutput i cid st ex tools m)
    then show ?thesis using p u client_ids_subset [of xs]
      by (cases cid) (auto simp: paired_alt unique_ids_def ids_removed split: if_splits)
  next
    case (FunctionCallOutput i cid out m)
    then show ?thesis using p u by (auto simp: paired_alt unique_ids_def ids_removed list_ex_ids)
  next
    case (LocalShellCall i cid st act m)
    then show ?thesis using p u by (cases cid) (auto simp: paired_alt unique_ids_def ids_removed)
  qed (use p u in \<open>auto simp: paired_alt unique_ids_def ids_removed\<close>)
  then show ?thesis using Cons by (simp add: remove_first_item_def)
qed

theorem remove_first_keeps_pairs_witness:
  "paired (cm_items (remove_first_item (new_context_manager\<lparr>cm_items :=
      [FunctionCall None [] None [] None (lit ''c'') None, CustomToolCall None None (lit ''d'') [] None [] None,
       CustomToolCallOutput None (lit ''d'') None (payload_from_text []) None,
       FunctionCallOutput None (lit ''c'') (payload_from_text []) None]\<rparr> :: (unit, unit, unit, unit) context_manager)))"
  by (rule remove_first_keeps_pairs) (simp_all add: paired_alt unique_ids_def)

section \<open>Token estimates\<close>

text \<open>\<open>i64\<close> arithmetic that saturates.\<close>

definition i64_max :: int where
  "i64_max = 2 ^ 63 - 1"

definition clamp_i64 :: "int \<Rightarrow> int" where
  "clamp_i64 n = max (- i64_max - 1) (min n i64_max)"

definition sat_add_i64 :: "int \<Rightarrow> int \<Rightarrow> int" where
  "sat_add_i64 a b = clamp_i64 (a + b)"

definition sat_sub_i64 :: "int \<Rightarrow> int \<Rightarrow> int" where
  "sat_sub_i64 a b = clamp_i64 (a - b)"

definition i64_of_usize :: "nat \<Rightarrow> int" where
  "i64_of_usize n = min (int n) i64_max"

definition estimate_reasoning_length :: "nat \<Rightarrow> nat" where
  "estimate_reasoning_length encoded_len = sat_mul encoded_len 3 div 4 - 650"

definition estimate_encrypted_function_output_length :: "nat \<Rightarrow> nat" where
  "estimate_encrypted_function_output_length encoded_len = (sat_mul encoded_len 9 + 15) div 16"

definition RESIZED_IMAGE_BYTES_ESTIMATE :: int where
  "RESIZED_IMAGE_BYTES_ESTIMATE = 7373"

definition parse_base64_data_url :: "ustring \<Rightarrow> ustring \<Rightarrow> ustring option" where
  "parse_base64_data_url url media_type_prefix =
     (if \<not> is_some_and (str_get_to url 5) (\<lambda>pfx. eq_ignore_ascii_case pfx (lit ''data:'')) then None
      else case split_once 44 url of None \<Rightarrow> None
      | Some (metadata, payload) \<Rightarrow>
          let metadata_parts = split_on 59 (str_drop 5 metadata);
              mime_type = (case metadata_parts of [] \<Rightarrow> [] | part # _ \<Rightarrow> part);
              has_base64_marker = list_ex (\<lambda>part. eq_ignore_ascii_case part (lit ''base64'')) (tl metadata_parts) in
          if \<not> is_some_and (str_get_to mime_type (str_len media_type_prefix))
               (\<lambda>pfx. eq_ignore_ascii_case pfx media_type_prefix) then None
          else if \<not> has_base64_marker then None
          else Some payload)"

definition parse_base64_image_data_url :: "ustring \<Rightarrow> ustring option" where
  "parse_base64_image_data_url url = parse_base64_data_url url (lit ''image/'')"

definition parse_base64_audio_data_url :: "ustring \<Rightarrow> ustring option" where
  "parse_base64_audio_data_url url = parse_base64_data_url url (lit ''audio/'')"

text \<open>The result is cached under a digest of the URL; decoding the payload and the image is the
  parameter \<open>image_dimensions\<close>.\<close>

definition estimate_original_image_bytes :: "('j, 'x) history_env \<Rightarrow> ustring \<Rightarrow> int option" where
  "estimate_original_image_bytes E image_url =
     (case parse_base64_image_data_url image_url of None \<Rightarrow> None
      | Some payload \<Rightarrow> (case image_dimensions E payload of None \<Rightarrow> None
      | Some (width, height) \<Rightarrow>
          let patches_wide = (width + 31) div 32;
              patches_high = (height + 31) div 32;
              patch_count = min (min (patches_wide * patches_high) (nat i64_max)) 10000 in
          Some (i64_of_usize (approx_bytes_for_tokens patch_count))))"

fun image_parts :: "('j, 'x) response_item \<Rightarrow> (ustring \<times> image_detail option) list" where
  "image_parts (Message i role content phase m) =
     List.map_filter (\<lambda>c. case c of CInputImage url detail \<Rightarrow> Some (url, detail) | _ \<Rightarrow> None) content"
| "image_parts (FunctionCallOutput i call_id output m) = (case payload_body output of BodyText _ \<Rightarrow> []
     | BodyItems items \<Rightarrow> List.map_filter (\<lambda>c. case c of InputImage url detail \<Rightarrow> Some (url, detail) | _ \<Rightarrow> None) items)"
| "image_parts (CustomToolCallOutput i call_id n output m) = (case payload_body output of BodyText _ \<Rightarrow> []
     | BodyItems items \<Rightarrow> List.map_filter (\<lambda>c. case c of InputImage url detail \<Rightarrow> Some (url, detail) | _ \<Rightarrow> None) items)"
| "image_parts _ = []"

definition image_data_url_estimate_adjustment ::
    "('j, 'x) history_env \<Rightarrow> ('j, 'x) response_item \<Rightarrow> int \<times> int" where
  "image_data_url_estimate_adjustment E item =
     fold (\<lambda>(image_url, detail) (payload_bytes, replacement_bytes).
       case parse_base64_image_data_url image_url of None \<Rightarrow> (payload_bytes, replacement_bytes)
       | Some payload \<Rightarrow>
           (sat_add_i64 payload_bytes (i64_of_usize (str_len payload)),
            sat_add_i64 replacement_bytes
              (if detail = Some Original
               then (case estimate_original_image_bytes E image_url of None \<Rightarrow> RESIZED_IMAGE_BYTES_ESTIMATE | Some n \<Rightarrow> n)
               else RESIZED_IMAGE_BYTES_ESTIMATE))) (image_parts item) (0, 0)"

fun audio_parts :: "('j, 'x) response_item \<Rightarrow> ustring list" where
  "audio_parts (Message i role content phase m) =
     List.map_filter (\<lambda>c. case c of CInputAudio url \<Rightarrow> Some url | _ \<Rightarrow> None) content"
| "audio_parts (FunctionCallOutput i call_id output m) = (case payload_body output of BodyText _ \<Rightarrow> []
     | BodyItems items \<Rightarrow> List.map_filter (\<lambda>c. case c of InputAudio url \<Rightarrow> Some url | _ \<Rightarrow> None) items)"
| "audio_parts (CustomToolCallOutput i call_id n output m) = (case payload_body output of BodyText _ \<Rightarrow> []
     | BodyItems items \<Rightarrow> List.map_filter (\<lambda>c. case c of InputAudio url \<Rightarrow> Some url | _ \<Rightarrow> None) items)"
| "audio_parts _ = []"

definition audio_data_url_estimate_adjustment ::
    "('j, 'x) history_env \<Rightarrow> ('j, 'x) response_item \<Rightarrow> int \<times> int" where
  "audio_data_url_estimate_adjustment E item =
     fold (\<lambda>audio_url (payload_bytes, replacement_bytes).
       case parse_base64_audio_data_url audio_url of None \<Rightarrow> (payload_bytes, replacement_bytes)
       | Some payload \<Rightarrow>
           (sat_add_i64 payload_bytes (i64_of_usize (str_len payload)),
            sat_add_i64 replacement_bytes
              (i64_of_usize (approx_bytes_for_tokens (audio_token_count E audio_url))))) (audio_parts item) (0, 0)"

fun encrypted_parts :: "('j, 'x) response_item \<Rightarrow> ustring list" where
  "encrypted_parts (FunctionCallOutput i call_id output m) = (case payload_body output of BodyText _ \<Rightarrow> []
     | BodyItems items \<Rightarrow> List.map_filter (\<lambda>c. case c of EncryptedContent e \<Rightarrow> Some e | _ \<Rightarrow> None) items)"
| "encrypted_parts (AgentMessage i author rcpt content m) =
     List.map_filter (\<lambda>c. case c of AEncryptedContent e \<Rightarrow> Some e | _ \<Rightarrow> None) content"
| "encrypted_parts _ = []"

definition encrypted_function_output_estimate_adjustment :: "('j, 'x) response_item \<Rightarrow> int \<times> int" where
  "encrypted_function_output_estimate_adjustment item =
     fold (\<lambda>encrypted (payload_bytes, replacement_bytes).
       (sat_add_i64 payload_bytes (i64_of_usize (str_len encrypted)),
        sat_add_i64 replacement_bytes
          (i64_of_usize (estimate_encrypted_function_output_length (str_len encrypted)))))
       (encrypted_parts item) (0, 0)"

fun encrypted_reasoning :: "('j, 'x) response_item \<Rightarrow> ustring option" where
  "encrypted_reasoning (Reasoning i summary content encrypted m) = encrypted"
| "encrypted_reasoning (Compaction i encrypted m) = Some encrypted"
| "encrypted_reasoning (ContextCompaction i encrypted m) = encrypted"
| "encrypted_reasoning _ = None"

definition estimate_response_item_model_visible_bytes ::
    "('j, 'x) history_env \<Rightarrow> ('j, 'x) response_item \<Rightarrow> int" where
  "estimate_response_item_model_visible_bytes E item =
     (case encrypted_reasoning item of
        Some content \<Rightarrow> i64_of_usize (estimate_reasoning_length (str_len content))
      | None \<Rightarrow>
          let raw = (case serialized_len E item of None \<Rightarrow> 0 | Some n \<Rightarrow> i64_of_usize n);
              (image_payload, image_replacement) = image_data_url_estimate_adjustment E item;
              (audio_payload, audio_replacement) = audio_data_url_estimate_adjustment E item;
              (encrypted_payload, encrypted_replacement) = encrypted_function_output_estimate_adjustment item;
              raw = sat_add_i64 (sat_sub_i64 (sat_add_i64 (sat_sub_i64 raw image_payload)
                image_replacement) audio_payload) audio_replacement in
          sat_add_i64 (sat_sub_i64 raw encrypted_payload) encrypted_replacement)"

definition estimate_item_token_count :: "('j, 'x) history_env \<Rightarrow> ('j, 'x) response_item \<Rightarrow> int" where
  "estimate_item_token_count E item =
     approx_tokens_from_byte_count_i64 (estimate_response_item_model_visible_bytes E item)"

definition sum_tokens :: "('j, 'x) history_env \<Rightarrow> ('j, 'x) response_item list \<Rightarrow> int" where
  "sum_tokens E items = fold (\<lambda>n total. sat_add_i64 total n) (map (estimate_item_token_count E) items) 0"

definition estimate_token_count_with_base_instructions ::
    "('j, 'x) history_env \<Rightarrow> ustring \<Rightarrow> ('j, 'x, 'r, 'w) context_manager \<Rightarrow> int option" where
  "estimate_token_count_with_base_instructions E base_text h =
     Some (sat_add_i64 (i64_of_usize (approx_token_count base_text)) (sum_tokens E (cm_items h)))"

text \<open>\<open>Iterator::rposition\<close>.\<close>

definition rposition :: "('a \<Rightarrow> bool) \<Rightarrow> 'a list \<Rightarrow> nat option" where
  "rposition p xs = last_opt (map fst (filter (\<lambda>(i, x). p x) (enumerate 0 xs)))"

fun is_encrypted_reasoning :: "('j, 'x) response_item \<Rightarrow> bool" where
  "is_encrypted_reasoning (Reasoning i summary content encrypted m) = (encrypted \<noteq> None)"
| "is_encrypted_reasoning _ = False"

definition get_non_last_reasoning_items_tokens ::
    "('j, 'x) history_env \<Rightarrow> ('j, 'x, 'r, 'w) context_manager \<Rightarrow> int" where
  "get_non_last_reasoning_items_tokens E h =
     (case rposition (is_user_turn_boundary E) (cm_items h) of None \<Rightarrow> 0
      | Some last_user_index \<Rightarrow> sum_tokens E (filter is_encrypted_reasoning (take last_user_index (cm_items h))))"

fun is_model_generated_item :: "('j, 'x) response_item \<Rightarrow> bool" where
  "is_model_generated_item (Message i role content phase m) = (role = lit ''assistant'')"
| "is_model_generated_item (Reasoning i summary content encrypted m) = True"
| "is_model_generated_item (FunctionCall i n ns args enc call_id m) = True"
| "is_model_generated_item (ToolSearchCall i call_id st ex args m) = True"
| "is_model_generated_item (WebSearchCall i st act m) = True"
| "is_model_generated_item (ImageGenerationCall i st rp res m) = True"
| "is_model_generated_item (CustomToolCall i st call_id n ns inp m) = True"
| "is_model_generated_item (LocalShellCall i call_id st act m) = True"
| "is_model_generated_item (Compaction i enc m) = True"
| "is_model_generated_item (ContextCompaction i enc m) = True"
| "is_model_generated_item _ = False"

definition items_after_last_model_generated_item ::
    "('j, 'x, 'r, 'w) context_manager \<Rightarrow> ('j, 'x) response_item list" where
  "items_after_last_model_generated_item h =
     (let start = (case rposition is_model_generated_item (cm_items h) of
        None \<Rightarrow> length (cm_items h) | Some index \<Rightarrow> sat_add index 1) in drop start (cm_items h))"

definition get_total_token_usage ::
    "('j, 'x) history_env \<Rightarrow> bool \<Rightarrow> ('j, 'x, 'r, 'w) context_manager \<Rightarrow> int" where
  "get_total_token_usage E server_reasoning_included h =
     (let last_tokens = (case token_info h of None \<Rightarrow> 0 | Some info \<Rightarrow> total_tokens (last_token_usage info));
          items_tokens = sum_tokens E (items_after_last_model_generated_item h) in
      if server_reasoning_included then sat_add_i64 last_tokens items_tokens
      else sat_add_i64 (sat_add_i64 last_tokens (get_non_last_reasoning_items_tokens E h)) items_tokens)"

definition estimated_tokens_after_last_model_generated_item ::
    "('j, 'x) history_env \<Rightarrow> ('j, 'x, 'r, 'w) context_manager \<Rightarrow> int" where
  "estimated_tokens_after_last_model_generated_item E h = sum_tokens E (items_after_last_model_generated_item h)"

lemma estimate_item_nonneg: "0 \<le> estimate_item_token_count E item"
  by (simp add: estimate_item_token_count_def approx_tokens_from_byte_count_i64_def)

lemma sum_tokens_bounds: "0 \<le> sum_tokens E items \<and> sum_tokens E items \<le> i64_max"
proof -
  have "0 \<le> t \<and> t \<le> i64_max \<Longrightarrow> \<forall>n \<in> set ns. 0 \<le> n \<Longrightarrow>
      0 \<le> fold (\<lambda>n total. sat_add_i64 total n) ns t \<and> fold (\<lambda>n total. sat_add_i64 total n) ns t \<le> i64_max"
    for ns t
    by (induction ns arbitrary: t) (simp_all add: sat_add_i64_def clamp_i64_def i64_max_def)
  from this [of 0 "map (estimate_item_token_count E) items"] show ?thesis
    by (auto simp: sum_tokens_def estimate_item_nonneg i64_max_def)
qed

text \<open>The items counted on top of the last usage report are those after the last item of the model,
  and none while the model has not produced an item.\<close>

lemma positions_snoc:
  "filter (\<lambda>(i, x). p x) (enumerate n (xs @ [y])) =
   filter (\<lambda>(i, x). p x) (enumerate n xs) @ (if p y then [(n + length xs, y)] else [])"
  by (simp add: enumerate_append_eq)

lemma after_rposition:
  "(case rposition p xs of None \<Rightarrow> drop (length xs) xs | Some i \<Rightarrow> drop (Suc i) xs) =
     (if list_ex p xs then rev (takeWhile (\<lambda>x. \<not> p x) (rev xs)) else []) \<and>
   (case rposition p xs of None \<Rightarrow> \<not> list_ex p xs | Some i \<Rightarrow> i < length xs \<and> list_ex p xs)"
  by (induction xs rule: rev_induct)
    (auto simp: rposition_def positions_snoc last_opt_def split: option.splits if_splits)

lemma items_after_last_model_generated:
  assumes "length (cm_items h) \<le> usize_max"
  shows "items_after_last_model_generated_item h =
    (if list_ex is_model_generated_item (cm_items h)
     then rev (takeWhile (\<lambda>x. \<not> is_model_generated_item x) (rev (cm_items h))) else [])"
  using after_rposition [of "cm_items h" is_model_generated_item] assms
  by (auto simp: items_after_last_model_generated_item_def Let_def split: option.splits)

end
