(* ===== verification/Shell_Command.thy ===== *)
theory Shell_Command
  imports Rust_Str
begin

text \<open>
  \<open>shell-command/src/bash.rs\<close> and the shell detection of \<open>shell_detect.rs\<close> on Unix: the commands
  of a script given to a shell with \<open>-c\<close> or \<open>-lc\<close>.  The parser is the tree-sitter library: it is
  the parameter \<open>parse\<close>, which returns the syntax tree of a script.
\<close>

section \<open>Paths\<close>

text \<open>\<open>Path\<close> on Unix: empty parts and inner \<open>.\<close> parts do not count as components.\<close>

definition path_parts :: "ustring \<Rightarrow> ustring list" where
  "path_parts s = filter (\<lambda>p. p \<noteq> [] \<and> p \<noteq> lit ''.'') (split_on 47 s)"

definition path_components :: "ustring \<Rightarrow> bool \<times> bool \<times> ustring list" where
  "path_components s =
     (starts_with s [47], \<not> starts_with s [47] \<and> take 1 (split_on 47 s) = [lit ''.''], path_parts s)"

definition file_name :: "ustring \<Rightarrow> ustring option" where
  "file_name s =
     (case last_opt (path_parts s) of None \<Rightarrow> None
      | Some p \<Rightarrow> if p = lit ''..'' then None else Some p)"

definition file_stem :: "ustring \<Rightarrow> ustring option" where
  "file_stem s =
     (case file_name s of None \<Rightarrow> None
      | Some name \<Rightarrow>
          (case rsplit_once 46 name of None \<Rightarrow> Some name
           | Some (before, after) \<Rightarrow> if before = [] then Some name else Some before))"

lemma split_on_part: "p \<in> set (split_on c s) \<Longrightarrow> length p < length s \<or> p = s"
proof (induction s arbitrary: p)
  case (Cons d s)
  show ?case
  proof (cases "d = c")
    case True
    then consider "p = []" | "p \<in> set (split_on c s)" using Cons.prems by auto
    then show ?thesis using Cons.IH [of p] by cases auto
  next
    case False
    obtain l ls where l: "split_on c s = l # ls" using split_on_nonempty [of c s] by (cases "split_on c s") auto
    then consider "p = d # l" | "p \<in> set ls" using Cons.prems False by auto
    then show ?thesis using Cons.IH [of l] Cons.IH [of p] l by cases auto
  qed
qed simp

lemma file_stem_shorter: "file_stem s = Some t \<Longrightarrow> length t < length s \<or> t = s"
proof -
  assume stem: "file_stem s = Some t"
  then obtain name where name: "file_name s = Some name" by (auto simp: file_stem_def split: option.splits)
  then have "last_opt (path_parts s) = Some name"
    by (auto simp: file_name_def split: option.splits if_splits)
  then have "name \<in> set (path_parts s)" by (auto simp: last_opt_Some)
  then have "name \<in> set (split_on 47 s)" by (simp add: path_parts_def)
  then have "length name < length s \<or> name = s" by (rule split_on_part)
  moreover have "length t < length name \<or> t = name"
    using stem name by (auto simp: file_stem_def rsplit_once_Some split: option.splits if_splits)
  ultimately show ?thesis by auto
qed

section \<open>Shells\<close>

datatype shell_type = Zsh | Bash | PowerShell | Sh | Cmd

definition shell_of_name :: "ustring \<Rightarrow> shell_type option" where
  "shell_of_name s =
     (if s = lit ''zsh'' then Some Zsh
      else if s = lit ''sh'' then Some Sh
      else if s = lit ''cmd'' then Some Cmd
      else if s = lit ''bash'' then Some Bash
      else if s = lit ''pwsh'' then Some PowerShell
      else if s = lit ''powershell'' then Some PowerShell
      else None)"

function detect_shell_type :: "ustring \<Rightarrow> shell_type option" where
  "detect_shell_type shell_path =
     (case shell_of_name shell_path of Some t \<Rightarrow> Some t
      | None \<Rightarrow>
          (case file_stem shell_path of None \<Rightarrow> None
           | Some shell_name \<Rightarrow>
               if path_components shell_name \<noteq> path_components shell_path
               then detect_shell_type shell_name else None))"
  by pat_completeness auto
termination
  by (relation "measure length") (auto dest: file_stem_shorter)

declare detect_shell_type.simps [simp del]

definition extract_bash_command :: "ustring list \<Rightarrow> (ustring \<times> ustring) option" where
  "extract_bash_command command =
     (case command of [shell, flag, script] \<Rightarrow>
        if flag \<notin> {lit ''-lc'', lit ''-c''} \<or>
           detect_shell_type shell \<notin> {Some Zsh, Some Bash, Some Sh}
        then None else Some (shell, script)
      | _ \<Rightarrow> None)"

section \<open>Syntax trees\<close>

text \<open>A node of the tree: its kind, whether it is named, where it starts, the source text it spans
  (nothing if that is not valid UTF-8) and its children.  The tree has its root node and whether the
  root contains an error.\<close>

datatype node = Node (kind: ustring) (is_named: bool) (start_byte: nat) (utf8_text: "ustring option") (children: "node list")

record tree =
  root_node :: node
  has_error :: bool

definition named_children :: "node \<Rightarrow> node list" where
  "named_children n = filter is_named (children n)"

definition named_child_0 :: "node \<Rightarrow> node option" where
  "named_child_0 n = (case named_children n of [] \<Rightarrow> None | c # _ \<Rightarrow> Some c)"

text \<open>The nodes a stack-driven walk visits, in its order: the last child pushed is popped first.\<close>

definition selected_children :: "bool \<Rightarrow> node \<Rightarrow> node list" where
  "selected_children only_named n = (if only_named then named_children n else children n)"

lemma size_selected: "sum_list (map size (selected_children b n)) < size n"
proof -
  have "sum_list (map size (filter P cs)) \<le> sum_list (map size cs)" for P and cs :: "node list"
    by (induction cs) auto
  moreover have "sum_list (map size cs) \<le> size_list size cs" for cs :: "node list"
    by (induction cs) auto
  ultimately have "sum_list (map size (selected_children b n)) \<le> size_list size (children n)"
    by (auto simp: selected_children_def named_children_def intro: order.trans)
  also have "\<dots> < size n" by (cases n) simp
  finally show ?thesis .
qed

function visit :: "bool \<Rightarrow> node list \<Rightarrow> node list" where
  "visit only_named [] = []"
| "visit only_named (n # stack) = n # visit only_named (rev (selected_children only_named n) @ stack)"
  by pat_completeness auto
termination
  by (relation "measure (\<lambda>(b, stack). sum_list (map size stack))")
    (simp_all add: rev_map [symmetric] size_selected)

section \<open>Words\<close>

definition parse_double_quoted_string :: "node \<Rightarrow> ustring option" where
  "parse_double_quoted_string n =
     (if kind n \<noteq> lit ''string'' then None
      else if list_ex (\<lambda>part. kind part \<noteq> lit ''string_content'') (named_children n) then None
      else case utf8_text n of None \<Rightarrow> None
      | Some raw \<Rightarrow> (case strip_prefix raw [34] of None \<Rightarrow> None | Some txt \<Rightarrow> strip_suffix txt [34]))"

definition parse_raw_string :: "node \<Rightarrow> ustring option" where
  "parse_raw_string n =
     (if kind n \<noteq> lit ''raw_string'' then None
      else case utf8_text n of None \<Rightarrow> None
      | Some raw \<Rightarrow> (case strip_prefix raw [39] of None \<Rightarrow> None | Some txt \<Rightarrow> strip_suffix txt [39]))"

definition is_literal_word_or_number :: "node \<Rightarrow> bool" where
  "is_literal_word_or_number n \<longleftrightarrow>
     kind n \<in> {lit ''word'', lit ''number''} \<and> named_children n = []"

text \<open>Options collected in order: nothing if one is missing.\<close>

fun collect_options :: "'a option list \<Rightarrow> 'a list option" where
  "collect_options [] = Some []"
| "collect_options (x # xs) =
     (case x of None \<Rightarrow> None
      | Some y \<Rightarrow> (case collect_options xs of None \<Rightarrow> None | Some ys \<Rightarrow> Some (y # ys)))"

definition plain_part :: "node \<Rightarrow> ustring option" where
  "plain_part part =
     (if kind part \<in> {lit ''word'', lit ''number''} then utf8_text part
      else if kind part = lit ''string'' then parse_double_quoted_string part
      else if kind part = lit ''raw_string'' then parse_raw_string part
      else None)"

definition plain_word :: "node \<Rightarrow> ustring option" where
  "plain_word child =
     (if kind child = lit ''command_name'' then
        (case named_child_0 child of None \<Rightarrow> None
         | Some word_node \<Rightarrow> if kind word_node \<noteq> lit ''word'' then None else utf8_text word_node)
      else if kind child = lit ''concatenation'' then
        (case collect_options (map plain_part (named_children child)) of None \<Rightarrow> None
         | Some parts \<Rightarrow> if concat parts = [] then None else Some (concat parts))
      else plain_part child)"

definition parse_plain_command_from_node :: "node \<Rightarrow> ustring list option" where
  "parse_plain_command_from_node cmd =
     (if kind cmd \<noteq> lit ''command'' then None
      else collect_options (map plain_word (named_children cmd)))"

function parse_literal_shell_word :: "node \<Rightarrow> ustring option" where
  "parse_literal_shell_word n =
     (if kind n \<in> {lit ''word'', lit ''number''} \<and> is_literal_word_or_number n then utf8_text n
      else if kind n = lit ''string'' then parse_double_quoted_string n
      else if kind n = lit ''raw_string'' then parse_raw_string n
      else if kind n = lit ''concatenation'' then
        (case collect_options (map parse_literal_shell_word (named_children n)) of None \<Rightarrow> None
         | Some parts \<Rightarrow> if concat parts = [] then None else Some (concat parts))
      else None)"
  by pat_completeness auto
termination
proof (relation "measure size")
  fix n z
  assume "z \<in> set (named_children n)"
  then have "size z \<le> sum_list (map size (selected_children True n))"
    by (simp add: selected_children_def member_le_sum_list)
  then show "(z, n) \<in> measure size" using size_selected [of True n] by simp
qed simp

declare parse_literal_shell_word.simps [simp del]

fun literal_words :: "node list \<Rightarrow> ustring list \<Rightarrow> bool \<Rightarrow> (ustring list \<times> bool) option" where
  "literal_words [] ws found = Some (ws, found)"
| "literal_words (child # cs) ws found =
     (if kind child = lit ''command_name'' then
        (case named_child_0 child of None \<Rightarrow> None
         | Some c \<Rightarrow> (case parse_literal_shell_word c of None \<Rightarrow> None
         | Some command_name \<Rightarrow> literal_words cs (ws @ [command_name]) True))
      else case (if found then parse_literal_shell_word child else None) of
        Some word \<Rightarrow> literal_words cs (ws @ [word]) found
      | None \<Rightarrow> literal_words cs ws found)"

definition parse_literal_command_from_node :: "node \<Rightarrow> ustring list option" where
  "parse_literal_command_from_node cmd =
     (if kind cmd \<noteq> lit ''command'' then None
      else case literal_words (named_children cmd) [] False of
        None \<Rightarrow> None
      | Some (ws, found_command_name) \<Rightarrow> if found_command_name then Some ws else None)"

definition is_allowed_heredoc_attachment_kind :: "ustring \<Rightarrow> bool" where
  "is_allowed_heredoc_attachment_kind k \<longleftrightarrow>
     k \<in> {lit ''heredoc_body'', lit ''simple_heredoc_body'', lit ''heredoc_redirect'',
          lit ''herestring_redirect'', lit ''redirected_statement''}"

fun heredoc_words :: "node list \<Rightarrow> ustring list option" where
  "heredoc_words [] = Some []"
| "heredoc_words (child # cs) =
     (if kind child = lit ''command_name'' then
        (case named_child_0 child of None \<Rightarrow> None
         | Some w \<Rightarrow>
             if \<not> is_literal_word_or_number w then None
             else case utf8_text w of None \<Rightarrow> None
             | Some txt \<Rightarrow> map_option (Cons txt) (heredoc_words cs))
      else if kind child \<in> {lit ''word'', lit ''number''} then
        (if \<not> is_literal_word_or_number child then None
         else case utf8_text child of None \<Rightarrow> None
         | Some txt \<Rightarrow> map_option (Cons txt) (heredoc_words cs))
      else if kind child = lit ''comment'' \<or> is_allowed_heredoc_attachment_kind (kind child)
      then heredoc_words cs
      else None)"

definition parse_heredoc_command_words :: "node \<Rightarrow> ustring list option" where
  "parse_heredoc_command_words cmd =
     (if kind cmd \<noteq> lit ''command'' then None
      else case heredoc_words (named_children cmd) of None \<Rightarrow> None
      | Some ws \<Rightarrow> if ws = [] then None else Some ws)"

section \<open>Scripts\<close>

definition ALLOWED_KINDS :: "ustring list" where
  "ALLOWED_KINDS = map lit [''program'', ''list'', ''pipeline'', ''command'', ''command_name'', ''word'',
     ''string'', ''string_content'', ''raw_string'', ''number'', ''concatenation'']"

definition ALLOWED_PUNCT_TOKENS :: "ustring list" where
  "ALLOWED_PUNCT_TOKENS = [lit ''&&'', lit ''||'', lit '';'', lit ''|'', [34], [39]]"

definition node_allowed :: "node \<Rightarrow> bool" where
  "node_allowed n =
     (if is_named n then kind n \<in> set ALLOWED_KINDS
      else if list_ex (\<lambda>c. c \<in> set (lit ''&;|'')) (kind n) \<and> kind n \<notin> set ALLOWED_PUNCT_TOKENS then False
      else kind n \<in> set ALLOWED_PUNCT_TOKENS \<or> trim (kind n) = [])"

text \<open>The walk rejects at the first node that is not allowed, which is the same as checking every
  node it visits.\<close>

definition try_parse_word_only_commands_sequence :: "tree \<Rightarrow> ustring list list option" where
  "try_parse_word_only_commands_sequence t =
     (if has_error t then None
      else
        let nodes = visit False [root_node t] in
        if \<not> list_all node_allowed nodes then None
        else collect_options (map parse_plain_command_from_node
          (sort_key start_byte (filter (\<lambda>n. is_named n \<and> kind n = lit ''command'') nodes))))"

definition parse_shell_script_into_commands :: "(ustring \<Rightarrow> tree option) \<Rightarrow> ustring \<Rightarrow> ustring list list option" where
  "parse_shell_script_into_commands parse script =
     (case parse script of None \<Rightarrow> None | Some t \<Rightarrow> try_parse_word_only_commands_sequence t)"

definition parse_shell_lc_plain_commands ::
    "(ustring \<Rightarrow> tree option) \<Rightarrow> ustring list \<Rightarrow> ustring list list option" where
  "parse_shell_lc_plain_commands parse command =
     (case extract_bash_command command of None \<Rightarrow> None
      | Some (_, script) \<Rightarrow> parse_shell_script_into_commands parse script)"

definition parse_shell_lc_literal_commands ::
    "(ustring \<Rightarrow> tree option) \<Rightarrow> ustring list \<Rightarrow> ustring list list option" where
  "parse_shell_lc_literal_commands parse command =
     (case extract_bash_command command of None \<Rightarrow> None
      | Some (_, script) \<Rightarrow> (case parse script of None \<Rightarrow> None
      | Some t \<Rightarrow>
          if has_error t then None
          else Some (List.map_filter (\<lambda>n. if kind n = lit ''command'' then parse_literal_command_from_node n else None)
            (visit True [root_node t]))))"

definition has_named_descendant_kind :: "node \<Rightarrow> ustring \<Rightarrow> bool" where
  "has_named_descendant_kind n k = list_ex (\<lambda>m. kind m = k) (visit True [n])"

definition find_single_command_node :: "node \<Rightarrow> node option" where
  "find_single_command_node root =
     (case filter (\<lambda>n. kind n = lit ''command'') (visit True [root]) of [n] \<Rightarrow> Some n | _ \<Rightarrow> None)"

definition parse_shell_lc_single_command_prefix ::
    "(ustring \<Rightarrow> tree option) \<Rightarrow> ustring list \<Rightarrow> ustring list option" where
  "parse_shell_lc_single_command_prefix parse command =
     (case extract_bash_command command of None \<Rightarrow> None
      | Some (_, script) \<Rightarrow> (case parse script of None \<Rightarrow> None
      | Some t \<Rightarrow>
          if has_error t then None
          else if \<not> has_named_descendant_kind (root_node t) (lit ''heredoc_redirect'') then None
          else if has_named_descendant_kind (root_node t) (lit ''file_redirect'') then None
          else case find_single_command_node (root_node t) of None \<Rightarrow> None
          | Some command_node \<Rightarrow> parse_heredoc_command_words command_node))"

section \<open>What the walks visit\<close>

inductive descendant :: "bool \<Rightarrow> node \<Rightarrow> node \<Rightarrow> bool" for b where
  descendant_refl: "descendant b n n"
| descendant_step: "c \<in> set (selected_children b n) \<Longrightarrow> descendant b c m \<Longrightarrow> descendant b n m"

inductive_simps descendant_iff: "descendant b n m"

lemma set_visit: "m \<in> set (visit b stack) \<longleftrightarrow> (\<exists>n \<in> set stack. descendant b n m)"
proof (induction b stack rule: visit.induct)
  case (2 b n stack)
  have "descendant b n m \<longleftrightarrow> m = n \<or> (\<exists>c \<in> set (selected_children b n). descendant b c m)"
    by (subst descendant_iff) auto
  then show ?case using 2 by auto
qed simp

lemma named_descendant: "descendant True n m \<Longrightarrow> descendant False n m"
  by (induction rule: descendant.induct)
    (auto intro: descendant.intros simp: selected_children_def named_children_def)

lemma named_descendant_named: "descendant True n m \<Longrightarrow> is_named n \<Longrightarrow> is_named m"
  by (induction rule: descendant.induct) (auto simp: selected_children_def named_children_def)

lemma collect_options_Some: "collect_options xs = Some ys \<longleftrightarrow> xs = map Some ys"
proof
  show "collect_options xs = Some ys \<Longrightarrow> xs = map Some ys"
    by (induction xs arbitrary: ys) (auto split: option.splits)
  show "xs = map Some ys \<Longrightarrow> collect_options xs = Some ys"
    by (induction ys arbitrary: xs) auto
qed

text \<open>Every command the literal reading finds is one of the commands of the plain reading, when
  the script has a plain reading.\<close>

lemma plain_covers_literal:
  assumes "try_parse_word_only_commands_sequence t = Some commands" and "is_named (root_node t)"
    and "n \<in> set (visit True [root_node t])" and "kind n = lit ''command''"
  shows "\<exists>ws \<in> set commands. parse_plain_command_from_node n = Some ws"
proof -
  let ?cmds = "sort_key start_byte (filter (\<lambda>n. is_named n \<and> kind n = lit ''command'') (visit False [root_node t]))"
  have all: "map parse_plain_command_from_node ?cmds = map Some commands"
    using assms(1) by (simp add: try_parse_word_only_commands_sequence_def Let_def collect_options_Some del: visit.simps split: if_splits)
  have "n \<in> set ?cmds"
    using assms(2-4) named_descendant named_descendant_named by (auto simp: set_visit simp del: visit.simps)
  then have "parse_plain_command_from_node n \<in> set (map Some commands)" unfolding all [symmetric] by simp
  then show ?thesis by auto
qed

text \<open>What the grammar of the parser fixes: the root is named, and before the name of a command there
  are only assignments and redirections.\<close>

definition bash_tree :: "tree \<Rightarrow> bool" where
  "bash_tree t \<longleftrightarrow> is_named (root_node t) \<and>
     list_all (\<lambda>n. kind n = lit ''command'' \<and> list_ex (\<lambda>c. kind c = lit ''command_name'') (named_children n) \<longrightarrow>
       list_all (\<lambda>c. kind c \<in> set (map lit [''variable_assignment'', ''file_redirect'', ''herestring_redirect'',
           ''heredoc_redirect'']))
         (takeWhile (\<lambda>c. kind c \<noteq> lit ''command_name'') (named_children n))) (visit True [root_node t])"

lemma literal_words_extends: "literal_words cs ws found = Some (ws', found') \<Longrightarrow> \<exists>r. ws' = ws @ r"
  by (induction cs ws found rule: literal_words.induct) (fastforce split: if_splits option.splits)+

lemma literal_words_found:
  "literal_words cs ws found = Some (ws', True) \<Longrightarrow> found \<or> list_ex (\<lambda>c. kind c = lit ''command_name'') cs"
  by (induction cs ws found rule: literal_words.induct) (auto split: if_splits option.splits)

lemma prefix_not_plain:
  assumes "kind c \<in> set (map lit [''variable_assignment'', ''file_redirect'', ''herestring_redirect'', ''heredoc_redirect''])"
  shows "plain_word c = None"
proof -
  have "list_all (\<lambda>k. k \<notin> set (map lit [''command_name'', ''concatenation'', ''word'', ''number'', ''string'', ''raw_string'']))
      (map lit [''variable_assignment'', ''file_redirect'', ''herestring_redirect'', ''heredoc_redirect''])"
    by code_simp
  then have "kind c \<notin> set (map lit [''command_name'', ''concatenation'', ''word'', ''number'', ''string'', ''raw_string''])"
    using assms unfolding list_all_iff by blast
  then show ?thesis by (simp add: plain_word_def plain_part_def)
qed

text \<open>The plain and the literal reading of a command start with the same word.\<close>

lemma literal_first_word:
  assumes plain: "parse_plain_command_from_node n = Some ws" and lit: "parse_literal_command_from_node n = Some ws'"
    and pre: "list_ex (\<lambda>c. kind c = lit ''command_name'') (named_children n) \<longrightarrow>
       list_all (\<lambda>c. kind c \<in> set (map lit [''variable_assignment'', ''file_redirect'', ''herestring_redirect'',
           ''heredoc_redirect'']))
         (takeWhile (\<lambda>c. kind c \<noteq> lit ''command_name'') (named_children n))"
  shows "\<exists>w r r'. ws = w # r \<and> ws' = w # r'"
proof -
  have ws: "map plain_word (named_children n) = map Some ws"
    using plain by (simp add: parse_plain_command_from_node_def collect_options_Some split: if_splits)
  have found: "literal_words (named_children n) [] False = Some (ws', True)"
    using lit by (auto simp: parse_literal_command_from_node_def split: if_splits option.splits prod.splits)
  then have ex: "list_ex (\<lambda>c. kind c = lit ''command_name'') (named_children n)"
    using literal_words_found by blast
  then obtain c cs where cs: "named_children n = c # cs" by (cases "named_children n") auto
  have "kind c = lit ''command_name''"
  proof (rule ccontr)
    assume "kind c \<noteq> lit ''command_name''"
    then have "plain_word c = None" using pre ex cs by (intro prefix_not_plain) simp
    then show False using ws cs by (cases ws) auto
  qed
  moreover from this obtain wn where wn: "named_child_0 c = Some wn" "kind wn = lit ''word''" "plain_word c = utf8_text wn"
    using ws cs by (cases ws) (auto simp: plain_word_def split: option.splits if_splits)
  ultimately obtain w where w: "parse_literal_shell_word wn = Some w" "literal_words cs [w] True = Some (ws', True)"
    using found cs by (auto split: option.splits)
  have "utf8_text wn = Some w"
  proof -
    have "lit ''word'' \<noteq> lit ''string''" "lit ''word'' \<noteq> lit ''raw_string''" "lit ''word'' \<noteq> lit ''concatenation''"
      by code_simp+
    then show ?thesis using w(1) wn(2) by (subst (asm) parse_literal_shell_word.simps) (auto split: if_splits)
  qed
  then show ?thesis using literal_words_extends [OF w(2)] ws cs wn(3) by (cases ws) auto
qed

end
