(* ===== verification/Command_Safety.thy ===== *)
theory Command_Safety
  imports Shell_Command
begin

text \<open>
  \<open>shell-command/src/command_safety\<close> on Unix: which commands run without approval
  (\<open>is_safe_command.rs\<close>) and which are dangerous (\<open>is_dangerous_command.rs\<close>).  \<open>linux\<close> is the
  target of the build.  The wrapper depth of the source counts up to 8; the model counts the levels
  that are left, so that the recursion is structural.
\<close>

section \<open>Dangerous commands\<close>

datatype dangerous_match = ForcedRm | OtherDanger

definition executable_name_lookup_key :: "ustring \<Rightarrow> ustring option" where
  "executable_name_lookup_key raw = file_name raw"

definition is_git_global_option_with_value :: "ustring \<Rightarrow> bool" where
  "is_git_global_option_with_value arg \<longleftrightarrow>
     arg \<in> set (map lit [''-C'', ''-c'', ''--config-env'', ''--exec-path'', ''--git-dir'', ''--namespace'',
       ''--super-prefix'', ''--work-tree''])"

definition is_git_global_option_with_inline_value :: "ustring \<Rightarrow> bool" where
  "is_git_global_option_with_inline_value arg \<longleftrightarrow>
     list_ex (\<lambda>pfx. starts_with arg (lit pfx)) [''--config-env='', ''--exec-path='', ''--git-dir='',
       ''--namespace='', ''--super-prefix='', ''--work-tree=''] \<or>
     (starts_with arg (lit ''-C'') \<or> starts_with arg (lit ''-c'')) \<and> 2 < str_len arg"

fun git_subcommand_loop :: "ustring list \<Rightarrow> nat \<Rightarrow> bool \<Rightarrow> ustring list \<Rightarrow> (nat \<times> ustring) option" where
  "git_subcommand_loop subcommands idx skip_next [] = None"
| "git_subcommand_loop subcommands idx skip_next (arg # args) =
     (if skip_next then git_subcommand_loop subcommands (Suc idx) False args
      else if is_git_global_option_with_inline_value arg then git_subcommand_loop subcommands (Suc idx) False args
      else if is_git_global_option_with_value arg then git_subcommand_loop subcommands (Suc idx) True args
      else if arg = lit ''--'' \<or> starts_with arg (lit ''-'') then git_subcommand_loop subcommands (Suc idx) False args
      else if arg \<in> set subcommands then Some (idx, arg)
      else None)"

definition find_git_subcommand :: "ustring list \<Rightarrow> ustring list \<Rightarrow> (nat \<times> ustring) option" where
  "find_git_subcommand command subcommands =
     (case command of [] \<Rightarrow> None
      | cmd0 # args \<Rightarrow>
          if executable_name_lookup_key cmd0 \<noteq> Some (lit ''git'') then None
          else git_subcommand_loop subcommands 1 False args)"

definition rm_args_include_force_option :: "ustring list \<Rightarrow> bool" where
  "rm_args_include_force_option args =
     list_ex (\<lambda>arg. arg = lit ''--force'' \<or>
       (case strip_prefix arg (lit ''-'') of None \<Rightarrow> False
        | Some flags \<Rightarrow> \<not> starts_with flags (lit ''-'') \<and> 102 \<in> set flags))
       (takeWhile (\<lambda>arg. arg \<noteq> lit ''--'') args)"

fun env_command :: "ustring list \<Rightarrow> ustring list" where
  "env_command [] = []"
| "env_command (argument # args) =
     (if argument = lit ''--'' then args
      else if argument \<in> {lit ''-i'', lit ''--ignore-environment''} \<or>
        (case split_once 61 argument of None \<Rightarrow> False
         | Some (name, _) \<Rightarrow> name \<noteq> [] \<and> \<not> starts_with name (lit ''-''))
      then env_command args
      else argument # args)"

text \<open>The checks that look inside another command take the check of the next depth as an argument.\<close>

definition dangerous_command_match_for_env ::
    "(ustring list \<Rightarrow> dangerous_match option) \<Rightarrow> ustring list \<Rightarrow> dangerous_match option" where
  "dangerous_command_match_for_env next command = next (env_command (tl command))"

definition dangerous_command_match_for_trap ::
    "(ustring list \<Rightarrow> dangerous_match option) \<Rightarrow> ustring list \<Rightarrow> dangerous_match option" where
  "dangerous_command_match_for_trap next command =
     (let args = tl command;
          args = (case args of a # rest \<Rightarrow> if a = lit ''--'' then rest else args | [] \<Rightarrow> []) in
      case args of [] \<Rightarrow> None
      | action # _ \<Rightarrow>
          if starts_with action (lit ''-'') then None
          else next [lit ''sh'', lit ''-c'', action])"

definition dangerous_command_match_for_exec ::
    "(ustring list \<Rightarrow> dangerous_match option) \<Rightarrow> ustring list \<Rightarrow> dangerous_match option" where
  "dangerous_command_match_for_exec next command =
     (case command of [] \<Rightarrow> None
      | c # args \<Rightarrow> (case executable_name_lookup_key c of None \<Rightarrow> None
      | Some cmd0 \<Rightarrow>
          if cmd0 = lit ''rm'' \<and> rm_args_include_force_option args then Some ForcedRm
          else if cmd0 = lit ''sudo'' then next args
          else if cmd0 = lit ''env'' then dangerous_command_match_for_env next command
          else if cmd0 = lit ''trap'' then dangerous_command_match_for_trap next command
          else None))"

fun find_map :: "('a \<Rightarrow> 'b option) \<Rightarrow> 'a list \<Rightarrow> 'b option" where
  "find_map f [] = None"
| "find_map f (x # xs) = (case f x of Some y \<Rightarrow> Some y | None \<Rightarrow> find_map f xs)"

definition MAX_DANGEROUS_COMMAND_WRAPPER_DEPTH :: nat where
  "MAX_DANGEROUS_COMMAND_WRAPPER_DEPTH = 8"

primrec dangerous_command_match_with_depth ::
    "(ustring \<Rightarrow> tree option) \<Rightarrow> nat \<Rightarrow> ustring list \<Rightarrow> dangerous_match option" where
  "dangerous_command_match_with_depth parse 0 = (\<lambda>command. None)"
| "dangerous_command_match_with_depth parse (Suc levels) = (\<lambda>command.
     let next = dangerous_command_match_with_depth parse levels in
     case dangerous_command_match_for_exec next command of
       Some dangerous_match \<Rightarrow> Some dangerous_match
     | None \<Rightarrow> (case parse_shell_lc_literal_commands parse command of
         None \<Rightarrow> None
       | Some commands \<Rightarrow> find_map next commands))"

definition dangerous_command_match ::
    "(ustring \<Rightarrow> tree option) \<Rightarrow> ustring list \<Rightarrow> dangerous_match option" where
  "dangerous_command_match parse command =
     dangerous_command_match_with_depth parse (Suc MAX_DANGEROUS_COMMAND_WRAPPER_DEPTH) command"

section \<open>Safe commands\<close>

datatype git_option_pattern = Exact ustring | ShortWithInlineValue ustring | PrefixPattern ustring

fun option_matches :: "git_option_pattern \<Rightarrow> ustring \<Rightarrow> bool" where
  "option_matches (Exact opt) arg = (arg = opt)"
| "option_matches (ShortWithInlineValue opt) arg = (starts_with arg opt \<and> str_len opt < str_len arg)"
| "option_matches (PrefixPattern pfx) arg = starts_with arg pfx"

definition UNSAFE_GIT_GLOBAL_OPTIONS :: "git_option_pattern list" where
  "UNSAFE_GIT_GLOBAL_OPTIONS =
     [Exact (lit ''-C''), ShortWithInlineValue (lit ''-C''), Exact (lit ''-c''), ShortWithInlineValue (lit ''-c''),
      Exact (lit ''-p''), Exact (lit ''--config-env''), PrefixPattern (lit ''--config-env=''),
      Exact (lit ''--exec-path''), PrefixPattern (lit ''--exec-path=''), Exact (lit ''--git-dir''),
      PrefixPattern (lit ''--git-dir=''), Exact (lit ''--namespace''), PrefixPattern (lit ''--namespace=''),
      Exact (lit ''--paginate''), Exact (lit ''--super-prefix''), PrefixPattern (lit ''--super-prefix=''),
      Exact (lit ''--work-tree''), PrefixPattern (lit ''--work-tree='')]"

definition UNSAFE_GIT_SUBCOMMAND_OPTIONS :: "git_option_pattern list" where
  "UNSAFE_GIT_SUBCOMMAND_OPTIONS =
     [Exact (lit ''--output''), PrefixPattern (lit ''--output=''), Exact (lit ''--ext-diff''),
      Exact (lit ''--textconv''), Exact (lit ''--exec''), PrefixPattern (lit ''--exec='')]"

definition git_matches_option_pattern :: "ustring \<Rightarrow> git_option_pattern list \<Rightarrow> bool" where
  "git_matches_option_pattern arg patterns = list_ex (\<lambda>pat. option_matches pat arg) patterns"

definition git_has_unsafe_global_option :: "ustring list \<Rightarrow> bool" where
  "git_has_unsafe_global_option global_args =
     list_ex (\<lambda>arg. git_matches_option_pattern arg UNSAFE_GIT_GLOBAL_OPTIONS) global_args"

definition git_subcommand_args_are_read_only :: "ustring list \<Rightarrow> bool" where
  "git_subcommand_args_are_read_only args =
     (\<not> list_ex (\<lambda>arg. git_matches_option_pattern arg UNSAFE_GIT_SUBCOMMAND_OPTIONS) args)"

fun branch_loop :: "bool \<Rightarrow> ustring list \<Rightarrow> bool" where
  "branch_loop saw_read_only_flag [] = saw_read_only_flag"
| "branch_loop saw_read_only_flag (arg # args) =
     (if arg \<in> set (map lit [''--list'', ''-l'', ''--show-current'', ''-a'', ''--all'', ''-r'', ''--remotes'',
        ''-v'', ''-vv'', ''--verbose'']) then branch_loop True args
      else if starts_with arg (lit ''--format='') then branch_loop True args
      else False)"

definition git_branch_is_read_only :: "ustring list \<Rightarrow> bool" where
  "git_branch_is_read_only branch_args = (if branch_args = [] then True else branch_loop False branch_args)"

definition is_safe_git_command :: "ustring list \<Rightarrow> bool" where
  "is_safe_git_command command =
     (case find_git_subcommand command (map lit [''status'', ''log'', ''diff'', ''show'', ''branch'']) of
        None \<Rightarrow> False
      | Some (subcommand_idx, subcommand) \<Rightarrow>
          let global_args = drop 1 (take subcommand_idx command);
              subcommand_args = drop (subcommand_idx + 1) command in
          if git_has_unsafe_global_option global_args then False
          else if subcommand \<in> set (map lit [''status'', ''log'', ''diff'', ''show''])
          then git_subcommand_args_are_read_only subcommand_args
          else if subcommand = lit ''branch''
          then git_subcommand_args_are_read_only subcommand_args \<and> git_branch_is_read_only subcommand_args
          else False)"

definition is_valid_sed_n_arg :: "ustring option \<Rightarrow> bool" where
  "is_valid_sed_n_arg arg =
     (case arg of None \<Rightarrow> False
      | Some s \<Rightarrow> (case strip_suffix s (lit ''p'') of None \<Rightarrow> False
      | Some core \<Rightarrow> (case split_on 44 core of
          [num] \<Rightarrow> num \<noteq> [] \<and> list_all is_ascii_digit num
        | [a, b] \<Rightarrow> a \<noteq> [] \<and> b \<noteq> [] \<and> list_all is_ascii_digit a \<and> list_all is_ascii_digit b
        | _ \<Rightarrow> False)))"

definition ALWAYS_SAFE :: "ustring list" where
  "ALWAYS_SAFE = map lit [''cat'', ''cd'', ''cut'', ''echo'', ''expr'', ''false'', ''grep'', ''head'', ''id'',
     ''ls'', ''nl'', ''paste'', ''pwd'', ''rev'', ''seq'', ''stat'', ''tail'', ''tr'', ''true'', ''uname'',
     ''uniq'', ''wc'', ''which'', ''whoami'']"

definition UNSAFE_FIND_OPTIONS :: "ustring list" where
  "UNSAFE_FIND_OPTIONS = map lit [''-exec'', ''-execdir'', ''-ok'', ''-okdir'', ''-delete'', ''-fls'',
     ''-fprint'', ''-fprint0'', ''-fprintf'']"

definition base64_arg_unsafe :: "ustring \<Rightarrow> bool" where
  "base64_arg_unsafe arg \<longleftrightarrow>
     arg \<in> {lit ''-o'', lit ''--output''} \<or> starts_with arg (lit ''--output='') \<or>
     starts_with arg (lit ''-o'') \<and> arg \<noteq> lit ''-o''"

definition rg_arg_unsafe :: "ustring \<Rightarrow> bool" where
  "rg_arg_unsafe arg \<longleftrightarrow>
     arg \<in> {lit ''--search-zip'', lit ''-z''} \<or>
     list_ex (\<lambda>opt. arg = opt \<or> starts_with arg (opt @ lit ''='')) [lit ''--pre'', lit ''--hostname-bin'']"

definition is_safe_to_call_with_exec :: "bool \<Rightarrow> ustring list \<Rightarrow> bool" where
  "is_safe_to_call_with_exec linux command =
     (case command of [] \<Rightarrow> False
      | cmd0 # args \<Rightarrow> (case executable_name_lookup_key cmd0 of None \<Rightarrow> False
      | Some cmd \<Rightarrow>
          if linux \<and> cmd \<in> {lit ''numfmt'', lit ''tac''} then True
          else if cmd \<in> set ALWAYS_SAFE then True
          else if cmd = lit ''base64'' then \<not> list_ex base64_arg_unsafe args
          else if cmd = lit ''find'' then \<not> list_ex (\<lambda>arg. arg \<in> set UNSAFE_FIND_OPTIONS) command
          else if cmd = lit ''rg'' then \<not> list_ex rg_arg_unsafe command
          else if cmd = lit ''git'' then is_safe_git_command command
          else if cmd = lit ''sed'' then
            length command \<le> 4 \<and> (case args of a # _ \<Rightarrow> a = lit ''-n'' | [] \<Rightarrow> False) \<and>
            is_valid_sed_n_arg (case args of _ # b # _ \<Rightarrow> Some b | _ \<Rightarrow> None)
          else False))"

definition zsh_as_bash :: "ustring \<Rightarrow> ustring" where
  "zsh_as_bash s = (if s = lit ''zsh'' then lit ''bash'' else s)"

definition is_known_safe_command :: "(ustring \<Rightarrow> tree option) \<Rightarrow> bool \<Rightarrow> ustring list \<Rightarrow> bool" where
  "is_known_safe_command parse linux command0 =
     (let command = map zsh_as_bash command0 in
      if is_safe_to_call_with_exec linux command then True
      else case parse_shell_lc_plain_commands parse command of None \<Rightarrow> False
      | Some all_commands \<Rightarrow> all_commands \<noteq> [] \<and> list_all (is_safe_to_call_with_exec linux) all_commands)"

section \<open>Safe commands are not dangerous\<close>

definition safe_names :: "ustring list" where
  "safe_names = map lit [''numfmt'', ''tac'', ''base64'', ''find'', ''rg'', ''git'', ''sed''] @ ALWAYS_SAFE"

definition wrapper_names :: "ustring list" where
  "wrapper_names = map lit [''rm'', ''sudo'', ''env'', ''trap'']"

lemma safe_name:
  assumes "is_safe_to_call_with_exec linux command"
  shows "\<exists>c args k. command = c # args \<and> file_name c = Some k \<and> k \<in> set safe_names"
  using assms
  by (auto simp: is_safe_to_call_with_exec_def executable_name_lookup_key_def safe_names_def
      split: list.splits option.splits if_splits)

lemma names_not_shells:
  "list_all (\<lambda>k. detect_shell_type k = None \<and> rsplit_once 46 k = None \<and>
     k \<notin> set (map lit [''zsh'', ''sh'', ''cmd'', ''bash'', ''pwsh'', ''powershell''])) (safe_names @ wrapper_names)"
  by code_simp

lemma shell_file_names:
  "list_all (\<lambda>s. file_name s = Some s) (map lit [''zsh'', ''sh'', ''cmd'', ''bash'', ''pwsh'', ''powershell''])"
  by code_simp

lemma named_not_shell:
  assumes "file_name c = Some k" and "k \<in> set (safe_names @ wrapper_names)"
  shows "detect_shell_type c = None"
proof -
  have k: "detect_shell_type k = None" "rsplit_once 46 k = None"
    "k \<notin> set (map lit [''zsh'', ''sh'', ''cmd'', ''bash'', ''pwsh'', ''powershell''])"
    using names_not_shells assms(2) unfolding list_all_iff by blast+
  have "c \<notin> set (map lit [''zsh'', ''sh'', ''cmd'', ''bash'', ''pwsh'', ''powershell''])"
  proof
    assume c: "c \<in> set (map lit [''zsh'', ''sh'', ''cmd'', ''bash'', ''pwsh'', ''powershell''])"
    then have "file_name c = Some c" using shell_file_names unfolding list_all_iff by blast
    then show False using assms(1) k(3) c by simp
  qed
  then have "shell_of_name c = None" by (simp add: shell_of_name_def)
  moreover have "file_stem c = Some k" using assms(1) k(2) by (simp add: file_stem_def)
  ultimately show ?thesis using k(1) by (subst detect_shell_type.simps) simp
qed

lemma names_disjoint: "list_all (\<lambda>k. k \<notin> set wrapper_names) safe_names"
  by code_simp

lemma exec_not_wrapper:
  assumes "file_name c = Some k" and "k \<notin> set wrapper_names"
  shows "dangerous_command_match_for_exec next (c # args) = None"
  using assms by (simp add: dangerous_command_match_for_exec_def executable_name_lookup_key_def wrapper_names_def)

lemma not_shell_no_literal:
  "detect_shell_type c = None \<Longrightarrow> parse_shell_lc_literal_commands parse (c # args) = None"
  by (simp add: parse_shell_lc_literal_commands_def extract_bash_command_def split: list.splits)

lemma safe_name_harmless:
  assumes "file_name c = Some k" and "k \<in> set safe_names"
  shows "dangerous_command_match_with_depth parse levels (c # args) = None"
proof (cases levels)
  case (Suc n)
  have "k \<notin> set wrapper_names" using names_disjoint assms(2) unfolding list_all_iff by blast
  note exec = exec_not_wrapper [OF assms(1) this]
  have "detect_shell_type c = None" using assms by (intro named_not_shell [of c k]) simp_all
  note none = not_shell_no_literal [OF this]
  show ?thesis by (simp add: Suc exec none Let_def)
qed simp

lemma find_map_None: "(\<And>x. x \<in> set xs \<Longrightarrow> f x = None) \<Longrightarrow> find_map f xs = None"
  by (induction xs) simp_all

text \<open>The commands of a script with a safe plain reading are harmless at every depth.\<close>

lemma plain_script_harmless:
  assumes tree: "bash_tree t" and plain: "try_parse_word_only_commands_sequence t = Some commands"
    and safe: "list_all (is_safe_to_call_with_exec linux) commands"
    and n: "n \<in> set (visit True [root_node t])" and lit: "parse_literal_command_from_node n = Some ws"
  shows "dangerous_command_match_with_depth parse levels ws = None"
proof -
  have k: "kind n = lit ''command''"
    using lit by (simp add: parse_literal_command_from_node_def split: if_splits)
  have "is_named (root_node t)" using tree by (simp add: bash_tree_def)
  from plain_covers_literal [OF plain this n k] obtain ws' where
    ws': "ws' \<in> set commands" "parse_plain_command_from_node n = Some ws'" by blast
  have "\<exists>w r r'. ws' = w # r \<and> ws = w # r'"
    by (rule literal_first_word [OF ws'(2) lit])
      (use tree n k in \<open>auto simp: bash_tree_def list_all_iff simp del: visit.simps\<close>)
  then obtain w r r' where w: "ws' = w # r" "ws = w # r'" by blast
  have "is_safe_to_call_with_exec linux ws'" using safe ws'(1) by (simp add: list_all_iff)
  from safe_name [OF this] w show ?thesis using safe_name_harmless by auto
qed

lemma shell_exec_harmless:
  assumes "detect_shell_type (zsh_as_bash c) \<noteq> None"
  shows "dangerous_command_match_for_exec next (c # args) = None"
proof (cases "file_name c")
  case None
  then show ?thesis by (simp add: dangerous_command_match_for_exec_def executable_name_lookup_key_def)
next
  case (Some k)
  have zsh: "file_name (lit ''zsh'') = Some (lit ''zsh'')" "lit ''zsh'' \<notin> set wrapper_names" by code_simp+
  have "k \<notin> set wrapper_names"
  proof (cases "c = lit ''zsh''")
    case True
    then show ?thesis using Some zsh by simp
  next
    case False
    then have "detect_shell_type c \<noteq> None" using assms by (simp add: zsh_as_bash_def)
    then show ?thesis using named_not_shell [OF Some] by auto
  qed
  then show ?thesis by (rule exec_not_wrapper [OF Some])
qed

lemma script_harmless:
  assumes grammar: "\<And>script t. parse script = Some t \<Longrightarrow> bash_tree t"
    and shell: "detect_shell_type (zsh_as_bash c) \<noteq> None"
    and plain: "parse_shell_script_into_commands parse scr = Some commands"
    and safe: "list_all (is_safe_to_call_with_exec linux) commands"
  shows "dangerous_command_match_with_depth parse levels [c, flag, scr] = None"
proof (cases levels)
  case (Suc n)
  from plain obtain t where t: "parse scr = Some t" "try_parse_word_only_commands_sequence t = Some commands"
    by (auto simp: parse_shell_script_into_commands_def split: option.splits)
  have "find_map (dangerous_command_match_with_depth parse n) cs = None"
    if "parse_shell_lc_literal_commands parse [c, flag, scr] = Some cs" for cs
  proof (rule find_map_None)
    fix ws
    assume "ws \<in> set cs"
    with that t(1) obtain m where "m \<in> set (visit True [root_node t])" "parse_literal_command_from_node m = Some ws"
      by (auto simp: parse_shell_lc_literal_commands_def extract_bash_command_def List.map_filter_def
          simp del: visit.simps split: if_splits)
    then show "dangerous_command_match_with_depth parse n ws = None"
      by (rule plain_script_harmless [OF grammar [OF t(1)] t(2) safe])
  qed
  then show ?thesis by (simp add: Suc Let_def shell_exec_harmless [OF shell] split: option.splits)
qed simp

text \<open>The safe check reads every word \<open>zsh\<close> of the command as \<open>bash\<close>, also the word that is the script.\<close>

lemma renamed_script:
  assumes word: "\<And>t. parse (lit ''bash'') = Some t \<Longrightarrow>
      try_parse_word_only_commands_sequence t \<in> {None, Some [[lit ''bash'']]}"
    and plain: "parse_shell_script_into_commands parse (zsh_as_bash scr) = Some commands"
    and safe: "list_all (is_safe_to_call_with_exec linux) commands"
  shows "zsh_as_bash scr = scr"
proof (rule ccontr)
  assume "zsh_as_bash scr \<noteq> scr"
  then have "zsh_as_bash scr = lit ''bash''" by (simp add: zsh_as_bash_def split: if_splits)
  with plain word have "commands = [[lit ''bash'']]"
    by (force simp: parse_shell_script_into_commands_def split: option.splits)
  moreover have "file_name (lit ''bash'') = Some (lit ''bash'')" "lit ''bash'' \<notin> set safe_names" by code_simp+
  then have "\<not> is_safe_to_call_with_exec linux [lit ''bash'']" using safe_name by fastforce
  ultimately show False using safe by simp
qed

text \<open>C25.  A command that runs without approval as known to be safe is not one of the dangerous
  commands: what the two lists accept is disjoint, also inside scripts and below wrappers.  The parser
  of scripts is any that follows the grammar of its shell language and that reads the script \<open>bash\<close>, if
  it finds plain commands in it, as this one word; the command is arbitrary.\<close>

theorem safe_commands_not_dangerous:
  assumes grammar: "\<And>script t. parse script = Some t \<Longrightarrow> bash_tree t"
    and word: "\<And>t. parse (lit ''bash'') = Some t \<Longrightarrow>
      try_parse_word_only_commands_sequence t \<in> {None, Some [[lit ''bash'']]}"
    and safe: "is_known_safe_command parse linux command"
  shows "dangerous_command_match parse command = None"
proof -
  obtain c args where command: "command = c # args"
    using safe by (cases command) (auto simp: is_known_safe_command_def is_safe_to_call_with_exec_def
      parse_shell_lc_plain_commands_def extract_bash_command_def)
  show ?thesis
  proof (cases "is_safe_to_call_with_exec linux (map zsh_as_bash command)")
    case True
    from safe_name [OF True] obtain k where k: "file_name (zsh_as_bash c) = Some k" "k \<in> set safe_names"
      using command by auto
    have "file_name (lit ''bash'') = Some (lit ''bash'')" "lit ''bash'' \<notin> set safe_names" by code_simp+
    then have "zsh_as_bash c = c" using k by (auto simp: zsh_as_bash_def)
    then show ?thesis
      unfolding dangerous_command_match_def command using k by (metis safe_name_harmless)
  next
    case False
    then obtain all_commands where all: "parse_shell_lc_plain_commands parse (map zsh_as_bash command) = Some all_commands"
      "list_all (is_safe_to_call_with_exec linux) all_commands"
      using safe by (auto simp: is_known_safe_command_def Let_def split: option.splits)
    then obtain flag scr where a: "args = [flag, scr]"
      and shell: "detect_shell_type (zsh_as_bash c) \<noteq> None"
      and plain: "parse_shell_script_into_commands parse (zsh_as_bash scr) = Some all_commands"
      by (auto simp: command parse_shell_lc_plain_commands_def extract_bash_command_def
        split: list.splits option.splits if_splits)
    have "zsh_as_bash scr = scr" by (rule renamed_script [OF word plain all(2)])
    with plain have plain: "parse_shell_script_into_commands parse scr = Some all_commands" by simp
    show ?thesis unfolding dangerous_command_match_def command a
      by (rule script_harmless [OF grammar shell plain all(2)])
  qed
qed

definition demo_command :: "nat \<Rightarrow> ustring \<Rightarrow> node" where
  "demo_command start name = Node (lit ''command'') True start (Some name)
     [Node (lit ''command_name'') True start (Some name) [Node (lit ''word'') True start (Some name) []]]"

definition demo_parse :: "ustring \<Rightarrow> tree option" where
  "demo_parse script =
     (if script = lit ''ls && pwd'' then Some
        \<lparr>root_node = Node (lit ''program'') True 0 (Some script)
           [Node (lit ''list'') True 0 (Some script)
             [demo_command 0 (lit ''ls''), Node (lit ''&&'') False 3 (Some (lit ''&&'')) [],
              demo_command 6 (lit ''pwd'')]],
         has_error = False\<rparr>
      else if script = lit ''bash'' then Some
        \<lparr>root_node = Node (lit ''program'') True 0 (Some script) [demo_command 0 script], has_error = False\<rparr>
      else None)"

lemma demo_parse_grammar: "demo_parse script = Some t \<Longrightarrow> bash_tree t"
proof -
  assume t: "demo_parse script = Some t"
  have "list_all (\<lambda>s. case demo_parse s of Some t \<Rightarrow> bash_tree t | None \<Rightarrow> False) [lit ''ls && pwd'', lit ''bash'']"
    by code_simp
  moreover have "script \<in> {lit ''ls && pwd'', lit ''bash''}" using t by (simp add: demo_parse_def split: if_splits)
  ultimately show ?thesis using t by (auto simp: list_all_iff)
qed

lemma demo_parse_word:
  "demo_parse (lit ''bash'') = Some t \<Longrightarrow> try_parse_word_only_commands_sequence t \<in> {None, Some [[lit ''bash'']]}"
proof -
  have "(case demo_parse (lit ''bash'') of Some t \<Rightarrow> try_parse_word_only_commands_sequence t | None \<Rightarrow> None) =
      Some [[lit ''bash'']]" by code_simp
  then show "demo_parse (lit ''bash'') = Some t \<Longrightarrow> ?thesis" by simp
qed

theorem safe_commands_not_dangerous_witness:
  "is_known_safe_command demo_parse True [lit ''zsh'', lit ''-lc'', lit ''ls && pwd''] \<and>
   dangerous_command_match demo_parse [lit ''zsh'', lit ''-lc'', lit ''ls && pwd''] = None \<and>
   is_known_safe_command demo_parse True [lit ''which'', lit ''zsh''] \<and>
   dangerous_command_match demo_parse [lit ''which'', lit ''zsh''] = None"
proof -
  have safe: "is_known_safe_command demo_parse True [lit ''zsh'', lit ''-lc'', lit ''ls && pwd'']"
    "is_known_safe_command demo_parse True [lit ''which'', lit ''zsh'']" by code_simp+
  from safe_commands_not_dangerous [OF demo_parse_grammar demo_parse_word safe(1)]
    safe_commands_not_dangerous [OF demo_parse_grammar demo_parse_word safe(2)] safe
  show ?thesis by simp
qed

section \<open>Safe git commands\<close>

lemma git_subcommand_loop_step:
  "git_subcommand_loop subs idx skip (arg # args) = Some r \<Longrightarrow>
   r = (idx, arg) \<and> arg \<in> set subs \<or> git_subcommand_loop subs (Suc idx) True args = Some r \<or>
   git_subcommand_loop subs (Suc idx) False args = Some r"
  by (simp split: if_splits)

lemma git_subcommand_loop_spec:
  "git_subcommand_loop subs idx skip args = Some (i, sub) \<Longrightarrow>
   idx \<le> i \<and> i < idx + length args \<and> args ! (i - idx) = sub \<and> sub \<in> set subs"
proof (induction args arbitrary: idx skip)
  case (Cons arg args)
  have later: "idx \<le> i \<and> i < idx + length (arg # args) \<and> (arg # args) ! (i - idx) = sub \<and> sub \<in> set subs"
    if "git_subcommand_loop subs (Suc idx) s args = Some (i, sub)" for s
  proof -
    note IH = Cons.IH [OF that]
    then have "i - idx = Suc (i - Suc idx)" by linarith
    then show ?thesis using IH by simp
  qed
  from git_subcommand_loop_step [OF Cons.prems] show ?case
    by (elim disjE) (simp, rule later, assumption, rule later, assumption)
qed simp

text \<open>What a read of the repository looks like, without reference to the checks of the code: the global
  options that are accepted all begin with a hyphen and none of them takes a value or starts a pager,
  and the arguments of the subcommand name no output file and no program.\<close>

definition plain_git_global :: "ustring \<Rightarrow> bool" where
  "plain_git_global g \<longleftrightarrow> starts_with g (lit ''-'') \<and> g \<noteq> lit ''-p'' \<and> g \<noteq> lit ''--paginate'' \<and>
     \<not> starts_with g (lit ''-C'') \<and> \<not> starts_with g (lit ''-c'') \<and>
     list_all (\<lambda>opt. g \<noteq> lit opt \<and> \<not> starts_with g (lit (opt @ ''='')))
       [''--config-env'', ''--exec-path'', ''--git-dir'', ''--namespace'', ''--super-prefix'', ''--work-tree'']"

definition plain_git_argument :: "ustring \<Rightarrow> bool" where
  "plain_git_argument a \<longleftrightarrow> a \<noteq> lit ''--ext-diff'' \<and> a \<noteq> lit ''--textconv'' \<and>
     list_all (\<lambda>opt. a \<noteq> lit opt \<and> \<not> starts_with a (lit (opt @ ''=''))) [''--output'', ''--exec'']"

definition listing_git_argument :: "ustring \<Rightarrow> bool" where
  "listing_git_argument a \<longleftrightarrow> starts_with a (lit ''--format='') \<or>
     a \<in> set (map lit [''--list'', ''-l'', ''--show-current'', ''-a'', ''--all'', ''-r'', ''--remotes'', ''-v'', ''-vv'', ''--verbose''])"

lemma str_len_starts_with: "starts_with s p \<Longrightarrow> s \<noteq> p \<Longrightarrow> str_len p < str_len s"
  by (auto simp: starts_with_iff simp flip: neq0_conv)

lemma starts_with_trans: "starts_with s p \<Longrightarrow> starts_with p q \<Longrightarrow> starts_with s q"
  by (auto simp: starts_with_iff)

lemma git_flag_lengths: "str_len (lit ''-C'') = 2" "str_len (lit ''-c'') = 2"
  by code_simp+

lemma global_option_checked:
  "starts_with g (lit ''-'') \<Longrightarrow> git_matches_option_pattern g UNSAFE_GIT_GLOBAL_OPTIONS \<longleftrightarrow> \<not> plain_git_global g"
proof -
  have inline: "starts_with g p \<longleftrightarrow> g = p \<or> starts_with g p \<and> str_len p < str_len g" if "p \<noteq> []" for p
    using str_len_starts_with [of g p] by (auto simp: starts_with_iff)
  have "starts_with g (lit ''-C'') \<longleftrightarrow> g = lit ''-C'' \<or> starts_with g (lit ''-C'') \<and> str_len (lit ''-C'') < str_len g"
    "starts_with g (lit ''-c'') \<longleftrightarrow> g = lit ''-c'' \<or> starts_with g (lit ''-c'') \<and> str_len (lit ''-c'') < str_len g"
    by (rule inline; simp add: lit_def)+
  then show "starts_with g (lit ''-'') \<Longrightarrow> ?thesis"
    unfolding git_matches_option_pattern_def UNSAFE_GIT_GLOBAL_OPTIONS_def plain_git_global_def
    by simp blast
qed

lemma argument_checked:
  "git_matches_option_pattern a UNSAFE_GIT_SUBCOMMAND_OPTIONS \<longleftrightarrow> \<not> plain_git_argument a"
  unfolding git_matches_option_pattern_def UNSAFE_GIT_SUBCOMMAND_OPTIONS_def plain_git_argument_def
  by simp blast

lemma branch_loop_iff: "branch_loop saw args \<longleftrightarrow> list_all listing_git_argument args \<and> (saw \<or> args \<noteq> [])"
  by (induction args arbitrary: saw) (auto simp: listing_git_argument_def)

lemma branch_checked: "git_branch_is_read_only args \<longleftrightarrow> list_all listing_git_argument args"
  by (simp add: git_branch_is_read_only_def branch_loop_iff)

lemma global_with_value:
  assumes "is_git_global_option_with_value g \<or> is_git_global_option_with_inline_value g"
  shows "starts_with g (lit ''-'') \<and> \<not> plain_git_global g"
proof -
  have "list_all (\<lambda>opt. starts_with (lit opt) (lit ''-'')) [''-C'', ''-c'', ''--config-env'', ''--exec-path'',
      ''--git-dir'', ''--namespace'', ''--super-prefix'', ''--work-tree'', ''--config-env='', ''--exec-path='',
      ''--git-dir='', ''--namespace='', ''--super-prefix='', ''--work-tree='']" by code_simp
  then have "starts_with g (lit ''-'')"
    using assms starts_with_trans [of g _ "lit ''-''"]
    by (auto simp: is_git_global_option_with_value_def is_git_global_option_with_inline_value_def)
  moreover have "starts_with (lit ''-C'') (lit ''-C'')" "starts_with (lit ''-c'') (lit ''-c'')" by code_simp+
  ultimately show ?thesis
    using assms by (auto simp: is_git_global_option_with_value_def is_git_global_option_with_inline_value_def
        plain_git_global_def)
qed

text \<open>The loop stops at the first word that is not a global option and not the value of one.\<close>

lemma loop_skips_globals:
  "list_all plain_git_global gs \<Longrightarrow>
   git_subcommand_loop subs idx False (gs @ rest) = git_subcommand_loop subs (idx + length gs) False rest"
proof (induction gs arbitrary: idx)
  case (Cons g gs)
  have g: "plain_git_global g" using Cons.prems by simp
  then have "\<not> is_git_global_option_with_value g" "\<not> is_git_global_option_with_inline_value g"
    using global_with_value by blast+
  moreover have "starts_with g (lit ''-'')" using g by (simp add: plain_git_global_def)
  ultimately show ?case using Cons.IH [of "Suc idx"] Cons.prems by simp
qed simp

lemma loop_finds_subcommand:
  "sub \<in> set subs \<Longrightarrow> \<not> starts_with sub (lit ''-'') \<Longrightarrow> git_subcommand_loop subs idx False (sub # rest) = Some (idx, sub)"
proof -
  assume sub: "sub \<in> set subs" "\<not> starts_with sub (lit ''-'')"
  have "starts_with (lit ''--'') (lit ''-'')" by code_simp
  then have "sub \<noteq> lit ''--''" using sub(2) by auto
  then show ?thesis using sub global_with_value [of sub] by auto
qed

lemma loop_globals_plain:
  "git_subcommand_loop subs idx False args = Some (i, sub) \<Longrightarrow>
   \<not> git_has_unsafe_global_option (take (i - idx) args) \<Longrightarrow> list_all plain_git_global (take (i - idx) args)"
proof (induction args arbitrary: idx)
  case (Cons arg args)
  have step: "plain_git_global arg \<and> list_all plain_git_global (take (i - Suc idx) args)"
    if rec: "git_subcommand_loop subs (Suc idx) s args = Some (i, sub)"
      and hyphen: "starts_with arg (lit ''-'')" and s: "s \<longrightarrow> is_git_global_option_with_value arg" for s
  proof -
    have "i - idx = Suc (i - Suc idx)" using git_subcommand_loop_spec [OF rec] by linarith
    then have unsafe: "\<not> git_matches_option_pattern arg UNSAFE_GIT_GLOBAL_OPTIONS"
      "\<not> git_has_unsafe_global_option (take (i - Suc idx) args)"
      using Cons.prems(2) by (auto simp: git_has_unsafe_global_option_def)
    then have plain: "plain_git_global arg" using hyphen global_option_checked by blast
    then have "\<not> s" using s global_with_value by blast
    then show ?thesis using plain Cons.IH [of "Suc idx"] rec unsafe(2) by simp
  qed
  have dashes: "starts_with (lit ''--'') (lit ''-'')" by code_simp
  show ?case
  proof (cases "starts_with arg (lit ''-'')")
    case True
    then obtain s where rec: "git_subcommand_loop subs (Suc idx) s args = Some (i, sub)"
      "s \<longrightarrow> is_git_global_option_with_value arg"
      using Cons.prems(1) by (auto split: if_splits)
    have "i - idx = Suc (i - Suc idx)" using git_subcommand_loop_spec [OF rec(1)] by linarith
    then show ?thesis using step [OF rec(1) True rec(2)] by simp
  next
    case False
    then have "arg \<noteq> lit ''--''" using dashes by auto
    then show ?thesis using Cons.prems(1) False global_with_value [of arg] by (auto split: if_splits)
  qed
qed simp

lemma git_checks:
  "\<not> list_ex (\<lambda>arg. git_matches_option_pattern arg UNSAFE_GIT_SUBCOMMAND_OPTIONS) args \<longleftrightarrow> list_all plain_git_argument args"
  by (induction args) (simp_all add: argument_checked)

lemma safe_git_at:
  assumes "find_git_subcommand (c # rest) (map lit [''status'', ''log'', ''diff'', ''show'', ''branch'']) = Some (Suc n, sub)"
    and sub: "sub \<in> set (map lit [''status'', ''log'', ''diff'', ''show'', ''branch''])"
  shows "is_safe_git_command (c # rest) \<longleftrightarrow> \<not> git_has_unsafe_global_option (take n rest) \<and>
    list_all plain_git_argument (drop (Suc n) rest) \<and>
    (sub = lit ''branch'' \<longrightarrow> list_all listing_git_argument (drop (Suc n) rest))"
proof -
  have "lit ''branch'' \<notin> set (map lit [''status'', ''log'', ''diff'', ''show''])" by code_simp
  then show ?thesis
    using sub unfolding is_safe_git_command_def assms(1)
    by (auto simp: Let_def git_subcommand_args_are_read_only_def git_checks branch_checked)
qed

lemma safe_git_shape:
  assumes "is_safe_git_command command"
  shows "\<exists>c globals sub args. command = c # globals @ sub # args \<and> file_name c = Some (lit ''git'') \<and>
    list_all plain_git_global globals \<and>
    sub \<in> set (map lit [''status'', ''log'', ''diff'', ''show'', ''branch'']) \<and>
    list_all plain_git_argument args \<and> (sub = lit ''branch'' \<longrightarrow> list_all listing_git_argument args)"
proof -
  let ?subs = "map lit [''status'', ''log'', ''diff'', ''show'', ''branch'']"
  from assms obtain i sub where find: "find_git_subcommand command ?subs = Some (i, sub)"
    by (auto simp: is_safe_git_command_def split: option.splits)
  then obtain c rest where command: "command = c # rest" "file_name c = Some (lit ''git'')"
    and loop: "git_subcommand_loop ?subs 1 False rest = Some (i, sub)"
    by (auto simp: find_git_subcommand_def executable_name_lookup_key_def split: list.splits if_splits)
  note spec = git_subcommand_loop_spec [OF loop]
  then obtain n where i: "i = Suc n" by (cases i) simp_all
  have n: "n < length rest" "rest ! n = sub" "sub \<in> set ?subs" using spec i by simp_all
  have safe: "\<not> git_has_unsafe_global_option (take n rest)" "list_all plain_git_argument (drop (Suc n) rest)"
    "sub = lit ''branch'' \<longrightarrow> list_all listing_git_argument (drop (Suc n) rest)"
    using safe_git_at [of c rest n sub] find i n(3) assms command(1) by simp_all
  have "list_all plain_git_global (take n rest)" using loop_globals_plain [OF loop] i safe(1) by simp
  moreover have "rest = take n rest @ sub # drop (Suc n) rest" using id_take_nth_drop [OF n(1)] n(2) by simp
  ultimately show ?thesis using command n(3) safe(2,3) by blast
qed

lemma git_shape_safe:
  assumes c: "file_name c = Some (lit ''git'')" and globals: "list_all plain_git_global globals"
    and sub: "sub \<in> set (map lit [''status'', ''log'', ''diff'', ''show'', ''branch''])"
    and args: "list_all plain_git_argument args" "sub = lit ''branch'' \<longrightarrow> list_all listing_git_argument args"
  shows "is_safe_git_command (c # globals @ sub # args)"
proof -
  have "list_all (\<lambda>s. \<not> starts_with s (lit ''-'')) (map lit [''status'', ''log'', ''diff'', ''show'', ''branch''])"
    by code_simp
  then have hyphen: "\<not> starts_with sub (lit ''-'')" using sub unfolding list_all_iff by blast
  have "find_git_subcommand (c # globals @ sub # args) (map lit [''status'', ''log'', ''diff'', ''show'', ''branch'']) =
      Some (Suc (length globals), sub)"
    unfolding find_git_subcommand_def using c
    by (simp only: list.case executable_name_lookup_key_def loop_skips_globals [OF globals]
        loop_finds_subcommand [OF sub hyphen]) simp
  moreover have "\<not> git_has_unsafe_global_option globals"
    using globals global_option_checked by (auto simp: git_has_unsafe_global_option_def list_ex_iff list_all_iff plain_git_global_def)
  ultimately show ?thesis using safe_git_at sub args by simp
qed

text \<open>C26.  Which git commands run without approval, precisely: those whose words after \<open>git\<close> are global
  options that neither take a value nor start a pager, then one of five subcommands, which is the first
  word that is not an option, then arguments none of which names an output file or a program; the
  arguments of \<open>branch\<close> are all listing options.\<close>

theorem safe_git_reads_only:
  "is_safe_git_command command \<longleftrightarrow>
     (\<exists>c globals sub args. command = c # globals @ sub # args \<and> file_name c = Some (lit ''git'') \<and>
        list_all plain_git_global globals \<and>
        sub \<in> set (map lit [''status'', ''log'', ''diff'', ''show'', ''branch'']) \<and>
        list_all plain_git_argument args \<and> (sub = lit ''branch'' \<longrightarrow> list_all listing_git_argument args))"
  (is "_ \<longleftrightarrow> ?reads command")
proof
  assume "is_safe_git_command command"
  then show "?reads command" by (rule safe_git_shape)
next
  assume "?reads command"
  then show "is_safe_git_command command" by (auto intro!: git_shape_safe)
qed

theorem safe_git_reads_only_witness:
  "is_safe_git_command [lit ''git'', lit ''--no-pager'', lit ''log'', lit ''-1''] \<and>
   \<not> is_safe_git_command [lit ''git'', lit ''push'', lit ''origin'', lit ''status'']"
proof
  have "list_all plain_git_global [lit ''--no-pager'']" "file_name (lit ''git'') = Some (lit ''git'')"
    "lit ''log'' \<in> set (map lit [''status'', ''log'', ''diff'', ''show'', ''branch''])"
    "list_all plain_git_argument [lit ''-1'']" "lit ''log'' \<noteq> lit ''branch''" by code_simp+
  then have "\<exists>c globals sub args. [lit ''git'', lit ''--no-pager'', lit ''log'', lit ''-1''] = c # globals @ sub # args \<and>
      file_name c = Some (lit ''git'') \<and> list_all plain_git_global globals \<and>
      sub \<in> set (map lit [''status'', ''log'', ''diff'', ''show'', ''branch'']) \<and>
      list_all plain_git_argument args \<and> (sub = lit ''branch'' \<longrightarrow> list_all listing_git_argument args)"
    by (intro exI [of _ "lit ''git''"] exI [of _ "[lit ''--no-pager'']"] exI [of _ "lit ''log''"] exI [of _ "[lit ''-1'']"])
      simp
  then show "is_safe_git_command [lit ''git'', lit ''--no-pager'', lit ''log'', lit ''-1'']"
    by (simp only: safe_git_reads_only)
  have "\<not> plain_git_global (lit ''push'')"
    "lit ''push'' \<notin> set (map lit [''status'', ''log'', ''diff'', ''show'', ''branch''])" by code_simp+
  then have "\<not> (\<exists>c globals sub args. [lit ''git'', lit ''push'', lit ''origin'', lit ''status''] = c # globals @ sub # args \<and>
      file_name c = Some (lit ''git'') \<and> list_all plain_git_global globals \<and>
      sub \<in> set (map lit [''status'', ''log'', ''diff'', ''show'', ''branch'']) \<and>
      list_all plain_git_argument args \<and> (sub = lit ''branch'' \<longrightarrow> list_all listing_git_argument args))"
    by (auto simp: Cons_eq_append_conv)
  then show "\<not> is_safe_git_command [lit ''git'', lit ''push'', lit ''origin'', lit ''status'']"
    by (simp only: safe_git_reads_only not_False_eq_True)
qed

text \<open>Two ways around the list of dangerous commands: \<open>rm\<close> below an option of \<open>sudo\<close> and below an
  option of \<open>env\<close> that takes a value are not recognised.\<close>

lemma wrapped_rm_not_matched:
  "dangerous_command_match (\<lambda>_. None) [lit ''sudo'', lit ''rm'', lit ''-rf'', lit ''x''] = Some ForcedRm"
  "dangerous_command_match (\<lambda>_. None) [lit ''sudo'', lit ''-n'', lit ''rm'', lit ''-rf'', lit ''x''] = None"
  "dangerous_command_match (\<lambda>_. None) [lit ''env'', lit ''-u'', lit ''A'', lit ''rm'', lit ''-rf'', lit ''x''] = None"
  by code_simp+

end
