(* ===== verification/Network_Policy.thy ===== *)
theory Network_Policy
  imports Rust_Str "HOL-Library.Word"
begin

unbundle bit_operations_syntax

text \<open>
  \<open>network-proxy/src/policy.rs\<close>: the classification of IP addresses, the normalisation of hosts and
  the comparison of domain patterns.  An IPv4 address is a 32-bit word and an IPv6 address the list of
  its eight 16-bit segments; the readers of addresses are those of the standard library.  The glob
  matcher and the host parser of the \<open>url\<close> package are libraries: the globs are not compiled here and
  the parser is a parameter.
\<close>

section \<open>Addresses of the standard library\<close>

type_synonym ipv4_addr = "32 word"
type_synonym ipv6_addr = "16 word list"

datatype ip_addr = V4 ipv4_addr | V6 ipv6_addr

definition ipv4_of_octets :: "nat \<Rightarrow> nat \<Rightarrow> nat \<Rightarrow> nat \<Rightarrow> ipv4_addr" where
  "ipv4_of_octets a b c d = word_of_nat (((a * 256 + b) * 256 + c) * 256 + d)"

definition octet :: "nat \<Rightarrow> ipv4_addr \<Rightarrow> nat" where
  "octet i ip = unat (drop_bit (8 * (3 - i)) ip) mod 256"

definition v4_is_loopback :: "ipv4_addr \<Rightarrow> bool" where
  "v4_is_loopback ip \<longleftrightarrow> octet 0 ip = 127"

definition v4_is_private :: "ipv4_addr \<Rightarrow> bool" where
  "v4_is_private ip \<longleftrightarrow> octet 0 ip = 10 \<or> octet 0 ip = 172 \<and> 16 \<le> octet 1 ip \<and> octet 1 ip \<le> 31 \<or>
     octet 0 ip = 192 \<and> octet 1 ip = 168"

definition v4_is_link_local :: "ipv4_addr \<Rightarrow> bool" where
  "v4_is_link_local ip \<longleftrightarrow> octet 0 ip = 169 \<and> octet 1 ip = 254"

definition v4_is_unspecified :: "ipv4_addr \<Rightarrow> bool" where
  "v4_is_unspecified ip \<longleftrightarrow> ip = 0"

definition v4_is_multicast :: "ipv4_addr \<Rightarrow> bool" where
  "v4_is_multicast ip \<longleftrightarrow> 224 \<le> octet 0 ip \<and> octet 0 ip \<le> 239"

definition v4_is_broadcast :: "ipv4_addr \<Rightarrow> bool" where
  "v4_is_broadcast ip \<longleftrightarrow> ip = ipv4_of_octets 255 255 255 255"

definition v6_is_loopback :: "ipv6_addr \<Rightarrow> bool" where
  "v6_is_loopback ip \<longleftrightarrow> ip = [0, 0, 0, 0, 0, 0, 0, 1]"

definition v6_is_unspecified :: "ipv6_addr \<Rightarrow> bool" where
  "v6_is_unspecified ip \<longleftrightarrow> ip = replicate 8 0"

definition v6_is_multicast :: "ipv6_addr \<Rightarrow> bool" where
  "v6_is_multicast ip \<longleftrightarrow> hd ip AND 0xff00 = 0xff00"

definition v6_is_unique_local :: "ipv6_addr \<Rightarrow> bool" where
  "v6_is_unique_local ip \<longleftrightarrow> hd ip AND 0xfe00 = 0xfc00"

definition v6_is_unicast_link_local :: "ipv6_addr \<Rightarrow> bool" where
  "v6_is_unicast_link_local ip \<longleftrightarrow> hd ip AND 0xffc0 = 0xfe80"

definition v6_to_ipv4 :: "ipv6_addr \<Rightarrow> ipv4_addr option" where
  "v6_to_ipv4 ip =
     (case ip of [s0, s1, s2, s3, s4, s5, ab, cd] \<Rightarrow>
        if s0 = 0 \<and> s1 = 0 \<and> s2 = 0 \<and> s3 = 0 \<and> s4 = 0 \<and> (s5 = 0 \<or> s5 = 0xffff)
        then Some (word_of_nat (unat ab * 65536 + unat cd)) else None
      | _ \<Rightarrow> None)"

text \<open>The reader of addresses: each step returns what is left, and fails without consuming.\<close>

definition digit_value :: "nat \<Rightarrow> uchar \<Rightarrow> nat option" where
  "digit_value radix c =
     (let d = (if 48 \<le> c \<and> c \<le> 57 then Some (c - 48)
               else if 97 \<le> c \<and> c \<le> 122 then Some (c - 87)
               else if 65 \<le> c \<and> c \<le> 90 then Some (c - 55) else None) in
      case d of None \<Rightarrow> None | Some v \<Rightarrow> if v < radix then Some v else None)"

fun read_digits :: "nat \<Rightarrow> ustring \<Rightarrow> nat list \<times> ustring" where
  "read_digits radix [] = ([], [])"
| "read_digits radix (c # s) =
     (case digit_value radix c of None \<Rightarrow> ([], c # s)
      | Some v \<Rightarrow> (let (vs, rest) = read_digits radix s in (v # vs, rest)))"

definition digits_value :: "nat \<Rightarrow> nat list \<Rightarrow> nat" where
  "digits_value radix vs = fold (\<lambda>v n. n * radix + v) vs 0"

definition read_number :: "nat \<Rightarrow> nat \<Rightarrow> bool \<Rightarrow> nat \<Rightarrow> ustring \<Rightarrow> (nat \<times> ustring) option" where
  "read_number radix max_digits allow_zero_prefix max_value s =
     (let (vs, rest) = read_digits radix s in
      if vs = [] \<or> max_digits < length vs then None
      else if \<not> allow_zero_prefix \<and> hd vs = 0 \<and> 1 < length vs then None
      else if max_value < digits_value radix vs then None
      else Some (digits_value radix vs, rest))"

definition read_separator :: "uchar \<Rightarrow> nat \<Rightarrow> (ustring \<Rightarrow> ('a \<times> ustring) option) \<Rightarrow> ustring \<Rightarrow> ('a \<times> ustring) option" where
  "read_separator sep index inner s =
     (if 0 < index then (case s of c # rest \<Rightarrow> if c = sep then inner rest else None | [] \<Rightarrow> None) else inner s)"

definition read_ipv4_addr :: "ustring \<Rightarrow> (ipv4_addr \<times> ustring) option" where
  "read_ipv4_addr s =
     (case read_number 10 3 False 255 s of None \<Rightarrow> None | Some (a, s) \<Rightarrow>
     (case read_separator 46 1 (read_number 10 3 False 255) s of None \<Rightarrow> None | Some (b, s) \<Rightarrow>
     (case read_separator 46 2 (read_number 10 3 False 255) s of None \<Rightarrow> None | Some (c, s) \<Rightarrow>
     (case read_separator 46 3 (read_number 10 3 False 255) s of None \<Rightarrow> None | Some (d, s) \<Rightarrow>
        Some (ipv4_of_octets a b c d, s)))))"

text \<open>Up to \<open>limit\<close> groups, the last two of them possibly as an IPv4 address; the flag tells whether
  they were.\<close>

fun read_groups :: "nat \<Rightarrow> nat \<Rightarrow> ustring \<Rightarrow> (16 word list \<times> bool) \<times> ustring" where
  "read_groups i 0 s = (([], False), s)"
| "read_groups i (Suc left) s =
     (case (if 0 < left then read_separator 58 i read_ipv4_addr s else None) of
        Some (ip, rest) \<Rightarrow> (([word_of_nat (unat ip div 65536), word_of_nat (unat ip mod 65536)], True), rest)
      | None \<Rightarrow>
          (case read_separator 58 i (read_number 16 4 True 65535) s of
             None \<Rightarrow> (([], False), s)
           | Some (seg, rest) \<Rightarrow>
               (let ((groups, v4), rest) = read_groups (Suc i) left rest in
                ((word_of_nat seg # groups, v4), rest))))"

definition read_ipv6_addr :: "ustring \<Rightarrow> (ipv6_addr \<times> ustring) option" where
  "read_ipv6_addr s =
     (let ((head, head_ipv4), rest) = read_groups 0 8 s in
      if length head = 8 then Some (head, rest)
      else if head_ipv4 then None
      else case strip_prefix rest [58, 58] of None \<Rightarrow> None
      | Some rest \<Rightarrow>
          (let ((tail_groups, _), rest) = read_groups 0 (8 - (length head + 1)) rest in
           Some (head @ replicate (8 - length head - length tail_groups) 0 @ tail_groups, rest)))"

definition parse_ip :: "ustring \<Rightarrow> ip_addr option" where
  "parse_ip s =
     (case read_ipv4_addr s of Some (ip, []) \<Rightarrow> Some (V4 ip)
      | Some (_, _ # _) \<Rightarrow> None
      | None \<Rightarrow> (case read_ipv6_addr s of Some (ip, []) \<Rightarrow> Some (V6 ip) | _ \<Rightarrow> None))"

section \<open>Addresses that are not public\<close>

definition ipv4_in_cidr :: "ipv4_addr \<Rightarrow> ipv4_addr \<Rightarrow> nat \<Rightarrow> bool" where
  "ipv4_in_cidr ip base pfx =
     (let mask = (if pfx = 0 then 0 else push_bit (32 - pfx) (- 1)) in ip AND mask = base AND mask)"

definition is_non_public_ipv4 :: "ipv4_addr \<Rightarrow> bool" where
  "is_non_public_ipv4 ip \<longleftrightarrow>
     v4_is_loopback ip \<or> v4_is_private ip \<or> v4_is_link_local ip \<or> v4_is_unspecified ip \<or>
     v4_is_multicast ip \<or> v4_is_broadcast ip \<or>
     ipv4_in_cidr ip (ipv4_of_octets 0 0 0 0) 8 \<or>
     ipv4_in_cidr ip (ipv4_of_octets 100 64 0 0) 10 \<or>
     ipv4_in_cidr ip (ipv4_of_octets 192 0 0 0) 24 \<or>
     ipv4_in_cidr ip (ipv4_of_octets 192 0 2 0) 24 \<or>
     ipv4_in_cidr ip (ipv4_of_octets 198 18 0 0) 15 \<or>
     ipv4_in_cidr ip (ipv4_of_octets 198 51 100 0) 24 \<or>
     ipv4_in_cidr ip (ipv4_of_octets 203 0 113 0) 24 \<or>
     ipv4_in_cidr ip (ipv4_of_octets 240 0 0 0) 4"

definition is_non_public_ipv6 :: "ipv6_addr \<Rightarrow> bool" where
  "is_non_public_ipv6 ip =
     (case v6_to_ipv4 ip of
        Some v4 \<Rightarrow> is_non_public_ipv4 v4 \<or> v6_is_loopback ip
      | None \<Rightarrow> v6_is_loopback ip \<or> v6_is_unspecified ip \<or> v6_is_multicast ip \<or> v6_is_unique_local ip \<or>
          v6_is_unicast_link_local ip)"

fun is_non_public_ip :: "ip_addr \<Rightarrow> bool" where
  "is_non_public_ip (V4 ip) = is_non_public_ipv4 ip"
| "is_non_public_ip (V6 ip) = is_non_public_ipv6 ip"

section \<open>Hosts\<close>

definition split_once_pat :: "ustring \<Rightarrow> ustring \<Rightarrow> (ustring \<times> ustring) option" where
  "split_once_pat s pat = map_option (\<lambda>i. (take i s, drop (i + length pat) s)) (find_str s pat)"

definition unscoped_ip_literal :: "ustring \<Rightarrow> ustring option" where
  "unscoped_ip_literal host =
     (case split_once 37 host of None \<Rightarrow> None
      | Some (ip, _) \<Rightarrow> if parse_ip ip = None then None else Some ip)"

definition scoped_literal :: "ustring \<Rightarrow> ustring \<Rightarrow> ustring option" where
  "scoped_literal host delimiter =
     (case split_once_pat host delimiter of None \<Rightarrow> None
      | Some (ip, scope) \<Rightarrow> if parse_ip ip = None then None else Some (ip @ lit ''%'' @ scope))"

definition normalize_ip_literal :: "ustring \<Rightarrow> ustring option" where
  "normalize_ip_literal host =
     (if parse_ip host \<noteq> None then Some host
      else case scoped_literal host (lit ''%25'') of Some h \<Rightarrow> Some h
      | None \<Rightarrow> scoped_literal host (lit ''%''))"

definition normalize_dns_host_or_ip_literal :: "ustring \<Rightarrow> ustring" where
  "normalize_dns_host_or_ip_literal host0 =
     (let host = trim_end_matches 46 (to_ascii_lowercase host0) in
      case normalize_ip_literal host of Some ip \<Rightarrow> ip | None \<Rightarrow> host)"

definition normalize_host :: "ustring \<Rightarrow> ustring" where
  "normalize_host host0 =
     (let host = trim host0 in
      case (if starts_with host (lit ''['') then find_str host (lit '']'') else None) of
        Some close \<Rightarrow> normalize_dns_host_or_ip_literal (drop 1 (take close host))
      | None \<Rightarrow>
          if count_list host 58 = 1
          then normalize_dns_host_or_ip_literal (case split_on 58 host of [] \<Rightarrow> [] | h # _ \<Rightarrow> h)
          else normalize_dns_host_or_ip_literal host)"

definition parse_host :: "ustring \<Rightarrow> ustring + ustring" where
  "parse_host input =
     (let normalized = normalize_host input in
      if normalized = [] then Inl (lit ''host is empty'') else Inr normalized)"

definition is_loopback_host :: "ustring \<Rightarrow> bool" where
  "is_loopback_host host0 =
     (let host = (case unscoped_ip_literal host0 of Some ip \<Rightarrow> ip | None \<Rightarrow> host0) in
      if host = lit ''localhost'' then True
      else case parse_ip host of
        Some (V4 ip) \<Rightarrow> v4_is_loopback ip
      | Some (V6 ip) \<Rightarrow> v6_is_loopback ip
      | None \<Rightarrow> False)"

section \<open>Domain patterns\<close>

datatype domain_pattern = ApexAndSubdomains ustring | SubdomainsOnly ustring | ExactDomain ustring

definition normalize_pattern :: "ustring \<Rightarrow> ustring" where
  "normalize_pattern pattern0 =
     (let pat = trim pattern0 in
      if pat = lit ''*'' then lit ''*''
      else case strip_prefix pat (lit ''**.'') of
        Some domain \<Rightarrow> lit ''**.'' @ normalize_host domain
      | None \<Rightarrow> (case strip_prefix pat (lit ''*.'') of
          Some domain \<Rightarrow> lit ''*.'' @ normalize_host domain
        | None \<Rightarrow> normalize_host pat))"

definition parse_domain :: "ustring \<Rightarrow> (ustring \<Rightarrow> domain_pattern) \<Rightarrow> domain_pattern" where
  "parse_domain domain0 build =
     (let domain = trim domain0 in if domain = [] then ExactDomain [] else build domain)"

definition parse_domain_pattern :: "ustring \<Rightarrow> domain_pattern" where
  "parse_domain_pattern input0 =
     (let input = trim input0 in
      if input = [] then ExactDomain []
      else case strip_prefix input (lit ''**.'') of
        Some domain \<Rightarrow> parse_domain domain ApexAndSubdomains
      | None \<Rightarrow> (case strip_prefix input (lit ''*.'') of
          Some domain \<Rightarrow> parse_domain domain SubdomainsOnly
        | None \<Rightarrow> ExactDomain input))"

text \<open>\<open>url_host\<close> is the host parser of the \<open>url\<close> package with its printed form.\<close>

definition parse_domain_for_constraints :: "(ustring \<Rightarrow> ustring option) \<Rightarrow> ustring \<Rightarrow> ustring" where
  "parse_domain_for_constraints url_host domain0 =
     (let domain = trim_end_matches 46 (trim domain0) in
      if domain = [] then []
      else
        let host = (if starts_with domain (lit ''['') \<and> ends_with domain (lit '']'')
                    then drop 1 (take (length domain - 1) domain) else domain) in
        if list_ex (\<lambda>c. c \<in> {42, 63, 37}) host then domain
        else case url_host host of Some h \<Rightarrow> h | None \<Rightarrow> [])"

definition parse_for_constraints :: "(ustring \<Rightarrow> ustring option) \<Rightarrow> ustring \<Rightarrow> domain_pattern" where
  "parse_for_constraints url_host input0 =
     (let input = trim input0 in
      if input = [] then ExactDomain []
      else case strip_prefix input (lit ''**.'') of
        Some domain \<Rightarrow> ApexAndSubdomains (parse_domain_for_constraints url_host domain)
      | None \<Rightarrow> (case strip_prefix input (lit ''*.'') of
          Some domain \<Rightarrow> SubdomainsOnly (parse_domain_for_constraints url_host domain)
        | None \<Rightarrow> ExactDomain (parse_domain_for_constraints url_host input)))"

definition expand_domain_pattern :: "ustring \<Rightarrow> ustring list" where
  "expand_domain_pattern pat =
     (case parse_domain_pattern pat of
        ExactDomain domain \<Rightarrow> [domain]
      | SubdomainsOnly domain \<Rightarrow> [lit ''?*.'' @ domain]
      | ApexAndSubdomains domain \<Rightarrow> [domain, lit ''?*.'' @ domain])"

definition is_global_wildcard_domain_pattern :: "ustring \<Rightarrow> bool" where
  "is_global_wildcard_domain_pattern pat =
     list_ex (\<lambda>candidate. candidate = lit ''*'') (expand_domain_pattern (normalize_pattern pat))"

definition normalize_domain :: "ustring \<Rightarrow> ustring" where
  "normalize_domain domain = to_ascii_lowercase (trim_end_matches 46 domain)"

definition domain_eq :: "ustring \<Rightarrow> ustring \<Rightarrow> bool" where
  "domain_eq l r \<longleftrightarrow> normalize_domain l = normalize_domain r"

definition is_subdomain_or_equal :: "ustring \<Rightarrow> ustring \<Rightarrow> bool" where
  "is_subdomain_or_equal child parent =
     (let child = normalize_domain child; parent = normalize_domain parent in
      if child = parent then True else ends_with child (lit ''.'' @ parent))"

definition is_strict_subdomain :: "ustring \<Rightarrow> ustring \<Rightarrow> bool" where
  "is_strict_subdomain child parent =
     (let child = normalize_domain child; parent = normalize_domain parent in
      child \<noteq> parent \<and> ends_with child (lit ''.'' @ parent))"

fun allows :: "domain_pattern \<Rightarrow> domain_pattern \<Rightarrow> bool" where
  "allows (ExactDomain domain) (ExactDomain candidate) = domain_eq candidate domain"
| "allows (ExactDomain domain) _ = False"
| "allows (SubdomainsOnly domain) (ExactDomain candidate) = is_strict_subdomain candidate domain"
| "allows (SubdomainsOnly domain) (SubdomainsOnly candidate) = is_subdomain_or_equal candidate domain"
| "allows (SubdomainsOnly domain) (ApexAndSubdomains candidate) = is_strict_subdomain candidate domain"
| "allows (ApexAndSubdomains domain) (ExactDomain candidate) = is_subdomain_or_equal candidate domain"
| "allows (ApexAndSubdomains domain) (SubdomainsOnly candidate) = is_subdomain_or_equal candidate domain"
| "allows (ApexAndSubdomains domain) (ApexAndSubdomains candidate) = is_subdomain_or_equal candidate domain"

datatype global_wildcard = AllowGlobal | RejectGlobal

text \<open>\<open>build\<close> is the glob compiler of the library; duplicates are compiled once.\<close>

fun add_candidates :: "(ustring \<Rightarrow> 'g option) \<Rightarrow> ustring list \<Rightarrow> ustring list \<Rightarrow> 'g list \<Rightarrow>
    ustring + (ustring list \<times> 'g list)" where
  "add_candidates build [] seen globs = Inr (seen, globs)"
| "add_candidates build (candidate # cs) seen globs =
     (if candidate \<in> set seen then add_candidates build cs seen globs
      else case build candidate of
        None \<Rightarrow> Inl (lit ''invalid glob pattern: '' @ candidate)
      | Some g \<Rightarrow> add_candidates build cs (candidate # seen) (globs @ [g]))"

fun compile_patterns :: "(ustring \<Rightarrow> 'g option) \<Rightarrow> global_wildcard \<Rightarrow> ustring list \<Rightarrow> ustring list \<Rightarrow> 'g list \<Rightarrow>
    ustring + 'g list" where
  "compile_patterns build policy [] seen globs = Inr globs"
| "compile_patterns build policy (pat # patterns) seen globs =
     (if policy = RejectGlobal \<and> is_global_wildcard_domain_pattern pat
      then Inl (lit ''unsupported global wildcard domain pattern '' @ [34] @ lit ''*'' @ [34] @
        lit ''; use exact hosts or scoped wildcards like *.example.com or **.example.com'')
      else and_then (add_candidates build (expand_domain_pattern (normalize_pattern pat)) seen globs)
        (\<lambda>(seen, globs). compile_patterns build policy patterns seen globs))"

definition compile_globset_with_policy ::
    "(ustring \<Rightarrow> 'g option) \<Rightarrow> ustring list \<Rightarrow> global_wildcard \<Rightarrow> ustring + 'g list" where
  "compile_globset_with_policy build patterns policy = compile_patterns build policy patterns [] []"

definition compile_allowlist_globset :: "(ustring \<Rightarrow> 'g option) \<Rightarrow> ustring list \<Rightarrow> ustring + 'g list" where
  "compile_allowlist_globset build patterns = compile_globset_with_policy build patterns AllowGlobal"

definition compile_denylist_globset :: "(ustring \<Rightarrow> 'g option) \<Rightarrow> ustring list \<Rightarrow> ustring + 'g list" where
  "compile_denylist_globset build patterns = compile_globset_with_policy build patterns RejectGlobal"

section \<open>Constraint checks are exact\<close>

text \<open>The hosts a pattern stands for.\<close>

fun pattern_matches :: "domain_pattern \<Rightarrow> ustring \<Rightarrow> bool" where
  "pattern_matches (ExactDomain d) h = domain_eq h d"
| "pattern_matches (SubdomainsOnly d) h = is_strict_subdomain h d"
| "pattern_matches (ApexAndSubdomains d) h = is_subdomain_or_equal h d"

fun pattern_domain :: "domain_pattern \<Rightarrow> ustring" where
  "pattern_domain (ExactDomain d) = d"
| "pattern_domain (SubdomainsOnly d) = d"
| "pattern_domain (ApexAndSubdomains d) = d"

definition under_domain :: "ustring \<Rightarrow> ustring \<Rightarrow> bool" where
  "under_domain c p \<longleftrightarrow> (\<exists>x. c = x @ lit ''.'' @ p)"

lemma ends_with_append_iff: "ends_with s p \<longleftrightarrow> (\<exists>x. s = x @ p)"
  by (auto simp: ends_with_def) (metis append_take_drop_id)

lemma probe_lits: "lit ''a.'' = [97, 46]" "lit ''b.'' = [98, 46]" "lit ''.'' = [46]"
  by code_simp+

lemma subdomain_below:
  "is_subdomain_or_equal c p \<longleftrightarrow> normalize_domain c = normalize_domain p \<or> under_domain (normalize_domain c) (normalize_domain p)"
  "is_strict_subdomain c p \<longleftrightarrow> under_domain (normalize_domain c) (normalize_domain p)"
  by (auto simp: is_subdomain_or_equal_def is_strict_subdomain_def Let_def ends_with_append_iff under_domain_def probe_lits)

lemma below_trans: "under_domain a b \<Longrightarrow> under_domain b c \<Longrightarrow> under_domain a c"
  by (auto simp: under_domain_def)

lemma allows_sound:
  "allows p c \<Longrightarrow> pattern_matches c h \<Longrightarrow> pattern_matches p h"
  by (cases p; cases c) (auto simp: subdomain_below domain_eq_def dest: below_trans)

lemma below_strict: "under_domain a b \<Longrightarrow> length b < length a"
  by (auto simp: under_domain_def probe_lits)

lemma normalize_domain_last: "normalize_domain d \<noteq> [] \<Longrightarrow> last (normalize_domain d) \<noteq> 46"
proof -
  assume d: "normalize_domain d \<noteq> []"
  have "trim_end_matches 46 d \<noteq> [] \<Longrightarrow> last (trim_end_matches 46 d) \<noteq> 46"
    using hd_dropWhile [of "\<lambda>d. d = 46" "rev d"] by (simp add: trim_end_matches_def last_rev)
  then show ?thesis using d
    by (auto simp: normalize_domain_def to_ascii_lowercase_def last_map ascii_lower_def split: if_splits)
qed

lemma normalize_domain_fixed:
  assumes "normalize_domain d \<noteq> []" and "to_ascii_lowercase x = x"
  shows "normalize_domain (x @ normalize_domain d) = x @ normalize_domain d"
proof -
  have "trim_end_matches 46 (x @ normalize_domain d) = x @ normalize_domain d"
    using assms(1) normalize_domain_last [OF assms(1)]
    by (cases "normalize_domain d" rule: rev_cases) (simp_all add: trim_end_matches_def)
  moreover have "to_ascii_lowercase (normalize_domain d) = normalize_domain d"
    by (auto simp: normalize_domain_def to_ascii_lowercase_def ascii_lower_def)
  ultimately show ?thesis using assms(2) by (simp add: normalize_domain_def to_ascii_lowercase_def)
qed

text \<open>Two hosts below a domain that tell the patterns apart.\<close>

lemma probe_below:
  assumes "normalize_domain d \<noteq> []"
  shows "normalize_domain (lit ''a.'' @ normalize_domain d) = lit ''a.'' @ normalize_domain d"
    and "normalize_domain (lit ''b.'' @ normalize_domain d) = lit ''b.'' @ normalize_domain d"
proof -
  have "to_ascii_lowercase (lit ''a.'') = lit ''a.''" "to_ascii_lowercase (lit ''b.'') = lit ''b.''" by code_simp+
  then show "normalize_domain (lit ''a.'' @ normalize_domain d) = lit ''a.'' @ normalize_domain d"
    "normalize_domain (lit ''b.'' @ normalize_domain d) = lit ''b.'' @ normalize_domain d"
    using normalize_domain_fixed [OF assms] by blast+
qed

lemma below_probe:
  "under_domain (97 # 46 # c) p \<longleftrightarrow> c = p \<or> under_domain c p" "under_domain (98 # 46 # c) p \<longleftrightarrow> c = p \<or> under_domain c p"
  unfolding under_domain_def probe_lits by (auto simp: Cons_eq_append_conv append_eq_Cons_conv)

lemma not_both_probes:
  assumes "97 # 46 # c = p \<or> under_domain (97 # 46 # c) p" and "98 # 46 # c = p \<or> under_domain (98 # 46 # c) p"
  shows "c = p \<or> under_domain c p"
  using assms below_strict [of c p] unfolding below_probe by auto

lemma allows_complete:
  assumes "\<And>h. pattern_matches c h \<Longrightarrow> pattern_matches p h" and "normalize_domain (pattern_domain c) \<noteq> []"
  shows "allows p c"
proof -
  define n where "n = normalize_domain (pattern_domain c)"
  have ha: "normalize_domain (lit ''a.'' @ n) = lit ''a.'' @ n" and hb: "normalize_domain (lit ''b.'' @ n) = lit ''b.'' @ n"
    unfolding n_def by (rule probe_below [OF assms(2)])+
  have own: "normalize_domain (pattern_domain c) = n" by (simp add: n_def)
  have a: "under_domain (lit ''a.'' @ n) n" and b: "under_domain (lit ''b.'' @ n) n" by (simp_all add: probe_lits under_domain_def)
  have exact: "\<not> pattern_matches (ExactDomain x) (lit ''a.'' @ n) \<or> \<not> pattern_matches (ExactDomain x) (lit ''b.'' @ n)" for x
  proof -
    have "lit ''a.'' @ n \<noteq> lit ''b.'' @ n" by (simp add: probe_lits)
    then show ?thesis using ha hb unfolding pattern_matches.simps domain_eq_def by metis
  qed
  show ?thesis
  proof (cases c)
    case (ExactDomain d)
    then show ?thesis using assms(1) [of d] by (cases p) (auto simp: domain_eq_def)
  next
    case (SubdomainsOnly d)
    have A: "pattern_matches p (lit ''a.'' @ n)" and B: "pattern_matches p (lit ''b.'' @ n)"
      using assms(1) SubdomainsOnly a b ha hb own by (simp_all add: subdomain_below)
    show ?thesis
    proof (cases p)
      case (ApexAndSubdomains x)
      have "n = normalize_domain x \<or> under_domain n (normalize_domain x)"
        by (rule not_both_probes) (use A B ApexAndSubdomains ha hb in \<open>simp_all add: subdomain_below probe_lits\<close>)
      then show ?thesis using ApexAndSubdomains SubdomainsOnly own by (simp add: subdomain_below)
    next
      case sub: (SubdomainsOnly x)
      have "under_domain (97 # 46 # n) (normalize_domain x)" using A sub ha by (simp add: subdomain_below probe_lits)
      then show ?thesis using sub SubdomainsOnly own by (simp add: subdomain_below below_probe)
    qed (use A B exact in blast)
  next
    case (ApexAndSubdomains d)
    have A: "pattern_matches p (lit ''a.'' @ n)" and B: "pattern_matches p (lit ''b.'' @ n)" and C: "pattern_matches p d"
      using assms(1) ApexAndSubdomains a b ha hb own by (simp_all add: subdomain_below)
    show ?thesis
    proof (cases p)
      case (ExactDomain x)
      then show ?thesis using A B exact by blast
    qed (use C ApexAndSubdomains in simp_all)
  qed
qed



section \<open>Ranges\<close>

lemma and_high_mask: "(w :: 32 word) AND push_bit n (- 1) = push_bit n (drop_bit n w)"
  by (rule bit_word_eqI) (auto simp: bit_simps)

lemma unat_drop: "unat (drop_bit n (w :: 32 word)) = unat w div 2 ^ n"
  by (simp only: unat_drop_bit_eq drop_bit_nat_def)

lemma cidr_range:
  assumes "0 < pfx" and "pfx \<le> 32"
  shows "ipv4_in_cidr ip base pfx \<longleftrightarrow> unat ip div 2 ^ (32 - pfx) = unat base div 2 ^ (32 - pfx)"
proof -
  let ?n = "32 - pfx"
  have "push_bit ?n (drop_bit ?n ip) = push_bit ?n (drop_bit ?n base) \<longleftrightarrow> drop_bit ?n ip = drop_bit ?n base"
  proof
    assume "push_bit ?n (drop_bit ?n ip) = push_bit ?n (drop_bit ?n base)"
    then have "drop_bit ?n (push_bit ?n (drop_bit ?n ip)) = drop_bit ?n (push_bit ?n (drop_bit ?n base))" by simp
    moreover have "drop_bit ?n (push_bit ?n (drop_bit ?n w)) = drop_bit ?n w" for w :: "32 word"
      by (rule bit_word_eqI) (auto simp: bit_simps dest: bit_imp_le_length)
    ultimately show "drop_bit ?n ip = drop_bit ?n base" by simp
  qed simp
  moreover have "drop_bit ?n ip = drop_bit ?n base \<longleftrightarrow> unat (drop_bit ?n ip) = unat (drop_bit ?n base)"
    by (simp add: word_unat_eq_iff)
  moreover have "ipv4_in_cidr ip base pfx \<longleftrightarrow> push_bit ?n (drop_bit ?n ip) = push_bit ?n (drop_bit ?n base)"
  proof -
    have "(if pfx = 0 then 0 else push_bit ?n (- 1)) = (push_bit ?n (- 1) :: 32 word)" using assms(1) by simp
    then show ?thesis unfolding ipv4_in_cidr_def Let_def and_high_mask [symmetric] by (simp only:)
  qed
  ultimately show ?thesis by (simp only: unat_drop)
qed

lemma octet_div: "octet i ip = unat ip div 2 ^ (8 * (3 - i)) mod 256"
  by (simp only: octet_def unat_drop)

definition in_range :: "nat \<Rightarrow> nat \<Rightarrow> nat \<Rightarrow> bool" where
  "in_range n lo bits \<longleftrightarrow> lo \<le> n \<and> n < lo + 2 ^ bits"

lemma unat_octets: "a < 256 \<Longrightarrow> b < 256 \<Longrightarrow> c < 256 \<Longrightarrow> d < 256 \<Longrightarrow>
    unat (ipv4_of_octets a b c d) = ((a * 256 + b) * 256 + c) * 256 + d"
  unfolding ipv4_of_octets_def by (subst unat_of_nat) simp

lemma div_range: "0 < m \<Longrightarrow> (n :: nat) div m = k \<longleftrightarrow> k * m \<le> n \<and> n < k * m + m"
proof -
  assume m: "0 < m"
  have "n div m = k \<longleftrightarrow> k \<le> n div m \<and> n div m < Suc k" by auto
  also have "\<dots> \<longleftrightarrow> k * m \<le> n \<and> n < Suc k * m"
    using m by (simp only: less_eq_div_iff_mult_less_eq div_less_iff_less_mult)
  finally show ?thesis by (simp add: add.commute)
qed

lemma unat_bound: "unat (ip :: 32 word) < 4294967296"
proof -
  have "unat ip < 2 ^ LENGTH(32)" by (rule unsigned_less)
  then show ?thesis by simp
qed

lemma octets_of_half:
  "octet 0 ip = unat ip div 65536 div 256" "octet 1 ip = unat ip div 65536 mod 256"
proof -
  have "unat ip < 4294967296" by (rule unat_bound)
  then have "unat ip div 16777216 < 256" by simp
  then show "octet 0 ip = unat ip div 65536 div 256" by (simp add: octet_div div_mult2_eq [symmetric])
qed (simp add: octet_div)

lemma two_octets: "b < 256 \<Longrightarrow> octet 0 ip = a \<and> octet 1 ip = b \<longleftrightarrow> unat ip div 65536 = a * 256 + b"
  unfolding octets_of_half using div_mult_mod_eq [of "unat ip div 65536" 256] by auto

lemma octet_range: "octet 0 ip = a \<longleftrightarrow> unat ip div 16777216 = a"
  by (simp add: octets_of_half div_mult2_eq [symmetric])

lemma private_range:
  "v4_is_private ip \<longleftrightarrow> in_range (unat ip) 167772160 24 \<or> in_range (unat ip) 2886729728 20 \<or>
     in_range (unat ip) 3232235520 16"
proof -
  let ?q = "unat ip div 65536"
  have "octet 0 ip = 10 \<longleftrightarrow> in_range (unat ip) 167772160 24"
    by (simp add: octet_range div_range in_range_def)
  moreover have "octet 0 ip = 172 \<and> 16 \<le> octet 1 ip \<and> octet 1 ip \<le> 31 \<longleftrightarrow> 44048 \<le> ?q \<and> ?q < 44064"
    unfolding octets_of_half using div_mult_mod_eq [of ?q 256] div_range [of 256 ?q 172] by linarith
  moreover have "44048 \<le> ?q \<and> ?q < 44064 \<longleftrightarrow> in_range (unat ip) 2886729728 20"
    by (simp add: in_range_def less_eq_div_iff_mult_less_eq div_less_iff_less_mult)
  moreover have "octet 0 ip = 192 \<and> octet 1 ip = 168 \<longleftrightarrow> in_range (unat ip) 3232235520 16"
    using two_octets [of 168 ip 192] by (simp add: div_range in_range_def del: One_nat_def)
  ultimately show ?thesis unfolding v4_is_private_def by blast
qed

lemma class_ranges:
  "v4_is_loopback ip \<longleftrightarrow> in_range (unat ip) 2130706432 24"
  "v4_is_link_local ip \<longleftrightarrow> in_range (unat ip) 2851995648 16"
  "v4_is_multicast ip \<longleftrightarrow> in_range (unat ip) 3758096384 28"
  "v4_is_unspecified ip \<Longrightarrow> in_range (unat ip) 0 24"
  "v4_is_broadcast ip \<Longrightarrow> in_range (unat ip) 4026531840 28"
proof -
  show "v4_is_loopback ip \<longleftrightarrow> in_range (unat ip) 2130706432 24"
    by (simp add: v4_is_loopback_def octet_range div_range in_range_def)
  show "v4_is_link_local ip \<longleftrightarrow> in_range (unat ip) 2851995648 16"
    using two_octets [of 254 ip 169] by (simp add: v4_is_link_local_def div_range in_range_def del: One_nat_def)
  have "octet 0 ip = unat ip div 16777216" using octet_range by blast
  moreover have "224 \<le> unat ip div 16777216 \<longleftrightarrow> 3758096384 \<le> unat ip"
    by (simp add: less_eq_div_iff_mult_less_eq)
  moreover have "unat ip div 16777216 < 240 \<longleftrightarrow> unat ip < 4026531840"
    by (simp add: div_less_iff_less_mult)
  ultimately show "v4_is_multicast ip \<longleftrightarrow> in_range (unat ip) 3758096384 28"
    by (auto simp: v4_is_multicast_def in_range_def)
  show "v4_is_unspecified ip \<Longrightarrow> in_range (unat ip) 0 24"
    by (simp add: v4_is_unspecified_def in_range_def)
  show "v4_is_broadcast ip \<Longrightarrow> in_range (unat ip) 4026531840 28"
    by (simp add: v4_is_broadcast_def unat_octets in_range_def)
qed

lemma cidr_ranges:
  "ipv4_in_cidr ip (ipv4_of_octets 0 0 0 0) 8 \<longleftrightarrow> in_range (unat ip) 0 24"
  "ipv4_in_cidr ip (ipv4_of_octets 100 64 0 0) 10 \<longleftrightarrow> in_range (unat ip) 1681915904 22"
  "ipv4_in_cidr ip (ipv4_of_octets 192 0 0 0) 24 \<longleftrightarrow> in_range (unat ip) 3221225472 8"
  "ipv4_in_cidr ip (ipv4_of_octets 192 0 2 0) 24 \<longleftrightarrow> in_range (unat ip) 3221225984 8"
  "ipv4_in_cidr ip (ipv4_of_octets 198 18 0 0) 15 \<longleftrightarrow> in_range (unat ip) 3323068416 17"
  "ipv4_in_cidr ip (ipv4_of_octets 198 51 100 0) 24 \<longleftrightarrow> in_range (unat ip) 3325256704 8"
  "ipv4_in_cidr ip (ipv4_of_octets 203 0 113 0) 24 \<longleftrightarrow> in_range (unat ip) 3405803776 8"
  "ipv4_in_cidr ip (ipv4_of_octets 240 0 0 0) 4 \<longleftrightarrow> in_range (unat ip) 4026531840 28"
  by (simp_all add: cidr_range unat_octets div_range in_range_def)

lemma unat_word_of_nat_id: "word_of_nat (unat w) = w"
  by simp

text \<open>C28.  The IPv4 addresses that count as not public are exactly the addresses of fourteen blocks,
  given by their first address and the number of free bits, and an IPv6 address that maps one of them
  is not public either.\<close>

theorem non_public_blocks:
  "(is_non_public_ipv4 ip \<longleftrightarrow>
     list_ex (\<lambda>(lo, bits). in_range (unat ip) lo bits)
       [(0, 24), (167772160, 24), (1681915904, 22), (2130706432, 24), (2851995648, 16), (2886729728, 20),
        (3221225472, 8), (3221225984, 8), (3232235520, 16), (3323068416, 17), (3325256704, 8),
        (3405803776, 8), (3758096384, 28), (4026531840, 28)]) \<and>
   (is_non_public_ipv4 ip \<longrightarrow>
     is_non_public_ipv6 [0, 0, 0, 0, 0, 0xffff, word_of_nat (unat ip div 65536), word_of_nat (unat ip mod 65536)])"
proof -
  have "unat ip < 4294967296" by (rule unat_bound)
  then have half: "unat (word_of_nat (unat ip div 65536) :: 16 word) = unat ip div 65536"
    "unat (word_of_nat (unat ip mod 65536) :: 16 word) = unat ip mod 65536"
    by (simp_all add: unat_of_nat)
  have "v6_to_ipv4 [0, 0, 0, 0, 0, 0xffff, word_of_nat (unat ip div 65536), word_of_nat (unat ip mod 65536)] = Some ip"
  proof -
    have "word_of_nat (unat ip div 65536 * 65536 + unat ip mod 65536) = ip"
      by (simp only: div_mult_mod_eq unat_word_of_nat_id)
    then show ?thesis unfolding v6_to_ipv4_def list.case half by simp
  qed
  then have "is_non_public_ipv4 ip \<longrightarrow>
     is_non_public_ipv6 [0, 0, 0, 0, 0, 0xffff, word_of_nat (unat ip div 65536), word_of_nat (unat ip mod 65536)]"
    by (simp add: is_non_public_ipv6_def)
  moreover have "is_non_public_ipv4 ip \<longleftrightarrow>
     list_ex (\<lambda>(lo, bits). in_range (unat ip) lo bits)
       [(0, 24), (167772160, 24), (1681915904, 22), (2130706432, 24), (2851995648, 16), (2886729728, 20),
        (3221225472, 8), (3221225984, 8), (3232235520, 16), (3323068416, 17), (3325256704, 8),
        (3405803776, 8), (3758096384, 28), (4026531840, 28)]"
    unfolding is_non_public_ipv4_def private_range class_ranges(1-3) cidr_ranges
    using class_ranges(4,5) by auto
  ultimately show ?thesis by blast
qed

theorem non_public_blocks_witness:
  "is_non_public_ipv4 (ipv4_of_octets 169 254 169 254) \<and>
   is_non_public_ipv6 [0, 0, 0, 0, 0, 0xffff, word_of_nat (2852039166 div 65536), word_of_nat (2852039166 mod 65536)]"
proof -
  have u: "unat (ipv4_of_octets 169 254 169 254) = 2852039166" by (simp add: unat_octets)
  have ranges: "list_ex (\<lambda>(lo, bits). in_range (2852039166 :: nat) lo bits)
       [(0, 24), (167772160, 24), (1681915904, 22), (2130706432, 24), (2851995648, 16), (2886729728, 20),
        (3221225472, 8), (3221225984, 8), (3232235520, 16), (3323068416, 17), (3325256704, 8),
        (3405803776, 8), (3758096384, 28), (4026531840, 28)]"
    by (simp add: in_range_def)
  from non_public_blocks [of "ipv4_of_octets 169 254 169 254", unfolded u] ranges show ?thesis by blast
qed

text \<open>Addresses that are not routed globally and still count as public: the documentation block and
  the old site-local block.\<close>

lemma unrouted_ipv6_public:
  "\<not> is_non_public_ipv6 [0x2001, 0xdb8, 0, 0, 0, 0, 0, 1]" "\<not> is_non_public_ipv6 [0xfec0, 0, 0, 0, 0, 0, 0, 1]"
  by (simp_all add: is_non_public_ipv6_def v6_to_ipv4_def v6_is_loopback_def v6_is_unspecified_def
      v6_is_multicast_def v6_is_unique_local_def v6_is_unicast_link_local_def Cons_replicate_eq)

text \<open>A deny list with a pattern for every host is refused, whatever the rest of it is.\<close>

lemma denylist_rejects_global:
  "\<exists>pat \<in> set patterns. is_global_wildcard_domain_pattern pat \<Longrightarrow> \<not> is_ok (compile_denylist_globset build patterns)"
proof -
  have "\<exists>pat \<in> set patterns. is_global_wildcard_domain_pattern pat \<Longrightarrow>
      \<not> is_ok (compile_patterns build RejectGlobal patterns seen globs)" for seen globs
    by (induction patterns arbitrary: seen globs) (auto simp: is_ok_iff and_then_Inr_iff)
  then show "\<exists>pat \<in> set patterns. is_global_wildcard_domain_pattern pat \<Longrightarrow> ?thesis"
    by (simp add: compile_denylist_globset_def compile_globset_with_policy_def)
qed

end
