(* ===== verification/Spec2Isabelle.thy ===== *)
theory Spec2Isabelle
  imports Turn_Diff Patch_Grammar Policy_Builder Policy_Amend Head_Tail_Buffer Assistant_Text Utf8_Stream
    Challenge_Relay Control_Sessions Takeover_Input Task_Queue Rate_Limit Web_Socket Context_History Command_Safety
    Network_Policy
begin

text \<open>
  A verification of parts of OmniDoer: a coding agent in Rust (\<open>src/codex-rs\<close>) and the Python
  services beside it (\<open>src/omnidoer\<close>) through which a user watches the agent, approves what it
  does and hands it credentials without showing them to the model.

  \<^bold>\<open>The parts and how they interact.\<close>  The agent edits files with patches: a patch text is
  parsed while it streams in, its hunks are located in the files and applied through an abstract file
  system, and the delta that results feeds the diff shown at the end of the turn.  The commands it runs are
  decided by rules from policy files, which are extended when the user approves a command, and by lists of
  safe and dangerous commands; the hosts it reaches by patterns and address classes.  The output of a
  command goes into a buffer of bounded size and is truncated when it is recorded in the history of the
  conversation, which is normalised before it is sent; the text of the model is split into visible text,
  citations and plans.  The services keep their state in JSON files: requests to the user, pairings, devices, sessions
  and tasks.  An approval gate and a secret broker use the request store, a fill policy, an encrypted
  channel and a vault; every change is written to an audit log, redacted first.

  \<^bold>\<open>Conventions.\<close>  Strings are lists of Unicode code points (\<open>ustring\<close>).  A Rust
  \<open>Result\<close> is a sum with the error on the left; a Python method is a function from the state to the new
  state and an exception or a result (\<open>py_op\<close>), so that what was written before an exception stays
  written.  Hash maps and dictionaries are association lists, the Python ones in the order of their keys.
  Counters of type \<open>usize\<close> saturate where the code says so.  Clock readings, random ids and the
  answers of the user are arguments.  Code outside \<open>src/\<close> is a parameter: the line diff, hashes,
  signatures, authenticated encryption, the Starlark evaluator, JSON texts, Unicode tables.  What is assumed
  of it is a named hypothesis (such as \<open>digest_law\<close> or \<open>seal_law\<close>) or the assumptions of a
  locale, and each is instantiated by a concrete function.

  \<^bold>\<open>Theories for the agent.\<close>
  \<^item> \<open>Rust_Prelude\<close>, \<open>Rust_Str\<close>: results, saturating arithmetic and the string functions of the
    Rust standard library.
  \<^item> \<open>Seek_Sequence\<close> (\<open>apply-patch/src/seek_sequence.rs\<close>): the search for the lines of a
    chunk; soundness and completeness for the loosest comparison.
  \<^item> \<open>Patch_Parser\<close>, \<open>Patch_Grammar\<close> (\<open>streaming_parser.rs\<close>, \<open>parser.rs\<close>): the line
    parser as a state machine; chunking does not matter, and printed patches parse back.
  \<^item> \<open>Executor_FS\<close>, \<open>Patch_Replace\<close>, \<open>Patch_Apply\<close>, \<open>Local_FS\<close> (\<open>apply-patch/src/lib.rs\<close>,
    \<open>file-system/src/lib.rs\<close>, \<open>exec-server/src/local_file_system.rs\<close>): computing and splicing the
    replacements, applying hunks over the file system interface (a locale), and its interpretation on a
    directory tree with files, directories and links.  A delta that claims to be exact replays to the
    contents on disk.
  \<^item> \<open>Turn_Diff\<close> (\<open>core/src/turn_diff_tracker.rs\<close>): the tracker agrees with the disk as long as the
    deltas are exact; its cache never changes the diff.
  \<^item> \<open>Exec_Policy\<close>, \<open>Policy_Builder\<close>, \<open>Policy_Amend\<close> (\<open>execpolicy/src\<close> and the rules
    migration of \<open>core\<close>): the strictest rule decides, overlays do not relax, examples of a policy file
    hold once it loads, appending is idempotent and the migration removes exactly the banned rules.
  \<^item> \<open>Head_Tail_Buffer\<close> (\<open>core/src/unified_exec\<close>): the bounded buffer refines the whole output.
  \<^item> \<open>Stream_Text\<close>, \<open>Inline_Tags\<close>, \<open>Tagged_Lines\<close>, \<open>Assistant_Text\<close>, \<open>Utf8_Stream\<close>
    (\<open>utils/stream-parser/src\<close>): the parsers of the model's text give the same result however the text or
    its bytes are cut.
  \<^item> \<open>Output_Truncation\<close> (\<open>utils/string/src/truncate.rs\<close>, \<open>utils/output-truncation\<close>): what a
    truncation keeps, and how far text may exceed its budget.
  \<^item> \<open>Response_Items\<close>, \<open>Context_History\<close> (\<open>protocol/src/models.rs\<close>,
    \<open>core/src/context_manager\<close>, \<open>core/src/event_mapping.rs\<close>, \<open>context-fragments/src\<close>): the items
    of the conversation and their history.  In a prompt calls and outputs are paired, normalisation is
    idempotent, a rollback drops exactly the requested turns, and dropping the oldest item keeps the pairs.
  \<^item> \<open>Shell_Command\<close>, \<open>Command_Safety\<close> (\<open>shell-command/src/bash.rs\<close>, \<open>shell_detect.rs\<close>,
    \<open>command_safety\<close>): reading shell scripts over syntax trees, and that a command on the safe list is
    never on the dangerous one.  The tree comes from a parser library: \<open>bash_tree\<close> states what its
    grammar fixes.  The depth of wrappers is bounded by the code, so the recursion needs no other fuel.
  \<^item> \<open>Network_Policy\<close> (\<open>network-proxy/src/policy.rs\<close>): domain patterns are compared exactly by
    the hosts they stand for, and the addresses that are not public are a list of blocks.

  \<^bold>\<open>Theories for the services.\<close>
  \<^item> \<open>Py_Prelude\<close>: values, exceptions, dictionaries and the locale \<open>state_file\<close> of their laws,
    interpreted on the sorted association lists; \<open>Py_Regex\<close>: the constructs of the \<open>re\<close> module
    that the sources use.
  \<^item> \<open>Redactor\<close> (\<open>omni_observer/redactor.py\<close>): what redaction shows does not depend on secret
    entries.  \<open>Audit_Log\<close> (\<open>omni_audit/audit.py\<close>): the hash chain is tamper evident.
  \<^item> \<open>Control_Requests\<close> (\<open>omni_control/requests.py\<close>): every method of the request store, the life
    cycle of a request as the inductive relation \<open>transition\<close>, and that every method follows it.
    \<open>Request_Runs\<close>: sequences of calls (an approval is consumed at most once and only if given; the
    audit log verifies), threads that overlap, and the waiting loop, which ends.
  \<^item> \<open>Approval_Gate\<close> (\<open>omni_approval/approval.py\<close>): what is executed is what was reviewed.
  \<^item> \<open>Pairing\<close>, \<open>Control_Sessions\<close> (\<open>omni_control/pairing.py\<close>, \<open>devices.py\<close>,
    \<open>sessions.py\<close>, \<open>device_signing.py\<close>, \<open>auth.py\<close>): limits on the use of codes, replay of
    nonces, and what an accepted signed request proves.
  \<^item> \<open>Fill_Policy\<close>, \<open>Vault\<close>, \<open>Secret_Broker\<close> (\<open>omni_policy/policy.py\<close>,
    \<open>omni_vault/vault.py\<close>, \<open>omni_broker/broker.py\<close> and the receiving side of
    \<open>omni_control/secure_channel.py\<close>): the vault is a map of secrets, a payload belongs to its request,
    and credentials go only into pages of the origin of the request.  \<open>Challenge_Relay\<close>
    (\<open>omni_challenge/relay.py\<close>): codes that the user sends for a challenge.
  \<^item> \<open>Takeover_Input\<close> (\<open>omni_takeover/input_events.py\<close>, \<open>models.py\<close>), \<open>Task_Queue\<close>
    (\<open>omni_control/tasks.py\<close>), \<open>Rate_Limit\<close> (\<open>rate_limit.py\<close>), \<open>Web_Socket\<close>
    (\<open>websocket.py\<close>): accepted input lies in the frame, tasks are delivered once and in order, limits
    hold in every window, and frames can be read back.

  \<^bold>\<open>Behaviour that was not expected.\<close>  Some theorems state what the code does although it is
  presumably not meant: a patch that moves a file onto itself deletes it, overlapping calls consume an approval
  twice or break the audit chain, a settled request can turn into an expired one, a nonce is forgotten
  while its signature is still accepted, a stale pairing shadows a new one with the same code, IPv6 origins
  collide, redaction of an assignment stops at a letter, a code is typed into the page again before the
  relay refuses a used request, a forced \<open>rm\<close> behind an option of \<open>sudo\<close> is not recognised, and
  some IPv6 addresses that are not routed count as public.

  \<^bold>\<open>Loops and fuel.\<close>  Recursion follows the data wherever the code loops over data.  The loops of the
  inline tag parser and of waiting for a request are partial functions with values in \<open>option\<close>, and
  it is proved that they return.  The only fuel is that of the reference reader in \<open>Web_Socket\<close>, which
  needs one unit for each frame.

  \<^bold>\<open>Limits.\<close>  The floats of the services are reals, with infinity and not-a-number kept where a text from outside is
  converted.  The theorems on runs of the request store speak about calls that do not overlap, except where
  threads are named.  The product of a budget with 1.2 is rounded as binary floating point does.  Commands
  are read as on Unix.  Payloads of the encrypted channel have text fields only.

  \<^bold>\<open>Not modelled.\<close>  The agent loop, sessions, tools and configuration of \<open>core\<close>, the
  terminal interface, the application and tool servers, sandboxes, the sockets of the network proxy,
  persistence, login and the model providers are asynchronous input and output.  Of the history, the world
  state and the updates of token counters are left out; of the shell commands, the lookup of installed shells,
  summaries for display and the Windows lists.  Of the services, the HTTP server, chat, heartbeat, browser control, the takeover relay, the command line and the
  bridges to other services are dispatch, child processes and network calls around the modelled stores.  Left
  out of modelled files are renderings for display (\<open>to_public_dict\<close>, QR codes), duration parsing,
  test modes and key generation.
\<close>

end
